(* ===== verification/Prelude.thy ===== *)
theory Prelude
  imports Main "HOL-Library.Word" "HOL-Library.AList" "HOL-Library.Multiset"
    "HOL-Library.Char_ord" "HOL-Library.List_Lexorder"
begin

unbundle bit_operations_syntax

text \<open>
  Shared vocabulary of the development: machine integers and byte strings as the Go code
  uses them (\<^verbatim>\<open>encoding/binary\<close> big-endian reads and writes, \<^verbatim>\<open>copy\<close> into a slice,
  slicing), Go maps with their unspecified iteration order, ASCII case folding, and the
  generic lemmas the component theories rest on.
\<close>

section \<open>Collections of facts\<close>

named_theorems go_defs \<open>definitions of the Go operations that are unfolded together\<close>
named_theorems frame_simps \<open>walking along a frame that is a concatenation of fields\<close>
named_theorems bytes_simps \<open>rewrite rules for byte strings\<close>

section \<open>Machine integers\<close>

type_synonym u8 = "8 word"
type_synonym u16 = "16 word"
type_synonym u32 = "32 word"
type_synonym u64 = "64 word"
type_synonym bytes = "u8 list"

text \<open>
  Times (\<^verbatim>\<open>time.Time\<close>) and durations (\<^verbatim>\<open>time.Duration\<close>) are counted in nanoseconds.
\<close>

type_synonym time = int
type_synonym duration = int

abbreviation Second :: duration where "Second \<equiv> 1000000000"
abbreviation Minute :: duration where "Minute \<equiv> 60 * Second"
abbreviation Hour :: duration where "Hour \<equiv> 3600 * Second"

text \<open>64-bit wrap-around of a duration product.\<close>

definition wrap64 :: "int \<Rightarrow> int" where
  "wrap64 x = (x + 2 ^ 63) mod 2 ^ 64 - 2 ^ 63"

text \<open>Go's integer division truncates towards zero.\<close>

definition go_div :: "int \<Rightarrow> int \<Rightarrow> int" where
  "go_div a b = sgn a * sgn b * (\<bar>a\<bar> div \<bar>b\<bar>)"

lemma go_div_nonneg [simp]: "0 \<le> a \<Longrightarrow> 0 < b \<Longrightarrow> go_div a b = a div b"
  by (cases "a = 0") (auto simp: go_div_def sgn_if)

section \<open>Big-endian byte strings\<close>

text \<open>
  \<open>be_bytes n x\<close> is the \<open>n\<close>-byte big-endian form of \<open>x\<close> (what \<^verbatim>\<open>PutUint16\<close>,
  \<^verbatim>\<open>PutUint32\<close> and \<^verbatim>\<open>AsSlice\<close> produce); \<open>be_nat\<close> reads a byte string back
  (\<^verbatim>\<open>Uint16\<close>, \<^verbatim>\<open>Uint32\<close>, \<^verbatim>\<open>big.Int.SetBytes\<close>).
\<close>

fun be_bytes :: "nat \<Rightarrow> nat \<Rightarrow> bytes" where
  "be_bytes 0 x = []"
| "be_bytes (Suc n) x = be_bytes n (x div 256) @ [of_nat x]"

lemma be_bytes_numeral [bytes_simps]:
  "be_bytes (numeral k) x = be_bytes (pred_numeral k) (x div 256) @ [of_nat x]"
  unfolding numeral_eq_Suc [of k] by (rule be_bytes.simps)

definition be_nat :: "bytes \<Rightarrow> nat" where
  "be_nat bs = foldl (\<lambda>acc b. acc * 256 + unat b) 0 bs"

lemma length_be_bytes [simp, bytes_simps]: "length (be_bytes n x) = n"
  by (induction n arbitrary: x) auto

lemma be_nat_Nil [simp]: "be_nat [] = 0"
  by (simp add: be_nat_def)

lemma be_nat_snoc [simp]: "be_nat (bs @ [b]) = be_nat bs * 256 + unat b"
  by (simp add: be_nat_def)

lemma unat_u8_less [simp]: "unat (b :: u8) < 256"
  using unsigned_less [of b, where ?'a = nat] by simp

lemma be_nat_less: "be_nat bs < 256 ^ length bs"
proof (induction bs rule: rev_induct)
  case Nil
  then show ?case by simp
next
  case (snoc b bs)
  have "be_nat bs * 256 + unat b < be_nat bs * 256 + 256"
    by simp
  also have "\<dots> = (be_nat bs + 1) * 256"
    by (simp add: algebra_simps)
  also have "\<dots> \<le> 256 ^ length bs * 256"
    using snoc.IH by (simp add: Suc_leI del: mult_Suc)
  finally show ?case by (simp add: algebra_simps)
qed

lemma be_nat_be_bytes [simp]: "be_nat (be_bytes n x) = x mod 256 ^ n"
proof (induction n arbitrary: x)
  case 0
  then show ?case by simp
next
  case (Suc n)
  have u: "unat (of_nat x :: u8) = x mod 256"
    by (simp add: unat_of_nat)
  show ?case
    using Suc by (simp add: u mod_mult2_eq [of x 256 "256 ^ n"] mult.commute)
qed

lemma be_bytes_be_nat [simp]: "be_bytes (length bs) (be_nat bs) = bs"
proof (induction bs rule: rev_induct)
  case Nil
  then show ?case by simp
next
  case (snoc b bs)
  have "(be_nat bs * 256 + unat b) div 256 = be_nat bs"
    by (simp add: div_add1_eq)
  moreover have "(of_nat (be_nat bs * 256 + unat b) :: u8) = b"
  proof -
    have "(of_nat (be_nat bs * 256) :: u8) = 0"
      by (rule word_of_nat_eq_0_iff [THEN iffD2]) simp
    then show ?thesis by simp
  qed
  ultimately show ?case using snoc by simp
qed

lemma be_nat_append: "be_nat (xs @ ys) = be_nat xs * 256 ^ length ys + be_nat ys"
  by (induction ys rule: rev_induct)
    (simp_all add: append_assoc [symmetric] algebra_simps del: append_assoc)

lemma be_nat_Cons: "be_nat (b # bs) = unat b * 256 ^ length bs + be_nat bs"
  using be_nat_append [of "[b]" bs] be_nat_snoc [of "[]" b] by simp

lemma be_nat_replicate_0 [simp]: "be_nat (replicate n 0 @ bs) = be_nat bs"
  by (induction n) (simp_all add: be_nat_Cons)

text \<open>
  The minimal big-endian form, without leading zero bytes: \<^verbatim>\<open>big.Int.Bytes\<close>.
\<close>

fun min_bytes :: "nat \<Rightarrow> bytes" where
  "min_bytes x = (if x = 0 then [] else min_bytes (x div 256) @ [of_nat x])"

declare min_bytes.simps [simp del]

lemma min_bytes_0 [simp]: "min_bytes 0 = []"
  by (subst min_bytes.simps) simp

lemma be_nat_min_bytes [simp]: "be_nat (min_bytes x) = x"
proof (induction x rule: min_bytes.induct)
  case (1 x)
  then show ?case
    by (cases "x = 0") (simp_all add: min_bytes.simps [of x] unat_of_nat)
qed

lemma length_min_bytes_le_iff: "length (min_bytes x) \<le> k \<longleftrightarrow> x < 256 ^ k"
proof (induction k arbitrary: x)
  case 0
  show ?case by (cases "x = 0") (simp_all add: min_bytes.simps [of x])
next
  case (Suc k)
  show ?case
  proof (cases "x = 0")
    case True
    then show ?thesis by simp
  next
    case False
    then have "length (min_bytes x) \<le> Suc k \<longleftrightarrow> length (min_bytes (x div 256)) \<le> k"
      by (simp add: min_bytes.simps [of x])
    also have "\<dots> \<longleftrightarrow> x div 256 < 256 ^ k" by (rule Suc.IH)
    also have "\<dots> \<longleftrightarrow> x < 256 ^ Suc k"
      by (simp add: div_less_iff_less_mult mult.commute)
    finally show ?thesis .
  qed
qed

section \<open>Slices\<close>

text \<open>
  \<open>go_slice xs a b\<close> is \<^verbatim>\<open>xs[a:b]\<close> and \<open>go_copy xs a b src\<close> is the slice \<open>xs\<close> after
  \<^verbatim>\<open>copy(xs[a:b], src)\<close>, which copies as many bytes as both sides have. Both are used
  where \<open>a \<le> b \<le> length xs\<close>; where the source can leave that range the model has a
  panic branch.
\<close>

definition go_slice :: "'a list \<Rightarrow> nat \<Rightarrow> nat \<Rightarrow> 'a list" where
  "go_slice xs a b = take (b - a) (drop a xs)"

definition go_copy :: "'a list \<Rightarrow> nat \<Rightarrow> nat \<Rightarrow> 'a list \<Rightarrow> 'a list" where
  "go_copy xs a b src =
     (let n = min (b - a) (length src) in take a xs @ take n src @ drop (a + n) xs)"

lemma length_go_slice: "a \<le> b \<Longrightarrow> b \<le> length xs \<Longrightarrow> length (go_slice xs a b) = b - a"
  by (simp add: go_slice_def)

lemma length_go_copy [simp]:
  "a \<le> b \<Longrightarrow> b \<le> length xs \<Longrightarrow> length (go_copy xs a b src) = length xs"
  by (auto simp: go_copy_def Let_def)

lemma go_copy_mid:
  "length xs = a \<Longrightarrow> length ys = b - a \<Longrightarrow> length src = length ys \<Longrightarrow>
     go_copy (xs @ ys @ zs) a b src = xs @ src @ zs"
  by (simp add: go_copy_def Let_def)

lemma go_slice_mid:
  "length xs = a \<Longrightarrow> length ys = b - a \<Longrightarrow> go_slice (xs @ ys @ zs) a b = ys"
  by (simp add: go_slice_def)

lemma go_copy_skip [frame_simps]:
  "length xs \<le> a \<Longrightarrow> go_copy (xs @ f) a b src = xs @ go_copy f (a - length xs) (b - length xs) src"
  by (simp add: go_copy_def Let_def)

lemma go_copy_skip_Cons [frame_simps]:
  "0 < a \<Longrightarrow> go_copy (x # f) a b src = x # go_copy f (a - 1) (b - 1) src"
  using go_copy_skip [of "[x]" a f b src] by simp

lemma go_copy_here [frame_simps]:
  "length ys = b \<Longrightarrow> length src = b \<Longrightarrow> go_copy (ys @ f) 0 b src = src @ f"
  by (simp add: go_copy_def Let_def)

lemma go_copy_here_Cons [frame_simps]:
  "go_copy (y # f) 0 1 [c] = c # f" "go_copy (y # f) 0 (Suc 0) [c] = c # f"
  by (simp_all add: go_copy_def Let_def)

lemma go_copy_here_Cons2 [frame_simps]:
  "length src = 2 \<Longrightarrow> go_copy (y # z # f) 0 2 src = src @ f"
  using go_copy_here [of "[y, z]" 2 src f] by simp

lemma go_copy_here_all [frame_simps]:
  "length ys = b \<Longrightarrow> length src = b \<Longrightarrow> go_copy ys 0 b src = src"
  by (simp add: go_copy_def Let_def)

lemma go_slice_skip [frame_simps]:
  "length xs \<le> a \<Longrightarrow> go_slice (xs @ f) a b = go_slice f (a - length xs) (b - length xs)"
  by (simp add: go_slice_def)

lemma go_slice_skip_Cons [frame_simps]:
  "0 < a \<Longrightarrow> go_slice (x # f) a b = go_slice f (a - 1) (b - 1)"
  using go_slice_skip [of "[x]" a f b] by simp

lemma go_slice_take [frame_simps]: "go_slice f 0 b = take b f"
  by (simp add: go_slice_def)

lemma take_append_exact [frame_simps]: "length xs = n \<Longrightarrow> take n (xs @ f) = xs"
  by simp

lemma take_append_more [frame_simps]:
  "length xs < n \<Longrightarrow> take n (xs @ f) = xs @ take (n - length xs) f"
  by simp

text \<open>A fixed-length list spelt out, for the frame layouts.\<close>

lemma length_4_conv: "length xs = 4 \<longleftrightarrow> (\<exists>a b c d. xs = [a, b, c, d])"
  by (auto simp: eval_nat_numeral length_Suc_conv)

lemma length_6_conv: "length xs = 6 \<longleftrightarrow> (\<exists>a b c d e f. xs = [a, b, c, d, e, f])"
  by (auto simp: eval_nat_numeral length_Suc_conv)

section \<open>Go maps\<close>

text \<open>
  A Go map is an association list with distinct keys; \<^verbatim>\<open>m[k]\<close> is \<open>map_of m k\<close>,
  assignment is \<open>AList.update\<close> and \<^verbatim>\<open>delete\<close> is \<open>AList.delete\<close>. The language leaves the
  order of a \<^verbatim>\<open>range\<close> over a map unspecified, and it may differ from one loop to the
  next: every operation that ranges over a map takes the order as an argument, a function
  that rearranges the entries. \<open>go_order\<close> says that it is a rearrangement.
\<close>

type_synonym ('k, 'v) gomap = "('k \<times> 'v) list"

abbreviation gomap_ok :: "('k, 'v) gomap \<Rightarrow> bool" where
  "gomap_ok m \<equiv> distinct (map fst m)"

definition go_order :: "('a list \<Rightarrow> 'a list) \<Rightarrow> bool" where
  "go_order ord \<longleftrightarrow> (\<forall>xs. mset (ord xs) = mset xs)"

lemma go_order_id [simp, intro]: "go_order (\<lambda>xs. xs)"
  by (simp add: go_order_def)

lemma go_order_rev [simp, intro]: "go_order rev"
  by (simp add: go_order_def)

lemma go_order_set: "go_order ord \<Longrightarrow> set (ord xs) = set xs"
  by (metis go_order_def mset_eq_setD)

lemma go_order_length: "go_order ord \<Longrightarrow> length (ord xs) = length xs"
  by (metis go_order_def mset_eq_length)

lemma go_order_distinct: "go_order ord \<Longrightarrow> distinct (ord xs) = distinct xs"
  by (metis go_order_def mset_eq_imp_distinct_iff)

lemma gomap_ok_lookup:
  "gomap_ok m \<Longrightarrow> (k, v) \<in> set m \<longleftrightarrow> map_of m k = Some v"
  by simp

lemma gomap_ok_filter: "gomap_ok m \<Longrightarrow> gomap_ok (filter P m)"
  by (induction m) auto

lemma map_of_filter_gomap:
  "gomap_ok m \<Longrightarrow> map_of (filter P m) k =
     (case map_of m k of None \<Rightarrow> None | Some v \<Rightarrow> if P (k, v) then Some v else None)"
  by (induction m) (auto simp: map_of_eq_None_iff dest: map_of_SomeD split: option.splits)

text \<open>Lists of items with distinct keys, as the maps built from them.\<close>

abbreviation keyed :: "('a \<Rightarrow> 'k) \<Rightarrow> 'a list \<Rightarrow> ('k, 'a) gomap" where
  "keyed f xs \<equiv> map (\<lambda>x. (f x, x)) xs"

lemma map_of_keyed_None [simp]: "map_of (keyed f xs) k = None \<longleftrightarrow> k \<notin> f ` set xs"
  by (simp add: map_of_eq_None_iff image_image)

lemma map_of_keyed_Some:
  "distinct (map f xs) \<Longrightarrow> map_of (keyed f xs) k = Some x \<longleftrightarrow> x \<in> set xs \<and> f x = k"
  by (induction xs) (auto, metis imageI)

lemma option_eqI: "(\<And>x. a = Some x \<longleftrightarrow> b = Some x) \<Longrightarrow> a = b"
  by (cases a; cases b) auto

section \<open>ASCII case folding\<close>

text \<open>
  \<^verbatim>\<open>strings.ToLower\<close> and \<^verbatim>\<open>strings.EqualFold\<close> on ASCII text. The strings compared are
  MAC addresses, hexadecimal identifiers and the literal \<^verbatim>\<open>declined\<close>; no non-ASCII
  letter folds to a hexadecimal digit or a colon, so the Unicode rules agree with these.
\<close>

definition to_lower :: "char \<Rightarrow> char" where
  "to_lower c = (let n = of_char c :: nat in if 65 \<le> n \<and> n \<le> 90 then char_of (n + 32) else c)"

definition ToLower :: "string \<Rightarrow> string" where
  "ToLower s = map to_lower s"

definition EqualFold :: "string \<Rightarrow> string \<Rightarrow> bool" where
  "EqualFold s t \<longleftrightarrow> ToLower s = ToLower t"

lemma to_lower_idem [simp]: "to_lower (to_lower c) = to_lower c"
  by (auto simp: to_lower_def Let_def)

lemma ToLower_idem [simp]: "ToLower (ToLower s) = ToLower s"
  by (simp add: ToLower_def)

section \<open>White space\<close>

text \<open>\<^verbatim>\<open>strings.TrimSpace\<close> on ASCII text.\<close>

definition go_space :: "char \<Rightarrow> bool" where
  "go_space c \<longleftrightarrow> (let n = of_char c :: nat in n = 32 \<or> 9 \<le> n \<and> n \<le> 13)"

definition TrimSpace :: "string \<Rightarrow> string" where
  "TrimSpace s = rev (dropWhile go_space (rev (dropWhile go_space s)))"

lemma TrimSpace_id: "\<forall>c \<in> set s. \<not> go_space c \<Longrightarrow> TrimSpace s = s"
proof -
  have "dropWhile go_space xs = xs" if "\<forall>c \<in> set xs. \<not> go_space c" for xs
    using that by (cases xs) auto
  then show "\<forall>c \<in> set s. \<not> go_space c \<Longrightarrow> TrimSpace s = s"
    by (metis TrimSpace_def rev_rev_ident set_rev)
qed

section \<open>Decimal numbers\<close>

fun decimal :: "nat \<Rightarrow> string" where
  "decimal n = (if n < 10 then [char_of (48 + n)] else decimal (n div 10) @ [char_of (48 + n mod 10)])"

declare decimal.simps [simp del]

text \<open>\<^verbatim>\<open>strconv.Itoa\<close>.\<close>

definition strconv_Itoa :: "int \<Rightarrow> string" where
  "strconv_Itoa v = (if v < 0 then ''-'' @ decimal (nat (- v)) else decimal (nat v))"

section \<open>Positions in a string\<close>

text \<open>\<^verbatim>\<open>strings.IndexByte\<close> and \<^verbatim>\<open>strings.LastIndexByte\<close>.\<close>

definition lastIndex :: "char \<Rightarrow> string \<Rightarrow> nat option" where
  "lastIndex c s =
     (if c \<in> set s then Some (length s - 1 - length (takeWhile (\<lambda>d. d \<noteq> c) (rev s))) else None)"

definition firstIndex :: "char \<Rightarrow> string \<Rightarrow> nat option" where
  "firstIndex c s = (if c \<in> set s then Some (length (takeWhile (\<lambda>d. d \<noteq> c) s)) else None)"

lemma lastIndex_append: "lastIndex c (s @ c # t) = Some (length s)" if "c \<notin> set t"
proof -
  have "takeWhile (\<lambda>d. d \<noteq> c) (rev t @ c # rev s) = rev t"
    using that by (subst takeWhile_append2) auto
  then show ?thesis by (simp add: lastIndex_def)
qed

lemma firstIndex_append: "c \<notin> set s \<Longrightarrow> firstIndex c (s @ c # t) = Some (length s)"
  unfolding firstIndex_def by (subst takeWhile_append2) auto

end
