(* ===== verification/Netip.thy ===== *)
theory Netip
  imports Prelude
begin

text \<open>
  The parts of Go's \<^verbatim>\<open>net/netip\<close> and \<^verbatim>\<open>net\<close> the program computes with: addresses
  (\<^verbatim>\<open>netip.Addr\<close>, with the invalid zero value and IPv6 zones), their order, successor and
  byte forms, prefixes (\<^verbatim>\<open>netip.Prefix\<close>) with masking and containment, and the
  \<^verbatim>\<open>net.IP\<close> conversions. The lemmas at the end give masking and containment an arithmetic
  reading, which the offset arithmetic of the address pools rests on.
\<close>

section \<open>Addresses\<close>

datatype addr = AddrNone | Addr4 "32 word" | Addr6 "128 word" string

definition IsValid :: "addr \<Rightarrow> bool" where
  "IsValid a \<longleftrightarrow> a \<noteq> AddrNone"

fun Is4 :: "addr \<Rightarrow> bool" where
  "Is4 (Addr4 _) = True"
| "Is4 _ = False"

fun Is6 :: "addr \<Rightarrow> bool" where
  "Is6 (Addr6 _ _) = True"
| "Is6 _ = False"

fun BitLen :: "addr \<Rightarrow> nat" where
  "BitLen AddrNone = 0"
| "BitLen (Addr4 _) = 32"
| "BitLen (Addr6 _ _) = 128"

fun addr_val :: "addr \<Rightarrow> nat" where
  "addr_val AddrNone = 0"
| "addr_val (Addr4 w) = unat w"
| "addr_val (Addr6 w _) = unat w"

fun Zone :: "addr \<Rightarrow> string" where
  "Zone (Addr6 _ z) = z"
| "Zone _ = []"

fun withoutZone :: "addr \<Rightarrow> addr" where
  "withoutZone (Addr6 w _) = Addr6 w []"
| "withoutZone a = a"

fun AsSlice :: "addr \<Rightarrow> bytes" where
  "AsSlice AddrNone = []"
| "AsSlice (Addr4 w) = be_bytes 4 (unat w)"
| "AsSlice (Addr6 w _) = be_bytes 16 (unat w)"

text \<open>\<^verbatim>\<open>As16\<close> maps an IPv4 address into \<^verbatim>\<open>::ffff:0:0/96\<close> and the zero value to zeros.\<close>

definition v4InV6 :: bytes where
  "v4InV6 = replicate 10 0 @ [255, 255]"

fun As16 :: "addr \<Rightarrow> bytes" where
  "As16 AddrNone = replicate 16 0"
| "As16 (Addr4 w) = v4InV6 @ be_bytes 4 (unat w)"
| "As16 (Addr6 w _) = be_bytes 16 (unat w)"

text \<open>\<open>AddrFromSlice\<close> yields the invalid address where the Go function returns \<^verbatim>\<open>ok = false\<close>.\<close>

definition AddrFromSlice :: "bytes \<Rightarrow> addr" where
  "AddrFromSlice bs =
     (if length bs = 4 then Addr4 (of_nat (be_nat bs))
      else if length bs = 16 then Addr6 (of_nat (be_nat bs)) []
      else AddrNone)"

definition AddrFrom16 :: "bytes \<Rightarrow> addr" where
  "AddrFrom16 bs = Addr6 (of_nat (be_nat bs)) []"

definition Is4In6 :: "128 word \<Rightarrow> bool" where
  "Is4In6 w \<longleftrightarrow> unat w div 2 ^ 32 = 0xFFFF"

fun Unmap :: "addr \<Rightarrow> addr" where
  "Unmap (Addr6 w z) = (if Is4In6 w then Addr4 (of_nat (unat w)) else Addr6 w z)"
| "Unmap a = a"

fun IsUnspecified :: "addr \<Rightarrow> bool" where
  "IsUnspecified (Addr4 w) = (w = 0)"
| "IsUnspecified (Addr6 w z) = (w = 0 \<and> z = [])"
| "IsUnspecified AddrNone = False"

fun IsLinkLocalUnicast :: "addr \<Rightarrow> bool" where
  "IsLinkLocalUnicast (Addr4 w) = (unat w div 2 ^ 16 = 0xA9FE)"
| "IsLinkLocalUnicast (Addr6 w z) =
     (if Is4In6 w then unat w mod 2 ^ 32 div 2 ^ 16 = 0xA9FE
      else unat w div 2 ^ 118 = 0x3FA)"
| "IsLinkLocalUnicast AddrNone = False"

text \<open>
  \<^verbatim>\<open>Addr.Next\<close> keeps the zone and returns the invalid address past the last address of
  the family.
\<close>

fun Next :: "addr \<Rightarrow> addr" where
  "Next AddrNone = AddrNone"
| "Next (Addr4 w) = (if w + 1 = 0 then AddrNone else Addr4 (w + 1))"
| "Next (Addr6 w z) = (if w + 1 = 0 then AddrNone else Addr6 (w + 1) z)"

text \<open>
  \<^verbatim>\<open>Addr.Compare\<close>: by bit length, then by value, then by zone. It is a linear order, so
  the library's \<open>sort_key\<close> and \<open>sorted\<close> apply to addresses.
\<close>

instantiation addr :: linorder
begin

definition less_eq_addr :: "addr \<Rightarrow> addr \<Rightarrow> bool" where
  "a \<le> b \<longleftrightarrow> BitLen a < BitLen b \<or>
     BitLen a = BitLen b \<and>
       (addr_val a < addr_val b \<or> addr_val a = addr_val b \<and> Zone a \<le> Zone b)"

definition less_addr :: "addr \<Rightarrow> addr \<Rightarrow> bool" where
  "a < b \<longleftrightarrow> a \<le> b \<and> \<not> b \<le> (a :: addr)"

instance
proof
  fix a b c :: addr
  show "a < b \<longleftrightarrow> a \<le> b \<and> \<not> b \<le> a" by (rule less_addr_def)
  show "a \<le> a" by (simp add: less_eq_addr_def)
  show "a \<le> b \<Longrightarrow> b \<le> c \<Longrightarrow> a \<le> c" by (auto simp: less_eq_addr_def)
  show "a \<le> b \<Longrightarrow> b \<le> a \<Longrightarrow> a = b"
    by (cases a; cases b) (auto simp: less_eq_addr_def word_unat_eq_iff)
  show "a \<le> b \<or> b \<le> a" by (auto simp: less_eq_addr_def)
qed

end

abbreviation Less :: "addr \<Rightarrow> addr \<Rightarrow> bool" where
  "Less a b \<equiv> a < b"

lemma less_addr_iff:
  "a < b \<longleftrightarrow> BitLen a < BitLen b \<or>
     BitLen a = BitLen b \<and>
       (addr_val a < addr_val b \<or> addr_val a = addr_val b \<and> Zone a < Zone b)"
  by (auto simp: less_addr_def less_eq_addr_def not_le)

lemma IsValid_simps [simp]:
  "\<not> IsValid AddrNone" "IsValid (Addr4 w)" "IsValid (Addr6 v z)"
  by (simp_all add: IsValid_def)

lemma addr_val_less: "addr_val a < 2 ^ BitLen a"
  using unsigned_less [where ?'b = 32 and ?'a = nat] unsigned_less [where ?'b = 128 and ?'a = nat]
  by (cases a) (simp_all del: unsigned_less)

lemma addr_eqI:
  "BitLen a = BitLen b \<Longrightarrow> addr_val a = addr_val b \<Longrightarrow> Zone a = Zone b \<Longrightarrow> a = b"
  by (cases a; cases b) (simp_all add: word_unat_eq_iff)

lemma BitLen_0_iff: "BitLen a = 0 \<longleftrightarrow> \<not> IsValid a"
  by (cases a) simp_all

lemma length_AsSlice: "length (AsSlice a) = BitLen a div 8"
  by (cases a) simp_all

lemma length_As16 [simp]: "length (As16 a) = 16"
  by (cases a) (simp_all add: v4InV6_def)

lemma be_nat_AsSlice [simp]: "be_nat (AsSlice a) = addr_val a"
  using addr_val_less [of a] by (cases a) simp_all

lemma AddrFromSlice_AsSlice: "AddrFromSlice (AsSlice a) = withoutZone a"
  using be_nat_AsSlice [of a] by (cases a) (simp_all add: AddrFromSlice_def)

lemma AsSlice_AddrFromSlice:
  assumes "IsValid (AddrFromSlice bs)"
  shows "AsSlice (AddrFromSlice bs) = bs"
proof -
  have bb: "length bs = n \<Longrightarrow> be_bytes n (be_nat bs) = bs" for n
    using be_bytes_be_nat [of bs] by simp
  from assms consider "length bs = 4" | "length bs = 16"
    by (auto simp: AddrFromSlice_def split: if_splits)
  then show ?thesis
    using be_nat_less [of bs] bb by cases (auto simp: AddrFromSlice_def unat_of_nat)
qed

lemma unat_word_plus_one: "(w :: 'a::len word) + 1 \<noteq> 0 \<Longrightarrow> unat (w + 1) = Suc (unat w)"
  by (metis Suc_eq_plus1 add.commute unatSuc)

lemma Next_val: "IsValid (Next a) \<Longrightarrow> addr_val (Next a) = Suc (addr_val a)"
  by (cases a) (auto simp: unat_word_plus_one split: if_splits)

lemma Next_frame:
  "IsValid (Next a) \<Longrightarrow> BitLen (Next a) = BitLen a \<and> Zone (Next a) = Zone a"
  by (cases a) (auto split: if_splits)

lemma unat_word_plus_one_0:
  assumes "(w :: 'a::len word) + 1 = 0"
  shows "Suc (unat w) = 2 ^ LENGTH('a)"
proof -
  have "unat (w + 1) = Suc (unat w) mod 2 ^ LENGTH('a)"
    by (simp add: unat_word_ariths)
  then have "Suc (unat w) mod 2 ^ LENGTH('a) = 0"
    using assms by simp
  moreover have "Suc (unat w) \<le> 2 ^ LENGTH('a)"
    using unsigned_less [of w, where ?'a = nat] by (simp add: Suc_le_eq)
  ultimately show ?thesis
    by (metis Suc_neq_Zero le_neq_implies_less mod_less)
qed

lemma Next_invalid:
  "IsValid a \<Longrightarrow> \<not> IsValid (Next a) \<Longrightarrow> Suc (addr_val a) = 2 ^ BitLen a"
  by (cases a) (auto dest!: unat_word_plus_one_0 split: if_splits)

lemma Is4_BitLen: "Is4 a \<longleftrightarrow> BitLen a = 32"
  by (cases a) simp_all

section \<open>Prefixes\<close>

text \<open>
  \<^verbatim>\<open>netip.Prefix\<close>: an address and a length, \<open>-1\<close> for an invalid prefix. \<open>ZeroPrefix\<close> is
  the zero value \<^verbatim>\<open>netip.Prefix{}\<close>.
\<close>

datatype prefix = Prefix (pfx_addr: addr) (pfx_bits: int)

definition ZeroPrefix :: prefix where
  "ZeroPrefix = Prefix AddrNone (-1)"

definition PfxIsValid :: "prefix \<Rightarrow> bool" where
  "PfxIsValid p \<longleftrightarrow> 0 \<le> pfx_bits p"

definition PrefixFrom :: "addr \<Rightarrow> int \<Rightarrow> prefix" where
  "PrefixFrom ip bits =
     Prefix (withoutZone ip)
       (if IsValid ip \<and> 0 \<le> bits \<and> bits \<le> int (BitLen ip) then bits else -1)"

fun mask_addr :: "nat \<Rightarrow> addr \<Rightarrow> addr" where
  "mask_addr b AddrNone = AddrNone"
| "mask_addr b (Addr4 w) = Addr4 (push_bit (32 - b) (drop_bit (32 - b) w))"
| "mask_addr b (Addr6 w z) = Addr6 (push_bit (128 - b) (drop_bit (128 - b) w)) z"

definition Masked :: "prefix \<Rightarrow> prefix" where
  "Masked p =
     (if pfx_bits p < 0 \<or> \<not> IsValid (pfx_addr p) \<or> int (BitLen (pfx_addr p)) < pfx_bits p
      then ZeroPrefix
      else PrefixFrom (mask_addr (nat (pfx_bits p)) (pfx_addr p)) (pfx_bits p))"

definition Contains :: "prefix \<Rightarrow> addr \<Rightarrow> bool" where
  "Contains p ip \<longleftrightarrow> PfxIsValid p \<and> Zone ip = [] \<and>
     (case (pfx_addr p, ip) of
        (Addr4 w, Addr4 v) \<Rightarrow> drop_bit (32 - nat (pfx_bits p)) (v XOR w) = 0
      | (Addr6 w _, Addr6 v _) \<Rightarrow> drop_bit (128 - nat (pfx_bits p)) (v XOR w) = 0
      | _ \<Rightarrow> False)"

text \<open>
  The shape of every prefix \<^verbatim>\<open>PrefixFrom\<close> builds: no zone, and a length that fits the address or
  is \<open>-1\<close>, the mark of an invalid prefix. \<open>prefix_ok\<close> alone does not say that a prefix is valid:
  that is \<open>PfxIsValid\<close>.
\<close>

definition prefix_ok :: "prefix \<Rightarrow> bool" where
  "prefix_ok p \<longleftrightarrow> Zone (pfx_addr p) = [] \<and>
     (if pfx_bits p = -1 then True
      else IsValid (pfx_addr p) \<and> 0 \<le> pfx_bits p \<and> pfx_bits p \<le> int (BitLen (pfx_addr p)))"

text \<open>The number of host bits of a prefix.\<close>

definition host_bits :: "prefix \<Rightarrow> nat" where
  "host_bits p = BitLen (pfx_addr p) - nat (pfx_bits p)"

lemma BitLen_withoutZone [simp]: "BitLen (withoutZone a) = BitLen a"
  and addr_val_withoutZone [simp]: "addr_val (withoutZone a) = addr_val a"
  and Zone_withoutZone [simp]: "Zone (withoutZone a) = []"
  and IsValid_withoutZone [simp]: "IsValid (withoutZone a) = IsValid a"
  by (cases a; simp)+

lemma withoutZone_id [simp]: "Zone a = [] \<Longrightarrow> withoutZone a = a"
  by (cases a) simp_all

lemma BitLen_mask_addr [simp]: "BitLen (mask_addr b a) = BitLen a"
  and Zone_mask_addr [simp]: "Zone (mask_addr b a) = Zone a"
  and IsValid_mask_addr [simp]: "IsValid (mask_addr b a) = IsValid a"
  by (cases a; simp)+

lemma prefix_ok_ZeroPrefix [simp]: "prefix_ok ZeroPrefix"
  by (simp add: prefix_ok_def ZeroPrefix_def)

lemma prefix_ok_PrefixFrom [simp]: "prefix_ok (PrefixFrom a b)"
  by (simp add: prefix_ok_def PrefixFrom_def)

lemma prefix_ok_Masked [simp]: "prefix_ok (Masked p)"
  by (simp add: Masked_def)

lemma PfxIsValid_ZeroPrefix [simp]: "\<not> PfxIsValid ZeroPrefix"
  by (simp add: PfxIsValid_def ZeroPrefix_def)

lemma unat_drop_bit_div: "unat (drop_bit n w) = unat w div 2 ^ n" for w :: "'a::len word"
  by (subst unat_drop_bit_eq) (rule drop_bit_eq_div)

lemma unat_take_bit_mod: "unat (take_bit n w) = unat w mod 2 ^ n" for w :: "'a::len word"
  by (subst unsigned_take_bit_eq) (rule take_bit_eq_mod)

lemma unat_clear_low:
  "unat (push_bit n (drop_bit n w)) = unat w div 2 ^ n * 2 ^ n" for w :: "'a::len word"
proof -
  have "unat w div 2 ^ n * 2 ^ n \<le> unat w"
    by (rule div_times_less_eq_dividend)
  also have "unat w < 2 ^ LENGTH('a)"
    using unsigned_less [of w, where ?'a = nat] by simp
  finally have "unat w div 2 ^ n * 2 ^ n < 2 ^ LENGTH('a)" .
  then show ?thesis
    by (subst unsigned_push_bit_eq)
      (simp only: unat_drop_bit_div push_bit_eq_mult take_bit_eq_mod mod_less)
qed

lemma addr_val_mask_addr:
  "addr_val (mask_addr b a) =
     addr_val a div 2 ^ (BitLen a - b) * 2 ^ (BitLen a - b)"
  by (cases a) (simp_all only: mask_addr.simps addr_val.simps BitLen.simps unat_clear_low div_0
      mult_0)

lemma drop_bit_xor_eq_0:
  "drop_bit n v XOR drop_bit n w = 0 \<longleftrightarrow> unat v div 2 ^ n = unat w div 2 ^ n" for v w :: "'a::len word"
proof -
  have "drop_bit n v XOR drop_bit n w = 0 \<longleftrightarrow> drop_bit n v = drop_bit n w"
    by (metis bit.xor_left_self xor.right_neutral xor_self_eq)
  also have "\<dots> \<longleftrightarrow> unat (drop_bit n v) = unat (drop_bit n w)"
    by (simp add: word_unat_eq_iff)
  finally show ?thesis
    by (simp only: unat_drop_bit_div)
qed

lemma Contains_iff:
  assumes "prefix_ok p" and "PfxIsValid p"
  shows "Contains p a \<longleftrightarrow> Zone a = [] \<and> BitLen a = BitLen (pfx_addr p) \<and>
           addr_val a div 2 ^ host_bits p = addr_val (pfx_addr p) div 2 ^ host_bits p"
  using assms
  by (cases "pfx_addr p"; cases a)
    (auto simp: Contains_def drop_bit_xor_eq_0 host_bits_def prefix_ok_def PfxIsValid_def
      split: if_splits)

lemma pfx_addr_Masked:
  assumes "prefix_ok p" and "PfxIsValid p"
  shows "pfx_addr (Masked p) = mask_addr (nat (pfx_bits p)) (pfx_addr p)"
    and "pfx_bits (Masked p) = pfx_bits p"
  using assms by (auto simp: Masked_def PrefixFrom_def PfxIsValid_def prefix_ok_def)

lemma PfxIsValid_Masked: "prefix_ok p \<Longrightarrow> PfxIsValid (Masked p) = PfxIsValid p"
  using pfx_addr_Masked(2) [of p]
  by (cases "PfxIsValid p") (auto simp: PfxIsValid_def Masked_def ZeroPrefix_def)

lemma host_bits_Masked: "prefix_ok p \<Longrightarrow> PfxIsValid p \<Longrightarrow> host_bits (Masked p) = host_bits p"
  by (simp add: host_bits_def pfx_addr_Masked)

lemma addr_val_Masked:
  "prefix_ok p \<Longrightarrow> PfxIsValid p \<Longrightarrow>
     addr_val (pfx_addr (Masked p)) = addr_val (pfx_addr p) div 2 ^ host_bits p * 2 ^ host_bits p"
  by (simp add: pfx_addr_Masked addr_val_mask_addr host_bits_def)

lemma BitLen_Masked:
  "prefix_ok p \<Longrightarrow> PfxIsValid p \<Longrightarrow> BitLen (pfx_addr (Masked p)) = BitLen (pfx_addr p)"
  by (simp add: pfx_addr_Masked)

lemma Contains_Masked: "prefix_ok p \<Longrightarrow> Contains (Masked p) a = Contains p a"
proof (cases "PfxIsValid p")
  case True
  moreover assume "prefix_ok p"
  ultimately show ?thesis
    by (simp add: Contains_iff PfxIsValid_Masked host_bits_Masked addr_val_Masked BitLen_Masked)
next
  case False
  moreover assume "prefix_ok p"
  ultimately show ?thesis by (simp add: Contains_def PfxIsValid_Masked)
qed

lemma Masked_Masked: "prefix_ok p \<Longrightarrow> Masked (Masked p) = Masked p"
proof (cases "PfxIsValid p")
  case True
  moreover assume ok: "prefix_ok p"
  ultimately have v: "PfxIsValid (Masked p)" by (simp add: PfxIsValid_Masked)
  have "pfx_addr (Masked (Masked p)) = pfx_addr (Masked p)"
    using True ok v
    by (intro addr_eqI)
      (simp_all add: pfx_addr_Masked addr_val_Masked host_bits_Masked prefix_ok_def
        addr_val_mask_addr host_bits_def)
  moreover have "pfx_bits (Masked (Masked p)) = pfx_bits (Masked p)"
    using v by (simp add: pfx_addr_Masked)
  ultimately show ?thesis by (simp add: prefix.expand)
next
  case False
  then have "Masked p = ZeroPrefix" by (simp add: Masked_def PfxIsValid_def)
  then show ?thesis by (simp add: Masked_def ZeroPrefix_def)
qed

lemma Contains_same_family:
  "prefix_ok p \<Longrightarrow> Contains p a \<Longrightarrow> BitLen a = BitLen (pfx_addr p) \<and> IsValid a"
  by (cases "pfx_addr p"; cases a) (auto simp: Contains_def)

lemma Contains_valid: "Contains p a \<Longrightarrow> PfxIsValid p"
  by (simp add: Contains_def)

section \<open>The \<^verbatim>\<open>net.IP\<close> conversions\<close>

text \<open>
  \<^verbatim>\<open>net.IP\<close> is a byte slice; \<^verbatim>\<open>nil\<close> is the empty one. \<^verbatim>\<open>To4\<close> yields nil for an
  address that is not IPv4 (or IPv4-mapped), \<^verbatim>\<open>To16\<close> for one of any other length.
\<close>

definition To4 :: "bytes \<Rightarrow> bytes" where
  "To4 ip =
     (if length ip = 4 then ip
      else if length ip = 16 \<and> take 12 ip = v4InV6 then drop 12 ip
      else [])"

definition To16 :: "bytes \<Rightarrow> bytes" where
  "To16 ip = (if length ip = 4 then v4InV6 @ ip else if length ip = 16 then ip else [])"

definition IP_IsUnspecified :: "bytes \<Rightarrow> bool" where
  "IP_IsUnspecified ip \<longleftrightarrow>
     ip = replicate 4 0 \<or> ip = replicate 16 0 \<or> ip = v4InV6 @ replicate 4 0"

lemma length_To4: "length (To4 ip) = 4 \<or> To4 ip = []"
  by (auto simp: To4_def)

lemma AddrFromSlice_To4: "AddrFromSlice (To4 ip) = AddrNone \<or> Is4 (AddrFromSlice (To4 ip))"
  using length_To4 [of ip] by (auto simp: AddrFromSlice_def)

text \<open>
  \<^verbatim>\<open>net.CIDRMask(ones, bits)\<close> and \<^verbatim>\<open>IPMask.Size\<close>: the first \<open>ones\<close> bits set. \<open>Size\<close>
  returns \<open>(0, 0)\<close> for a mask that is not of that form.
\<close>

definition CIDRMask :: "int \<Rightarrow> nat \<Rightarrow> bytes" where
  "CIDRMask ones bits =
     (if (bits \<noteq> 32 \<and> bits \<noteq> 128) \<or> ones < 0 \<or> int bits < ones then []
      else be_bytes (bits div 8) (2 ^ bits - 2 ^ (bits - nat ones)))"

fun byteBits :: "nat \<Rightarrow> u8 \<Rightarrow> bool list" where
  "byteBits 0 b = []"
| "byteBits (Suc n) b = bit b n # byteBits n b"

text \<open>The first result of \<^verbatim>\<open>net.IPMask.Size\<close>: the number of leading ones, 0 when a one follows a zero.\<close>

definition maskOnes :: "bytes \<Rightarrow> nat" where
  "maskOnes msk =
     (let bits = concat (map (byteBits 8) msk)
      in if True \<in> set (dropWhile (\<lambda>b. b) bits) then 0 else length (takeWhile (\<lambda>b. b) bits))"

text \<open>Both results of \<^verbatim>\<open>net.IPMask.Size\<close>, and \<^verbatim>\<open>net.IP.Equal\<close>, which identifies an IPv4 address with its
  IPv4-mapped form.\<close>

definition MaskSize :: "bytes \<Rightarrow> nat \<times> nat" where
  "MaskSize msk =
     (let bits = concat (map (byteBits 8) msk)
      in if True \<in> set (dropWhile (\<lambda>b. b) bits) then (0, 0) else (maskOnes msk, 8 * length msk))"

definition IP_Equal :: "bytes \<Rightarrow> bytes \<Rightarrow> bool" where
  "IP_Equal a b \<longleftrightarrow>
     (if length a = length b then a = b
      else if length a = 4 \<and> length b = 16 then b = v4InV6 @ a
      else if length a = 16 \<and> length b = 4 then a = v4InV6 @ b
      else False)"

lemma IP_Equal_refl [simp]: "IP_Equal a a"
  by (simp add: IP_Equal_def)

lemma IP_Equal_16: "length a = 16 \<Longrightarrow> length b = 16 \<Longrightarrow> IP_Equal a b \<longleftrightarrow> a = b"
  by (simp add: IP_Equal_def)

lemma byteBits_of_nat: "n \<le> 8 \<Longrightarrow> byteBits n (of_nat x) = map (bit x) (rev [0..<n])"
  by (induction n) (simp_all add: bit_of_nat_iff)

lemma concat_byteBits: "concat (map (byteBits 8) (be_bytes n x)) = map (bit x) (rev [0..<8 * n])"
proof (induction n arbitrary: x)
  case (Suc n)
  have shift: "map (bit (x div 256)) (rev [0..<8 * n]) = map (bit x) (rev [8..<8 * Suc n])"
  proof -
    have "bit (x div 256) = (\<lambda>i. bit x (i + 8))"
      using bit_iff_odd_drop_bit drop_bit_eq_div [of 8 x] drop_bit_drop_bit [of _ 8 x]
      by (auto simp: fun_eq_iff bit_iff_odd_drop_bit)
    moreover have "[8..<8 * Suc n] = map (\<lambda>i. i + 8) [0..<8 * n]"
      using map_add_upt [of 8 "8 * n"] by (simp add: algebra_simps)
    ultimately show ?thesis by (simp add: rev_map)
  qed
  have "[0..<8 * Suc n] = [0..<8] @ [8..<8 * Suc n]" using upt_add_eq_append [of 0 8 "8 * n"] by simp
  then show ?case using Suc shift by (simp add: byteBits_of_nat)
qed simp

lemma CIDRMask_MaskSize:
  assumes "n \<le> L" and "L = 32 \<or> L = 128"
  shows "MaskSize (CIDRMask (int n) L) = (n, L)"
proof -
  let ?x = "2 ^ L - 2 ^ (L - n) :: nat"
  have L: "8 * (L div 8) = L" using assms(2) by auto
  have x: "?x = push_bit (L - n) (mask n)"
    using assms by (simp add: push_bit_eq_mult mask_eq_exp_minus_1 algebra_simps flip: power_add)
  have "bit ?x i \<longleftrightarrow> L - n \<le> i" if "i < L" for i
    unfolding x using that assms(1) by (auto simp: bit_push_bit_iff_nat bit_mask_iff)
  then have m: "map (bit ?x) (rev [0..<L]) = map (\<lambda>i. L - n \<le> i) (rev [0..<L])"
    by (intro map_cong) auto
  have u: "[0..<L] = [0..<L - n] @ [L - n..<L]"
    using upt_add_eq_append [of 0 "L - n" n] assms by simp
  have r: "map (\<lambda>i. L - n \<le> i) (rev [0..<L]) = replicate n True @ replicate (L - n) False"
    unfolding u using assms(1) by (auto intro!: nth_equalityI simp: nth_append rev_nth)
  have bits: "concat (map (byteBits 8) (CIDRMask (int n) L)) = replicate n True @ replicate (L - n) False"
    using concat_byteBits [of "L div 8" ?x] assms m r by (auto simp: CIDRMask_def L)
  have "dropWhile (\<lambda>b. b) (replicate n True @ replicate (L - n) False) = replicate (L - n) False"
    "takeWhile (\<lambda>b. b) (replicate n True @ replicate (L - n) False) = replicate n True"
    by (cases "L - n"; simp add: dropWhile_append takeWhile_append)+
  moreover have "8 * length (CIDRMask (int n) L) = L" using assms L by (auto simp: CIDRMask_def)
  ultimately show ?thesis by (simp add: MaskSize_def maskOnes_def Let_def bits)
qed

lemmas CIDRMask_Size = CIDRMask_MaskSize [where L = 128, simplified]

lemma maskOnes_CIDRMask: "n \<le> BitLen a \<Longrightarrow> IsValid a \<Longrightarrow> maskOnes (CIDRMask (int n) (BitLen a)) = n"
  using CIDRMask_MaskSize [of n "BitLen a"]
  by (cases a) (auto simp: MaskSize_def Let_def split: if_splits simp: maskOnes_def)

end
