(* ===== verification/Binding.thy ===== *)
theory Binding
  imports Netip
begin

text \<open>
  \<^verbatim>\<open>internal/server/binding.go\<close>: static bindings (validation, offset arithmetic, the choice
  of the binding for a client, atomic replacement sets) and the lease table of one address
  family (lookup by client, insertion, release, expiry sweep, snapshot, allocation from a
  pool). The locale \<open>lease_store\<close> states what the DHCP servers rely on; it is interpreted
  on the table of the source.
\<close>

section \<open>Errors of package \<^verbatim>\<open>server\<close>\<close>

datatype server_err =
    ErrNeedsID
  | ErrNeedsCondition
  | ErrOffsetZero
  | ErrBinding string server_err
  | ErrDupBinding string
  | ErrStaticNotFound string
  | ErrLeaseNotFound addr
  | ErrDhcp4Pool u64 u64
  | ErrDhcp6Pool u64 u64

section \<open>Static bindings\<close>

record static_binding =
  sb_ID :: string
  sb_Order :: int
  sb_MAC :: "string option"
  sb_ClientID :: "string option"
  sb_Offset :: u64

definition validate :: "static_binding \<Rightarrow> server_err option" where
  "validate b =
     (if sb_MAC b = None \<and> sb_ClientID b = None then Some ErrNeedsCondition
      else if sb_Offset b = 0 then Some ErrOffsetZero
      else None)"

definition addrAtOffset :: "prefix \<Rightarrow> u64 \<Rightarrow> addr" where
  "addrAtOffset prefix offset =
     (let base = pfx_addr (Masked prefix);
          raw = AsSlice base;
          v = be_nat raw + unat offset;
          out = min_bytes v
      in if length raw < length out then AddrNone
         else
           (let buf = replicate (length raw - length out) 0 @ out;
                addr = AddrFromSlice buf
            in if \<not> IsValid addr \<or> \<not> Contains (Masked prefix) addr then AddrNone else addr))"

text \<open>One iteration of the loop of \<open>matchBinding\<close>: \<open>None\<close> is \<^verbatim>\<open>continue\<close>.\<close>

definition bindingScore :: "static_binding \<Rightarrow> string \<Rightarrow> string \<Rightarrow> nat option" where
  "bindingScore b mac clientID =
     (if (case sb_MAC b of Some m \<Rightarrow> \<not> EqualFold m mac | None \<Rightarrow> False) then None
      else if (case sb_ClientID b of Some c \<Rightarrow> \<not> EqualFold c clientID | None \<Rightarrow> False) then None
      else
        (let score = (if sb_MAC b = None then 0 else 1) + (if sb_ClientID b = None then 0 else 1)
         in if score = 0 then None else Some score))"

fun matchLoop ::
  "static_binding list \<Rightarrow> string \<Rightarrow> string \<Rightarrow> static_binding option \<Rightarrow> nat \<Rightarrow>
     static_binding option" where
  "matchLoop [] mac clientID best bestScore = best"
| "matchLoop (b # bs) mac clientID best bestScore =
     (case bindingScore b mac clientID of
        None \<Rightarrow> matchLoop bs mac clientID best bestScore
      | Some score \<Rightarrow>
          if (case best of
                None \<Rightarrow> True
              | Some be \<Rightarrow> bestScore < score \<or> score = bestScore \<and> sb_Order be < sb_Order b)
          then matchLoop bs mac clientID (Some b) score
          else matchLoop bs mac clientID best bestScore)"

definition matchBinding ::
  "static_binding list \<Rightarrow> string \<Rightarrow> string \<Rightarrow> static_binding option" where
  "matchBinding bindings mac clientID = matchLoop bindings mac clientID None 0"

fun buildLoop ::
  "static_binding list \<Rightarrow> (string, static_binding) gomap \<Rightarrow>
     server_err + (string, static_binding) gomap" where
  "buildLoop [] m = Inr m"
| "buildLoop (b # bs) m =
     (if sb_ID b = '''' then Inl ErrNeedsID
      else case validate b of
        Some err \<Rightarrow> Inl (ErrBinding (sb_ID b) err)
      | None \<Rightarrow>
          if map_of m (sb_ID b) \<noteq> None then Inl (ErrDupBinding (sb_ID b))
          else buildLoop bs (AList.update (sb_ID b) b m))"

definition buildStaticSet ::
  "static_binding list \<Rightarrow> server_err + (string, static_binding) gomap" where
  "buildStaticSet bs = buildLoop bs []"

section \<open>Leases\<close>

record lease =
  lease_IP :: addr
  lease_MAC :: string
  lease_ClientID :: string
  lease_Hostname :: string
  lease_Expiry :: time
  lease_Static :: bool

text \<open>
  The lease table. \<open>lt_changed\<close> says whether the persistence hook is installed and
  \<open>lt_notified\<close> counts its calls. The clock \<^verbatim>\<open>t.now\<close> is an argument of the operations
  that read it: one call of an operation happens at one instant.
\<close>

record leaseTable =
  lt_leases :: "(addr, lease) gomap"
  lt_changed :: bool
  lt_notified :: nat

type_synonym lease_order = "(addr \<times> lease) list \<Rightarrow> (addr \<times> lease) list"

definition newLeaseTable :: leaseTable where
  "newLeaseTable = \<lparr>lt_leases = [], lt_changed = False, lt_notified = 0\<rparr>"

definition notify :: "leaseTable \<Rightarrow> leaseTable" where
  "notify t = (if lt_changed t then t\<lparr>lt_notified := Suc (lt_notified t)\<rparr> else t)"

definition clientKey :: "string \<Rightarrow> string \<Rightarrow> string" where
  "clientKey mac clientID = ToLower mac @ ''/'' @ ToLower clientID"

definition byClient ::
  "lease_order \<Rightarrow> time \<Rightarrow> leaseTable \<Rightarrow> string \<Rightarrow> string \<Rightarrow> lease option" where
  "byClient ord now t mac clientID =
     (let key = clientKey mac clientID
      in map_option snd
           (find (\<lambda>(_, l). clientKey (lease_MAC l) (lease_ClientID l) = key \<and>
                            \<not> lease_Expiry l < now)
             (ord (lt_leases t))))"

definition lt_set :: "leaseTable \<Rightarrow> lease \<Rightarrow> leaseTable" where
  "lt_set t l = notify (t\<lparr>lt_leases := AList.update (lease_IP l) l (lt_leases t)\<rparr>)"

definition lt_release :: "leaseTable \<Rightarrow> addr \<Rightarrow> bool \<times> leaseTable" where
  "lt_release t ip =
     (if map_of (lt_leases t) ip \<noteq> None
      then (True, notify (t\<lparr>lt_leases := AList.delete ip (lt_leases t)\<rparr>))
      else (False, t))"

definition inUse :: "time \<Rightarrow> leaseTable \<Rightarrow> addr \<Rightarrow> string \<Rightarrow> string \<Rightarrow> bool" where
  "inUse now t ip mac clientID =
     (case map_of (lt_leases t) ip of
        None \<Rightarrow> False
      | Some l \<Rightarrow>
          if lease_Expiry l < now then False
          else clientKey (lease_MAC l) (lease_ClientID l) \<noteq> clientKey mac clientID)"

definition expireSweep :: "time \<Rightarrow> leaseTable \<Rightarrow> leaseTable" where
  "expireSweep now t =
     (let kept = filter (\<lambda>(_, l). \<not> lease_Expiry l < now) (lt_leases t);
          removed = (length kept < length (lt_leases t));
          t' = t\<lparr>lt_leases := kept\<rparr>
      in if removed then notify t' else t')"

definition snapshot :: "lease_order \<Rightarrow> time \<Rightarrow> leaseTable \<Rightarrow> lease list" where
  "snapshot ord now t =
     sort_key lease_IP
       (map snd (filter (\<lambda>(_, l). \<not> lease_Expiry l < now) (ord (lt_leases t))))"

fun load_leases :: "lease list \<Rightarrow> (addr, lease) gomap \<Rightarrow> (addr, lease) gomap" where
  "load_leases [] m = m"
| "load_leases (l # ls) m =
     load_leases ls (if IsValid (lease_IP l) then AList.update (lease_IP l) l m else m)"

definition lt_load :: "leaseTable \<Rightarrow> lease list \<Rightarrow> leaseTable" where
  "lt_load t ls = t\<lparr>lt_leases := load_leases ls []\<rparr>"

text \<open>
  The scan of \<open>allocate\<close>: the loop
  \<^verbatim>\<open>for ip := start; ip.IsValid() && !end.Less(ip); ip = ip.Next()\<close> with its two
  \<^verbatim>\<open>continue\<close> guards; the invalid address when it runs out.
\<close>

definition activeAt :: "time \<Rightarrow> leaseTable \<Rightarrow> addr \<Rightarrow> bool" where
  "activeAt now t ip =
     (case map_of (lt_leases t) ip of None \<Rightarrow> False | Some cur \<Rightarrow> \<not> lease_Expiry cur < now)"

function scanFree :: "addr \<Rightarrow> addr \<Rightarrow> (addr \<Rightarrow> bool) \<Rightarrow> (addr \<Rightarrow> bool) \<Rightarrow> addr" where
  "scanFree ip stop skip active =
     (if \<not> IsValid ip \<or> Less stop ip then AddrNone
      else if skip ip then scanFree (Next ip) stop skip active
      else if active ip then scanFree (Next ip) stop skip active
      else ip)"
  by pat_completeness auto
termination
  by (relation "measure (\<lambda>(ip, stop, skip, active).
      if IsValid ip then 2 ^ BitLen ip - addr_val ip else 0)")
    (use addr_val_less Next_val Next_frame in \<open>auto intro!: diff_less_mono2\<close>)

declare scanFree.simps [simp del]

definition allocate ::
  "time \<Rightarrow> leaseTable \<Rightarrow> addr \<Rightarrow> addr \<Rightarrow> (addr \<Rightarrow> bool) \<Rightarrow> lease \<Rightarrow> addr \<times> leaseTable" where
  "allocate now t start stop skip l =
     (let ip = scanFree start stop skip (activeAt now t)
      in if IsValid ip
         then (ip, notify (t\<lparr>lt_leases := AList.update ip (l\<lparr>lease_IP := ip\<rparr>) (lt_leases t)\<rparr>))
         else (AddrNone, t))"

section \<open>Hardware addresses and identifiers\<close>

definition hexDigit :: "nat \<Rightarrow> char" where
  "hexDigit n = ''0123456789abcdef'' ! n"

text \<open>\<^verbatim>\<open>%02x\<close> of one byte.\<close>

definition hexByte :: "u8 \<Rightarrow> string" where
  "hexByte b = [hexDigit (unat b div 16), hexDigit (unat b mod 16)]"

definition EncodeToString :: "bytes \<Rightarrow> string" where
  "EncodeToString bs = concat (map hexByte bs)"

fun hwLoop :: "nat \<Rightarrow> bytes \<Rightarrow> string \<Rightarrow> string" where
  "hwLoop i [] sb = sb"
| "hwLoop i (c # cs) sb = hwLoop (Suc i) cs ((if 0 < i then sb @ '':'' else sb) @ hexByte c)"

definition hwAddrString :: "bytes \<Rightarrow> string" where
  "hwAddrString b = (if length b = 0 then '''' else hwLoop 0 b '''')"

text \<open>\<^verbatim>\<open>net.HardwareAddr.String\<close>.\<close>

fun HardwareAddr_String :: "bytes \<Rightarrow> string" where
  "HardwareAddr_String [] = ''''"
| "HardwareAddr_String [b] = hexByte b"
| "HardwareAddr_String (b # c # bs) = hexByte b @ '':'' @ HardwareAddr_String (c # bs)"

definition u32 :: "bytes \<Rightarrow> u32" where
  "u32 b = (if length b < 4 then 0 else of_nat (be_nat (take 4 b)))"


section \<open>Offsets\<close>

lemma AddrFromSlice_family:
  "IsValid a \<Longrightarrow> length bs = BitLen a div 8 \<Longrightarrow>
     BitLen (AddrFromSlice bs) = BitLen a \<and> addr_val (AddrFromSlice bs) = be_nat bs \<and>
     Zone (AddrFromSlice bs) = [] \<and> IsValid (AddrFromSlice bs)"
  using be_nat_less [of bs]
  by (cases a) (simp_all add: AddrFromSlice_def unat_of_nat)

lemma addrAtOffset_invalid: "prefix_ok p \<Longrightarrow> \<not> PfxIsValid p \<Longrightarrow> addrAtOffset p off = AddrNone"
  by (simp add: addrAtOffset_def PfxIsValid_Masked Contains_def Let_def)

text \<open>The numeric core: adding an offset to a masked base stays in the prefix iff it is
  smaller than the prefix.\<close>

lemma base_plus_offset:
  fixes a off h :: nat
  assumes "a < 2 ^ n" and "h \<le> n"
  shows "off < 2 ^ h \<Longrightarrow> a div 2 ^ h * 2 ^ h + off < 2 ^ n"
    and "(a div 2 ^ h * 2 ^ h + off) div 2 ^ h = a div 2 ^ h \<longleftrightarrow> off < 2 ^ h"
proof -
  have "a div 2 ^ h < 2 ^ (n - h)"
    using assms by (simp add: less_mult_imp_div_less flip: power_add)
  then have "(a div 2 ^ h + 1) * 2 ^ h \<le> 2 ^ (n - h) * 2 ^ h"
    by (intro mult_right_mono) simp_all
  also have "\<dots> = (2::nat) ^ n"
    using assms(2) by (simp flip: power_add)
  finally show "off < 2 ^ h \<Longrightarrow> a div 2 ^ h * 2 ^ h + off < 2 ^ n"
    by (simp add: algebra_simps)
  show "(a div 2 ^ h * 2 ^ h + off) div 2 ^ h = a div 2 ^ h \<longleftrightarrow> off < 2 ^ h"
    by (simp add: div_eq_0_iff)
qed

lemma addrAtOffset_cases:
  assumes ok: "prefix_ok p" and v: "PfxIsValid p"
  shows "unat off < 2 ^ host_bits p \<Longrightarrow>
           IsValid (addrAtOffset p off) \<and> BitLen (addrAtOffset p off) = BitLen (pfx_addr p) \<and>
           Zone (addrAtOffset p off) = [] \<and>
           addr_val (addrAtOffset p off) = addr_val (pfx_addr (Masked p)) + unat off"
    and "\<not> unat off < 2 ^ host_bits p \<Longrightarrow> addrAtOffset p off = AddrNone"
proof -
  let ?b = "pfx_addr (Masked p)"
  let ?v = "addr_val ?b + unat off"
  let ?k = "BitLen (pfx_addr p) div 8"
  have valid: "IsValid ?b"
    using ok v by (simp add: pfx_addr_Masked) (auto simp: prefix_ok_def PfxIsValid_def split: if_splits)
  have bl: "BitLen ?b = BitLen (pfx_addr p)" and h: "host_bits p \<le> BitLen (pfx_addr p)"
    using ok v by (simp_all add: BitLen_Masked host_bits_def)
  have k: "(256::nat) ^ ?k = 2 ^ BitLen (pfx_addr p)"
    by (cases "pfx_addr p") simp_all
  have len: "length (AsSlice ?b) = ?k"
    by (simp add: length_AsSlice bl)
  note num = base_plus_offset [OF addr_val_less h, folded addr_val_Masked [OF ok v], of "unat off"]
  have slice: "length bs = ?k \<Longrightarrow> BitLen (AddrFromSlice bs) = BitLen (pfx_addr p) \<and>
      addr_val (AddrFromSlice bs) = be_nat bs \<and> Zone (AddrFromSlice bs) = [] \<and>
      IsValid (AddrFromSlice bs)" for bs
    using AddrFromSlice_family [OF valid, of bs] bl by simp
  have eq: "addrAtOffset p off =
      (if ?v < 2 ^ BitLen (pfx_addr p)
       then (let a = AddrFromSlice (replicate (?k - length (min_bytes ?v)) 0 @ min_bytes ?v)
             in if unat off < 2 ^ host_bits p then a else AddrNone)
       else AddrNone)"
  proof (cases "?v < 2 ^ BitLen (pfx_addr p)")
    case True
    then have l: "length (min_bytes ?v) \<le> ?k"
      by (simp add: length_min_bytes_le_iff k)
    have "length (replicate (?k - length (min_bytes ?v)) 0 @ min_bytes ?v) = ?k"
      using l by simp
    from slice [OF this] show ?thesis
      using True l ok v num(2)
      by (simp add: addrAtOffset_def Let_def len Contains_Masked Contains_iff)
  next
    case False
    then have "\<not> length (min_bytes ?v) \<le> ?k"
      by (simp add: length_min_bytes_le_iff k)
    then show ?thesis
      using False by (simp add: addrAtOffset_def Let_def len)
  qed
  show "\<not> unat off < 2 ^ host_bits p \<Longrightarrow> addrAtOffset p off = AddrNone"
    by (simp add: eq)
  assume lt: "unat off < 2 ^ host_bits p"
  with num(1) have "?v < 2 ^ BitLen (pfx_addr p)" by simp
  moreover from this have "length (replicate (?k - length (min_bytes ?v)) 0 @ min_bytes ?v) = ?k"
    by (simp add: length_min_bytes_le_iff k flip: k)
  ultimately show "IsValid (addrAtOffset p off) \<and> BitLen (addrAtOffset p off) = BitLen (pfx_addr p) \<and>
      Zone (addrAtOffset p off) = [] \<and>
      addr_val (addrAtOffset p off) = addr_val ?b + unat off"
    using slice lt by (simp add: eq Let_def)
qed

lemma addrAtOffset_valid_iff:
  "prefix_ok p \<Longrightarrow>
     IsValid (addrAtOffset p off) \<longleftrightarrow> PfxIsValid p \<and> unat off < 2 ^ host_bits p"
  by (cases "PfxIsValid p"; cases "unat off < 2 ^ host_bits p")
    (simp_all add: addrAtOffset_cases addrAtOffset_invalid)

lemma addrAtOffset_val:
  assumes "prefix_ok p" and "IsValid (addrAtOffset p off)"
  shows "addr_val (addrAtOffset p off) = addr_val (pfx_addr (Masked p)) + unat off"
    and "BitLen (addrAtOffset p off) = BitLen (pfx_addr p)"
    and "Zone (addrAtOffset p off) = []"
  using assms addrAtOffset_cases(1) [of p off] by (auto simp: addrAtOffset_valid_iff)

lemma addrAtOffset_Contains:
  assumes "prefix_ok p" and "IsValid (addrAtOffset p off)"
  shows "Contains p (addrAtOffset p off)"
  using assms unfolding addrAtOffset_def
  by (auto simp: Let_def Contains_Masked split: if_splits)

lemma addrAtOffset_mono:
  assumes "prefix_ok p" and "IsValid (addrAtOffset p a)" and "IsValid (addrAtOffset p b)"
  shows "addrAtOffset p a \<le> addrAtOffset p b \<longleftrightarrow> unat a \<le> unat b"
  using assms by (auto simp: less_eq_addr_def addrAtOffset_val)

lemma addrAtOffset_inj:
  assumes "prefix_ok p" and "IsValid (addrAtOffset p a)" and "addrAtOffset p a = addrAtOffset p b"
  shows "a = b"
  using assms addrAtOffset_val(1) [of p a] addrAtOffset_val(1) [of p b]
  by (simp add: word_unat_eq_iff)

section \<open>The choice of a static binding\<close>

lemma bindingScore_cases:
  "bindingScore b mac cid = Some n \<longleftrightarrow>
     (\<forall>m. sb_MAC b = Some m \<longrightarrow> EqualFold m mac) \<and>
     (\<forall>c. sb_ClientID b = Some c \<longrightarrow> EqualFold c cid) \<and>
     n = (if sb_MAC b = None then 0 else 1) + (if sb_ClientID b = None then 0 else 1) \<and> 0 < n"
  by (cases "sb_MAC b"; cases "sb_ClientID b") (auto simp: bindingScore_def Let_def)

text \<open>\<open>beaten b s x n\<close>: the candidate \<open>x\<close> of score \<open>n\<close> does not lose against \<open>b\<close> of score \<open>s\<close>.\<close>

definition beaten :: "static_binding \<Rightarrow> nat \<Rightarrow> static_binding \<Rightarrow> nat \<Rightarrow> bool" where
  "beaten b s x n \<longleftrightarrow> s < n \<or> s = n \<and> sb_Order b \<le> sb_Order x"

lemma beaten_trans: "beaten a r b s \<Longrightarrow> beaten b s c t \<Longrightarrow> beaten a r c t"
  by (auto simp: beaten_def)

lemma beaten_refl [simp]: "beaten a s a s"
  by (simp add: beaten_def)

lemma matchLoop_None:
  "matchLoop bs mac cid best k = None \<longleftrightarrow>
     best = None \<and> (\<forall>b \<in> set bs. bindingScore b mac cid = None)"
  by (induction bs arbitrary: best k) (auto split: option.splits)

lemma matchLoop_Some:
  assumes "matchLoop bs mac cid best k = Some x"
    and "\<And>be. best = Some be \<Longrightarrow> bindingScore be mac cid = Some k"
  shows "\<exists>n. bindingScore x mac cid = Some n \<and> (x \<in> set bs \<or> best = Some x) \<and>
           (\<forall>be. best = Some be \<longrightarrow> beaten be k x n) \<and>
           (\<forall>b \<in> set bs. \<forall>s. bindingScore b mac cid = Some s \<longrightarrow> beaten b s x n)"
  using assms
proof (induction bs arbitrary: best k)
  case Nil
  then show ?case by auto
next
  case (Cons b bs)
  show ?case
  proof (cases "bindingScore b mac cid")
    case None
    with Cons.prems have "matchLoop bs mac cid best k = Some x" by simp
    from Cons.IH [OF this Cons.prems(2)] None show ?thesis by auto
  next
    case (Some s)
    show ?thesis
    proof (cases "case best of None \<Rightarrow> True
        | Some be \<Rightarrow> k < s \<or> s = k \<and> sb_Order be < sb_Order b")
      case True
      with Cons.prems Some have "matchLoop bs mac cid (Some b) s = Some x" by simp
      from Cons.IH [OF this] Some obtain n where n:
        "bindingScore x mac cid = Some n" "x \<in> set bs \<or> b = x" "beaten b s x n"
        "\<forall>b \<in> set bs. \<forall>s. bindingScore b mac cid = Some s \<longrightarrow> beaten b s x n"
        by auto
      moreover
      have "best = Some be \<Longrightarrow> beaten be k b s" for be
        using True by (auto simp: beaten_def)
      then have "\<forall>be. best = Some be \<longrightarrow> beaten be k x n"
        using beaten_trans n(3) by blast
      ultimately show ?thesis
        using Some by auto
    next
      case False
      then obtain be where be: "best = Some be"
        by (auto split: option.splits)
      with False have lose: "beaten b s be k"
        by (auto simp: beaten_def)
      from False Cons.prems Some be have "matchLoop bs mac cid best k = Some x"
        by (simp split: if_splits)
      from Cons.IH [OF this Cons.prems(2)] obtain n where n:
        "bindingScore x mac cid = Some n" "x \<in> set bs \<or> best = Some x"
        "\<forall>be. best = Some be \<longrightarrow> beaten be k x n"
        "\<forall>b \<in> set bs. \<forall>s. bindingScore b mac cid = Some s \<longrightarrow> beaten b s x n"
        by blast
      moreover have "beaten b s x n"
        using beaten_trans [OF lose] n(3) be by blast
      ultimately show ?thesis
        using Some by auto
    qed
  qed
qed

lemma matchBinding_mem: "matchBinding bs mac cid = Some x \<Longrightarrow> x \<in> set bs"
  using matchLoop_Some [of bs mac cid None 0 x] by (auto simp: matchBinding_def)

section \<open>Replacement sets\<close>

lemma buildLoop_Inr_iff:
  "(\<exists>m'. buildLoop bs m = Inr m') \<longleftrightarrow>
     (\<forall>b \<in> set bs. sb_ID b \<noteq> '''' \<and> validate b = None \<and> map_of m (sb_ID b) = None) \<and>
     distinct (map sb_ID bs)"
proof (induction bs arbitrary: m)
  case Nil
  then show ?case by simp
next
  case (Cons b bs)
  show ?case
  proof (cases "sb_ID b = [] \<or> validate b \<noteq> None \<or> map_of m (sb_ID b) \<noteq> None")
    case True
    then show ?thesis by (auto split: option.splits)
  next
    case False
    then have "buildLoop (b # bs) m = buildLoop bs (AList.update (sb_ID b) b m)"
      by simp
    with False show ?thesis
      by (auto simp: Cons.IH update_conv' image_iff)
  qed
qed

lemma buildLoop_lookup:
  assumes "buildLoop bs m = Inr m'" and "gomap_ok m"
  shows "gomap_ok m' \<and> map_of m' = map_of m ++ map_of (keyed sb_ID bs)"
  using assms
proof (induction bs arbitrary: m)
  case Nil
  then show ?case by simp
next
  case (Cons b bs)
  then have rec: "buildLoop bs (AList.update (sb_ID b) b m) = Inr m'"
    by (auto split: if_splits option.splits)
  have "\<exists>m''. buildLoop (b # bs) m = Inr m''" using Cons.prems(1) by blast
  then have "map_of (keyed sb_ID bs) (sb_ID b) = None"
    by (simp only: buildLoop_Inr_iff) simp
  with Cons.IH [OF rec] Cons.prems(2) show ?case
    by (auto simp: distinct_update update_conv' map_add_def fun_eq_iff
        simp del: map_of_keyed_None split: option.splits)
qed

section \<open>The lease table\<close>

text \<open>
  The table's invariant: keys are distinct and every lease is stored under its own address.
\<close>

definition lt_ok :: "leaseTable \<Rightarrow> bool" where
  "lt_ok t \<longleftrightarrow> gomap_ok (lt_leases t) \<and> (\<forall>(ip, l) \<in> set (lt_leases t). lease_IP l = ip)"

abbreviation lt_lookup :: "leaseTable \<Rightarrow> addr \<Rightarrow> lease option" where
  "lt_lookup t ip \<equiv> map_of (lt_leases t) ip"

abbreviation leaseKey :: "lease \<Rightarrow> string" where
  "leaseKey l \<equiv> clientKey (lease_MAC l) (lease_ClientID l)"

lemma lt_leases_notify [simp]: "lt_leases (notify t) = lt_leases t"
  and lt_changed_notify [simp]: "lt_changed (notify t) = lt_changed t"
  by (simp_all add: notify_def)

lemma lt_ok_new [simp]: "lt_ok newLeaseTable"
  by (simp add: lt_ok_def newLeaseTable_def)

lemma lt_ok_notify [simp]: "lt_ok (notify t) = lt_ok t"
  by (simp add: lt_ok_def)

lemma lt_ok_lookup: "lt_ok t \<Longrightarrow> lt_lookup t ip = Some l \<Longrightarrow> lease_IP l = ip"
  by (auto simp: lt_ok_def dest!: map_of_SomeD)

lemma set_update_alist: "set (AList.update k v m) \<subseteq> insert (k, v) (set m)"
  by (induction m) auto

lemma lt_ok_update:
  "lt_ok t \<Longrightarrow> lease_IP l = ip \<Longrightarrow> lt_ok (t\<lparr>lt_leases := AList.update ip l (lt_leases t)\<rparr>)"
  using set_update_alist [of ip l "lt_leases t"]
  by (fastforce simp: lt_ok_def distinct_update)

lemma lt_ok_set: "lt_ok t \<Longrightarrow> lt_ok (lt_set t l)"
  by (simp add: lt_set_def lt_ok_update)

lemma lt_lookup_set: "lt_lookup (lt_set t l) ip = (if ip = lease_IP l then Some l else lt_lookup t ip)"
  by (simp add: lt_set_def update_conv')

lemma lt_ok_release: "lt_ok t \<Longrightarrow> lt_ok (snd (lt_release t ip))"
  by (auto simp: lt_release_def lt_ok_def AList.delete_eq gomap_ok_filter)

lemma lt_lookup_release:
  "lt_lookup (snd (lt_release t ip)) x = (if x = ip then None else lt_lookup t x)"
  by (simp add: lt_release_def delete_conv')

lemma fst_lt_release: "fst (lt_release t ip) \<longleftrightarrow> lt_lookup t ip \<noteq> None"
  by (simp add: lt_release_def)

lemma inUse_iff:
  "inUse now t ip mac cid \<longleftrightarrow>
     (\<exists>l. lt_lookup t ip = Some l \<and> now \<le> lease_Expiry l \<and> leaseKey l \<noteq> clientKey mac cid)"
  by (auto simp: inUse_def split: option.splits)

lemma activeAt_iff: "activeAt now t ip \<longleftrightarrow> (\<exists>l. lt_lookup t ip = Some l \<and> now \<le> lease_Expiry l)"
  by (auto simp: activeAt_def split: option.splits)

lemma lt_leases_sweep:
  "lt_leases (expireSweep now t) = filter (\<lambda>(_, l). \<not> lease_Expiry l < now) (lt_leases t)"
  by (simp add: expireSweep_def Let_def)

lemma lt_ok_sweep: "lt_ok t \<Longrightarrow> lt_ok (expireSweep now t)"
  by (auto simp: lt_ok_def lt_leases_sweep gomap_ok_filter)

lemma lt_lookup_sweep:
  "lt_ok t \<Longrightarrow> lt_lookup (expireSweep now t) ip =
     (case lt_lookup t ip of
        None \<Rightarrow> None | Some l \<Rightarrow> if lease_Expiry l < now then None else Some l)"
  by (auto simp: lt_leases_sweep map_of_filter_gomap lt_ok_def split: option.splits)

lemma byClient_Some:
  assumes "go_order ord" and "lt_ok t" and "byClient ord now t mac cid = Some l"
  shows "lt_lookup t (lease_IP l) = Some l \<and> now \<le> lease_Expiry l \<and> leaseKey l = clientKey mac cid"
proof -
  from assms(3) obtain ip where f: "find (\<lambda>(_, l). leaseKey l = clientKey mac cid \<and>
      \<not> lease_Expiry l < now) (ord (lt_leases t)) = Some (ip, l)"
    by (auto simp: byClient_def Let_def)
  then obtain i where "i < length (ord (lt_leases t))" "ord (lt_leases t) ! i = (ip, l)"
    and p: "leaseKey l = clientKey mac cid" "now \<le> lease_Expiry l"
    by (auto simp: find_Some_iff)
  then have "(ip, l) \<in> set (lt_leases t)"
    by (metis assms(1) go_order_set nth_mem)
  with assms(2) p show ?thesis by (auto simp: lt_ok_def)
qed

lemma byClient_None:
  assumes "go_order ord" and "lt_ok t"
  shows "byClient ord now t mac cid = None \<longleftrightarrow>
    (\<forall>ip l. lt_lookup t ip = Some l \<longrightarrow> now \<le> lease_Expiry l \<longrightarrow> leaseKey l \<noteq> clientKey mac cid)"
proof -
  have "byClient ord now t mac cid = None \<longleftrightarrow>
      (\<forall>(ip, l) \<in> set (lt_leases t). \<not> (leaseKey l = clientKey mac cid \<and> \<not> lease_Expiry l < now))"
    using go_order_set [OF assms(1)] by (auto simp: byClient_def Let_def find_None_iff)
  also have "\<dots> \<longleftrightarrow>
    (\<forall>ip l. lt_lookup t ip = Some l \<longrightarrow> now \<le> lease_Expiry l \<longrightarrow> leaseKey l \<noteq> clientKey mac cid)"
    using assms(2) by (force simp: lt_ok_def not_less)
  finally show ?thesis .
qed

subsection \<open>Snapshot and reload\<close>

lemma active_leases_snd:
  assumes "lt_ok t"
  shows "map lease_IP (map snd (filter P (lt_leases t))) = map fst (filter P (lt_leases t))"
  using assms by (auto simp: lt_ok_def)

lemma mset_snapshot:
  assumes "go_order ord"
  shows "mset (snapshot ord now t) =
    mset (map snd (filter (\<lambda>(_, l). \<not> lease_Expiry l < now) (lt_leases t)))"
  using assms by (simp add: snapshot_def go_order_def mset_filter)

lemma distinct_snapshot_IP:
  assumes "go_order ord" and "lt_ok t"
  shows "distinct (map lease_IP (snapshot ord now t))"
proof -
  let ?act = "filter (\<lambda>(_, l). \<not> lease_Expiry l < now) (lt_leases t)"
  have "mset (map lease_IP (snapshot ord now t)) = mset (map lease_IP (map snd ?act))"
    by (simp only: mset_map mset_snapshot [OF assms(1)])
  also have "\<dots> = mset (map fst ?act)"
    by (simp only: active_leases_snd [OF assms(2)])
  finally show ?thesis
    using assms(2) mset_eq_imp_distinct_iff gomap_ok_filter unfolding lt_ok_def by metis
qed

lemma sorted_snapshot: "sorted (map lease_IP (snapshot ord now t))"
  by (simp add: snapshot_def)

lemma set_snapshot:
  assumes "go_order ord" and "lt_ok t"
  shows "l \<in> set (snapshot ord now t) \<longleftrightarrow> lt_lookup t (lease_IP l) = Some l \<and> now \<le> lease_Expiry l"
proof -
  have "l \<in> set (snapshot ord now t) \<longleftrightarrow> (\<exists>ip. (ip, l) \<in> set (lt_leases t)) \<and> \<not> lease_Expiry l < now"
    using mset_snapshot [OF assms(1), of now t, THEN mset_eq_setD] by force
  with assms(2) show ?thesis by (auto simp: lt_ok_def)
qed

lemma load_leases_lookup:
  assumes "distinct (map lease_IP ls)" and "\<forall>l \<in> set ls. IsValid (lease_IP l)"
  shows "map_of (load_leases ls m) = map_of m ++ map_of (keyed lease_IP ls)"
  using assms
proof (induction ls arbitrary: m)
  case Nil
  then show ?case by simp
next
  case (Cons l ls)
  then have "map_of (keyed lease_IP ls) (lease_IP l) = None"
    by simp
  with Cons show ?case
    by (auto simp: update_conv' map_add_def fun_eq_iff simp del: map_of_keyed_None
        split: option.splits)
qed

lemma lt_ok_load: "lt_ok (lt_load t ls)"
proof -
  have "gomap_ok m \<Longrightarrow> (\<forall>(ip, l) \<in> set m. lease_IP l = ip) \<Longrightarrow>
      gomap_ok (load_leases ls m) \<and> (\<forall>(ip, l) \<in> set (load_leases ls m). lease_IP l = ip)" for m
  proof (induction ls arbitrary: m)
    case Nil
    then show ?case by simp
  next
    case (Cons l ls)
    then have "\<forall>(ip, x) \<in> set (AList.update (lease_IP l) l m). lease_IP x = ip"
      using set_update_alist [of "lease_IP l" l m] by fastforce
    with Cons.prems have "gomap_ok (AList.update (lease_IP l) l m)"
      and "\<forall>(ip, x) \<in> set (AList.update (lease_IP l) l m). lease_IP x = ip"
      by (simp_all add: distinct_update)
    from Cons.IH [OF this] Cons.IH [OF Cons.prems] show ?case by simp
  qed
  from this [of "[]"] show ?thesis by (simp add: lt_ok_def lt_load_def)
qed

lemma lookup_load_snapshot:
  assumes "go_order ord" and "lt_ok t" and "\<forall>ip \<in> dom (map_of (lt_leases t)). IsValid ip"
  shows "map_of (lt_leases (lt_load t0 (snapshot ord now t))) ip =
    (case map_of (lt_leases t) ip of
       None \<Rightarrow> None | Some l \<Rightarrow> if lease_Expiry l < now then None else Some l)"
proof -
  let ?s = "snapshot ord now t"
  have d: "distinct (map lease_IP ?s)" using assms(1,2) by (rule distinct_snapshot_IP)
  have v: "\<forall>l \<in> set ?s. IsValid (lease_IP l)"
    using assms(3) by (auto simp: set_snapshot [OF assms(1,2)])
  have "map_of (lt_leases (lt_load t0 ?s)) = map_of (keyed lease_IP ?s)"
    by (simp add: lt_load_def load_leases_lookup [OF d v])
  moreover have "map_of (keyed lease_IP ?s) ip = (case map_of (lt_leases t) ip of
          None \<Rightarrow> None | Some l \<Rightarrow> if lease_Expiry l < now then None else Some l)" for ip
    by (rule option_eqI)
      (auto simp: map_of_keyed_Some [OF d] set_snapshot [OF assms(1,2)] not_less
        dest: lt_ok_lookup [OF assms(2)] split: option.splits if_splits)
  ultimately show ?thesis by simp
qed

subsection \<open>Allocation\<close>

text \<open>\<open>kin a b\<close>: two zone-free addresses of one family, which the order compares by value.\<close>

definition kin :: "addr \<Rightarrow> addr \<Rightarrow> bool" where
  "kin a b \<longleftrightarrow> BitLen a = BitLen b \<and> Zone a = [] \<and> Zone b = []"

lemma kin_le: "kin a b \<Longrightarrow> a \<le> b \<longleftrightarrow> addr_val a \<le> addr_val b"
  and kin_less: "kin a b \<Longrightarrow> a < b \<longleftrightarrow> addr_val a < addr_val b"
  by (auto simp: kin_def less_eq_addr_def less_addr_iff)

lemma kin_eq: "kin a b \<Longrightarrow> a = b \<longleftrightarrow> addr_val a = addr_val b"
  by (auto simp: kin_def intro: addr_eqI)

lemma kin_Next: "kin a b \<Longrightarrow> IsValid (Next a) \<Longrightarrow> kin (Next a) b"
  using Next_frame [of a] by (simp add: kin_def)

lemma kin_valid: "kin a b \<Longrightarrow> IsValid a = IsValid b"
  using BitLen_0_iff [of a] BitLen_0_iff [of b] by (simp add: kin_def)

lemma kin_sym: "kin a b \<Longrightarrow> kin b a"
  by (simp add: kin_def)

lemma kin_trans: "kin a b \<Longrightarrow> kin b c \<Longrightarrow> kin a c"
  by (simp add: kin_def)

text \<open>The scan returns the least address of the range that is neither skipped nor leased,
  and the invalid address exactly when there is none.\<close>

lemma scanFree_step:
  "IsValid ip \<Longrightarrow> \<not> Less stop ip \<Longrightarrow> skip ip \<or> active ip \<Longrightarrow>
     scanFree ip stop skip active = scanFree (Next ip) stop skip active"
  by (auto simp: scanFree.simps [of ip])

lemma scanFree_invalid [simp]: "\<not> IsValid ip \<Longrightarrow> scanFree ip stop skip active = AddrNone"
  by (simp add: scanFree.simps)

lemma scanFree_least:
  assumes "kin ip stop"
  shows "(let r = scanFree ip stop skip active
          in (IsValid r \<longrightarrow> kin r stop \<and> ip \<le> r \<and> r \<le> stop \<and> \<not> skip r \<and> \<not> active r) \<and>
             (\<forall>a. kin a stop \<longrightarrow> IsValid a \<longrightarrow> ip \<le> a \<longrightarrow> a \<le> stop \<longrightarrow> (IsValid r \<longrightarrow> a < r) \<longrightarrow>
                skip a \<or> active a))"
  using assms
proof (induction ip stop skip active rule: scanFree.induct)
  case (1 ip stop skip active)
  let ?r = "scanFree ip stop skip active"
  show ?case
  proof (cases "IsValid ip \<and> \<not> Less stop ip \<and> (skip ip \<or> active ip)")
    case False
    then show ?thesis
      using "1.prems" kin_valid [of ip stop] kin_valid [of _ stop]
      by (auto simp: scanFree.simps [of ip] Let_def not_less)
  next
    case True
    then have r: "?r = scanFree (Next ip) stop skip active"
      by (simp add: scanFree_step)
    have here: "a = ip \<or> IsValid (Next ip) \<and> Next ip \<le> a"
      if "kin a stop" "IsValid a" "ip \<le> a" for a
    proof -
      have k: "kin ip a" using "1.prems" that(1) by (simp add: kin_def)
      show ?thesis
      proof (cases "IsValid (Next ip)")
        case valid: True
        have "kin (Next ip) a" using kin_Next [OF k valid] .
        then show ?thesis
          using that(3) valid k Next_val [OF valid] kin_eq [OF k]
          by (cases "addr_val ip = addr_val a") (auto simp: kin_le)
      next
        case False
        have "addr_val a < 2 ^ BitLen ip"
          using addr_val_less [of a] k by (simp add: kin_def)
        then have "addr_val a = addr_val ip"
          using Next_invalid [of ip] True False that(3) k by (simp add: kin_le)
        with kin_eq [OF k] show ?thesis by simp
      qed
    qed
    show ?thesis
    proof (cases "IsValid (Next ip)")
      case False
      then have "\<not> IsValid ?r" by (simp add: r)
      with here False True show ?thesis by (auto simp: Let_def)
    next
      case valid: True
      have kn: "kin (Next ip) stop" using kin_Next [OF "1.prems" valid] .
      have le: "ip \<le> Next ip"
        using Next_val [OF valid] Next_frame [OF valid] "1.prems" by (simp add: less_eq_addr_def kin_def)
      have "let r = ?r
          in (IsValid r \<longrightarrow> kin r stop \<and> Next ip \<le> r \<and> r \<le> stop \<and> \<not> skip r \<and> \<not> active r) \<and>
             (\<forall>a. kin a stop \<longrightarrow> IsValid a \<longrightarrow> Next ip \<le> a \<longrightarrow> a \<le> stop \<longrightarrow> (IsValid r \<longrightarrow> a < r) \<longrightarrow>
                skip a \<or> active a)"
        unfolding r using True kn "1.IH" by (cases "skip ip") auto
      with here True le show ?thesis
        by (auto simp: Let_def intro: order_trans)
    qed
  qed
qed

lemma lt_ok_allocate: "lt_ok t \<Longrightarrow> lt_ok (snd (allocate now t start stop skip l))"
  by (simp add: allocate_def Let_def lt_ok_update)

lemma allocate_lookup:
  assumes "allocate now t start stop skip l = (ip, t')"
  shows "IsValid ip \<Longrightarrow> lt_lookup t' = (lt_lookup t)(ip \<mapsto> l\<lparr>lease_IP := ip\<rparr>)"
    and "\<not> IsValid ip \<Longrightarrow> t' = t \<and> ip = AddrNone"
  using assms by (auto simp: allocate_def Let_def update_conv' split: if_splits)

lemma fst_allocate: "fst (allocate now t start stop skip l) = scanFree start stop skip (activeAt now t)"
  by (cases "scanFree start stop skip (activeAt now t)") (auto simp: allocate_def Let_def)

section \<open>Client keys and hardware addresses\<close>

lemma append_sep_inj:
  assumes "c \<notin> set xs" and "c \<notin> set xs'"
  shows "xs @ c # ys = xs' @ c # ys' \<longleftrightarrow> xs = xs' \<and> ys = ys'"
  using assms
proof (induction xs arbitrary: xs')
  case Nil
  then show ?case by (cases xs') auto
next
  case (Cons a xs)
  then show ?case by (cases xs') auto
qed

lemma of_char_to_lower:
  "(of_char (to_lower c) :: nat) =
     (if 65 \<le> (of_char c :: nat) \<and> (of_char c :: nat) \<le> 90 then of_char c + 32 else of_char c)"
  by (auto simp: to_lower_def Let_def take_bit_nat_eq_self)

lemma to_lower_slash: "to_lower c = CHR ''/'' \<longleftrightarrow> c = CHR ''/''"
proof -
  have s: "(of_char (CHR ''/'') :: nat) = 47" by simp
  have "to_lower c = CHR ''/'' \<longleftrightarrow> (of_char (to_lower c) :: nat) = 47"
    using of_char_eq_iff [of "to_lower c" "CHR ''/''", where ?'a = nat] unfolding s by simp
  also have "\<dots> \<longleftrightarrow> (of_char c :: nat) = 47"
    by (simp add: of_char_to_lower)
  also have "\<dots> \<longleftrightarrow> c = CHR ''/''"
    using of_char_eq_iff [of c "CHR ''/''", where ?'a = nat] unfolding s by simp
  finally show ?thesis .
qed

lemma slash_ToLower: "CHR ''/'' \<in> set (ToLower s) \<longleftrightarrow> CHR ''/'' \<in> set s"
  unfolding ToLower_def set_map image_iff using to_lower_slash by metis

text \<open>Two clients have the same key only if MAC and client identifier agree up to case.\<close>

lemma clientKey_inj:
  assumes "CHR ''/'' \<notin> set mac" and "CHR ''/'' \<notin> set mac'"
  shows "clientKey mac cid = clientKey mac' cid' \<longleftrightarrow> EqualFold mac mac' \<and> EqualFold cid cid'"
  using assms by (simp add: clientKey_def EqualFold_def append_sep_inj slash_ToLower)

lemma hwLoop_append: "hwLoop (Suc i) bs (sb @ hexByte b) = sb @ HardwareAddr_String (b # bs)"
  by (induction bs arbitrary: i sb b)
    (simp_all add: append_assoc [symmetric] del: append_assoc)

lemma hwAddrString_eq: "hwAddrString b = HardwareAddr_String b"
  using hwLoop_append [of 0 _ "[]"] by (cases b) (simp_all add: hwAddrString_def)

section \<open>The contract of the lease table\<close>

text \<open>
  \<open>granted now m m' ip key\<close>: between the tables \<open>m\<close> and \<open>m'\<close> the address \<open>ip\<close> was booked for
  the client \<open>key\<close>: no unexpired lease of another client was overwritten, \<open>ip\<close> now carries a
  lease of the client under its own address, and nothing else changed.
\<close>

definition granted ::
  "time \<Rightarrow> (addr \<rightharpoonup> lease) \<Rightarrow> (addr \<rightharpoonup> lease) \<Rightarrow> addr \<Rightarrow> string \<Rightarrow> bool" where
  "granted now m m' ip key \<longleftrightarrow>
     (\<forall>l. m ip = Some l \<longrightarrow> now \<le> lease_Expiry l \<longrightarrow> leaseKey l = key) \<and>
     (\<exists>l. m' = m(ip \<mapsto> l) \<and> lease_IP l = ip \<and> leaseKey l = key)"

locale lease_store =
  fixes lookup :: "'t \<Rightarrow> addr \<Rightarrow> lease option"
    and put :: "'t \<Rightarrow> lease \<Rightarrow> 't"
    and remove :: "'t \<Rightarrow> addr \<Rightarrow> 't"
    and used :: "time \<Rightarrow> 't \<Rightarrow> addr \<Rightarrow> string \<Rightarrow> string \<Rightarrow> bool"
    and own :: "lease_order \<Rightarrow> time \<Rightarrow> 't \<Rightarrow> string \<Rightarrow> string \<Rightarrow> lease option"
    and alloc :: "time \<Rightarrow> 't \<Rightarrow> addr \<Rightarrow> addr \<Rightarrow> (addr \<Rightarrow> bool) \<Rightarrow> lease \<Rightarrow> addr \<times> 't"
    and invar :: "'t \<Rightarrow> bool"
  assumes lookup_put: "lookup (put t l) = (lookup t)(lease_IP l \<mapsto> l)"
    and lookup_remove: "lookup (remove t ip) = (lookup t)(ip := None)"
    and used_iff: "used now t ip mac cid \<longleftrightarrow>
      (\<exists>l. lookup t ip = Some l \<and> now \<le> lease_Expiry l \<and> leaseKey l \<noteq> clientKey mac cid)"
    and own_Some: "go_order ord \<Longrightarrow> invar t \<Longrightarrow> own ord now t mac cid = Some l \<Longrightarrow>
      lookup t (lease_IP l) = Some l \<and> now \<le> lease_Expiry l \<and> leaseKey l = clientKey mac cid"
    and alloc_some: "alloc now t start stop skip l = (ip, t') \<Longrightarrow> IsValid ip \<Longrightarrow>
      lookup t' = (lookup t)(ip \<mapsto> l\<lparr>lease_IP := ip\<rparr>) \<and> \<not> skip ip \<and>
      (\<forall>c. lookup t ip = Some c \<longrightarrow> lease_Expiry c < now)"
    and alloc_none: "alloc now t start stop skip l = (ip, t') \<Longrightarrow> \<not> IsValid ip \<Longrightarrow> t' = t"
    and invar_put: "invar t \<Longrightarrow> invar (put t l)"
    and invar_remove: "invar t \<Longrightarrow> invar (remove t ip)"
    and invar_alloc: "invar t \<Longrightarrow> alloc now t start stop skip l = (ip, t') \<Longrightarrow> invar t'"
begin

lemma put_granted:
  "\<not> used now t (lease_IP l) mac cid \<Longrightarrow> leaseKey l = clientKey mac cid \<Longrightarrow>
     granted now (lookup t) (lookup (put t l)) (lease_IP l) (clientKey mac cid)"
  by (auto simp: granted_def lookup_put used_iff)

lemma renew_granted:
  assumes "go_order ord" and "invar t" and "own ord now t mac cid = Some c"
    and "lease_IP l = lease_IP c" and "leaseKey l = clientKey mac cid"
  shows "granted now (lookup t) (lookup (put t l)) (lease_IP c) (clientKey mac cid)"
  using own_Some [OF assms(1-3)] assms(4,5) by (auto simp: granted_def lookup_put)

lemma alloc_granted:
  assumes "alloc now t start stop skip l = (ip, t')" and "IsValid ip"
    and "leaseKey l = clientKey mac cid"
  shows "granted now (lookup t) (lookup t') ip (clientKey mac cid)"
  using alloc_some [OF assms(1,2)] assms(3) by (force simp: granted_def)

end

lemma allocate_some:
  assumes "allocate now t start stop skip l = (ip, t')" and "IsValid ip"
  shows "\<not> skip ip \<and> \<not> activeAt now t ip"
proof -
  have free: "IsValid (scanFree a stop skip act) \<Longrightarrow>
      \<not> skip (scanFree a stop skip act) \<and> \<not> act (scanFree a stop skip act)" for a act
  proof (induction a stop skip act rule: scanFree.induct)
    case (1 ip stop skip act)
    then show ?case by (auto simp: scanFree.simps [of ip] split: if_splits)
  qed
  have "ip = scanFree start stop skip (activeAt now t)"
    using fst_allocate [of now t start stop skip l] assms(1) by simp
  with free [of start "activeAt now t"] assms(2) show ?thesis by simp
qed

interpretation lt: lease_store lt_lookup lt_set "\<lambda>t ip. snd (lt_release t ip)"
    inUse byClient allocate lt_ok
proof
  show "lt_lookup (lt_set t l) = (lt_lookup t)(lease_IP l \<mapsto> l)" for t l
    by (auto simp: lt_lookup_set)
  show "lt_lookup (snd (lt_release t ip)) = (lt_lookup t)(ip := None)" for t ip
    by (auto simp: lt_lookup_release)
  show "inUse now t ip mac cid \<longleftrightarrow>
      (\<exists>l. lt_lookup t ip = Some l \<and> now \<le> lease_Expiry l \<and> leaseKey l \<noteq> clientKey mac cid)"
    for now t ip mac cid
    by (rule inUse_iff)
  show "lt_lookup t' = (lt_lookup t)(ip \<mapsto> l\<lparr>lease_IP := ip\<rparr>) \<and> \<not> skip ip \<and>
      (\<forall>c. lt_lookup t ip = Some c \<longrightarrow> lease_Expiry c < now)"
    if "allocate now t start stop skip l = (ip, t')" "IsValid ip" for now t start stop skip l ip t'
    using allocate_lookup(1) [OF that] allocate_some [OF that] by (auto simp: activeAt_iff not_le)
  show "t' = t" if "allocate now t start stop skip l = (ip, t')" "\<not> IsValid ip"
    for now t start stop skip l ip t'
    using allocate_lookup(2) [OF that] by simp
  show "lt_ok t'" if "lt_ok t" "allocate now t start stop skip l = (ip, t')"
    for now t start stop skip l ip t'
    using lt_ok_allocate [OF that(1), of now start stop skip l] that(2) by simp
qed (simp_all add: byClient_Some lt_ok_set lt_ok_release)

section \<open>The contract of the static-binding operations\<close>

text \<open>
  Both DHCP servers keep their static bindings in a map and offer the same four operations
  to the control API. \<open>statics_ok\<close> is their common invariant: every stored binding is valid
  and stored under its own non-empty identifier.
\<close>

definition statics_ok :: "(string, static_binding) gomap \<Rightarrow> bool" where
  "statics_ok m \<longleftrightarrow> gomap_ok m \<and>
     (\<forall>(key, b) \<in> set m. sb_ID b = key \<and> key \<noteq> '''' \<and> validate b = None)"

lemma statics_ok_Nil [simp]: "statics_ok []"
  by (simp add: statics_ok_def)

lemma statics_ok_update:
  "statics_ok m \<Longrightarrow> sb_ID b \<noteq> '''' \<Longrightarrow> validate b = None \<Longrightarrow>
     statics_ok (AList.update (sb_ID b) b m)"
  using set_update_alist [of "sb_ID b" b m] by (fastforce simp: statics_ok_def distinct_update)

lemma statics_ok_delete: "statics_ok m \<Longrightarrow> statics_ok (AList.delete key m)"
  by (auto simp: statics_ok_def AList.delete_eq gomap_ok_filter)

lemma buildStaticSet_lookup:
  assumes "buildStaticSet bs = Inr m"
  shows "gomap_ok m" and "map_of m key = Some b \<longleftrightarrow> b \<in> set bs \<and> sb_ID b = key"
    and "\<forall>b \<in> set bs. sb_ID b \<noteq> '''' \<and> validate b = None"
proof -
  have m: "buildLoop bs [] = Inr m" using assms by (simp add: buildStaticSet_def)
  then have "\<exists>m. buildLoop bs [] = Inr m" by blast
  then show c: "\<forall>b \<in> set bs. sb_ID b \<noteq> '''' \<and> validate b = None"
    and "map_of m key = Some b \<longleftrightarrow> b \<in> set bs \<and> sb_ID b = key"
    using buildLoop_lookup [OF m] by (auto simp: buildLoop_Inr_iff map_of_keyed_Some)
  show "gomap_ok m" using buildLoop_lookup [OF m] by simp
qed

lemma statics_ok_build: "buildStaticSet bs = Inr m \<Longrightarrow> statics_ok m"
  using buildStaticSet_lookup [of bs m] by (fastforce simp: statics_ok_def)

text \<open>Listing the bindings and building a set from the list gives the same map again.\<close>

lemma buildStaticSet_listing:
  assumes "statics_ok m" and "mset bs = mset (map snd m)"
  shows "\<exists>m'. buildStaticSet bs = Inr m' \<and> map_of m' = map_of m"
proof -
  have ids: "map sb_ID (map snd m) = map fst m"
    using assms(1) by (auto simp: statics_ok_def)
  have s: "set bs = snd ` set m" using assms(2) by (metis mset_eq_setD list.set_map)
  have "\<forall>b \<in> set bs. sb_ID b \<noteq> '''' \<and> validate b = None"
    using assms(1) unfolding s by (auto simp: statics_ok_def)
  moreover have "distinct (map sb_ID bs)"
    using assms ids by (metis mset_map mset_eq_imp_distinct_iff statics_ok_def)
  ultimately obtain m' where m': "buildLoop bs [] = Inr m'" using buildLoop_Inr_iff [of bs "[]"] by auto
  have k: "map_of m' i = Some b \<longleftrightarrow> b \<in> set bs \<and> sb_ID b = i" for i b
    using buildStaticSet_lookup(2) [of bs m'] m' by (simp add: buildStaticSet_def)
  have "map_of m i = Some b \<longleftrightarrow> b \<in> set bs \<and> sb_ID b = i" for i b
    using assms(1) unfolding s statics_ok_def by (force simp: image_iff)
  then have "map_of m' i = map_of m i" for i by (intro option_eqI) (simp add: k)
  then show ?thesis using m' by (auto simp: buildStaticSet_def)
qed

locale static_store =
  fixes statics :: "'s \<Rightarrow> (string, static_binding) gomap"
    and put :: "'s \<Rightarrow> static_binding \<Rightarrow> server_err + 's"
    and replace :: "'s \<Rightarrow> static_binding list \<Rightarrow> server_err + 's"
    and remove :: "'s \<Rightarrow> string \<Rightarrow> server_err + 's"
  assumes put_Inr: "put s b = Inr s' \<Longrightarrow>
      sb_ID b \<noteq> '''' \<and> validate b = None \<and> statics s' = AList.update (sb_ID b) b (statics s)"
    and put_total: "sb_ID b \<noteq> '''' \<Longrightarrow> validate b = None \<Longrightarrow> \<exists>s'. put s b = Inr s'"
    and replace_Inr: "replace s bs = Inr s' \<Longrightarrow> buildStaticSet bs = Inr (statics s')"
    and replace_Inl: "replace s bs = Inl e \<Longrightarrow> buildStaticSet bs = Inl e"
    and remove_Inr: "remove s key = Inr s' \<Longrightarrow>
      map_of (statics s) key \<noteq> None \<and> statics s' = AList.delete key (statics s)"
    and remove_total: "map_of (statics s) key \<noteq> None \<Longrightarrow> \<exists>s'. remove s key = Inr s'"
begin

lemma put_ok: "statics_ok (statics s) \<Longrightarrow> put s b = Inr s' \<Longrightarrow> statics_ok (statics s')"
  using put_Inr [of s b s'] statics_ok_update by auto

lemma replace_ok: "replace s bs = Inr s' \<Longrightarrow> statics_ok (statics s')"
  using replace_Inr statics_ok_build by blast

lemma remove_ok: "statics_ok (statics s) \<Longrightarrow> remove s key = Inr s' \<Longrightarrow> statics_ok (statics s')"
  using remove_Inr [of s key s'] statics_ok_delete by auto

lemma put_lookup:
  "put s b = Inr s' \<Longrightarrow> map_of (statics s') = (map_of (statics s))(sb_ID b \<mapsto> b)"
  using put_Inr [of s b s'] by (simp add: update_conv')

lemma remove_lookup:
  "remove s key = Inr s' \<Longrightarrow> map_of (statics s') = (map_of (statics s))(key := None)"
  using remove_Inr [of s key s'] by (simp add: delete_conv')

text \<open>A binding that was put is found and can be removed again, which restores the lookup.\<close>

lemma put_remove:
  assumes "put s b = Inr s'" and "map_of (statics s) (sb_ID b) = None"
  shows "\<exists>s''. remove s' (sb_ID b) = Inr s'' \<and> map_of (statics s'') = map_of (statics s)"
proof -
  have "map_of (statics s') (sb_ID b) \<noteq> None" using put_lookup [OF assms(1)] by simp
  then obtain s'' where s: "remove s' (sb_ID b) = Inr s''" using remove_total by blast
  have "map_of (statics s'') = map_of (statics s)"
    using remove_lookup [OF s] put_lookup [OF assms(1)] assms(2) by auto
  with s show ?thesis by blast
qed

end

section \<open>Properties\<close>

text \<open>\<open>addrAtOffset\<close> yields a valid address exactly when the prefix is valid and the offset is
  smaller than the prefix; the address then lies in the prefix, is of its family and is the
  masked base plus the offset. So a pool or binding expressed as an offset follows the prefix
  through every renumbering.\<close>

theorem addrAtOffset_spec:
  assumes "prefix_ok p"
  shows "(IsValid (addrAtOffset p off) \<longleftrightarrow> PfxIsValid p \<and> unat off < 2 ^ host_bits p) \<and>
    (IsValid (addrAtOffset p off) \<longrightarrow>
      Contains p (addrAtOffset p off) \<and> BitLen (addrAtOffset p off) = BitLen (pfx_addr p) \<and>
      addr_val (addrAtOffset p off) = addr_val (pfx_addr (Masked p)) + unat off)"
  using addrAtOffset_valid_iff [OF assms] addrAtOffset_val [OF assms] addrAtOffset_Contains [OF assms]
  by blast

text \<open>The gateway \<^verbatim>\<open>192.168.1.1/24\<close> of the README's example.\<close>

definition pfx_example :: prefix where
  "pfx_example = Prefix (Addr4 0xC0A80101) 24"

lemma pfx_example_ok [simp]: "prefix_ok pfx_example" "PfxIsValid pfx_example"
  "host_bits pfx_example = 8" "BitLen (pfx_addr pfx_example) = 32"
  by (simp_all add: pfx_example_def prefix_ok_def PfxIsValid_def host_bits_def)

theorem addrAtOffset_spec_witness:
  "IsValid (addrAtOffset pfx_example 128) \<and> \<not> IsValid (addrAtOffset pfx_example 256) \<and>
   Contains pfx_example (addrAtOffset pfx_example 128) \<and>
   addr_val (addrAtOffset pfx_example 128) = 0xC0A80180"
proof -
  have "addr_val (pfx_addr (Masked pfx_example)) = 0xC0A80100"
    by (subst addr_val_Masked) (simp_all, simp add: pfx_example_def)
  then show ?thesis
    using addrAtOffset_spec [of pfx_example 128] addrAtOffset_spec [of pfx_example 256] by simp
qed

text \<open>C37: \<open>matchBinding\<close> returns no binding only if none matches. The binding it returns is one
  of the given ones, all its conditions match the client, and no other matching binding has
  more conditions, nor as many with a higher order.\<close>

theorem matchBinding_best:
  "case matchBinding bs mac cid of
     None \<Rightarrow> (\<forall>b \<in> set bs. bindingScore b mac cid = None)
   | Some x \<Rightarrow> x \<in> set bs \<and>
       (\<exists>n. bindingScore x mac cid = Some n \<and>
            (\<forall>b \<in> set bs. \<forall>s. bindingScore b mac cid = Some s \<longrightarrow>
               s < n \<or> s = n \<and> sb_Order b \<le> sb_Order x))"
proof (cases "matchBinding bs mac cid")
  case None
  then show ?thesis
    using matchLoop_None [of bs mac cid None 0] by (simp add: matchBinding_def)
next
  case (Some x)
  then show ?thesis
    using matchLoop_Some [of bs mac cid None 0 x] by (auto simp: matchBinding_def beaten_def)
qed

definition sb_mac_example :: static_binding where
  "sb_mac_example = \<lparr>sb_ID = ''vm1'', sb_Order = 0, sb_MAC = Some ''02:00:00:00:00:05'',
     sb_ClientID = None, sb_Offset = 5\<rparr>"

definition sb_both_example :: static_binding where
  "sb_both_example = \<lparr>sb_ID = ''vm2'', sb_Order = 0, sb_MAC = Some ''02:00:00:00:00:05'',
     sb_ClientID = Some ''01'', sb_Offset = 6\<rparr>"

theorem matchBinding_best_witness:
  "matchBinding [sb_mac_example, sb_both_example] ''02:00:00:00:00:05'' ''01'' =
     Some sb_both_example \<and>
   sb_both_example \<in> set [sb_mac_example, sb_both_example]"
proof -
  have "matchBinding [sb_mac_example, sb_both_example] ''02:00:00:00:00:05'' ''01'' =
      Some sb_both_example"
    by (simp add: matchBinding_def bindingScore_def sb_mac_example_def sb_both_example_def
        EqualFold_def Let_def)
  with matchBinding_best [of "[sb_mac_example, sb_both_example]" "''02:00:00:00:00:05''" "''01''"]
  show ?thesis by simp
qed

text \<open>C36: \<open>buildStaticSet\<close> succeeds exactly on the sets whose bindings all carry an identifier, are
  valid and have pairwise distinct identifiers; the map it then returns holds exactly the given
  bindings, each under its identifier. Otherwise the whole set is rejected.\<close>

theorem buildStaticSet_iff:
  "(case buildStaticSet bs of
      Inl _ \<Rightarrow> \<not> ((\<forall>b \<in> set bs. sb_ID b \<noteq> '''' \<and> validate b = None) \<and> distinct (map sb_ID bs))
    | Inr m \<Rightarrow> (\<forall>b \<in> set bs. sb_ID b \<noteq> '''' \<and> validate b = None) \<and> distinct (map sb_ID bs) \<and>
        gomap_ok m \<and> (\<forall>id b. map_of m id = Some b \<longleftrightarrow> b \<in> set bs \<and> sb_ID b = id))"
proof (cases "buildStaticSet bs")
  case (Inl e)
  then have "\<nexists>m. buildLoop bs [] = Inr m" by (simp add: buildStaticSet_def)
  then have "\<not> ((\<forall>b \<in> set bs. sb_ID b \<noteq> '''' \<and> validate b = None) \<and> distinct (map sb_ID bs))"
    by (simp only: buildLoop_Inr_iff) simp
  with Inl show ?thesis by simp
next
  case (Inr m)
  then have m: "buildLoop bs [] = Inr m" by (simp add: buildStaticSet_def)
  then have "\<exists>m. buildLoop bs [] = Inr m" by blast
  then have c: "\<forall>b \<in> set bs. sb_ID b \<noteq> '''' \<and> validate b = None" "distinct (map sb_ID bs)"
    by (simp_all only: buildLoop_Inr_iff) simp
  from buildLoop_lookup [OF m] have "gomap_ok m" "map_of m = map_of (keyed sb_ID bs)"
    by simp_all
  with Inr c show ?thesis by (simp add: map_of_keyed_Some)
qed

theorem buildStaticSet_iff_witness:
  "\<exists>m. buildStaticSet [sb_mac_example, sb_both_example] = Inr m \<and>
     map_of m ''vm2'' = Some sb_both_example"
proof -
  have "buildStaticSet [sb_mac_example, sb_both_example] =
      Inr [(''vm1'', sb_mac_example), (''vm2'', sb_both_example)]"
    by (simp add: buildStaticSet_def validate_def sb_mac_example_def sb_both_example_def)
  with buildStaticSet_iff [of "[sb_mac_example, sb_both_example]"]
  show ?thesis by (simp add: sb_both_example_def)
qed

text \<open>C35: allocation from a pool finds the least address of the range that is neither skipped nor
  under an unexpired lease, and fails exactly when there is none; on success it books that
  address and changes no other entry, on failure it leaves the table alone.\<close>

theorem allocate_least_free:
  assumes "kin start stop" and "allocate now t start stop skip l = (ip, t')"
  shows "(IsValid ip \<longrightarrow> start \<le> ip \<and> ip \<le> stop \<and> \<not> skip ip \<and> \<not> activeAt now t ip \<and>
             map_of (lt_leases t') = (map_of (lt_leases t))(ip \<mapsto> l\<lparr>lease_IP := ip\<rparr>)) \<and>
         (\<not> IsValid ip \<longrightarrow> t' = t) \<and>
         (\<forall>a. kin a stop \<longrightarrow> IsValid a \<longrightarrow> start \<le> a \<longrightarrow> a \<le> stop \<longrightarrow> (IsValid ip \<longrightarrow> a < ip) \<longrightarrow>
            skip a \<or> activeAt now t a)"
proof -
  have ip: "ip = scanFree start stop skip (activeAt now t)"
    using fst_allocate [of now t start stop skip l] assms(2) by simp
  show ?thesis
    using scanFree_least [OF assms(1), of skip "activeAt now t"] allocate_lookup [OF assms(2)]
    unfolding Let_def ip [symmetric] by blast
qed

definition lease_example :: lease where
  "lease_example = \<lparr>lease_IP = Addr4 10, lease_MAC = ''02:00:00:00:00:05'', lease_ClientID = '''',
     lease_Hostname = '''', lease_Expiry = 100, lease_Static = False\<rparr>"

theorem allocate_least_free_witness:
  "let (ip, t') = allocate 50 (lt_set newLeaseTable lease_example) (Addr4 10) (Addr4 12)
       (\<lambda>a. a = Addr4 11) lease_example
   in ip = Addr4 12 \<and> map_of (lt_leases t') ip = Some (lease_example\<lparr>lease_IP := ip\<rparr>)"
proof -
  let ?t = "lt_set newLeaseTable lease_example"
  let ?skip = "\<lambda>a. a = Addr4 11"
  obtain ip t' where al: "allocate 50 ?t (Addr4 10) (Addr4 12) ?skip lease_example = (ip, t')"
    by fastforce
  have "activeAt 50 ?t (Addr4 10)"
    by (simp add: activeAt_def lt_lookup_set lease_example_def)
  then have "scanFree (Addr4 10) (Addr4 12) ?skip (activeAt 50 ?t) = Addr4 12"
    by (simp add: scanFree.simps less_addr_iff activeAt_def lt_lookup_set lease_example_def
        newLeaseTable_def)
  then have "ip = Addr4 12"
    using al fst_allocate [of 50 ?t "Addr4 10" "Addr4 12" ?skip lease_example] by simp
  then show ?thesis
    using allocate_least_free [OF _ al] al by (simp add: kin_def)
qed

text \<open>A snapshot lists exactly the unexpired leases, sorted by address, whatever the iteration
  order of the map, and loading it into any table restores exactly these leases: no
  lease is lost or invented by a save and restart.\<close>

theorem snapshot_load_roundtrip:
  assumes "go_order ord" and "lt_ok t" and "\<forall>ip \<in> dom (map_of (lt_leases t)). IsValid ip"
  shows "sorted (map lease_IP (snapshot ord now t)) \<and>
    (\<forall>ip. map_of (lt_leases (lt_load t0 (snapshot ord now t))) ip =
       (case map_of (lt_leases t) ip of
          None \<Rightarrow> None | Some l \<Rightarrow> if lease_Expiry l < now then None else Some l))"
  using lookup_load_snapshot [OF assms, of t0 now] by (simp add: sorted_snapshot)

theorem snapshot_load_roundtrip_witness:
  "map_of (lt_leases (lt_load newLeaseTable (snapshot rev 50 (lt_set newLeaseTable lease_example))))
     (Addr4 10) = Some lease_example"
proof -
  let ?t = "lt_set newLeaseTable lease_example"
  have "lt_ok ?t" by (simp add: lt_ok_set)
  moreover have "\<forall>ip \<in> dom (map_of (lt_leases ?t)). IsValid ip"
    by (auto simp: lt_lookup_set lease_example_def newLeaseTable_def split: if_splits)
  ultimately show ?thesis
    using snapshot_load_roundtrip [of rev ?t 50 newLeaseTable]
    by (simp add: lt_lookup_set lease_example_def)
qed

end
