(* ===== verification/Packet.thy ===== *)
theory Packet
  imports Netip
begin

text \<open>
  \<^verbatim>\<open>internal/packet/packet.go\<close>: the Internet checksum, the three frame builders (UDP over
  IPv4, UDP over IPv6, ICMPv6) and the ingress parser. Frames are byte strings, written
  slice by slice as the source does; the sums are 32-bit words as in the source. Proved:
  every built frame verifies at the receiver, and the parser recovers its fields.
\<close>

section \<open>Constants\<close>

abbreviation EthHeaderSize :: nat where "EthHeaderSize \<equiv> 14"
abbreviation IPv4MinSize :: nat where "IPv4MinSize \<equiv> 20"
abbreviation IPv6HeaderSize :: nat where "IPv6HeaderSize \<equiv> 40"
abbreviation UDPHeaderSize :: nat where "UDPHeaderSize \<equiv> 8"
abbreviation EtherTypeIPv4 :: nat where "EtherTypeIPv4 \<equiv> 0x0800"
abbreviation EtherTypeIPv6 :: nat where "EtherTypeIPv6 \<equiv> 0x86DD"
abbreviation ProtoUDP :: u8 where "ProtoUDP \<equiv> 17"
abbreviation ProtoICMPv6 :: u8 where "ProtoICMPv6 \<equiv> 58"
abbreviation ICMPv6TypeRouterSolicit :: u8 where "ICMPv6TypeRouterSolicit \<equiv> 133"
abbreviation ICMPv6TypeRouterAdvert :: u8 where "ICMPv6TypeRouterAdvert \<equiv> 134"

section \<open>The checksum\<close>

fun checksumAdd :: "u32 \<Rightarrow> bytes \<Rightarrow> u32" where
  "checksumAdd sm [] = sm"
| "checksumAdd sm [b] = sm + push_bit 8 (ucast b)"
| "checksumAdd sm (a # b # data) = checksumAdd (sm + of_nat (be_nat [a, b])) data"

text \<open>The numeric reading of one folding step of \<open>checksumFinish\<close>.\<close>

lemma unat_fold_step:
  "unat ((s AND 0xFFFF) + drop_bit 16 s) = unat s mod 65536 + unat s div 65536" for s :: u32
proof -
  have "s AND 0xFFFF = take_bit 16 s"
    by (simp add: take_bit_eq_mask mask_eq_exp_minus_1)
  then have m: "unat (s AND 0xFFFF) = unat s mod 65536"
    using unat_take_bit_mod [of 16 s] by simp
  have d: "unat (drop_bit 16 s) = unat s div 65536"
    by (simp add: unat_drop_bit_div)
  have "unat s < 2 ^ 32"
    using unsigned_less [of s, where ?'a = nat] by simp
  then have "unat s div 65536 < 65536" by simp
  then show ?thesis by (simp add: unat_word_ariths m d)
qed

lemma drop_bit_16_0_iff: "drop_bit 16 s = 0 \<longleftrightarrow> unat s < 65536" for s :: u32
  by (simp add: word_unat_eq_iff unat_drop_bit_div div_eq_0_iff)

function checksumFold :: "u32 \<Rightarrow> u32" where
  "checksumFold sm =
     (if drop_bit 16 sm \<noteq> 0 then checksumFold ((sm AND 0xFFFF) + drop_bit 16 sm) else sm)"
  by pat_completeness auto
termination
proof (relation "measure unat")
  fix s :: u32
  assume "drop_bit 16 s \<noteq> 0"
  then have "65536 \<le> unat s" by (simp add: drop_bit_16_0_iff)
  then have "unat s mod 65536 + unat s div 65536 < unat s"
    using div_mult_mod_eq [of "unat s" 65536] by linarith
  then show "((s AND 0xFFFF) + drop_bit 16 s, s) \<in> measure unat"
    by (simp only: in_measure unat_fold_step)
qed simp

declare checksumFold.simps [simp del]

definition checksumFinish :: "u32 \<Rightarrow> u16" where
  "checksumFinish sm = NOT (ucast (checksumFold sm))"

definition pseudoHeaderSum :: "bytes \<Rightarrow> bytes \<Rightarrow> u8 \<Rightarrow> nat \<Rightarrow> u32" where
  "pseudoHeaderSum srcIP dstIP proto l4len =
     checksumAdd (checksumAdd 0 srcIP) dstIP + ucast proto + of_nat l4len"

section \<open>Frame builders\<close>

text \<open>
  A frame is allocated zeroed and filled slice by slice. The source's \<^verbatim>\<open>ip\<close> and \<^verbatim>\<open>udp\<close> are
  slices of the frame, so \<^verbatim>\<open>ip[k]\<close> is position \<open>EthHeaderSize + k\<close> here.
\<close>

definition CraftUDP4 ::
  "bytes \<Rightarrow> bytes \<Rightarrow> bytes \<Rightarrow> bytes \<Rightarrow> u16 \<Rightarrow> u16 \<Rightarrow> bytes \<Rightarrow> bytes" where
  "CraftUDP4 srcMAC dstMAC srcIP dstIP srcPort dstPort payload =
     (let src4 = To4 srcIP;
          dst4 = To4 dstIP;
          udpLen = UDPHeaderSize + length payload;
          frame = replicate (EthHeaderSize + IPv4MinSize + udpLen) 0;
          frame = go_copy frame 0 6 dstMAC;
          frame = go_copy frame 6 12 srcMAC;
          frame = go_copy frame 12 14 (be_bytes 2 EtherTypeIPv4);
          frame = go_copy frame 14 15 [0x45];
          frame = go_copy frame 16 18 (be_bytes 2 (IPv4MinSize + udpLen));
          frame = go_copy frame 22 23 [64];
          frame = go_copy frame 23 24 [ProtoUDP];
          frame = go_copy frame 26 30 src4;
          frame = go_copy frame 30 34 dst4;
          frame = go_copy frame 24 26
            (be_bytes 2 (unat (checksumFinish (checksumAdd 0 (go_slice frame 14 34)))));
          frame = go_copy frame 34 36 (be_bytes 2 (unat srcPort));
          frame = go_copy frame 36 38 (be_bytes 2 (unat dstPort));
          frame = go_copy frame 38 40 (be_bytes 2 udpLen);
          frame = go_copy frame 42 (length frame) payload;
          sm = pseudoHeaderSum src4 dst4 ProtoUDP udpLen;
          sm = checksumAdd sm (go_slice frame 34 (34 + udpLen));
          csum = checksumFinish sm;
          csum = (if csum = 0 then 0xFFFF else csum)
      in go_copy frame 40 42 (be_bytes 2 (unat csum)))"

definition CraftUDP6 ::
  "bytes \<Rightarrow> bytes \<Rightarrow> bytes \<Rightarrow> bytes \<Rightarrow> u16 \<Rightarrow> u16 \<Rightarrow> bytes \<Rightarrow> bytes" where
  "CraftUDP6 srcMAC dstMAC srcIP dstIP srcPort dstPort payload =
     (let src6 = To16 srcIP;
          dst6 = To16 dstIP;
          udpLen = UDPHeaderSize + length payload;
          frame = replicate (EthHeaderSize + IPv6HeaderSize + udpLen) 0;
          frame = go_copy frame 0 6 dstMAC;
          frame = go_copy frame 6 12 srcMAC;
          frame = go_copy frame 12 14 (be_bytes 2 EtherTypeIPv6);
          frame = go_copy frame 14 15 [0x60];
          frame = go_copy frame 18 20 (be_bytes 2 udpLen);
          frame = go_copy frame 20 21 [ProtoUDP];
          frame = go_copy frame 21 22 [64];
          frame = go_copy frame 22 38 src6;
          frame = go_copy frame 38 54 dst6;
          frame = go_copy frame 54 56 (be_bytes 2 (unat srcPort));
          frame = go_copy frame 56 58 (be_bytes 2 (unat dstPort));
          frame = go_copy frame 58 60 (be_bytes 2 udpLen);
          frame = go_copy frame 62 (length frame) payload;
          sm = pseudoHeaderSum src6 dst6 ProtoUDP udpLen;
          sm = checksumAdd sm (go_slice frame 54 (54 + udpLen));
          csum = checksumFinish sm;
          csum = (if csum = 0 then 0xFFFF else csum)
      in go_copy frame 60 62 (be_bytes 2 (unat csum)))"

text \<open>\<open>CraftICMP6\<close> indexes \<^verbatim>\<open>icmp[2]\<close> and \<^verbatim>\<open>icmp[3]\<close>: a body shorter than four bytes panics
  (\<open>None\<close>).\<close>

definition CraftICMP6 ::
  "bytes \<Rightarrow> bytes \<Rightarrow> bytes \<Rightarrow> bytes \<Rightarrow> bytes \<Rightarrow> u8 \<Rightarrow> bytes option" where
  "CraftICMP6 srcMAC dstMAC srcIP dstIP icmpBody hopLimit =
     (if length icmpBody < 4 then None
      else Some
       (let src6 = To16 srcIP;
            dst6 = To16 dstIP;
            frame = replicate (EthHeaderSize + IPv6HeaderSize + length icmpBody) 0;
            frame = go_copy frame 0 6 dstMAC;
            frame = go_copy frame 6 12 srcMAC;
            frame = go_copy frame 12 14 (be_bytes 2 EtherTypeIPv6);
            frame = go_copy frame 14 15 [0x60];
            frame = go_copy frame 18 20 (be_bytes 2 (length icmpBody));
            frame = go_copy frame 20 21 [ProtoICMPv6];
            frame = go_copy frame 21 22 [hopLimit];
            frame = go_copy frame 22 38 src6;
            frame = go_copy frame 38 54 dst6;
            frame = go_copy frame 54 (length frame) icmpBody;
            frame = go_copy frame 56 58 [0, 0];
            sm = pseudoHeaderSum src6 dst6 ProtoICMPv6 (length icmpBody);
            sm = checksumAdd sm (go_slice frame 54 (54 + length icmpBody))
        in go_copy frame 56 58 (be_bytes 2 (unat (checksumFinish sm)))))"

section \<open>The ingress parser\<close>

record ingress =
  in_SrcMAC :: bytes
  in_IsUDP4 :: bool
  in_IsUDP6 :: bool
  in_IsICMP6 :: bool
  in_SrcIP :: bytes
  in_DstIP :: bytes
  in_SrcPort :: u16
  in_DstPort :: u16
  in_ICMPTyp :: u8
  in_Payload :: bytes

definition emptyIngress :: ingress where
  "emptyIngress = \<lparr>in_SrcMAC = [], in_IsUDP4 = False, in_IsUDP6 = False, in_IsICMP6 = False,
     in_SrcIP = [], in_DstIP = [], in_SrcPort = 0, in_DstPort = 0, in_ICMPTyp = 0, in_Payload = []\<rparr>"

definition parseIPv4 :: "ingress \<Rightarrow> bytes \<Rightarrow> ingress option" where
  "parseIPv4 p body =
     (if length body < IPv4MinSize then None
      else if drop_bit 4 (body ! 0) \<noteq> 4 then None
      else
        (let ihl = unat (body ! 0 AND 0x0F) * 4;
             totalLen = be_nat (go_slice body 2 4);
             fragField = (of_nat (be_nat (go_slice body 6 8)) :: u16)
         in if ihl < IPv4MinSize \<or> totalLen < ihl \<or> length body < totalLen then None
            else if fragField AND 0x3FFF \<noteq> 0 then None
            else if body ! 9 \<noteq> ProtoUDP then None
            else
              (let udp = go_slice body ihl totalLen
               in if length udp < UDPHeaderSize then None
                  else Some (p\<lparr>in_IsUDP4 := True,
                               in_SrcIP := go_slice body 12 16,
                               in_DstIP := go_slice body 16 20,
                               in_SrcPort := of_nat (be_nat (go_slice udp 0 2)),
                               in_DstPort := of_nat (be_nat (go_slice udp 2 4)),
                               in_Payload := drop UDPHeaderSize udp\<rparr>))))"

definition parseIPv6 :: "ingress \<Rightarrow> bytes \<Rightarrow> ingress option" where
  "parseIPv6 p body =
     (if length body < IPv6HeaderSize then None
      else if drop_bit 4 (body ! 0) \<noteq> 6 then None
      else
        (let payloadLen = be_nat (go_slice body 4 6)
         in if length body < IPv6HeaderSize + payloadLen then None
            else
              (let p = p\<lparr>in_SrcIP := go_slice body 8 24, in_DstIP := go_slice body 24 40\<rparr>;
                   rest = go_slice body IPv6HeaderSize (IPv6HeaderSize + payloadLen)
               in if body ! 6 = ProtoUDP then
                    (if length rest < UDPHeaderSize then None
                     else Some (p\<lparr>in_IsUDP6 := True,
                                  in_SrcPort := of_nat (be_nat (go_slice rest 0 2)),
                                  in_DstPort := of_nat (be_nat (go_slice rest 2 4)),
                                  in_Payload := drop UDPHeaderSize rest\<rparr>))
                  else if body ! 6 = ProtoICMPv6 then
                    (if length rest < 4 then None
                     else Some (p\<lparr>in_IsICMP6 := True,
                                  in_ICMPTyp := rest ! 0,
                                  in_Payload := rest\<rparr>))
                  else None)))"

definition Parse :: "bytes \<Rightarrow> ingress option" where
  "Parse frame =
     (if length frame < EthHeaderSize then None
      else
        (let p = emptyIngress\<lparr>in_SrcMAC := go_slice frame 6 12\<rparr>;
             etherType = be_nat (go_slice frame 12 14);
             body = drop EthHeaderSize frame
         in if etherType = EtherTypeIPv4 then parseIPv4 p body
            else if etherType = EtherTypeIPv6 then parseIPv6 p body
            else None))"

section \<open>Arithmetic of the checksum\<close>

text \<open>\<open>csum_nat\<close> is the exact sum \<open>checksumAdd\<close> accumulates; the 32-bit sum is its residue.\<close>

fun csum_nat :: "bytes \<Rightarrow> nat" where
  "csum_nat [] = 0"
| "csum_nat [b] = unat b * 256"
| "csum_nat (a # b # data) = unat a * 256 + unat b + csum_nat data"

lemma checksumAdd_csum: "checksumAdd s data = s + of_nat (csum_nat data)"
proof (induction s data rule: checksumAdd.induct)
  case (2 s b)
  have "push_bit 8 (ucast b :: u32) = of_nat (unat b * 256)"
    by (simp add: push_bit_eq_mult)
  then show ?case by simp
next
  case (3 s a b data)
  have "be_nat [a, b] = unat a * 256 + unat b"
    by (simp add: be_nat_def)
  with 3 show ?case by (simp add: add.assoc)
qed simp

lemma csum_nat_append:
  "even (length xs) \<Longrightarrow> csum_nat (xs @ ys) = csum_nat xs + csum_nat ys"
  by (induction xs rule: csum_nat.induct) auto

lemma csum_nat_be2: "x < 65536 \<Longrightarrow> csum_nat (be_bytes 2 x) = x"
  by (simp add: bytes_simps unat_of_nat)

lemma csum_nat_bound: "csum_nat xs \<le> 65535 * ((length xs + 1) div 2)"
proof (induction xs rule: csum_nat.induct)
  case (2 b)
  have "unat b < 256" by simp
  then have "unat b * 256 \<le> 65535" by linarith
  then show ?case by simp
next
  case (3 a b data)
  have "unat a < 256" "unat b < 256" by simp_all
  then have "unat a * 256 + unat b \<le> 65535" by linarith
  with 3 show ?case by simp
qed simp

lemma checksumFold_facts:
  "unat (checksumFold s) < 65536 \<and> unat (checksumFold s) mod 65535 = unat s mod 65535 \<and>
     (checksumFold s = 0 \<longleftrightarrow> s = 0)"
proof (induction s rule: checksumFold.induct)
  case (1 s)
  show ?case
  proof (cases "drop_bit 16 s = 0")
    case True
    then show ?thesis by (simp add: checksumFold.simps [of s] drop_bit_16_0_iff)
  next
    case False
    let ?n = "(s AND 0xFFFF) + drop_bit 16 s"
    from False have big: "65536 \<le> unat s" by (simp add: drop_bit_16_0_iff)
    have n: "unat ?n = unat s mod 65536 + unat s div 65536" by (rule unat_fold_step)
    have "unat s = unat ?n + 65535 * (unat s div 65536)"
      using div_mult_mod_eq [of "unat s" 65536] n by linarith
    then have c: "unat ?n mod 65535 = unat s mod 65535"
      by (metis mod_mult_self2)
    have "0 < unat s div 65536" using big by (simp add: div_greater_zero_iff)
    then have "?n \<noteq> 0" "s \<noteq> 0" using n big by (auto simp: word_unat_eq_iff)
    moreover have "checksumFold s = checksumFold ?n"
      using False by (simp add: checksumFold.simps [of s])
    ultimately show ?thesis using 1 [OF False] c by simp
  qed
qed

text \<open>What the receiver computes: the sum over the data with the checksum in place folds to
  all ones.\<close>

lemma unat_checksumFinish: "unat (checksumFinish s) = 65535 - unat (checksumFold s)"
proof -
  have "unat (ucast (checksumFold s) :: u16) = unat (checksumFold s)"
    using checksumFold_facts [of s] by (simp add: unsigned_ucast_eq take_bit_nat_eq_self)
  moreover have "unat (NOT w) = 65535 - unat w" for w :: u16
  proof -
    have "NOT w = - 1 - w" by (simp add: not_eq_complement)
    moreover have "w \<le> - 1" by simp
    ultimately show ?thesis by (simp add: unat_sub unsigned_minus_1_eq_mask mask_eq_exp_minus_1 del: word_n1_ge)
  qed
  ultimately show ?thesis
    by (simp add: checksumFinish_def)
qed

lemma checksum_verifies:
  assumes "n + 65535 < 2 ^ 32" and "0 < n + c"
    and "c = unat (checksumFinish (of_nat n)) \<or>
         checksumFinish (of_nat n) = 0 \<and> c = 65535"
  shows "checksumFinish (of_nat (n + c)) = 0"
proof -
  let ?f = "unat (checksumFold (of_nat n))"
  have f: "?f < 65536" "?f mod 65535 = n mod 65535"
    using checksumFold_facts [of "of_nat n"] assms(1) by (simp_all add: unat_of_nat)
  have c: "c = 65535 - ?f \<or> ?f = 65535 \<and> c = 65535"
    using assms(3) unat_checksumFinish [of "of_nat n"] f(1) by (auto simp: word_unat_eq_iff)
  then have cle: "c \<le> 65535" by auto
  have "(n + c) mod 65535 = (?f + c) mod 65535"
    by (metis f(2) mod_add_left_eq)
  also have "\<dots> = 0" using c f(1) by auto
  finally have z: "(n + c) mod 65535 = 0" .
  let ?g = "checksumFold (of_nat (n + c))"
  have u: "unat (of_nat (n + c) :: u32) = n + c"
    using assms(1) cle by (simp only: unat_of_nat) simp
  have "unat ?g < 65536" "unat ?g mod 65535 = 0" "?g \<noteq> 0"
    using checksumFold_facts [of "of_nat (n + c)"] z assms(2) u by (auto simp: word_unat_eq_iff)
  then have "unat ?g = 65535"
    by (auto simp: word_unat_eq_iff)
  then show ?thesis
    using unat_checksumFinish [of "of_nat (n + c)"] by (simp add: word_unat_eq_iff)
qed

section \<open>Frame layouts\<close>

text \<open>The headers the builders write, with the checksum field left open.\<close>

definition ip4_header :: "nat \<Rightarrow> bytes \<Rightarrow> bytes \<Rightarrow> bytes \<Rightarrow> bytes" where
  "ip4_header tot c src dst =
     [0x45, 0] @ be_bytes 2 tot @ [0, 0, 0, 0, 64, ProtoUDP] @ c @ src @ dst"

definition udp_header :: "u16 \<Rightarrow> u16 \<Rightarrow> nat \<Rightarrow> bytes \<Rightarrow> bytes" where
  "udp_header sp dp len c = be_bytes 2 (unat sp) @ be_bytes 2 (unat dp) @ be_bytes 2 len @ c"

definition ip6_header :: "nat \<Rightarrow> u8 \<Rightarrow> u8 \<Rightarrow> bytes \<Rightarrow> bytes \<Rightarrow> bytes" where
  "ip6_header len nxt hop src dst = [0x60, 0, 0, 0] @ be_bytes 2 len @ [nxt, hop] @ src @ dst"

definition udp_csum :: "bytes \<Rightarrow> bytes \<Rightarrow> nat \<Rightarrow> bytes \<Rightarrow> u16" where
  "udp_csum src dst len seg =
     (let c = checksumFinish (checksumAdd (pseudoHeaderSum src dst ProtoUDP len) seg)
      in if c = 0 then 0xFFFF else c)"

lemma be_bytes_2: "be_bytes 2 x = [of_nat (x div 256), of_nat x]"
  by (simp add: bytes_simps)

lemma CraftUDP4_layout:
  assumes "length srcMAC = 6" and "length dstMAC = 6"
    and "length (To4 srcIP) = 4" and "length (To4 dstIP) = 4"
  shows "CraftUDP4 srcMAC dstMAC srcIP dstIP sp dp payload =
    (let n = UDPHeaderSize + length payload;
         src = To4 srcIP; dst = To4 dstIP;
         hc = checksumFinish (checksumAdd 0 (ip4_header (IPv4MinSize + n) [0, 0] src dst));
         uc = udp_csum src dst n (udp_header sp dp n [0, 0] @ payload)
     in dstMAC @ srcMAC @ be_bytes 2 EtherTypeIPv4 @
        ip4_header (IPv4MinSize + n) (be_bytes 2 (unat hc)) src dst @
        udp_header sp dp n (be_bytes 2 (unat uc)) @ payload)"
proof -
  let ?z = "\<lambda>n. replicate n (0::u8)"
  have c: "0 # xs = ?z 1 @ xs" for xs by simp
  have r: "?z (42 + n) =
      ?z 6 @ ?z 6 @ ?z 2 @ 0 # 0 # ?z 2 @ 0 # 0 # 0 # 0 # 0 # 0 # 0 # 0 # ?z 4 @ ?z 4 @
      ?z 2 @ ?z 2 @ ?z 2 @ 0 # 0 # ?z n" for n
    by (simp only: c append_Nil append_assoc flip: replicate_add) simp
  show ?thesis
    unfolding CraftUDP4_def
    using assms
    by (simp add: frame_simps r Let_def ip4_header_def udp_header_def udp_csum_def
      del: take_append split del: if_split cong: if_cong)
qed

lemma CraftUDP6_layout:
  assumes "length srcMAC = 6" and "length dstMAC = 6"
    and "length (To16 srcIP) = 16" and "length (To16 dstIP) = 16"
  shows "CraftUDP6 srcMAC dstMAC srcIP dstIP sp dp payload =
    (let n = UDPHeaderSize + length payload;
         src = To16 srcIP; dst = To16 dstIP;
         uc = udp_csum src dst n (udp_header sp dp n [0, 0] @ payload)
     in dstMAC @ srcMAC @ be_bytes 2 EtherTypeIPv6 @ ip6_header n ProtoUDP 64 src dst @
        udp_header sp dp n (be_bytes 2 (unat uc)) @ payload)"
proof -
  let ?z = "\<lambda>n. replicate n (0::u8)"
  have c: "0 # xs = ?z 1 @ xs" for xs by simp
  have r: "?z (62 + n) =
      ?z 6 @ ?z 6 @ ?z 2 @ 0 # 0 # 0 # 0 # ?z 2 @ 0 # 0 # ?z 16 @ ?z 16 @
      ?z 2 @ ?z 2 @ ?z 2 @ 0 # 0 # ?z n" for n
    by (simp only: c append_Nil append_assoc flip: replicate_add) simp
  show ?thesis
    unfolding CraftUDP6_def
    using assms
    by (simp add: frame_simps r Let_def ip6_header_def udp_header_def udp_csum_def
        del: take_append split del: if_split cong: if_cong)
qed

lemma CraftICMP6_layout:
  assumes "length srcMAC = 6" and "length dstMAC = 6"
    and "length (To16 srcIP) = 16" and "length (To16 dstIP) = 16"
    and body: "icmpBody = t # k # x # y # rest"
  shows "CraftICMP6 srcMAC dstMAC srcIP dstIP icmpBody hop = Some
    (let n = length icmpBody;
         src = To16 srcIP; dst = To16 dstIP;
         c = checksumFinish
           (checksumAdd (pseudoHeaderSum src dst ProtoICMPv6 n) (t # k # 0 # 0 # rest))
     in dstMAC @ srcMAC @ be_bytes 2 EtherTypeIPv6 @ ip6_header n ProtoICMPv6 hop src dst @
        t # k # be_bytes 2 (unat c) @ rest)"
proof -
  let ?z = "\<lambda>n. replicate n (0::u8)"
  have c: "0 # xs = ?z 1 @ xs" for xs by simp
  have r: "?z (58 + n) =
      ?z 6 @ ?z 6 @ ?z 2 @ 0 # 0 # 0 # 0 # ?z 2 @ 0 # 0 # ?z 16 @ ?z 16 @ ?z (4 + n)" for n
    by (simp only: c append_Nil append_assoc flip: replicate_add) simp
  show ?thesis
    unfolding CraftICMP6_def body
    using assms(1-4)
    by (simp add: frame_simps r Let_def ip6_header_def del: take_append)
qed

section \<open>Checksums of the built frames\<close>

text \<open>Writing the checksum into a zeroed, even-aligned field adds it to the sum.\<close>

lemma csum_ip4_header:
  "c < 65536 \<Longrightarrow> csum_nat (ip4_header tot (be_bytes 2 c) src dst) =
     csum_nat (ip4_header tot [0, 0] src dst) + c"
  by (simp add: ip4_header_def csum_nat_append csum_nat_be2)

lemma csum_udp:
  "c < 65536 \<Longrightarrow> csum_nat (udp_header sp dp n (be_bytes 2 c) @ payload) =
     csum_nat (udp_header sp dp n [0, 0] @ payload) + c"
  by (simp add: udp_header_def csum_nat_append csum_nat_be2)

lemma csum_icmp:
  "c < 65536 \<Longrightarrow> csum_nat (t # k # be_bytes 2 c @ rest) = csum_nat (t # k # 0 # 0 # rest) + c"
  by (simp add: csum_nat_append csum_nat_be2)

text \<open>The pseudo-header sum as a number.\<close>

definition pseudo_nat :: "bytes \<Rightarrow> bytes \<Rightarrow> u8 \<Rightarrow> nat \<Rightarrow> nat" where
  "pseudo_nat src dst proto n = csum_nat src + csum_nat dst + unat proto + n"

lemma pseudoHeaderSum_nat: "pseudoHeaderSum src dst proto n = of_nat (pseudo_nat src dst proto n)"
proof -
  have "(ucast proto :: u32) = of_nat (unat proto)" by simp
  then show ?thesis
    by (simp add: pseudoHeaderSum_def pseudo_nat_def checksumAdd_csum add.assoc)
qed

lemma checksumAdd_pseudo:
  "checksumAdd (pseudoHeaderSum src dst proto n) seg =
     of_nat (pseudo_nat src dst proto n + csum_nat seg)"
  by (simp add: pseudoHeaderSum_nat checksumAdd_csum)

lemma unat_u16_less [simp]: "unat (c :: u16) < 65536"
  using unsigned_less [of c, where ?'a = nat] by simp

lemma udp_csum_verifies:
  fixes sp dp :: u16
  assumes "length src \<le> 16" and "length dst \<le> 16" and "n \<le> 65535" and "length payload \<le> 65535"
  defines "seg \<equiv> \<lambda>c. udp_header sp dp n c @ payload"
  shows "checksumFinish (checksumAdd (pseudoHeaderSum src dst ProtoUDP n)
           (seg (be_bytes 2 (unat (udp_csum src dst n (seg [0, 0])))))) = 0"
    and "udp_csum src dst n (seg [0, 0]) \<noteq> 0"
proof -
  let ?s = "pseudo_nat src dst ProtoUDP n + csum_nat (seg [0, 0])"
  let ?c = "udp_csum src dst n (seg [0, 0])"
  have "csum_nat src \<le> 65535 * 8" "csum_nat dst \<le> 65535 * 8"
    using csum_nat_bound [of src] csum_nat_bound [of dst] assms(1,2)
    by (auto intro: order_trans)
  moreover have "csum_nat (seg [0, 0]) \<le> 65535 * 32772"
    using csum_nat_bound [of "seg [0, 0]"] assms(4)
    by (auto simp: seg_def udp_header_def intro: order_trans)
  ultimately have b: "?s + 65535 < 2 ^ 32"
    using assms(3) by (simp add: pseudo_nat_def)
  have c: "unat ?c = unat (checksumFinish (of_nat ?s)) \<or>
      checksumFinish (of_nat ?s) = 0 \<and> unat ?c = 65535"
    by (simp add: udp_csum_def Let_def checksumAdd_pseudo)
  show nz: "?c \<noteq> 0"
    by (simp add: udp_csum_def Let_def)
  then have "0 < ?s + unat ?c"
    by (simp add: word_unat_eq_iff)
  from checksum_verifies [OF b this c]
  show "checksumFinish (checksumAdd (pseudoHeaderSum src dst ProtoUDP n)
      (seg (be_bytes 2 (unat ?c)))) = 0"
    by (simp add: checksumAdd_pseudo seg_def csum_udp add.assoc)
qed

lemma Parse_ICMP6_frame:
  assumes "length srcMAC = 6" and "length dstMAC = 6"
    and "length (To16 srcIP) = 16" and "length (To16 dstIP) = 16"
    and "4 \<le> length icmpBody" and "length icmpBody \<le> 65535"
  shows "\<exists>frame c. CraftICMP6 srcMAC dstMAC srcIP dstIP icmpBody hop = Some frame \<and>
    take 6 frame = dstMAC \<and> frame ! 21 = hop \<and> length c = 2 \<and>
    Parse frame = Some (emptyIngress\<lparr>in_SrcMAC := srcMAC, in_IsICMP6 := True, in_SrcIP := To16 srcIP,
      in_DstIP := To16 dstIP, in_ICMPTyp := icmpBody ! 0,
      in_Payload := take 2 icmpBody @ c @ drop 4 icmpBody\<rparr>)"
proof -
  obtain t k x y rest where body: "icmpBody = t # k # x # y # rest"
    using assms(5) by (metis Suc_le_length_iff numeral_eq_Suc pred_numeral_simps(2,3) semiring_norm(26,27))
  define c where "c = be_bytes 2 (unat (checksumFinish
    (checksumAdd (pseudoHeaderSum (To16 srcIP) (To16 dstIP) ProtoICMPv6 (length icmpBody))
      (t # k # 0 # 0 # rest))))"
  have len: "length c = 2" by (simp add: c_def)
  let ?f = "dstMAC @ srcMAC @ be_bytes 2 EtherTypeIPv6 @
    ip6_header (length icmpBody) ProtoICMPv6 hop (To16 srcIP) (To16 dstIP) @ t # k # c @ rest"
  have fr: "CraftICMP6 srcMAC dstMAC srcIP dstIP icmpBody hop = Some ?f"
    by (simp only: CraftICMP6_layout [OF assms(1-4) body] Let_def c_def)
  have "Parse ?f = Some (emptyIngress\<lparr>in_SrcMAC := srcMAC, in_IsICMP6 := True, in_SrcIP := To16 srcIP,
      in_DstIP := To16 dstIP, in_ICMPTyp := icmpBody ! 0,
      in_Payload := take 2 icmpBody @ c @ drop 4 icmpBody\<rparr>)"
    unfolding Parse_def
    using assms len
    by (simp add: ip6_header_def frame_simps parseIPv6_def Let_def nth_append body del: take_append)
  moreover have "?f ! 21 = hop"
    using assms(1,2) by (simp add: nth_append ip6_header_def)
  ultimately show ?thesis using fr len assms(2) by auto
qed

lemma CraftUDP4_dstMAC:
  assumes "length srcMAC = 6" and "length dstMAC = 6"
    and "length (To4 srcIP) = 4" and "length (To4 dstIP) = 4"
  shows "take 6 (CraftUDP4 srcMAC dstMAC srcIP dstIP sp dp payload) = dstMAC"
  using assms by (simp add: CraftUDP4_layout [OF assms] Let_def)

lemma CraftUDP6_dstMAC:
  assumes "length srcMAC = 6" and "length dstMAC = 6"
    and "length (To16 srcIP) = 16" and "length (To16 dstIP) = 16"
  shows "take 6 (CraftUDP6 srcMAC dstMAC srcIP dstIP sp dp payload) = dstMAC"
  using assms by (simp add: CraftUDP6_layout [OF assms] Let_def)

section \<open>Properties\<close>

text \<open>A frame built by \<open>CraftUDP4\<close> verifies at the receiver: the one's-complement sum over the
  IPv4 header and the sum over pseudo-header and UDP segment (with the checksums in place) both
  fold to all ones, and the UDP checksum field is never zero, which would mean ``no checksum''.
  The payload is at most what an IPv4 datagram can carry.\<close>

theorem CraftUDP4_verifies:
  assumes "length srcMAC = 6" and "length dstMAC = 6"
    and "length (To4 srcIP) = 4" and "length (To4 dstIP) = 4" and "length payload \<le> 65507"
  shows "let frame = CraftUDP4 srcMAC dstMAC srcIP dstIP sp dp payload;
             n = UDPHeaderSize + length payload
         in checksumFinish (checksumAdd 0 (go_slice frame 14 34)) = 0 \<and>
            checksumFinish (checksumAdd (pseudoHeaderSum (To4 srcIP) (To4 dstIP) ProtoUDP n)
              (drop 34 frame)) = 0 \<and>
            be_nat (go_slice frame 40 42) \<noteq> 0"
proof -
  let ?src = "To4 srcIP" and ?dst = "To4 dstIP" and ?n = "UDPHeaderSize + length payload"
  let ?h = "\<lambda>c. ip4_header (IPv4MinSize + ?n) c ?src ?dst"
  let ?seg = "\<lambda>c. udp_header sp dp ?n c @ payload"
  let ?hc = "checksumFinish (checksumAdd 0 (?h [0, 0]))"
  let ?uc = "udp_csum ?src ?dst ?n (?seg [0, 0])"
  note fr = CraftUDP4_layout [OF assms(1-4), of sp dp payload, unfolded Let_def]
  have len: "length (?h (be_bytes 2 (unat ?hc))) = 20"
    using assms(3,4) by (simp add: ip4_header_def)
  have "csum_nat (?h [0, 0]) \<le> 65535 * 10"
    using csum_nat_bound [of "?h [0, 0]"] assms(3,4) by (simp add: ip4_header_def)
  moreover have "0 < csum_nat (?h [0, 0])"
    by (simp add: ip4_header_def)
  ultimately have "checksumFinish (of_nat (csum_nat (?h [0, 0]) + unat ?hc)) = 0"
    by (intro checksum_verifies) (simp_all add: checksumAdd_csum)
  then have hdr: "checksumFinish (checksumAdd 0 (?h (be_bytes 2 (unat ?hc)))) = 0"
    by (simp only: checksumAdd_csum csum_ip4_header [OF unat_u16_less] add_0)
  have udp: "checksumFinish (checksumAdd (pseudoHeaderSum ?src ?dst ProtoUDP ?n)
      (?seg (be_bytes 2 (unat ?uc)))) = 0" and nz: "?uc \<noteq> 0"
    using udp_csum_verifies [of ?src ?dst ?n payload sp dp] assms(3-5) by simp_all
  have "be_nat (be_bytes 2 (unat ?uc)) \<noteq> 0"
    using nz by (simp add: word_unat_eq_iff)
  then show ?thesis
    using hdr udp assms(1,2) len unfolding Let_def fr
    by (simp add: frame_simps del: take_append) (simp add: udp_header_def frame_simps del: take_append)
qed

definition mac_example :: bytes where
  "mac_example = [2, 0, 0, 0, 0, 5]"

definition ip_gw_example :: bytes where
  "ip_gw_example = [192, 168, 1, 1]"

theorem CraftUDP4_verifies_witness:
  "checksumFinish (checksumAdd 0
     (go_slice (CraftUDP4 mac_example mac_example ip_gw_example [255, 255, 255, 255] 67 68 [1, 2, 3])
        14 34)) = 0"
  using CraftUDP4_verifies [of mac_example mac_example ip_gw_example "[255, 255, 255, 255]"
      "[1, 2, 3]" 67 68]
  by (simp add: mac_example_def ip_gw_example_def To4_def Let_def)

text \<open>A UDP frame built by \<open>CraftUDP6\<close> verifies against the IPv6 pseudo-header, and its
  checksum field, which IPv6 requires, is never zero.\<close>

theorem CraftUDP6_verifies:
  assumes "length srcMAC = 6" and "length dstMAC = 6"
    and "length (To16 srcIP) = 16" and "length (To16 dstIP) = 16" and "length payload \<le> 65527"
  shows "let frame = CraftUDP6 srcMAC dstMAC srcIP dstIP sp dp payload;
             n = UDPHeaderSize + length payload
         in checksumFinish (checksumAdd (pseudoHeaderSum (To16 srcIP) (To16 dstIP) ProtoUDP n)
              (drop 54 frame)) = 0 \<and>
            be_nat (go_slice frame 60 62) \<noteq> 0"
proof -
  let ?src = "To16 srcIP" and ?dst = "To16 dstIP" and ?n = "UDPHeaderSize + length payload"
  let ?seg = "\<lambda>c. udp_header sp dp ?n c @ payload"
  let ?uc = "udp_csum ?src ?dst ?n (?seg [0, 0])"
  note fr = CraftUDP6_layout [OF assms(1-4), of sp dp payload, unfolded Let_def]
  have len: "length (ip6_header ?n ProtoUDP 64 ?src ?dst) = 40"
    using assms(3,4) by (simp add: ip6_header_def)
  have udp: "checksumFinish (checksumAdd (pseudoHeaderSum ?src ?dst ProtoUDP ?n)
      (?seg (be_bytes 2 (unat ?uc)))) = 0" and nz: "?uc \<noteq> 0"
    using udp_csum_verifies [of ?src ?dst ?n payload sp dp] assms(3-5) by simp_all
  have "be_nat (be_bytes 2 (unat ?uc)) \<noteq> 0"
    using nz by (simp add: word_unat_eq_iff)
  then show ?thesis
    using udp assms(1,2) len unfolding Let_def fr
    by (simp add: frame_simps del: take_append) (simp add: udp_header_def frame_simps del: take_append)
qed

definition ll_example :: bytes where
  "ll_example = [0xfe, 0x80, 0, 0, 0, 0, 0, 0, 0, 0, 0, 0, 0, 0, 0, 1]"

theorem CraftUDP6_verifies_witness:
  "checksumFinish (checksumAdd (pseudoHeaderSum ll_example ll_example ProtoUDP 11)
     (drop 54 (CraftUDP6 mac_example mac_example ll_example ll_example 547 546 [1, 2, 3]))) = 0"
  using CraftUDP6_verifies [of mac_example mac_example ll_example ll_example "[1, 2, 3]" 547 546]
  by (simp add: mac_example_def ll_example_def To16_def Let_def)

text \<open>\<open>CraftICMP6\<close> panics exactly on bodies shorter than four bytes; every other body becomes a
  frame whose ICMPv6 message verifies against the pseudo-header, whatever the caller left in the
  checksum field.\<close>

theorem CraftICMP6_verifies:
  assumes "length srcMAC = 6" and "length dstMAC = 6"
    and "length (To16 srcIP) = 16" and "length (To16 dstIP) = 16" and "length icmpBody \<le> 65535"
  shows "case CraftICMP6 srcMAC dstMAC srcIP dstIP icmpBody hop of
      None \<Rightarrow> length icmpBody < 4
    | Some frame \<Rightarrow> 4 \<le> length icmpBody \<and> length frame = 54 + length icmpBody \<and>
        checksumFinish (checksumAdd
          (pseudoHeaderSum (To16 srcIP) (To16 dstIP) ProtoICMPv6 (length icmpBody))
          (drop 54 frame)) = 0"
proof (cases "length icmpBody < 4")
  case True
  then show ?thesis by (simp add: CraftICMP6_def)
next
  case False
  then obtain t k x y rest where body: "icmpBody = t # k # x # y # rest"
    by (auto simp: not_less numeral_eq_Suc Suc_le_length_iff)
  let ?src = "To16 srcIP" and ?dst = "To16 dstIP" and ?n = "length icmpBody"
  let ?s = "pseudo_nat ?src ?dst ProtoICMPv6 ?n + csum_nat (t # k # 0 # 0 # rest)"
  define c where "c = checksumFinish
    (checksumAdd (pseudoHeaderSum ?src ?dst ProtoICMPv6 ?n) (t # k # 0 # 0 # rest))"
  have "csum_nat ?src \<le> 65535 * 8" "csum_nat ?dst \<le> 65535 * 8"
    using csum_nat_bound [of ?src] csum_nat_bound [of ?dst] assms(3,4) by simp_all
  moreover have "csum_nat (t # k # 0 # 0 # rest) \<le> 65535 * 32768"
    using csum_nat_bound [of "t # k # 0 # 0 # rest"] assms(5) body
    by (auto simp del: csum_nat.simps intro: order_trans)
  ultimately have b: "?s + 65535 < 2 ^ 32"
    using assms(5) by (simp only: pseudo_nat_def) simp
  have "0 < ?s + unat c" by (simp add: pseudo_nat_def)
  from checksum_verifies [OF b this]
  have "checksumFinish (checksumAdd (pseudoHeaderSum ?src ?dst ProtoICMPv6 ?n)
      (t # k # be_bytes 2 (unat c) @ rest)) = 0"
    by (simp only: c_def checksumAdd_pseudo csum_icmp [OF unat_u16_less] add.assoc) simp
  moreover have "length (ip6_header ?n ProtoICMPv6 hop ?src ?dst) = 40"
    using assms(3,4) by (simp add: ip6_header_def)
  moreover have "CraftICMP6 srcMAC dstMAC srcIP dstIP icmpBody hop = Some
      (dstMAC @ srcMAC @ be_bytes 2 EtherTypeIPv6 @ ip6_header ?n ProtoICMPv6 hop ?src ?dst @
       t # k # be_bytes 2 (unat c) @ rest)"
    by (simp only: CraftICMP6_layout [OF assms(1-4) body] Let_def c_def)
  ultimately show ?thesis
    using assms(1,2) body by (simp del: checksumAdd.simps)
qed

theorem CraftICMP6_verifies_witness:
  "\<exists>frame. CraftICMP6 mac_example mac_example ll_example ll_example [134, 0, 7, 7] 255 = Some frame \<and>
     checksumFinish (checksumAdd (pseudoHeaderSum ll_example ll_example ProtoICMPv6
       (length [134, 0, 7, 7 :: u8])) (drop 54 frame)) = 0"
  using CraftICMP6_verifies [of mac_example mac_example ll_example ll_example "[134, 0, 7, 7]" 255]
  by (cases "CraftICMP6 mac_example mac_example ll_example ll_example [134, 0, 7, 7] 255")
    (auto simp: mac_example_def To16_def ll_example_def)

lemma Parse_UDP4_frame:
  assumes "length srcMAC = 6" and "length dstMAC = 6"
    and "length (To4 srcIP) = 4" and "length (To4 dstIP) = 4" and "length payload \<le> 65507"
  shows "Parse (CraftUDP4 srcMAC dstMAC srcIP dstIP sp dp payload) =
    Some (emptyIngress\<lparr>in_SrcMAC := srcMAC, in_IsUDP4 := True, in_SrcIP := To4 srcIP,
      in_DstIP := To4 dstIP, in_SrcPort := sp, in_DstPort := dp, in_Payload := payload\<rparr>)"
proof -
  define hc where "hc = be_bytes 2 (unat (checksumFinish (checksumAdd 0 (ip4_header
    (IPv4MinSize + (UDPHeaderSize + length payload)) [0, 0] (To4 srcIP) (To4 dstIP)))))"
  define uc where "uc = be_bytes 2 (unat (udp_csum (To4 srcIP) (To4 dstIP)
    (UDPHeaderSize + length payload)
    (udp_header sp dp (UDPHeaderSize + length payload) [0, 0] @ payload)))"
  have len: "length hc = 2" "length uc = 2" by (simp_all add: hc_def uc_def)
  have z: "be_nat [0, 0] = 0" by (simp add: be_nat_def)
  have fr: "CraftUDP4 srcMAC dstMAC srcIP dstIP sp dp payload =
      dstMAC @ srcMAC @ be_bytes 2 EtherTypeIPv4 @
      ip4_header (IPv4MinSize + (UDPHeaderSize + length payload)) hc (To4 srcIP) (To4 dstIP) @
      udp_header sp dp (UDPHeaderSize + length payload) uc @ payload"
    by (simp only: CraftUDP4_layout [OF assms(1-4)] Let_def hc_def uc_def)
  show ?thesis
    unfolding fr Parse_def
    using assms len
    by (simp add: z ip4_header_def udp_header_def frame_simps parseIPv4_def Let_def nth_append
        del: take_append)
qed

text \<open>Parsing a frame built by \<open>CraftUDP4\<close> recovers exactly what was put in: source MAC, both
  addresses, both ports and the payload.\<close>

theorem Parse_CraftUDP4:
  assumes "length srcMAC = 6" and "length dstMAC = 6"
    and "length (To4 srcIP) = 4" and "length (To4 dstIP) = 4" and "length payload \<le> 65507"
  shows "Parse (CraftUDP4 srcMAC dstMAC srcIP dstIP sp dp payload) =
    Some (emptyIngress\<lparr>in_SrcMAC := srcMAC, in_IsUDP4 := True, in_SrcIP := To4 srcIP,
      in_DstIP := To4 dstIP, in_SrcPort := sp, in_DstPort := dp, in_Payload := payload\<rparr>)"
  using assms by (rule Parse_UDP4_frame)

theorem Parse_CraftUDP4_witness:
  "map_option in_DstPort
     (Parse (CraftUDP4 mac_example mac_example ip_gw_example ip_gw_example 68 67 [1, 2, 3])) = Some 67"
  using Parse_CraftUDP4 [of mac_example mac_example ip_gw_example ip_gw_example "[1, 2, 3]" 68 67]
  by (simp add: mac_example_def ip_gw_example_def To4_def)

lemma Parse_UDP6_frame:
  assumes "length srcMAC = 6" and "length dstMAC = 6"
    and "length (To16 srcIP) = 16" and "length (To16 dstIP) = 16" and "length payload \<le> 65527"
  shows "Parse (CraftUDP6 srcMAC dstMAC srcIP dstIP sp dp payload) =
    Some (emptyIngress\<lparr>in_SrcMAC := srcMAC, in_IsUDP6 := True, in_SrcIP := To16 srcIP,
      in_DstIP := To16 dstIP, in_SrcPort := sp, in_DstPort := dp, in_Payload := payload\<rparr>)"
proof -
  define uc where "uc = be_bytes 2 (unat (udp_csum (To16 srcIP) (To16 dstIP)
    (UDPHeaderSize + length payload)
    (udp_header sp dp (UDPHeaderSize + length payload) [0, 0] @ payload)))"
  have len: "length uc = 2" by (simp add: uc_def)
  have fr: "CraftUDP6 srcMAC dstMAC srcIP dstIP sp dp payload =
      dstMAC @ srcMAC @ be_bytes 2 EtherTypeIPv6 @
      ip6_header (UDPHeaderSize + length payload) ProtoUDP 64 (To16 srcIP) (To16 dstIP) @
      udp_header sp dp (UDPHeaderSize + length payload) uc @ payload"
    by (simp only: CraftUDP6_layout [OF assms(1-4)] Let_def uc_def)
  show ?thesis
    unfolding fr Parse_def
    using assms len
    by (simp add: ip6_header_def udp_header_def frame_simps parseIPv6_def Let_def nth_append
        del: take_append)
qed

text \<open>Parsing a frame built by \<open>CraftUDP6\<close> recovers source MAC, addresses, ports and payload.\<close>

theorem Parse_CraftUDP6:
  assumes "length srcMAC = 6" and "length dstMAC = 6"
    and "length (To16 srcIP) = 16" and "length (To16 dstIP) = 16" and "length payload \<le> 65527"
  shows "Parse (CraftUDP6 srcMAC dstMAC srcIP dstIP sp dp payload) =
    Some (emptyIngress\<lparr>in_SrcMAC := srcMAC, in_IsUDP6 := True, in_SrcIP := To16 srcIP,
      in_DstIP := To16 dstIP, in_SrcPort := sp, in_DstPort := dp, in_Payload := payload\<rparr>)"
  using assms by (rule Parse_UDP6_frame)

theorem Parse_CraftUDP6_witness:
  "map_option in_Payload
     (Parse (CraftUDP6 mac_example mac_example ll_example ll_example 547 546 [1, 2, 3])) = Some [1, 2, 3]"
  using Parse_CraftUDP6 [of mac_example mac_example ll_example ll_example "[1, 2, 3]" 547 546]
  by (simp add: mac_example_def ll_example_def To16_def)

end
