(* ===== verification/Env.thy ===== *)
theory Env
  imports Binding Packet
begin

text \<open>
  What every protocol server shares: the view of its interface (\<^verbatim>\<open>type env\<close> of
  \<^verbatim>\<open>internal/server/iface.go\<close>) and the iteration orders of the Go maps its handlers range over.
\<close>

section \<open>The environment of a protocol server\<close>

text \<open>\<^verbatim>\<open>type env\<close> of \<^verbatim>\<open>iface.go\<close>: what a protocol server sees of its interface.\<close>

record env =
  env_mac :: bytes
  env_v4 :: "prefix option"
  env_v6 :: "prefix option"
  env_v6all :: "prefix list"
  env_linkLocal :: addr

record orders =
  ord_statics :: "(string \<times> static_binding) list \<Rightarrow> (string \<times> static_binding) list"
  ord_leases :: lease_order

definition orders_ok :: "orders \<Rightarrow> bool" where
  "orders_ok ord \<longleftrightarrow> go_order (ord_statics ord) \<and> go_order (ord_leases ord)"

definition orders_id :: orders where
  "orders_id = \<lparr>ord_statics = (\<lambda>xs. xs), ord_leases = (\<lambda>xs. xs)\<rparr>"

definition orders_rev :: orders where
  "orders_rev = \<lparr>ord_statics = rev, ord_leases = rev\<rparr>"

lemma orders_ok_examples [simp]: "orders_ok orders_id" "orders_ok orders_rev"
  by (simp_all add: orders_ok_def orders_id_def orders_rev_def)

lemma mac_example_String: "HardwareAddr_String mac_example = ''02:00:00:00:00:05''"
  by (simp add: mac_example_def hexByte_def hexDigit_def)

end
