(* ===== verification/Select.thy ===== *)
theory Select
  imports Binding
begin

text \<open>
  The address selection both DHCP servers perform, in one reference form: the matching static
  binding, else the client's unexpired lease, else a requested address, else the least free
  address of the pool. \<^verbatim>\<open>selectIP\<close> (\<^verbatim>\<open>dhcp4.go\<close>) and \<^verbatim>\<open>selectIP6\<close> (\<^verbatim>\<open>dhcp6.go\<close>) are shown
  to be instances in their theories, so the safety lemmas are proved once here, from the
  contract of the lease table.
\<close>

text \<open>The keys of the map \<^verbatim>\<open>staticIPs\<close>: the addresses pinned by static bindings.\<close>

definition staticAddrs :: "prefix \<Rightarrow> static_binding list \<Rightarrow> addr list" where
  "staticAddrs prefix bindings =
     filter IsValid (map (\<lambda>b. addrAtOffset prefix (sb_Offset b)) bindings)"

definition choosePool ::
  "time \<Rightarrow> leaseTable \<Rightarrow> prefix \<Rightarrow> u64 \<Rightarrow> u64 \<Rightarrow> addr \<Rightarrow> addr list \<Rightarrow> lease \<Rightarrow> addr \<times> leaseTable" where
  "choosePool now t prefix off1 off2 rip staticIPs lease =
     (let poolStart = addrAtOffset prefix off1;
          poolEnd = addrAtOffset prefix off2
      in if \<not> IsValid poolStart \<or> \<not> IsValid poolEnd then (AddrNone, t)
         else if IsValid rip \<and> \<not> Less poolEnd rip \<and> \<not> Less rip poolStart \<and> rip \<noteq> pfx_addr prefix \<and>
                 rip \<notin> set staticIPs \<and> \<not> inUse now t rip (lease_MAC lease) (lease_ClientID lease)
         then (rip, lt_set t (lease\<lparr>lease_IP := rip\<rparr>))
         else allocate now t poolStart poolEnd
                (\<lambda>ip. ip = pfx_addr prefix \<or> ip \<in> set staticIPs) lease)"

definition chooseDynamic ::
  "lease_order \<Rightarrow> time \<Rightarrow> leaseTable \<Rightarrow> prefix \<Rightarrow> u64 \<Rightarrow> u64 \<Rightarrow> addr \<Rightarrow> addr list \<Rightarrow> lease \<Rightarrow>
     addr \<times> leaseTable" where
  "chooseDynamic ord now t prefix off1 off2 rip staticIPs lease =
     (case byClient ord now t (lease_MAC lease) (lease_ClientID lease) of
        Some cur \<Rightarrow>
          if lease_IP cur \<notin> set staticIPs \<and> Contains (Masked prefix) (lease_IP cur)
          then (lease_IP cur, lt_set t (lease\<lparr>lease_IP := lease_IP cur\<rparr>))
          else choosePool now t prefix off1 off2 rip staticIPs lease
      | None \<Rightarrow> choosePool now t prefix off1 off2 rip staticIPs lease)"

definition chooseAddr ::
  "lease_order \<Rightarrow> time \<Rightarrow> leaseTable \<Rightarrow> static_binding list \<Rightarrow> prefix \<Rightarrow> u64 \<Rightarrow> u64 \<Rightarrow> addr \<Rightarrow>
     lease \<Rightarrow> addr \<times> leaseTable" where
  "chooseAddr ord now t bindings prefix off1 off2 rip lease =
     (let staticIPs = staticAddrs prefix bindings;
          dynamic = chooseDynamic ord now t prefix off1 off2 rip staticIPs lease
      in case matchBinding bindings (lease_MAC lease) (lease_ClientID lease) of
           Some b \<Rightarrow>
             (let ip = addrAtOffset prefix (sb_Offset b)
              in if IsValid ip
                 then (if inUse now t ip (lease_MAC lease) (lease_ClientID lease) then (AddrNone, t)
                       else (ip, lt_set t (lease\<lparr>lease_IP := ip, lease_Static := True\<rparr>)))
                 else dynamic)
         | None \<Rightarrow> dynamic)"

text \<open>The four ways a selection can succeed.\<close>

definition pinned :: "static_binding list \<Rightarrow> prefix \<Rightarrow> lease \<Rightarrow> addr" where
  "pinned bindings prefix lease =
     (case matchBinding bindings (lease_MAC lease) (lease_ClientID lease) of
        Some b \<Rightarrow> addrAtOffset prefix (sb_Offset b)
      | None \<Rightarrow> AddrNone)"

lemma chooseAddr_pinned:
  "chooseAddr ord now t bindings prefix off1 off2 rip lease =
     (let ip = pinned bindings prefix lease
      in if IsValid ip
         then (if inUse now t ip (lease_MAC lease) (lease_ClientID lease) then (AddrNone, t)
               else (ip, lt_set t (lease\<lparr>lease_IP := ip, lease_Static := True\<rparr>)))
         else chooseDynamic ord now t prefix off1 off2 rip (staticAddrs prefix bindings) lease)"
  by (simp add: chooseAddr_def pinned_def Let_def split: option.splits)

section \<open>Safety of the selection\<close>

text \<open>A range between two addresses of a prefix stays in the prefix.\<close>

lemma Contains_convex:
  assumes "prefix_ok p" and "Contains p a" and "Contains p b"
    and "Zone x = []" and "a \<le> x" and "x \<le> b"
  shows "Contains p x"
proof -
  have v: "PfxIsValid p" using assms(2) by (rule Contains_valid)
  have a: "Zone a = []" "BitLen a = BitLen (pfx_addr p)"
      "addr_val a div 2 ^ host_bits p = addr_val (pfx_addr p) div 2 ^ host_bits p"
    and b: "Zone b = []" "BitLen b = BitLen (pfx_addr p)"
      "addr_val b div 2 ^ host_bits p = addr_val (pfx_addr p) div 2 ^ host_bits p"
    using assms(2,3) by (simp_all add: Contains_iff [OF assms(1) v])
  have x: "BitLen x = BitLen (pfx_addr p)"
    using assms(5,6) a(2) b(2) by (auto simp: less_eq_addr_def)
  have "addr_val a \<le> addr_val x" "addr_val x \<le> addr_val b"
    using assms(4-6) a b x by (auto simp: less_eq_addr_def)
  then have "addr_val a div 2 ^ host_bits p \<le> addr_val x div 2 ^ host_bits p"
    and "addr_val x div 2 ^ host_bits p \<le> addr_val b div 2 ^ host_bits p"
    by (simp_all add: div_le_mono)
  with a(3) b(3) x assms(4) show ?thesis
    by (simp add: Contains_iff [OF assms(1) v])
qed

lemma kin_pool:
  "prefix_ok p \<Longrightarrow> IsValid (addrAtOffset p a) \<Longrightarrow> IsValid (addrAtOffset p b) \<Longrightarrow>
     kin (addrAtOffset p a) (addrAtOffset p b)"
  by (simp add: kin_def addrAtOffset_val)

lemma choosePool_cases:
  assumes "prefix_ok prefix" and "choosePool now t prefix off1 off2 rip staticIPs lease = (ip, t')"
    and "Zone rip = []"
  shows "if IsValid ip
     then granted now (lt_lookup t) (lt_lookup t') ip (leaseKey lease) \<and> Contains prefix ip \<and>
       ip \<notin> set staticIPs \<and> ip \<noteq> pfx_addr prefix \<and>
       addrAtOffset prefix off1 \<le> ip \<and> ip \<le> addrAtOffset prefix off2
     else t' = t"
proof -
  let ?a = "addrAtOffset prefix off1" and ?b = "addrAtOffset prefix off2"
  let ?skip = "\<lambda>ip. ip = pfx_addr prefix \<or> ip \<in> set staticIPs"
  let ?take = "IsValid rip \<and> \<not> Less ?b rip \<and> \<not> Less rip ?a \<and> rip \<noteq> pfx_addr prefix \<and>
    rip \<notin> set staticIPs \<and> \<not> inUse now t rip (lease_MAC lease) (lease_ClientID lease)"
  note eq = assms(2) [unfolded choosePool_def Let_def]
  consider "\<not> IsValid ?a \<or> \<not> IsValid ?b" | "IsValid ?a" "IsValid ?b" ?take
    | "IsValid ?a" "IsValid ?b" "\<not> ?take"
    by blast
  then show ?thesis
  proof cases
    case 1
    with eq show ?thesis by auto
  next
    case 2
    with eq have ip: "ip = rip" "t' = lt_set t (lease\<lparr>lease_IP := rip\<rparr>)"
      by auto
    have "granted now (lt_lookup t) (lt_lookup t') ip (leaseKey lease)"
      using lt.put_granted [of now t "lease\<lparr>lease_IP := rip\<rparr>" "lease_MAC lease" "lease_ClientID lease"] 2 ip
      by simp
    moreover have "Contains prefix ip"
      using Contains_convex [OF assms(1) addrAtOffset_Contains [OF assms(1) 2(1)]
          addrAtOffset_Contains [OF assms(1) 2(2)] assms(3)] 2(3) ip by (simp add: not_less)
    ultimately show ?thesis using 2 ip by (simp add: not_less)
  next
    case 3
    with eq have al: "allocate now t ?a ?b ?skip lease = (ip, t')"
      by argo
    show ?thesis
    proof (cases "IsValid ip")
      case True
      have least: "?a \<le> ip" "ip \<le> ?b" "Zone ip = []"
        using scanFree_least [OF kin_pool [OF assms(1) 3(1,2)], of ?skip "activeAt now t"]
          fst_allocate [of now t ?a ?b ?skip lease] al True by (auto simp: Let_def kin_def)
      have "\<not> ?skip ip" using lt.alloc_some [OF al True] by blast
      moreover have "granted now (lt_lookup t) (lt_lookup t') ip (leaseKey lease)"
        using lt.alloc_granted [OF al True] by simp
      moreover have "Contains prefix ip"
        using Contains_convex [OF assms(1) addrAtOffset_Contains [OF assms(1) 3(1)]
          addrAtOffset_Contains [OF assms(1) 3(2)] least(3,1,2)] .
      ultimately show ?thesis using True least by simp
    next
      case False
      then show ?thesis using lt.alloc_none [OF al] by simp
    qed
  qed
qed

lemma chooseAddr_granted:
  assumes "prefix_ok prefix" and "go_order ord" and "lt_ok t" and "Zone rip = []"
    and "chooseAddr ord now t bindings prefix off1 off2 rip lease = (ip, t')"
  shows "if IsValid ip
     then granted now (lt_lookup t) (lt_lookup t') ip (leaseKey lease) \<and> Contains prefix ip
     else t' = t"
proof -
  let ?s = "staticAddrs prefix bindings"
  have pool: "if IsValid ip
     then granted now (lt_lookup t) (lt_lookup t') ip (leaseKey lease) \<and> Contains prefix ip
     else t' = t" if "choosePool now t prefix off1 off2 rip ?s lease = (ip, t')"
    using choosePool_cases [OF assms(1) that assms(4)] by (simp split: if_splits)
  show ?thesis
  proof (cases "IsValid (pinned bindings prefix lease)")
    case True
    let ?l = "lease\<lparr>lease_IP := pinned bindings prefix lease, lease_Static := True\<rparr>"
    have "Contains prefix (pinned bindings prefix lease)"
      using True addrAtOffset_Contains [OF assms(1)] by (auto simp: pinned_def split: option.splits)
    moreover have "\<not> inUse now t (pinned bindings prefix lease) (lease_MAC lease) (lease_ClientID lease)
        \<Longrightarrow> granted now (lt_lookup t) (lt_lookup (lt_set t ?l)) (pinned bindings prefix lease)
              (leaseKey lease)"
      using lt.put_granted [of now t ?l "lease_MAC lease" "lease_ClientID lease"] by simp
    ultimately show ?thesis
      using True assms(5) by (auto simp: chooseAddr_pinned Let_def split: if_splits)
  next
    case False
    then have dyn: "chooseDynamic ord now t prefix off1 off2 rip ?s lease = (ip, t')"
      using assms(5) by (simp add: chooseAddr_pinned)
    show ?thesis
    proof (cases "byClient ord now t (lease_MAC lease) (lease_ClientID lease)")
      case None
      with dyn pool show ?thesis by (simp add: chooseDynamic_def)
    next
      case (Some cur)
      show ?thesis
      proof (cases "lease_IP cur \<notin> set ?s \<and> Contains (Masked prefix) (lease_IP cur)")
        case True
        then have ip: "ip = lease_IP cur" "t' = lt_set t (lease\<lparr>lease_IP := lease_IP cur\<rparr>)"
          using dyn Some by (auto simp: chooseDynamic_def)
        have "granted now (lt_lookup t) (lt_lookup t') ip (leaseKey lease)"
          using lt.renew_granted [OF assms(2,3) Some, of "lease\<lparr>lease_IP := lease_IP cur\<rparr>"] ip
          by simp
        moreover have "Contains prefix ip"
          using True ip Contains_Masked [OF assms(1)] by simp
        ultimately show ?thesis
          using Contains_same_family [OF assms(1)] by simp
      next
        case False
        with dyn Some have "choosePool now t prefix off1 off2 rip ?s lease = (ip, t')"
          by (simp add: chooseDynamic_def split: if_splits)
        then show ?thesis by (rule pool)
      qed
    qed
  qed
qed

text \<open>A client that matches no static binding never gets an address another one pins, and the
  gateway is handed out only if a lease or a binding already put a client there.\<close>

lemma chooseDynamic_reserved:
  assumes "prefix_ok prefix" and "Zone rip = []"
    and "chooseDynamic ord now t prefix off1 off2 rip staticIPs lease = (ip, t')" and "IsValid ip"
  shows "ip \<notin> set staticIPs \<and>
    (ip \<noteq> pfx_addr prefix \<or>
       (\<exists>l. byClient ord now t (lease_MAC lease) (lease_ClientID lease) = Some l \<and> lease_IP l = ip))"
proof -
  consider (own) cur where
      "byClient ord now t (lease_MAC lease) (lease_ClientID lease) = Some cur"
      "lease_IP cur \<notin> set staticIPs" "ip = lease_IP cur"
    | (pool) "choosePool now t prefix off1 off2 rip staticIPs lease = (ip, t')"
    using assms(3)
    by (auto simp: chooseDynamic_def split: option.splits if_splits)
  then show ?thesis
  proof cases
    case own
    then show ?thesis by simp
  next
    case pool
    from choosePool_cases [OF assms(1) this assms(2)] assms(4) show ?thesis by simp
  qed
qed

lemma pinned_static:
  "IsValid (pinned bindings prefix lease) \<Longrightarrow>
     pinned bindings prefix lease \<in> set (staticAddrs prefix bindings)"
  using matchBinding_mem [of bindings "lease_MAC lease" "lease_ClientID lease"]
  by (auto simp: pinned_def staticAddrs_def split: option.splits)

lemma chooseAddr_reserved:
  assumes "prefix_ok prefix" and "Zone rip = []"
    and "chooseAddr ord now t bindings prefix off1 off2 rip lease = (ip, t')" and "IsValid ip"
    and "ip \<in> set (staticAddrs prefix bindings)"
  shows "ip = pinned bindings prefix lease"
  using assms chooseDynamic_reserved [OF assms(1,2), of ord now t off1 off2 _ lease ip t']
  by (auto simp: chooseAddr_pinned Let_def split: if_splits)

lemma chooseAddr_not_gateway:
  assumes "prefix_ok prefix" and "go_order ord" and "lt_ok t" and "Zone rip = []"
    and "chooseAddr ord now t bindings prefix off1 off2 rip lease = (ip, t')" and "IsValid ip"
    and "pfx_addr prefix \<notin> set (staticAddrs prefix bindings)"
    and "lt_lookup t (pfx_addr prefix) = None"
  shows "ip \<noteq> pfx_addr prefix"
proof (cases "IsValid (pinned bindings prefix lease)")
  case True
  with pinned_static [OF True] assms(5,6,7) show ?thesis
    by (auto simp: chooseAddr_pinned Let_def split: if_splits)
next
  case False
  with assms(5) have "chooseDynamic ord now t prefix off1 off2 rip (staticAddrs prefix bindings) lease =
      (ip, t')"
    by (simp add: chooseAddr_pinned)
  from chooseDynamic_reserved [OF assms(1,4) this assms(6)] assms(8)
    lt.own_Some [OF assms(2,3), of now "lease_MAC lease" "lease_ClientID lease"]
  show ?thesis by force
qed

text \<open>A client whose only unexpired lease in the table lies in the prefix and is not pinned
  keeps its address, whatever the iteration order and whatever it asks for.\<close>

definition only_lease :: "time \<Rightarrow> leaseTable \<Rightarrow> string \<Rightarrow> addr \<Rightarrow> bool" where
  "only_lease now t key ip \<longleftrightarrow>
     (\<exists>l. lt_lookup t ip = Some l \<and> now \<le> lease_Expiry l \<and> leaseKey l = key) \<and>
     (\<forall>x l. lt_lookup t x = Some l \<longrightarrow> now \<le> lease_Expiry l \<longrightarrow> leaseKey l = key \<longrightarrow> x = ip)"

lemma byClient_only:
  assumes "go_order ord" and "lt_ok t" and "only_lease now t (clientKey mac cid) ip"
  shows "\<exists>l. byClient ord now t mac cid = Some l \<and> lease_IP l = ip"
proof (cases "byClient ord now t mac cid")
  case None
  with assms show ?thesis
    by (auto simp: byClient_None only_lease_def)
next
  case (Some l)
  from lt.own_Some [OF assms(1,2) Some] assms(3) have "lease_IP l = ip"
    by (auto simp: only_lease_def)
  with Some show ?thesis by simp
qed

lemma chooseAddr_renews:
  assumes "prefix_ok prefix" and "go_order ord" and "lt_ok t"
    and "only_lease now t (leaseKey lease) ip" and "Contains prefix ip"
    and "ip \<notin> set (staticAddrs prefix bindings)" and "\<not> IsValid (pinned bindings prefix lease)"
  shows "chooseAddr ord now t bindings prefix off1 off2 rip lease =
           (ip, lt_set t (lease\<lparr>lease_IP := ip\<rparr>))"
proof -
  obtain l where "byClient ord now t (lease_MAC lease) (lease_ClientID lease) = Some l"
    and "lease_IP l = ip"
    using byClient_only [OF assms(2-4)] by blast
  with assms show ?thesis
    by (simp add: chooseAddr_pinned chooseDynamic_def Contains_Masked)
qed

text \<open>A grant to a client without another unexpired lease leaves it with exactly that one.\<close>

lemma granted_only_lease:
  assumes "granted now (lt_lookup t) (lt_lookup t') ip key"
    and "lt_lookup t' ip = Some l" and "now' \<le> lease_Expiry l" and "now \<le> now'"
    and only: "\<forall>x l. lt_lookup t x = Some l \<longrightarrow> now \<le> lease_Expiry l \<longrightarrow> leaseKey l = key \<longrightarrow> x = ip"
  shows "only_lease now' t' key ip"
proof -
  from assms(1) obtain c where c: "lt_lookup t' = (lt_lookup t)(ip \<mapsto> c)" "leaseKey c = key"
    unfolding granted_def by blast
  have "x = ip" if "lt_lookup t' x = Some k" "now' \<le> lease_Expiry k" "leaseKey k = key" for x k
  proof (rule ccontr)
    assume "x \<noteq> ip"
    with that(1) c(1) have "lt_lookup t x = Some k" by simp
    moreover have "now \<le> lease_Expiry k" using that(2) assms(4) by simp
    ultimately show False using only that(3) \<open>x \<noteq> ip\<close> by blast
  qed
  moreover have "leaseKey l = key" using assms(2) c by simp
  ultimately show ?thesis
    using assms(2,3) unfolding only_lease_def by blast
qed

lemma choosePool_expiry:
  assumes "choosePool now t prefix off1 off2 rip staticIPs lease = (ip, t')" and "IsValid ip"
  shows "\<exists>l. lt_lookup t' ip = Some l \<and> lease_Expiry l = lease_Expiry lease"
proof -
  have al: "\<exists>l. lt_lookup t' ip = Some l \<and> lease_Expiry l = lease_Expiry lease"
    if "allocate now t a b skip lease = (ip, t')" for a b skip
    using lt.alloc_some [OF that assms(2)] by simp
  consider "ip = AddrNone" | "t' = lt_set t (lease\<lparr>lease_IP := ip\<rparr>)"
    | "allocate now t (addrAtOffset prefix off1) (addrAtOffset prefix off2)
         (\<lambda>ip. ip = pfx_addr prefix \<or> ip \<in> set staticIPs) lease = (ip, t')"
    using assms(1) by (simp only: choosePool_def Let_def split: if_splits) auto
  then show ?thesis
    using assms(2) al by cases (simp_all add: lt_lookup_set)
qed

lemma chooseAddr_expiry:
  assumes "chooseAddr ord now t bindings prefix off1 off2 rip lease = (ip, t')" and "IsValid ip"
  shows "\<exists>l. lt_lookup t' ip = Some l \<and> lease_Expiry l = lease_Expiry lease"
proof (cases "IsValid (pinned bindings prefix lease)")
  case True
  with assms show ?thesis
    by (auto simp: chooseAddr_pinned Let_def lt_lookup_set split: if_splits)
next
  case False
  let ?s = "staticAddrs prefix bindings"
  have dyn: "chooseDynamic ord now t prefix off1 off2 rip ?s lease = (ip, t')"
    using assms(1) False by (simp add: chooseAddr_pinned)
  consider "t' = lt_set t (lease\<lparr>lease_IP := ip\<rparr>)"
    | "choosePool now t prefix off1 off2 rip ?s lease = (ip, t')"
    using dyn by (auto simp: chooseDynamic_def split: option.splits if_splits)
  then show ?thesis
    using choosePool_expiry [OF _ assms(2)] by cases (auto simp: lt_lookup_set)
qed

section \<open>A booked address stays booked\<close>

text \<open>\<open>leased\<close>: the address is leased under the key until \<open>exp\<close>. \<open>sole\<close>: the key has no
  unexpired lease elsewhere. Both survive the passing of time, updates at other addresses under
  other keys, and the sweeper.\<close>

definition leased :: "leaseTable \<Rightarrow> string \<Rightarrow> addr \<Rightarrow> time \<Rightarrow> bool" where
  "leased t key ip exp \<longleftrightarrow>
     (\<exists>l. lt_lookup t ip = Some l \<and> lease_Expiry l = exp \<and> leaseKey l = key)"

definition sole :: "time \<Rightarrow> leaseTable \<Rightarrow> string \<Rightarrow> addr \<Rightarrow> bool" where
  "sole now t key ip \<longleftrightarrow>
     (\<forall>x l. lt_lookup t x = Some l \<longrightarrow> now \<le> lease_Expiry l \<longrightarrow> leaseKey l = key \<longrightarrow> x = ip)"

lemma leased_sole_only:
  "leased t key ip exp \<Longrightarrow> sole now t key ip \<Longrightarrow> now \<le> exp \<Longrightarrow> only_lease now t key ip"
  by (auto simp: leased_def sole_def only_lease_def)

lemma sole_later: "sole now t key ip \<Longrightarrow> now \<le> now' \<Longrightarrow> sole now' t key ip"
  by (force simp: sole_def)

lemma leased_update:
  "leased t key ip exp \<Longrightarrow> lt_lookup t' = (lt_lookup t)(x := v) \<Longrightarrow> x \<noteq> ip \<Longrightarrow> leased t' key ip exp"
  by (simp add: leased_def)

lemma sole_update:
  "sole now t key ip \<Longrightarrow> lt_lookup t' = (lt_lookup t)(x := v) \<Longrightarrow>
     (\<And>c. v = Some c \<Longrightarrow> leaseKey c = key \<Longrightarrow> x = ip) \<Longrightarrow> sole now t' key ip"
  by (auto simp: sole_def)

lemma leased_not_granted:
  "leased t key ip exp \<Longrightarrow> now \<le> exp \<Longrightarrow> granted now (lt_lookup t) m' x key' \<Longrightarrow> key' \<noteq> key \<Longrightarrow> x \<noteq> ip"
  unfolding leased_def granted_def by metis

lemma leased_granted:
  assumes "leased t key ip exp" and "now \<le> exp"
    and "granted now (lt_lookup t) (lt_lookup t') x key'" and "key' \<noteq> key"
  shows "leased t' key ip exp"
  using leased_update [OF assms(1) _ leased_not_granted [OF assms]] assms(3)
  unfolding granted_def by metis

lemma sole_granted:
  assumes "sole now t key ip" and "granted now (lt_lookup t) (lt_lookup t') x key'"
    and "key' = key \<longrightarrow> x = ip"
  shows "sole now t' key ip"
proof -
  obtain c where c: "lt_lookup t' = (lt_lookup t)(x \<mapsto> c)" "leaseKey c = key'"
    using assms(2) unfolding granted_def by blast
  from sole_update [OF assms(1) c(1)] c(2) assms(3) show ?thesis by simp
qed

lemma leased_sweep:
  "leased t key ip exp \<Longrightarrow> now \<le> exp \<Longrightarrow> lt_ok t \<Longrightarrow> leased (expireSweep now t) key ip exp"
  by (auto simp: leased_def lt_lookup_sweep)

lemma sole_sweep: "sole now t key ip \<Longrightarrow> lt_ok t \<Longrightarrow> sole now (expireSweep now t) key ip"
  by (auto simp: sole_def lt_lookup_sweep split: option.splits if_splits)

text \<open>The address a successful selection returns is leased to the client.\<close>

lemma chooseAddr_leased:
  assumes "prefix_ok prefix" and "go_order ord" and "lt_ok t" and "Zone rip = []"
    and "chooseAddr ord now t bindings prefix off1 off2 rip lease = (ip, t')" and "IsValid ip"
  shows "leased t' (leaseKey lease) ip (lease_Expiry lease)"
proof -
  obtain l where l: "lt_lookup t' ip = Some l" "lease_Expiry l = lease_Expiry lease"
    using chooseAddr_expiry [OF assms(5,6)] by blast
  have "granted now (lt_lookup t) (lt_lookup t') ip (leaseKey lease)"
    using chooseAddr_granted [OF assms(1-5)] assms(6) by simp
  with l have "leaseKey l = leaseKey lease"
    unfolding granted_def by fastforce
  with l show ?thesis by (simp add: leased_def)
qed

text \<open>The client that holds an address selects it again, pinned or not.\<close>

lemma chooseAddr_kind:
  assumes "prefix_ok prefix" and "Zone rip = []"
    and "chooseAddr ord now t bindings prefix off1 off2 rip lease = (ip, t')" and "IsValid ip"
  shows "if IsValid (pinned bindings prefix lease) then ip = pinned bindings prefix lease
     else ip \<notin> set (staticAddrs prefix bindings)"
proof (cases "IsValid (pinned bindings prefix lease)")
  case True
  with assms(3,4) show ?thesis by (auto simp: chooseAddr_pinned Let_def split: if_splits)
next
  case False
  with assms(3) have "chooseDynamic ord now t prefix off1 off2 rip (staticAddrs prefix bindings) lease =
      (ip, t')"
    by (simp add: chooseAddr_pinned)
  from chooseDynamic_reserved [OF assms(1,2) this assms(4)] False show ?thesis by simp
qed

lemma chooseAddr_again:
  assumes "prefix_ok prefix" and "go_order ord" and "lt_ok t"
    and "only_lease now t (leaseKey lease) ip" and "Contains prefix ip"
    and "if IsValid (pinned bindings prefix lease) then ip = pinned bindings prefix lease
      else ip \<notin> set (staticAddrs prefix bindings)"
  shows "fst (chooseAddr ord now t bindings prefix off1 off2 rip lease) = ip"
proof (cases "IsValid (pinned bindings prefix lease)")
  case True
  have "\<not> inUse now t ip (lease_MAC lease) (lease_ClientID lease)"
    using assms(4) by (auto simp: lt.used_iff only_lease_def)
  with True assms(6) show ?thesis by (simp add: chooseAddr_pinned Let_def)
next
  case False
  with assms chooseAddr_renews [OF assms(1-5)] show ?thesis by simp
qed

text \<open>At most one binding matches the client; then the match, and so the pinned address, is a
  function of the set of bindings and not of the order they are visited in.\<close>

definition unambiguous :: "static_binding set \<Rightarrow> string \<Rightarrow> string \<Rightarrow> bool" where
  "unambiguous B mac cid \<longleftrightarrow>
     (\<forall>b \<in> B. \<forall>c \<in> B. bindingScore b mac cid \<noteq> None \<longrightarrow> bindingScore c mac cid \<noteq> None \<longrightarrow> b = c)"

lemma matchBinding_Some_score: "matchBinding bs mac cid = Some x \<Longrightarrow> bindingScore x mac cid \<noteq> None"
  using matchLoop_Some [of bs mac cid None 0 x] by (auto simp: matchBinding_def)

lemma matchBinding_None_score:
  "matchBinding bs mac cid = None \<Longrightarrow> b \<in> set bs \<Longrightarrow> bindingScore b mac cid = None"
  using matchLoop_None [of bs mac cid None 0] by (simp add: matchBinding_def)

lemma matchBinding_unambiguous:
  assumes "unambiguous (set bs) mac cid" and "set bs' = set bs"
  shows "matchBinding bs' mac cid = matchBinding bs mac cid"
proof (rule option_eqI)
  fix x
  have iff: "matchBinding cs mac cid = Some x \<longleftrightarrow> x \<in> set cs \<and> bindingScore x mac cid \<noteq> None"
    if "unambiguous (set cs) mac cid" for cs
  proof (cases "matchBinding cs mac cid")
    case None
    then show ?thesis using matchBinding_None_score by auto
  next
    case (Some y)
    then show ?thesis
      using that matchBinding_mem [OF Some] matchBinding_Some_score [OF Some]
      unfolding unambiguous_def by (metis option.inject)
  qed
  show "matchBinding bs' mac cid = Some x \<longleftrightarrow> matchBinding bs mac cid = Some x"
    using iff [of bs] iff [of bs'] assms by simp
qed

lemma pinned_unambiguous:
  assumes "unambiguous (set bs) (lease_MAC l) (lease_ClientID l)" and "set bs' = set bs"
  shows "pinned bs' prefix l = pinned bs prefix l"
  unfolding pinned_def matchBinding_unambiguous [OF assms] ..

lemma set_staticAddrs_cong:
  "set bs' = set bs \<Longrightarrow> set (staticAddrs prefix bs') = set (staticAddrs prefix bs)"
  by (auto simp: staticAddrs_def)

lemma lt_ok_choosePool:
  assumes "lt_ok t" and "choosePool now t prefix off1 off2 rip staticIPs lease = (ip, t')"
  shows "lt_ok t'"
proof -
  have "lt_ok t'" if "allocate now t a b skip lease = (ip, t')" for a b skip
    using lt_ok_allocate [OF assms(1), of now a b skip lease] that by simp
  with assms lt_ok_set [OF assms(1), of "lease\<lparr>lease_IP := rip\<rparr>"] show ?thesis
    by (simp only: choosePool_def Let_def split: if_splits) auto
qed

lemma lt_ok_chooseAddr:
  assumes "lt_ok t" and "chooseAddr ord now t bindings prefix off1 off2 rip lease = (ip, t')"
  shows "lt_ok t'"
proof (cases "IsValid (pinned bindings prefix lease)")
  case True
  with assms lt_ok_set [OF assms(1)] show ?thesis
    by (auto simp: chooseAddr_pinned Let_def split: if_splits)
next
  case False
  let ?s = "staticAddrs prefix bindings"
  have "chooseDynamic ord now t prefix off1 off2 rip ?s lease = (ip, t')"
    using assms(2) False by (simp add: chooseAddr_pinned)
  then consider "t' = lt_set t (lease\<lparr>lease_IP := ip\<rparr>)"
    | "choosePool now t prefix off1 off2 rip ?s lease = (ip, t')"
    by (auto simp: chooseDynamic_def split: option.splits if_splits)
  then show ?thesis
    using lt_ok_choosePool [OF assms(1)] lt_ok_set [OF assms(1)] by cases auto
qed

section \<open>Servers over time\<close>

text \<open>A run of timed steps. The clock never goes back; the steps of a server are the frames it
  handles and the ticks of its sweeper.\<close>

inductive timed_run :: "(time \<Rightarrow> 's \<Rightarrow> 's \<Rightarrow> bool) \<Rightarrow> time \<Rightarrow> 's \<Rightarrow> time \<Rightarrow> 's \<Rightarrow> bool"
  for step now0 s0 where
  start: "timed_run step now0 s0 now0 s0"
| tick: "timed_run step now0 s0 now s \<Longrightarrow> now \<le> now' \<Longrightarrow> step now' s s' \<Longrightarrow>
    timed_run step now0 s0 now' s'"

text \<open>What a server promises about the lease of \<open>key\<close> at \<open>ip\<close> while the given steps happen:
  the lease is kept (\<open>lease_server\<close>), and the client gets no other one (\<open>sole_server\<close>).\<close>

locale lease_server =
  fixes leases :: "'s \<Rightarrow> leaseTable"
    and ok :: "'s \<Rightarrow> bool"
    and fixed :: "'s \<Rightarrow> 'c"
    and step :: "time \<Rightarrow> 's \<Rightarrow> 's \<Rightarrow> bool"
    and key :: string
    and ip :: addr
  assumes ok_leases: "ok s \<Longrightarrow> lt_ok (leases s)"
    and step_ok: "ok s \<Longrightarrow> step now s s' \<Longrightarrow> ok s'"
    and step_fixed: "ok s \<Longrightarrow> step now s s' \<Longrightarrow> fixed s' = fixed s"
    and step_leased: "ok s \<Longrightarrow> step now s s' \<Longrightarrow> leased (leases s) key ip exp \<Longrightarrow> now \<le> exp \<Longrightarrow>
      leased (leases s') key ip exp"
begin

lemma run_keeps:
  assumes "timed_run step now0 s0 now s" and "ok s0"
  shows "ok s \<and> fixed s = fixed s0 \<and>
    (leased (leases s0) key ip exp \<longrightarrow> now \<le> exp \<longrightarrow> leased (leases s) key ip exp)"
  using assms(1)
proof induction
  case start
  then show ?case using assms(2) by simp
next
  case (tick now s now' s')
  then show ?case
    using step_ok [OF _ tick(3)] step_fixed [OF _ tick(3)] step_leased [OF _ tick(3)] by auto
qed

lemma not_granted:
  assumes "timed_run step now0 s0 now s" and "ok s0" and "leased (leases s0) key ip exp"
    and "now \<le> exp" and "granted now (lt_lookup (leases s)) m' x key'" and "key' \<noteq> key"
  shows "x \<noteq> ip"
  using run_keeps [OF assms(1,2), of exp] assms(3,4) leased_not_granted [OF _ assms(4-6)] by blast

end

locale sole_server = lease_server +
  assumes step_sole: "ok s \<Longrightarrow> step now s s' \<Longrightarrow> sole now (leases s) key ip \<Longrightarrow>
    sole now (leases s') key ip"
begin

lemma run_sole:
  assumes "timed_run step now0 s0 now s" and "ok s0" and "sole now0 (leases s0) key ip"
  shows "sole now (leases s) key ip"
  using assms(1)
proof induction
  case start
  then show ?case using assms(3) by simp
next
  case (tick now s now' s')
  have "ok s" using run_keeps [OF tick(1) assms(2)] by blast
  with tick show ?case using step_sole sole_later by blast
qed

text \<open>The client that was booked an address selects it again after any run that ends before the
  lease does, provided it matches at most one binding.\<close>

lemma rebook:
  assumes "prefix_ok prefix" and "go_order ord" and "go_order ord'" and "lt_ok t"
    and "Zone rip = []"
    and "chooseAddr ord now t bindings prefix off1 off2 rip l = (ip, leases s1)" and "IsValid ip"
    and "leaseKey l = key" and "sole now t key ip" and "ok s1"
    and "timed_run step now s1 now' s2" and "now' \<le> lease_Expiry l"
    and "set bindings' = set bindings"
    and "unambiguous (set bindings) (lease_MAC l) (lease_ClientID l)"
    and "lease_MAC l' = lease_MAC l" and "lease_ClientID l' = lease_ClientID l"
  shows "fst (chooseAddr ord' now' (leases s2) bindings' prefix off1' off2' rip' l') = ip"
proof -
  have gr: "granted now (lt_lookup t) (lt_lookup (leases s1)) ip key" "Contains prefix ip"
    using chooseAddr_granted [OF assms(1,2,4-6)] assms(7,8) by simp_all
  have "leased (leases s1) key ip (lease_Expiry l)"
    using chooseAddr_leased [OF assms(1,2,4-7)] assms(8) by simp
  then have "ok s2" "leased (leases s2) key ip (lease_Expiry l)"
    using run_keeps [OF assms(11,10), of "lease_Expiry l"] assms(12) by blast+
  moreover have "sole now' (leases s2) key ip"
    using run_sole [OF assms(11,10) sole_granted [OF assms(9) gr(1)]] by simp
  ultimately have "only_lease now' (leases s2) (leaseKey l') ip"
    using leased_sole_only assms(8,12,15,16) by simp
  moreover have "pinned bindings' prefix l' = pinned bindings prefix l"
    using pinned_unambiguous [OF assms(14,13), of prefix] assms(15,16) by (simp add: pinned_def)
  ultimately show ?thesis
    using chooseAddr_again [OF assms(1,3) ok_leases [OF \<open>ok s2\<close>] _ gr(2)]
      chooseAddr_kind [OF assms(1,5-7)] set_staticAddrs_cong [OF assms(13)] by simp
qed

end

end
