(* ===== verification/Dhcp4.thy ===== *)
theory Dhcp4
  imports Env Select Packet
begin

text \<open>
  \<^verbatim>\<open>internal/server/dhcp4.go\<close>: the DHCPv4 server of one interface. The message codec
  (\<^verbatim>\<open>github.com/insomniacslk/dhcp/dhcpv4\<close>) is not part of the sources: it is the parameter
  \<open>dhcp4_lib\<close>, and a parsed request is the record of what the handlers read of it. A handler
  reads the clock once (\<open>now\<close>), takes the iteration orders of the Go maps it ranges over as
  \<open>orders\<close>, and returns the new state and the frames handed to \<^verbatim>\<open>env.write\<close>.
\<close>

section \<open>Messages and the codec\<close>

text \<open>\<^verbatim>\<open>nil\<close> and a present \<^verbatim>\<open>net.IP\<close>.\<close>

definition ip_bytes :: "bytes option \<Rightarrow> bytes" where
  "ip_bytes ip = (case ip of None \<Rightarrow> [] | Some b \<Rightarrow> b)"

abbreviation OpcodeBootRequest :: u8 where "OpcodeBootRequest \<equiv> 1"
abbreviation MT_Discover :: u8 where "MT_Discover \<equiv> 1"
abbreviation MT_Offer :: u8 where "MT_Offer \<equiv> 2"
abbreviation MT_Request :: u8 where "MT_Request \<equiv> 3"
abbreviation MT_Decline :: u8 where "MT_Decline \<equiv> 4"
abbreviation MT_Ack :: u8 where "MT_Ack \<equiv> 5"
abbreviation MT_Nak :: u8 where "MT_Nak \<equiv> 6"
abbreviation MT_Release :: u8 where "MT_Release \<equiv> 7"

record dhcp4_msg =
  m4_OpCode :: u8
  m4_MessageType :: u8
  m4_ClientHWAddr :: bytes
  m4_ClientIPAddr :: "bytes option"
  m4_RequestedIPAddress :: "bytes option"
  m4_ClientIdentifier :: bytes
  m4_HostName :: string
  m4_IsBroadcast :: bool

datatype opt4 =
    OptServerIdentifier bytes
  | OptSubnetMask bytes
  | OptRouter bytes
  | OptDNS "bytes list"
  | OptIPAddressLeaseTime duration
  | OptRenewTimeValue duration
  | OptRebindingTimeValue duration

datatype mod4 = WithMessageType u8 | WithServerIP bytes | WithOption opt4

record 'r dhcp4_lib =
  d4_FromBytes :: "bytes \<Rightarrow> dhcp4_msg option"
  d4_NewReplyFromRequest :: "dhcp4_msg \<Rightarrow> mod4 list \<Rightarrow> 'r option"
  d4_setYourIPAddr :: "'r \<Rightarrow> bytes \<Rightarrow> 'r"
  d4_MessageType :: "'r \<Rightarrow> u8"
  d4_ToBytes :: "'r \<Rightarrow> bytes"

section \<open>Configuration and state\<close>

abbreviation dhcp4ServerPort :: u16 where "dhcp4ServerPort \<equiv> 67"
abbreviation dhcp4ClientPort :: u16 where "dhcp4ClientPort \<equiv> 68"
abbreviation defaultLeaseTime :: duration where "defaultLeaseTime \<equiv> Hour"

definition broadcastMAC :: bytes where
  "broadcastMAC = [0xff, 0xff, 0xff, 0xff, 0xff, 0xff]"

text \<open>\<^verbatim>\<open>net.IPv4bcast\<close> in its 16-byte form.\<close>

definition broadcastIP4 :: bytes where
  "broadcastIP4 = v4InV6 @ [255, 255, 255, 255]"

record DHCP4Config =
  c4_Enabled :: bool
  c4_PoolOffsetStart :: u64
  c4_PoolOffsetEnd :: u64
  c4_LeaseTime :: duration
  c4_DNS :: "addr list"

definition normalize4 :: "DHCP4Config \<Rightarrow> server_err + DHCP4Config" where
  "normalize4 c =
     (if \<not> c4_Enabled c then Inr c
      else if c4_PoolOffsetStart c = 0 \<or> c4_PoolOffsetEnd c < c4_PoolOffsetStart c
      then Inl (ErrDhcp4Pool (c4_PoolOffsetStart c) (c4_PoolOffsetEnd c))
      else Inr (if c4_LeaseTime c \<le> 0 then c\<lparr>c4_LeaseTime := defaultLeaseTime\<rparr> else c))"

record dhcp4Server =
  s4_cfg :: DHCP4Config
  s4_statics :: "(string, static_binding) gomap"
  s4_leases :: leaseTable

definition newDHCP4Server :: "DHCP4Config \<Rightarrow> dhcp4Server" where
  "newDHCP4Server cfg = \<lparr>s4_cfg = cfg, s4_statics = [], s4_leases = newLeaseTable\<rparr>"

text \<open>One tick of \<^verbatim>\<open>sweepLoop\<close>.\<close>

definition sweep4 :: "time \<Rightarrow> dhcp4Server \<Rightarrow> dhcp4Server" where
  "sweep4 now s = s\<lparr>s4_leases := expireSweep now (s4_leases s)\<rparr>"

section \<open>Static bindings and leases over the API\<close>

definition PutStatic4 :: "dhcp4Server \<Rightarrow> static_binding \<Rightarrow> server_err + dhcp4Server" where
  "PutStatic4 s b =
     (if sb_ID b = '''' then Inl ErrNeedsID
      else case validate b of
        Some err \<Rightarrow> Inl err
      | None \<Rightarrow> Inr (s\<lparr>s4_statics := AList.update (sb_ID b) b (s4_statics s)\<rparr>))"

definition ReplaceStatics4 :: "dhcp4Server \<Rightarrow> static_binding list \<Rightarrow> server_err + dhcp4Server" where
  "ReplaceStatics4 s bs =
     (case buildStaticSet bs of
        Inl err \<Rightarrow> Inl err
      | Inr m \<Rightarrow> Inr (s\<lparr>s4_statics := m\<rparr>))"

definition ListStatic4 :: "orders \<Rightarrow> dhcp4Server \<Rightarrow> static_binding list" where
  "ListStatic4 ord s = map snd (ord_statics ord (s4_statics s))"

definition DeleteStatic4 :: "dhcp4Server \<Rightarrow> string \<Rightarrow> server_err + dhcp4Server" where
  "DeleteStatic4 s key =
     (if map_of (s4_statics s) key = None then Inl (ErrStaticNotFound key)
      else Inr (s\<lparr>s4_statics := AList.delete key (s4_statics s)\<rparr>))"

definition Leases4 :: "orders \<Rightarrow> time \<Rightarrow> dhcp4Server \<Rightarrow> lease list" where
  "Leases4 ord now s = snapshot (ord_leases ord) now (s4_leases s)"

definition ReleaseLease4 :: "dhcp4Server \<Rightarrow> addr \<Rightarrow> server_err + dhcp4Server" where
  "ReleaseLease4 s ip =
     (case lt_release (s4_leases s) ip of
        (ok, t) \<Rightarrow> if \<not> ok then Inl (ErrLeaseNotFound ip) else Inr (s\<lparr>s4_leases := t\<rparr>))"

section \<open>Address selection\<close>

definition clientIDOf :: "dhcp4_msg \<Rightarrow> string" where
  "clientIDOf req = EncodeToString (m4_ClientIdentifier req)"

text \<open>The part of \<open>selectIP\<close> after the static match: the client's lease, the requested address,
  the pool.\<close>

definition selectDynamic4 ::
  "orders \<Rightarrow> time \<Rightarrow> leaseTable \<Rightarrow> DHCP4Config \<Rightarrow> prefix \<Rightarrow> dhcp4_msg \<Rightarrow> addr list \<Rightarrow> lease \<Rightarrow>
     addr \<times> leaseTable" where
  "selectDynamic4 ord now t cfg prefix req staticIPs lease =
     (let mac = lease_MAC lease;
          cid = lease_ClientID lease;
          gwIP = pfx_addr prefix;
          poolStart = addrAtOffset prefix (c4_PoolOffsetStart cfg);
          poolEnd = addrAtOffset prefix (c4_PoolOffsetEnd cfg);
          rip = (case m4_RequestedIPAddress req of
                   None \<Rightarrow> AddrNone
                 | Some reqIP \<Rightarrow> AddrFromSlice (To4 reqIP));
          pool =
            (if \<not> IsValid poolStart \<or> \<not> IsValid poolEnd then (AddrNone, t)
             else if IsValid rip \<and> \<not> Less poolEnd rip \<and> \<not> Less rip poolStart \<and> rip \<noteq> gwIP \<and>
                     rip \<notin> set staticIPs \<and> \<not> inUse now t rip mac cid
             then (rip, lt_set t (lease\<lparr>lease_IP := rip\<rparr>))
             else allocate now t poolStart poolEnd
                    (\<lambda>ip. ip = gwIP \<or> ip \<in> set staticIPs) lease)
      in case byClient (ord_leases ord) now t mac cid of
           Some cur \<Rightarrow>
             if lease_IP cur \<notin> set staticIPs \<and> Contains (Masked prefix) (lease_IP cur)
             then (lease_IP cur, lt_set t (lease\<lparr>lease_IP := lease_IP cur\<rparr>))
             else pool
         | None \<Rightarrow> pool)"

definition selectIP ::
  "orders \<Rightarrow> time \<Rightarrow> dhcp4Server \<Rightarrow> DHCP4Config \<Rightarrow> prefix \<Rightarrow> dhcp4_msg \<Rightarrow> addr \<times> leaseTable" where
  "selectIP ord now s cfg prefix req =
     (let mac = HardwareAddr_String (m4_ClientHWAddr req);
          cid = clientIDOf req;
          t = s4_leases s;
          bindings = map snd (ord_statics ord (s4_statics s));
          staticIPs = staticAddrs prefix bindings;
          lease = \<lparr>lease_IP = AddrNone, lease_MAC = mac, lease_ClientID = cid,
                   lease_Hostname = m4_HostName req, lease_Expiry = now + c4_LeaseTime cfg,
                   lease_Static = False\<rparr>;
          dynamic = selectDynamic4 ord now t cfg prefix req staticIPs lease
      in case matchBinding bindings mac cid of
           Some b \<Rightarrow>
             (let ip = addrAtOffset prefix (sb_Offset b)
              in if IsValid ip
                 then (if inUse now t ip mac cid then (AddrNone, t)
                       else (ip, lt_set t (lease\<lparr>lease_IP := ip, lease_Static := True\<rparr>)))
                 else dynamic)
         | None \<Rightarrow> dynamic)"

section \<open>Replies\<close>

definition dnsServers4 :: "DHCP4Config \<Rightarrow> prefix \<Rightarrow> bytes list" where
  "dnsServers4 cfg prefix =
     (if c4_DNS cfg = [] then [AsSlice (pfx_addr prefix)] else map AsSlice (c4_DNS cfg))"

definition transmit4 ::
  "'r dhcp4_lib \<Rightarrow> env \<Rightarrow> prefix \<Rightarrow> dhcp4_msg \<Rightarrow> 'r \<Rightarrow> addr \<Rightarrow> bytes list" where
  "transmit4 lib e prefix req reply yiaddr =
     (let (dstMAC, dstIP) =
        (if m4_ClientIPAddr req \<noteq> None \<and> \<not> IP_IsUnspecified (ip_bytes (m4_ClientIPAddr req))
         then (m4_ClientHWAddr req, ip_bytes (m4_ClientIPAddr req))
         else if d4_MessageType lib reply = MT_Nak \<or> m4_IsBroadcast req \<or> \<not> IsValid yiaddr
         then (broadcastMAC, broadcastIP4)
         else (m4_ClientHWAddr req, AsSlice yiaddr))
      in [CraftUDP4 (env_mac e) dstMAC (AsSlice (pfx_addr prefix)) dstIP
            dhcp4ServerPort dhcp4ClientPort (d4_ToBytes lib reply)])"

definition replyMods4 :: "DHCP4Config \<Rightarrow> prefix \<Rightarrow> u8 \<Rightarrow> mod4 list" where
  "replyMods4 cfg prefix typ =
     (let gw = AsSlice (pfx_addr prefix);
          mask = CIDRMask (pfx_bits prefix) 32
      in [WithMessageType typ,
          WithServerIP gw,
          WithOption (OptServerIdentifier gw),
          WithOption (OptSubnetMask mask),
          WithOption (OptRouter gw),
          WithOption (OptDNS (dnsServers4 cfg prefix)),
          WithOption (OptIPAddressLeaseTime (c4_LeaseTime cfg)),
          WithOption (OptRenewTimeValue (go_div (c4_LeaseTime cfg) 2)),
          WithOption (OptRebindingTimeValue (go_div (wrap64 (c4_LeaseTime cfg * 7)) 8))])"

definition sendReply ::
  "'r dhcp4_lib \<Rightarrow> env \<Rightarrow> DHCP4Config \<Rightarrow> prefix \<Rightarrow> dhcp4_msg \<Rightarrow> u8 \<Rightarrow> addr \<Rightarrow> bytes list" where
  "sendReply lib e cfg prefix req typ ip =
     (case d4_NewReplyFromRequest lib req (replyMods4 cfg prefix typ) of
        None \<Rightarrow> []
      | Some reply \<Rightarrow> transmit4 lib e prefix req (d4_setYourIPAddr lib reply (AsSlice ip)) ip)"

definition sendNak :: "'r dhcp4_lib \<Rightarrow> env \<Rightarrow> prefix \<Rightarrow> dhcp4_msg \<Rightarrow> bytes list" where
  "sendNak lib e prefix req =
     (case d4_NewReplyFromRequest lib req
        [WithMessageType MT_Nak, WithOption (OptServerIdentifier (AsSlice (pfx_addr prefix)))] of
        None \<Rightarrow> []
      | Some reply \<Rightarrow> transmit4 lib e prefix req reply AddrNone)"

section \<open>Handlers\<close>

definition replyToDiscover ::
  "orders \<Rightarrow> 'r dhcp4_lib \<Rightarrow> time \<Rightarrow> env \<Rightarrow> dhcp4Server \<Rightarrow> DHCP4Config \<Rightarrow> prefix \<Rightarrow> dhcp4_msg \<Rightarrow>
     dhcp4Server \<times> bytes list" where
  "replyToDiscover ord lib now e s cfg prefix req =
     (let (ip, t) = selectIP ord now s cfg prefix req; s' = s\<lparr>s4_leases := t\<rparr>
      in if \<not> IsValid ip then (s', [])
         else (s', sendReply lib e cfg prefix req MT_Offer ip))"

text \<open>The address a REQUEST asks for: option 50, else \<^verbatim>\<open>ciaddr\<close>; the invalid address when the
  request names none.\<close>

definition wantedIP :: "dhcp4_msg \<Rightarrow> addr" where
  "wantedIP req =
     (let want = (case m4_RequestedIPAddress req of
                    None \<Rightarrow> AddrNone
                  | Some rip \<Rightarrow> AddrFromSlice (To4 rip))
      in if \<not> IsValid want \<or> IsUnspecified want
         then (let want = AddrFromSlice (To4 (ip_bytes (m4_ClientIPAddr req)))
               in if \<not> IsValid want \<or> IsUnspecified want then AddrNone else want)
         else want)"

definition replyToRequest ::
  "orders \<Rightarrow> 'r dhcp4_lib \<Rightarrow> time \<Rightarrow> env \<Rightarrow> dhcp4Server \<Rightarrow> DHCP4Config \<Rightarrow> prefix \<Rightarrow> dhcp4_msg \<Rightarrow>
     dhcp4Server \<times> bytes list" where
  "replyToRequest ord lib now e s cfg prefix req =
     (let want = wantedIP req
      in if \<not> IsValid want then (s, sendNak lib e prefix req)
         else
           (let (got, t) = selectIP ord now s cfg prefix req; s' = s\<lparr>s4_leases := t\<rparr>
            in if \<not> IsValid got \<or> got \<noteq> want then (s', sendNak lib e prefix req)
               else (s', sendReply lib e cfg prefix req MT_Ack got)))"

definition handleMessage4 ::
  "orders \<Rightarrow> 'r dhcp4_lib \<Rightarrow> time \<Rightarrow> env \<Rightarrow> dhcp4Server \<Rightarrow> DHCP4Config \<Rightarrow> prefix \<Rightarrow> dhcp4_msg \<Rightarrow>
     dhcp4Server \<times> bytes list" where
  "handleMessage4 ord lib now e s cfg prefix req =
     (if m4_MessageType req = MT_Discover then replyToDiscover ord lib now e s cfg prefix req
      else if m4_MessageType req = MT_Request then replyToRequest ord lib now e s cfg prefix req
      else if m4_MessageType req = MT_Release then
        (let ip = AddrFromSlice (To4 (ip_bytes (m4_ClientIPAddr req)))
         in if IsValid ip then (s\<lparr>s4_leases := snd (lt_release (s4_leases s) ip)\<rparr>, []) else (s, []))
      else if m4_MessageType req = MT_Decline then
        (case m4_RequestedIPAddress req of
           None \<Rightarrow> (s, [])
         | Some rip \<Rightarrow>
             (let ip = AddrFromSlice (To4 rip)
              in if IsValid ip
                 then (s\<lparr>s4_leases := lt_set (s4_leases s)
                         \<lparr>lease_IP = ip, lease_MAC = ''declined'', lease_ClientID = '''',
                          lease_Hostname = '''', lease_Expiry = now + c4_LeaseTime cfg,
                          lease_Static = False\<rparr>\<rparr>, [])
                 else (s, [])))
      else (s, []))"

definition handleFrame4 ::
  "orders \<Rightarrow> 'r dhcp4_lib \<Rightarrow> time \<Rightarrow> env \<Rightarrow> dhcp4Server \<Rightarrow> ingress \<Rightarrow>
     bool \<times> dhcp4Server \<times> bytes list" where
  "handleFrame4 ord lib now e s pkt =
     (if \<not> in_IsUDP4 pkt \<or> in_DstPort pkt \<noteq> dhcp4ServerPort then (False, s, [])
      else
        (let cfg = s4_cfg s
         in case env_v4 e of
              None \<Rightarrow> (True, s, [])
            | Some prefix \<Rightarrow>
                if \<not> c4_Enabled cfg then (True, s, [])
                else (case d4_FromBytes lib (in_Payload pkt) of
                        None \<Rightarrow> (True, s, [])
                      | Some req \<Rightarrow>
                          if m4_OpCode req \<noteq> OpcodeBootRequest then (True, s, [])
                          else (True, handleMessage4 ord lib now e s cfg prefix req))))"

section \<open>The selection refines the reference selection\<close>

definition newLease4 :: "time \<Rightarrow> DHCP4Config \<Rightarrow> dhcp4_msg \<Rightarrow> lease" where
  "newLease4 now cfg req =
     \<lparr>lease_IP = AddrNone, lease_MAC = HardwareAddr_String (m4_ClientHWAddr req),
      lease_ClientID = clientIDOf req, lease_Hostname = m4_HostName req,
      lease_Expiry = now + c4_LeaseTime cfg, lease_Static = False\<rparr>"

definition key4 :: "dhcp4_msg \<Rightarrow> string" where
  "key4 req = clientKey (HardwareAddr_String (m4_ClientHWAddr req)) (clientIDOf req)"

definition requested4 :: "dhcp4_msg \<Rightarrow> addr" where
  "requested4 req = (case m4_RequestedIPAddress req of
     None \<Rightarrow> AddrNone | Some reqIP \<Rightarrow> AddrFromSlice (To4 reqIP))"

definition s4_ok :: "dhcp4Server \<Rightarrow> bool" where
  "s4_ok s \<longleftrightarrow> statics_ok (s4_statics s) \<and> lt_ok (s4_leases s)"

lemma s4_ok_leases: "s4_ok s \<Longrightarrow> lt_ok (s4_leases s)"
  by (simp add: s4_ok_def)

lemma newLease4_simps [simp]:
  "leaseKey (newLease4 now cfg req) = key4 req"
  "lease_Expiry (newLease4 now cfg req) = now + c4_LeaseTime cfg"
  "lease_MAC (newLease4 now cfg req) = HardwareAddr_String (m4_ClientHWAddr req)"
  "lease_ClientID (newLease4 now cfg req) = clientIDOf req"
  by (simp_all add: newLease4_def key4_def)

lemma Zone_AddrFromSlice [simp]: "Zone (AddrFromSlice b) = []"
  by (simp add: AddrFromSlice_def)

lemma Zone_requested4 [simp]: "Zone (requested4 req) = []"
  by (simp add: requested4_def split: option.splits)

lemma set_ListStatic4: "orders_ok ord \<Longrightarrow> set (ListStatic4 ord s) = snd ` set (s4_statics s)"
  by (simp add: ListStatic4_def orders_ok_def go_order_set)

lemma selectIP_chooseAddr:
  "selectIP ord now s cfg prefix req =
     chooseAddr (ord_leases ord) now (s4_leases s) (ListStatic4 ord s) prefix
       (c4_PoolOffsetStart cfg) (c4_PoolOffsetEnd cfg) (requested4 req) (newLease4 now cfg req)"
  unfolding selectIP_def selectDynamic4_def chooseAddr_def chooseDynamic_def choosePool_def
    newLease4_def requested4_def ListStatic4_def
  by (simp only: Let_def lease.simps)

lemmas selectIP_granted = chooseAddr_granted [where rip = "requested4 req" and
    lease = "newLease4 now cfg req" and now = now, folded selectIP_chooseAddr, simplified] for now cfg req

interpretation d4: static_store s4_statics PutStatic4 ReplaceStatics4 DeleteStatic4
  by unfold_locales
    (auto simp: PutStatic4_def ReplaceStatics4_def DeleteStatic4_def split: if_splits option.splits sum.splits)

section \<open>What a frame does to the server\<close>

lemma selectIP_ok:
  "lt_ok (s4_leases s) \<Longrightarrow> selectIP ord now s cfg prefix req = (ip, t) \<Longrightarrow> lt_ok t"
  unfolding selectIP_chooseAddr by (rule lt_ok_chooseAddr)

text \<open>DISCOVER and REQUEST change nothing but the lease table, and that by one selection at most.\<close>

lemma replyToDiscover_state:
  "fst (replyToDiscover ord lib now e s cfg prefix req) =
     s\<lparr>s4_leases := snd (selectIP ord now s cfg prefix req)\<rparr>"
  by (simp add: replyToDiscover_def Let_def split: prod.splits)

lemma replyToRequest_state:
  "fst (replyToRequest ord lib now e s cfg prefix req) =
     (if IsValid (wantedIP req) then s\<lparr>s4_leases := snd (selectIP ord now s cfg prefix req)\<rparr> else s)"
  by (simp add: replyToRequest_def Let_def split: prod.splits)

text \<open>The placeholder a declined address is leased to.\<close>

definition declinedKey :: string where
  "declinedKey = clientKey ''declined'' ''''"

inductive lease_effect4 :: "orders \<Rightarrow> time \<Rightarrow> prefix \<Rightarrow> dhcp4_msg \<Rightarrow> leaseTable \<Rightarrow> leaseTable \<Rightarrow> bool"
  for ord now prefix req where
  unchanged: "lease_effect4 ord now prefix req t t"
| select: "m4_MessageType req = MT_Discover \<or> m4_MessageType req = MT_Request \<Longrightarrow>
    s4_leases s = t \<Longrightarrow> selectIP ord now s cfg prefix req = (ip, t') \<Longrightarrow>
    lease_effect4 ord now prefix req t t'"
| release: "m4_MessageType req = MT_Release \<Longrightarrow>
    ip = AddrFromSlice (To4 (ip_bytes (m4_ClientIPAddr req))) \<Longrightarrow>
    lease_effect4 ord now prefix req t (snd (lt_release t ip))"
| decline: "m4_MessageType req = MT_Decline \<Longrightarrow> leaseKey l = declinedKey \<Longrightarrow>
    lease_IP l = requested4 req \<Longrightarrow> lease_effect4 ord now prefix req t (lt_set t l)"

lemma handleMessage4_effect:
  assumes "handleMessage4 ord lib now e s cfg prefix req = (s', out)"
  shows "s4_cfg s' = s4_cfg s \<and> s4_statics s' = s4_statics s \<and>
    lease_effect4 ord now prefix req (s4_leases s) (s4_leases s')"
proof -
  have s': "s' = fst (handleMessage4 ord lib now e s cfg prefix req)" using assms by simp
  have sel: "lease_effect4 ord now prefix req (s4_leases s) (snd (selectIP ord now s cfg prefix req))"
    if "m4_MessageType req = MT_Discover \<or> m4_MessageType req = MT_Request"
    using select [OF that, of s "s4_leases s" ord now cfg prefix] by (metis prod.collapse)
  consider (discover) "m4_MessageType req = MT_Discover" | (request) "m4_MessageType req = MT_Request"
    | (release) "m4_MessageType req = MT_Release" | (decline) "m4_MessageType req = MT_Decline"
    | (other) "m4_MessageType req \<notin> {MT_Discover, MT_Request, MT_Release, MT_Decline}"
    by blast
  then show ?thesis
  proof cases
    case discover
    with s' sel show ?thesis by (simp add: handleMessage4_def replyToDiscover_state)
  next
    case request
    with s' sel unchanged show ?thesis by (simp add: handleMessage4_def replyToRequest_state)
  next
    case release
    with s' lease_effect4.release [OF release refl] unchanged show ?thesis
      by (simp add: handleMessage4_def Let_def)
  next
    case decline
    let ?l = "\<lparr>lease_IP = requested4 req, lease_MAC = ''declined'', lease_ClientID = '''',
      lease_Hostname = '''', lease_Expiry = now + c4_LeaseTime cfg, lease_Static = False\<rparr>"
    from s' decline lease_effect4.decline [OF decline, of ?l] unchanged show ?thesis
      by (auto simp: handleMessage4_def Let_def requested4_def declinedKey_def split: option.splits)
  next
    case other
    with s' unchanged show ?thesis by (simp add: handleMessage4_def)
  qed
qed

lemma handleFrame4_cases:
  assumes "handleFrame4 ord lib now e s pkt = (b, s', out)"
  obtains (ignored) "s' = s" "out = []"
    "b \<longleftrightarrow> in_IsUDP4 pkt \<and> in_DstPort pkt = dhcp4ServerPort"
  | (handled) prefix req where "in_IsUDP4 pkt" "in_DstPort pkt = dhcp4ServerPort" "b"
    "env_v4 e = Some prefix" "c4_Enabled (s4_cfg s)"
    "d4_FromBytes lib (in_Payload pkt) = Some req" "m4_OpCode req = OpcodeBootRequest"
    "handleMessage4 ord lib now e s (s4_cfg s) prefix req = (s', out)"
  using assms
  by (auto simp: handleFrame4_def Let_def split: if_splits option.splits)

lemma lease_effect4_ok: "lease_effect4 ord now prefix req t t' \<Longrightarrow> lt_ok t \<Longrightarrow> lt_ok t'"
  by (induction rule: lease_effect4.induct) (auto intro: selectIP_ok lt_ok_release lt_ok_set)

lemma handleFrame4_state:
  assumes "handleFrame4 ord lib now e s pkt = (b, s', out)" and "s4_ok s"
  shows "s4_ok s' \<and> s4_cfg s' = s4_cfg s \<and> s4_statics s' = s4_statics s"
  using assms(1)
proof (cases rule: handleFrame4_cases)
  case ignored
  with assms(2) show ?thesis by simp
next
  case (handled prefix req)
  with handleMessage4_effect [OF handled(8)] assms(2) show ?thesis
    by (auto simp: s4_ok_def intro: lease_effect4_ok)
qed

section \<open>Traffic of other clients\<close>

text \<open>A frame that can neither select for the client with the given key nor release or decline
  the given address: everything other clients send about other addresses.\<close>

definition harmless4 :: "'r dhcp4_lib \<Rightarrow> string \<Rightarrow> addr \<Rightarrow> ingress \<Rightarrow> bool" where
  "harmless4 lib key ip pkt \<longleftrightarrow>
     (case d4_FromBytes lib (in_Payload pkt) of
        None \<Rightarrow> True
      | Some req \<Rightarrow>
          (m4_MessageType req \<in> {MT_Discover, MT_Request} \<longrightarrow> key4 req \<noteq> key) \<and>
          (m4_MessageType req = MT_Release \<longrightarrow>
             AddrFromSlice (To4 (ip_bytes (m4_ClientIPAddr req))) \<noteq> ip) \<and>
          (m4_MessageType req = MT_Decline \<longrightarrow> requested4 req \<noteq> ip))"

definition env4_ok :: "env \<Rightarrow> bool" where
  "env4_ok e \<longleftrightarrow> (case env_v4 e of None \<Rightarrow> True | Some p \<Rightarrow> prefix_ok p)"

text \<open>One step of the server on behalf of anybody else: such a frame, or a tick of the sweeper.\<close>

definition step4 ::
  "'r dhcp4_lib \<Rightarrow> env \<Rightarrow> string \<Rightarrow> addr \<Rightarrow> time \<Rightarrow> dhcp4Server \<Rightarrow> dhcp4Server \<Rightarrow> bool" where
  "step4 lib e key ip now s s' \<longleftrightarrow>
     s' = sweep4 now s \<or>
     (\<exists>ord pkt b out. env4_ok e \<and> orders_ok ord \<and> harmless4 lib key ip pkt \<and>
        handleFrame4 ord lib now e s pkt = (b, s', out))"

lemma selectIP_granted_key:
  assumes "prefix_ok prefix" and "orders_ok ord" and "lt_ok (s4_leases s)"
    and "selectIP ord now s cfg prefix req = (ip, t)" and "IsValid ip"
  shows "granted now (lt_lookup (s4_leases s)) (lt_lookup t) ip (key4 req) \<and> Contains prefix ip"
  using chooseAddr_granted [OF assms(1) _ assms(3) Zone_requested4 assms(4) [unfolded selectIP_chooseAddr]]
    assms(2,5) by (simp add: orders_ok_def key4_def)

lemma selectIP_none:
  assumes "prefix_ok prefix" and "orders_ok ord" and "lt_ok (s4_leases s)"
    and "selectIP ord now s cfg prefix req = (ip, t)" and "\<not> IsValid ip"
  shows "t = s4_leases s"
  using chooseAddr_granted [OF assms(1) _ assms(3) Zone_requested4 assms(4) [unfolded selectIP_chooseAddr]]
    assms(2,5) by (simp add: orders_ok_def)

lemma leased_effect4:
  assumes "lease_effect4 ord now prefix req t t'" and "prefix_ok prefix" and "orders_ok ord"
    and "lt_ok t" and "leased t key ip exp" and "now \<le> exp"
    and "m4_MessageType req \<in> {MT_Discover, MT_Request} \<longrightarrow> key4 req \<noteq> key"
    and "m4_MessageType req = MT_Release \<longrightarrow> AddrFromSlice (To4 (ip_bytes (m4_ClientIPAddr req))) \<noteq> ip"
    and "m4_MessageType req = MT_Decline \<longrightarrow> requested4 req \<noteq> ip"
  shows "leased t' key ip exp"
  using assms(1)
proof cases
  case unchanged
  then show ?thesis using assms(5) by simp
next
  case (select s cfg x)
  show ?thesis
  proof (cases "IsValid x")
    case True
    have "granted now (lt_lookup t) (lt_lookup t') x (key4 req)"
      using selectIP_granted_key [OF assms(2,3) _ select(3) True] assms(4) select(2) by simp
    from leased_granted [OF assms(5,6) this] assms(7) select(1) show ?thesis by auto
  next
    case False
    with selectIP_none [OF assms(2,3) _ select(3)] assms(4,5) select(2) show ?thesis by simp
  qed
next
  case (release x)
  with assms(8) leased_update [OF assms(5) lt.lookup_remove, of x] show ?thesis by auto
next
  case (decline l)
  with assms(9) leased_update [OF assms(5) lt.lookup_put, of l] show ?thesis by auto
qed

lemma sole_effect4:
  assumes "lease_effect4 ord now prefix req t t'" and "prefix_ok prefix" and "orders_ok ord"
    and "lt_ok t" and "sole now t key ip" and "key \<noteq> declinedKey"
    and "m4_MessageType req \<in> {MT_Discover, MT_Request} \<longrightarrow> key4 req \<noteq> key"
  shows "sole now t' key ip"
  using assms(1)
proof cases
  case unchanged
  then show ?thesis using assms(5) by simp
next
  case (select s cfg x)
  show ?thesis
  proof (cases "IsValid x")
    case True
    have "granted now (lt_lookup t) (lt_lookup t') x (key4 req)"
      using selectIP_granted_key [OF assms(2,3) _ select(3) True] assms(4) select(2) by simp
    from sole_granted [OF assms(5) this] assms(7) select(1) show ?thesis by auto
  next
    case False
    with selectIP_none [OF assms(2,3) _ select(3)] assms(4,5) select(2) show ?thesis by simp
  qed
next
  case (release x)
  with sole_update [OF assms(5) lt.lookup_remove, of x] show ?thesis by auto
next
  case (decline l)
  with assms(6) sole_update [OF assms(5) lt.lookup_put, of l] show ?thesis by auto
qed

lemma harmless4_req:
  "harmless4 lib key ip pkt \<Longrightarrow> d4_FromBytes lib (in_Payload pkt) = Some req \<Longrightarrow>
     (m4_MessageType req \<in> {MT_Discover, MT_Request} \<longrightarrow> key4 req \<noteq> key) \<and>
     (m4_MessageType req = MT_Release \<longrightarrow> AddrFromSlice (To4 (ip_bytes (m4_ClientIPAddr req))) \<noteq> ip) \<and>
     (m4_MessageType req = MT_Decline \<longrightarrow> requested4 req \<noteq> ip)"
  unfolding harmless4_def by simp

lemma handleFrame4_leased:
  assumes "handleFrame4 ord lib now e s pkt = (b, s', out)" and "s4_ok s" and "orders_ok ord"
    and "\<And>p. env_v4 e = Some p \<Longrightarrow> prefix_ok p" and "harmless4 lib key ip pkt"
    and "leased (s4_leases s) key ip exp" and "now \<le> exp"
  shows "leased (s4_leases s') key ip exp"
  using assms(1)
proof (cases rule: handleFrame4_cases)
  case ignored
  with assms(6) show ?thesis by simp
next
  case (handled prefix req)
  have eff: "lease_effect4 ord now prefix req (s4_leases s) (s4_leases s')"
    using handleMessage4_effect [OF handled(8)] by simp
  show ?thesis
    using leased_effect4 [OF eff assms(4) [OF handled(4)] assms(3) _ assms(6,7)] assms(2)
      harmless4_req [OF assms(5) handled(6)] by (simp add: s4_ok_def)
qed

lemma handleFrame4_sole:
  assumes "handleFrame4 ord lib now e s pkt = (b, s', out)" and "s4_ok s" and "orders_ok ord"
    and "\<And>p. env_v4 e = Some p \<Longrightarrow> prefix_ok p" and "harmless4 lib key ip pkt"
    and "sole now (s4_leases s) key x" and "key \<noteq> declinedKey"
  shows "sole now (s4_leases s') key x"
  using assms(1)
proof (cases rule: handleFrame4_cases)
  case ignored
  with assms(6) show ?thesis by simp
next
  case (handled prefix req)
  have eff: "lease_effect4 ord now prefix req (s4_leases s) (s4_leases s')"
    using handleMessage4_effect [OF handled(8)] by simp
  show ?thesis
    using sole_effect4 [OF eff assms(4) [OF handled(4)] assms(3) _ assms(6,7)] assms(2)
      harmless4_req [OF assms(5) handled(6)] by (simp add: s4_ok_def)
qed

lemma step4_cases:
  assumes "step4 lib e key ip now s s'"
  obtains (sweep) "s' = sweep4 now s"
  | (frame) ord pkt b out where "\<And>p. env_v4 e = Some p \<Longrightarrow> prefix_ok p" "orders_ok ord"
    "harmless4 lib key ip pkt" "handleFrame4 ord lib now e s pkt = (b, s', out)"
  using assms by (auto simp: step4_def env4_ok_def split: option.splits)

lemma step4_ok:
  assumes "step4 lib e key ip now s s'" and "s4_ok s"
  shows "s4_ok s' \<and> s4_cfg s' = s4_cfg s \<and> s4_statics s' = s4_statics s"
  using assms(1)
proof (cases rule: step4_cases)
  case sweep
  with assms(2) show ?thesis by (simp add: sweep4_def s4_ok_def lt_ok_sweep)
next
  case (frame ord pkt b out)
  then show ?thesis using handleFrame4_state [OF frame(4) assms(2)] by simp
qed

lemma step4_leased:
  assumes "step4 lib e key ip now s s'" and "s4_ok s"
    and "leased (s4_leases s) key ip exp" and "now \<le> exp"
  shows "leased (s4_leases s') key ip exp"
  using assms(1)
proof (cases rule: step4_cases)
  case sweep
  with assms show ?thesis by (simp add: sweep4_def s4_ok_def leased_sweep)
next
  case (frame ord pkt b out)
  then show ?thesis using handleFrame4_leased [OF frame(4) assms(2) frame(2,1,3) assms(3,4)] by simp
qed

lemma step4_sole:
  assumes "step4 lib e key ip now s s'" and "s4_ok s"
    and "sole now (s4_leases s) key x" and "key \<noteq> declinedKey"
  shows "sole now (s4_leases s') key x"
  using assms(1)
proof (cases rule: step4_cases)
  case sweep
  with assms show ?thesis by (simp add: sweep4_def s4_ok_def sole_sweep)
next
  case (frame ord pkt b out)
  then show ?thesis using handleFrame4_sole [OF frame(4) assms(2) frame(2,1,3) assms(3,4)] by simp
qed

interpretation keep4: lease_server s4_leases s4_ok "\<lambda>s. (s4_cfg s, s4_statics s)"
  "step4 lib e key ip" key ip for lib :: "'r dhcp4_lib" and e key ip
  by unfold_locales (auto dest: step4_ok intro: step4_leased s4_ok_leases)

section \<open>Declined addresses\<close>

text \<open>A hardware address is printed with hexadecimal digits and colons only, so no client has the
  key of the placeholder.\<close>

definition hexChars :: string where
  "hexChars = ''0123456789abcdef''"

lemma hexDigit_mem: "n < 16 \<Longrightarrow> hexDigit n \<in> set hexChars"
  unfolding hexDigit_def hexChars_def by (rule nth_mem) simp

lemma set_hexByte: "set (hexByte b) \<subseteq> set hexChars"
proof -
  have "unat b < 16 * 16" by simp
  then have "unat b div 16 < 16" "unat b mod 16 < 16"
    using less_mult_imp_div_less [of "unat b" 16 16] by simp_all
  then show ?thesis by (simp add: hexByte_def hexDigit_mem)
qed

lemma set_HardwareAddr_String: "set (HardwareAddr_String b) \<subseteq> insert (CHR '':'') (set hexChars)"
proof (induction b rule: HardwareAddr_String.induct)
  case 1
  then show ?case by simp
next
  case (2 b)
  then show ?case using set_hexByte [of b] by (simp add: subset_insertI2)
next
  case (3 b c bs)
  then show ?case using set_hexByte [of b] by (simp add: subset_insertI2)
qed

lemma key4_not_declined: "key4 req \<noteq> declinedKey"
proof
  let ?m = "HardwareAddr_String (m4_ClientHWAddr req)"
  assume "key4 req = declinedKey"
  then have key: "clientKey ?m (clientIDOf req) = clientKey ''declined'' ''''"
    by (simp add: key4_def declinedKey_def)
  have m: "CHR ''/'' \<notin> set ?m"
    using set_HardwareAddr_String [of "m4_ClientHWAddr req"] by (auto simp: hexChars_def)
  have "ToLower ?m = ToLower ''declined''"
    using clientKey_inj [OF m, of "''declined''" "clientIDOf req" "''''"] key
    by (simp add: EqualFold_def)
  then have low: "ToLower ?m = ''declined''"
    by (simp add: ToLower_def to_lower_def)
  have "CHR ''l'' \<in> set (ToLower ?m)" unfolding low by simp
  then obtain c where "c \<in> set ?m" "to_lower c = CHR ''l''" by (auto simp: ToLower_def)
  then show False
    using set_HardwareAddr_String [of "m4_ClientHWAddr req"]
    by (auto simp: hexChars_def to_lower_def)
qed

interpretation book4: sole_server s4_leases s4_ok "\<lambda>s. (s4_cfg s, s4_statics s)"
  "step4 lib e (key4 disc) ip" "key4 disc" ip for lib :: "'r dhcp4_lib" and e disc ip
  by unfold_locales (rule step4_sole [OF _ _ _ key4_not_declined])

section \<open>Properties\<close>

text \<open>C3: a DISCOVER or REQUEST keeps the server's invariant, its configuration and its bindings;
  it leaves the lease table as it is or books one address of the served prefix for the
  requesting client, an address that no other client holds an unexpired lease for. All other
  leases stay untouched.\<close>

theorem handleFrame4_safe:
  assumes "s4_ok s" and "orders_ok ord" and "\<And>p. env_v4 e = Some p \<Longrightarrow> prefix_ok p"
    and "handleFrame4 ord lib now e s pkt = (b, s', out)"
    and "d4_FromBytes lib (in_Payload pkt) = Some req"
    and "m4_MessageType req \<in> {MT_Discover, MT_Request}"
  shows "s4_ok s' \<and> s4_cfg s' = s4_cfg s \<and> s4_statics s' = s4_statics s \<and>
    (s4_leases s' = s4_leases s \<or>
     (\<exists>prefix ip. env_v4 e = Some prefix \<and> Contains prefix ip \<and>
        granted now (lt_lookup (s4_leases s)) (lt_lookup (s4_leases s')) ip (key4 req)))"
proof -
  note state = handleFrame4_state [OF assms(4,1)]
  have "s4_leases s' = s4_leases s \<or>
     (\<exists>prefix ip. env_v4 e = Some prefix \<and> Contains prefix ip \<and>
        granted now (lt_lookup (s4_leases s)) (lt_lookup (s4_leases s')) ip (key4 req))"
    using assms(4)
  proof (cases rule: handleFrame4_cases)
    case ignored
    then show ?thesis by simp
  next
    case (handled prefix req')
    with assms(5) have req: "req' = req" by simp
    have "lease_effect4 ord now prefix req (s4_leases s) (s4_leases s')"
      using handleMessage4_effect [OF handled(8)] req by simp
    then show ?thesis
    proof cases
      case (select x cfg ip)
      then show ?thesis
        using selectIP_granted_key [OF assms(3) [OF handled(4)] assms(2) _ select(3)]
          selectIP_none [OF assms(3) [OF handled(4)] assms(2) _ select(3)] assms(1) handled(4)
        by (auto simp: s4_ok_def)
    qed (use assms(6) in auto)
  qed
  with state show ?thesis by blast
qed

text \<open>C14: an address that a static binding pins goes only to the client whose best match is a
  binding for that very address; the gateway's own address goes to nobody unless a binding
  pins it or an earlier lease already holds it; and every address lies in the prefix.\<close>

theorem selectIP_reserved:
  assumes "s4_ok s" and "orders_ok ord" and "prefix_ok prefix"
    and "selectIP ord now s cfg prefix req = (ip, t)" and "IsValid ip"
  shows "Contains prefix ip \<and>
    ((\<exists>b \<in> snd ` set (s4_statics s). addrAtOffset prefix (sb_Offset b) = ip) \<longrightarrow>
       (\<exists>b. matchBinding (ListStatic4 ord s) (HardwareAddr_String (m4_ClientHWAddr req))
              (clientIDOf req) = Some b \<and> addrAtOffset prefix (sb_Offset b) = ip)) \<and>
    ((\<forall>b \<in> snd ` set (s4_statics s). addrAtOffset prefix (sb_Offset b) \<noteq> pfx_addr prefix) \<longrightarrow>
     lt_lookup (s4_leases s) (pfx_addr prefix) = None \<longrightarrow> ip \<noteq> pfx_addr prefix)"
proof -
  note sel = assms(4) [unfolded selectIP_chooseAddr]
  have ord: "go_order (ord_leases ord)" and lt: "lt_ok (s4_leases s)"
    using assms(1,2) by (simp_all add: orders_ok_def s4_ok_def)
  have mem: "x \<in> set (staticAddrs prefix (ListStatic4 ord s)) \<longleftrightarrow>
      IsValid x \<and> (\<exists>b \<in> snd ` set (s4_statics s). addrAtOffset prefix (sb_Offset b) = x)" for x
    using set_ListStatic4 [OF assms(2), of s] by (auto simp: staticAddrs_def)
  have "ip = pinned (ListStatic4 ord s) prefix (newLease4 now cfg req)"
    if "\<exists>b \<in> snd ` set (s4_statics s). addrAtOffset prefix (sb_Offset b) = ip"
    using chooseAddr_reserved [OF assms(3) Zone_requested4 sel assms(5)] that assms(5) mem by simp
  then have "\<exists>b. matchBinding (ListStatic4 ord s) (HardwareAddr_String (m4_ClientHWAddr req))
              (clientIDOf req) = Some b \<and> addrAtOffset prefix (sb_Offset b) = ip"
    if "\<exists>b \<in> snd ` set (s4_statics s). addrAtOffset prefix (sb_Offset b) = ip"
    using that assms(5) by (auto simp: pinned_def split: option.splits)
  moreover have "ip \<noteq> pfx_addr prefix"
    if "\<forall>b \<in> snd ` set (s4_statics s). addrAtOffset prefix (sb_Offset b) \<noteq> pfx_addr prefix"
      and "lt_lookup (s4_leases s) (pfx_addr prefix) = None"
    using chooseAddr_not_gateway [OF assms(3) ord lt Zone_requested4 sel assms(5) _ that(2)] that(1) mem
    by blast
  ultimately show ?thesis
    using selectIP_granted_key [OF assms(3,2) lt assms(4,5)] by blast
qed

text \<open>C12: a REQUEST is acknowledged exactly when it names an address (option 50, else ciaddr) and
  the selection for this client yields that very address; the address is then leased to the
  client for the configured time from now. Every other REQUEST is answered with a NAK.\<close>

theorem replyToRequest_ack:
  assumes "s4_ok s" and "orders_ok ord" and "prefix_ok prefix"
    and "replyToRequest ord lib now e s cfg prefix req = (s', out)"
  shows "if IsValid (wantedIP req) \<and> fst (selectIP ord now s cfg prefix req) = wantedIP req
    then out = sendReply lib e cfg prefix req MT_Ack (wantedIP req) \<and>
      leased (s4_leases s') (key4 req) (wantedIP req) (now + c4_LeaseTime cfg) \<and>
      Contains prefix (wantedIP req)
    else out = sendNak lib e prefix req"
proof (cases "IsValid (wantedIP req) \<and> fst (selectIP ord now s cfg prefix req) = wantedIP req")
  case True
  then obtain t where sel: "selectIP ord now s cfg prefix req = (wantedIP req, t)"
    by (metis prod.collapse)
  have ok: "go_order (ord_leases ord)" "lt_ok (s4_leases s)"
    using assms(1,2) by (simp_all add: orders_ok_def s4_ok_def)
  have "leased t (key4 req) (wantedIP req) (now + c4_LeaseTime cfg)"
    using chooseAddr_leased [OF assms(3) ok Zone_requested4 sel [unfolded selectIP_chooseAddr]] True
    by (simp add: key4_def)
  with True sel assms(4) selectIP_granted_key [OF assms(3,2) ok(2) sel] show ?thesis
    by (auto simp: replyToRequest_def Let_def)
next
  case False
  with assms(4) show ?thesis
    by (auto simp: replyToRequest_def Let_def split: prod.splits if_splits)
qed

text \<open>A RELEASE frees the address it names, whoever sends it: the lease of another client, an offer
  under way or the quarantine of a declined address.\<close>

lemma foreign_release_frees:
  assumes "m4_MessageType req = MT_Release" and "AddrFromSlice (To4 (ip_bytes (m4_ClientIPAddr req))) = ip" and "IsValid ip"
    and "handleMessage4 ord lib now e s cfg prefix req = (s', out)"
  shows "lt_lookup (s4_leases s') ip = None"
  using assms by (auto simp: handleMessage4_def lt_lookup_release Let_def)

text \<open>C2: the DISCOVER/REQUEST exchange completes. A client that was offered an address, that has no
  unexpired lease elsewhere (\<open>sole\<close>) and matches at most one static binding (\<open>unambiguous\<close>), gets it
  acknowledged when it asks for it before the offer's lease runs out, whatever frames other clients
  send meanwhile except a RELEASE or a DECLINE of this very address, however often the sweeper
  runs, and in whatever orders the Go maps are iterated. The exception is needed
  (\<open>foreign_release_frees\<close>): the server does not check who sends a RELEASE.\<close>

theorem offer_then_ack:
  assumes "s4_ok s" and "prefix_ok prefix" and "orders_ok ord" and "orders_ok ord'"
    and "unambiguous (snd ` set (s4_statics s)) (HardwareAddr_String (m4_ClientHWAddr disc)) (clientIDOf disc)"
    and "sole now (s4_leases s) (key4 disc) ip"
    and "selectIP ord now s cfg prefix disc = (ip, t)" and "IsValid ip"
    and "replyToDiscover ord lib now e s cfg prefix disc = (s1, offer)"
    and "timed_run (step4 lib e (key4 disc) ip) now s1 now' s2" and "now' \<le> now + c4_LeaseTime cfg"
    and "m4_ClientHWAddr req = m4_ClientHWAddr disc"
    and "m4_ClientIdentifier req = m4_ClientIdentifier disc" and "wantedIP req = ip"
  shows "offer = sendReply lib e cfg prefix disc MT_Offer ip \<and>
    snd (replyToRequest ord' lib now' e s2 cfg prefix req) = sendReply lib e cfg prefix req MT_Ack ip"
proof -
  have ok: "go_order (ord_leases ord)" "go_order (ord_leases ord')" "lt_ok (s4_leases s)"
    using assms(1,3,4) by (simp_all add: orders_ok_def s4_ok_def)
  have s1: "s1 = s\<lparr>s4_leases := t\<rparr>" and off: "offer = sendReply lib e cfg prefix disc MT_Offer ip"
    using assms(7-9) by (simp_all add: replyToDiscover_def)
  have s1_ok: "s4_ok s1" using assms(1) s1 selectIP_ok [OF ok(3) assms(7)] by (simp add: s4_ok_def)
  have sel: "chooseAddr (ord_leases ord) now (s4_leases s) (ListStatic4 ord s) prefix
      (c4_PoolOffsetStart cfg) (c4_PoolOffsetEnd cfg) (requested4 disc) (newLease4 now cfg disc) =
      (ip, s4_leases s1)"
    using assms(7) s1 by (simp add: selectIP_chooseAddr)
  have "s4_statics s2 = s4_statics s" using keep4.run_keeps [OF assms(10) s1_ok] s1 by simp
  then have sets: "set (ListStatic4 ord' s2) = set (ListStatic4 ord s)"
    using set_ListStatic4 assms(3,4) by simp
  have "fst (selectIP ord' now' s2 cfg prefix req) = ip"
    unfolding selectIP_chooseAddr
    by (rule book4.rebook [OF assms(2) ok Zone_requested4 sel assms(8) _ assms(6) s1_ok assms(10) _ sets])
      (use assms(3,5,11-13) set_ListStatic4 in \<open>simp_all add: key4_def clientIDOf_def\<close>)
  with assms(8,14) off show ?thesis
    by (auto simp: replyToRequest_def Let_def split: prod.splits)
qed

text \<open>C13: a declined address is quarantined. After a DECLINE of an address no client is given that
  address while the configured lease time has not run out, whatever arrives in between, from
  whichever client, except a RELEASE or another DECLINE of this very address. A RELEASE by any
  client ends the quarantine (\<open>foreign_release_frees\<close>).\<close>

theorem decline_quarantine:
  assumes "s4_ok s" and "prefix_ok prefix" and "orders_ok ord"
    and "m4_MessageType req = MT_Decline" and "requested4 req = ip" and "IsValid ip"
    and "handleMessage4 ord' lib now e s cfg prefix req = (s1, out)"
    and "timed_run (step4 lib e declinedKey ip) now s1 now' s2" and "now' \<le> now + c4_LeaseTime cfg"
  shows "fst (selectIP ord now' s2 cfg' prefix req') \<noteq> ip"
proof
  assume "fst (selectIP ord now' s2 cfg' prefix req') = ip"
  then obtain t where sel: "selectIP ord now' s2 cfg' prefix req' = (ip, t)"
    by (metis prod.collapse)
  have s1: "s1 = s\<lparr>s4_leases := lt_set (s4_leases s)
      \<lparr>lease_IP = ip, lease_MAC = ''declined'', lease_ClientID = '''', lease_Hostname = '''',
       lease_Expiry = now + c4_LeaseTime cfg, lease_Static = False\<rparr>\<rparr>"
    using assms(4-7) by (auto simp: handleMessage4_def requested4_def Let_def split: option.splits)
  then have l1: "leased (s4_leases s1) declinedKey ip (now + c4_LeaseTime cfg)"
    by (simp add: leased_def lt_lookup_set declinedKey_def)
  have ok1: "s4_ok s1" using assms(1) s1 by (simp add: s4_ok_def lt_ok_set)
  have "s4_ok s2" using keep4.run_keeps [OF assms(8) ok1] by blast
  then have "granted now' (lt_lookup (s4_leases s2)) (lt_lookup t) ip (key4 req')"
    using selectIP_granted_key [OF assms(2,3) _ sel assms(6)] by (simp add: s4_ok_def)
  from keep4.not_granted [OF assms(8) ok1 l1 assms(9) this key4_not_declined] show False by simp
qed

text \<open>One frame per reply, from the gateway, port 67 to 68, that the parser reads back as the
  serialised reply. It goes to the client's current address when the request carries a
  \<^verbatim>\<open>ciaddr\<close>, also when the reply is a NAK; else a NAK, a request with the broadcast flag and a
  reply without address are broadcast on both layers; else it goes to the leased address.\<close>

theorem transmit4_addressing:
  assumes "length (env_mac e) = 6" and "length (m4_ClientHWAddr req) = 6"
    and "Is4 (pfx_addr prefix)" and "Is4 yiaddr \<or> yiaddr = AddrNone"
    and "\<And>c. m4_ClientIPAddr req = Some c \<Longrightarrow> length (To4 c) = 4"
    and "length (d4_ToBytes lib reply) \<le> 65507"
  shows "\<exists>frame p. transmit4 lib e prefix req reply yiaddr = [frame] \<and> Parse frame = Some p \<and>
    in_IsUDP4 p \<and> in_SrcMAC p = env_mac e \<and> in_SrcIP p = AsSlice (pfx_addr prefix) \<and>
    in_SrcPort p = 67 \<and> in_DstPort p = 68 \<and> in_Payload p = d4_ToBytes lib reply \<and>
    (take 6 frame, in_DstIP p) =
      (case m4_ClientIPAddr req of
         Some c \<Rightarrow>
           if IP_IsUnspecified c
           then (if d4_MessageType lib reply = MT_Nak \<or> m4_IsBroadcast req \<or> \<not> IsValid yiaddr
                 then (broadcastMAC, [255, 255, 255, 255])
                 else (m4_ClientHWAddr req, AsSlice yiaddr))
           else (m4_ClientHWAddr req, To4 c)
       | None \<Rightarrow>
           if d4_MessageType lib reply = MT_Nak \<or> m4_IsBroadcast req \<or> \<not> IsValid yiaddr
           then (broadcastMAC, [255, 255, 255, 255])
           else (m4_ClientHWAddr req, AsSlice yiaddr))"
proof -
  obtain dm di where d: "(dm, di) =
      (if m4_ClientIPAddr req \<noteq> None \<and> \<not> IP_IsUnspecified (ip_bytes (m4_ClientIPAddr req))
       then (m4_ClientHWAddr req, ip_bytes (m4_ClientIPAddr req))
       else if d4_MessageType lib reply = MT_Nak \<or> m4_IsBroadcast req \<or> \<not> IsValid yiaddr
       then (broadcastMAC, broadcastIP4) else (m4_ClientHWAddr req, AsSlice yiaddr))"
    by (metis surj_pair)
  have b: "length broadcastMAC = 6" "To4 broadcastIP4 = [255, 255, 255, 255]"
    by (simp_all add: broadcastMAC_def broadcastIP4_def To4_def v4InV6_def)
  have v4: "To4 (AsSlice a) = AsSlice a \<and> length (AsSlice a) = 4" if "Is4 a" for a
    using that by (cases a) (simp_all add: To4_def)
  have y: "length (AsSlice yiaddr) = 4" "To4 (AsSlice yiaddr) = AsSlice yiaddr" if "IsValid yiaddr"
    using that assms(4) v4 by auto
  have len: "length dm = 6" "length (To4 di) = 4"
    using d assms(2,5) b y by (auto simp: ip_bytes_def split: if_splits option.splits)
  let ?f = "CraftUDP4 (env_mac e) dm (AsSlice (pfx_addr prefix)) di 67 68 (d4_ToBytes lib reply)"
  have t: "transmit4 lib e prefix req reply yiaddr = [?f]"
    unfolding transmit4_def d [symmetric] by simp
  have src: "length (To4 (AsSlice (pfx_addr prefix))) = 4" using v4 [OF assms(3)] by simp
  note parsed = Parse_UDP4_frame [OF assms(1) len(1) src len(2) assms(6), of 67 68]
  note mac = CraftUDP4_dstMAC [OF assms(1) len(1) src len(2), of 67 68 "d4_ToBytes lib reply"]
  show ?thesis
    unfolding t using parsed mac v4 [OF assms(3)] d b y
    by (auto simp: ip_bytes_def split: option.splits if_splits)
qed

section \<open>A concrete server\<close>

text \<open>A codec with two-field replies (type and \<^verbatim>\<open>yiaddr\<close>) and a server with one binding, on which
  the properties above are applied.\<close>

definition msg4_example :: "u8 \<Rightarrow> dhcp4_msg" where
  "msg4_example typ = \<lparr>m4_OpCode = OpcodeBootRequest, m4_MessageType = typ,
     m4_ClientHWAddr = mac_example, m4_ClientIPAddr = None,
     m4_RequestedIPAddress = Some [192, 168, 1, 5], m4_ClientIdentifier = [],
     m4_HostName = ''vm'', m4_IsBroadcast = False\<rparr>"

definition lib4_example :: "(u8 \<times> bytes) dhcp4_lib" where
  "lib4_example = \<lparr>
     d4_FromBytes = (\<lambda>b. case b of [] \<Rightarrow> None | typ # _ \<Rightarrow> Some (msg4_example typ)),
     d4_NewReplyFromRequest = (\<lambda>req mods. case mods of WithMessageType typ # _ \<Rightarrow> Some (typ, []) | _ \<Rightarrow> None),
     d4_setYourIPAddr = (\<lambda>(typ, _) ip. (typ, ip)),
     d4_MessageType = fst,
     d4_ToBytes = (\<lambda>(typ, ip). typ # ip)\<rparr>"

definition cfg4_example :: DHCP4Config where
  "cfg4_example = \<lparr>c4_Enabled = True, c4_PoolOffsetStart = 100, c4_PoolOffsetEnd = 200,
     c4_LeaseTime = Hour, c4_DNS = []\<rparr>"

definition s4_example :: dhcp4Server where
  "s4_example = \<lparr>s4_cfg = cfg4_example, s4_statics = [(''vm1'', sb_mac_example)],
     s4_leases = newLeaseTable\<rparr>"

definition env_example :: env where
  "env_example = \<lparr>env_mac = [2, 0, 0, 0, 0, 1], env_v4 = Some pfx_example, env_v6 = None,
     env_v6all = [], env_linkLocal = AddrNone\<rparr>"

definition pkt4_example :: "u8 \<Rightarrow> ingress" where
  "pkt4_example typ = emptyIngress\<lparr>in_IsUDP4 := True, in_DstPort := 67, in_Payload := [typ]\<rparr>"

lemma s4_example_ok [simp]: "s4_ok s4_example"
  by (simp add: s4_ok_def s4_example_def statics_ok_def sb_mac_example_def validate_def)

lemma env_example_prefix: "env_v4 env_example = Some p \<Longrightarrow> prefix_ok p"
  by (auto simp: env_example_def)

lemma addrAtOffset_example: "addrAtOffset pfx_example 5 = Addr4 0xC0A80105"
proof -
  have v: "IsValid (addrAtOffset pfx_example 5)" by (simp add: addrAtOffset_valid_iff)
  have "addr_val (pfx_addr (Masked pfx_example)) = 0xC0A80100"
    by (subst addr_val_Masked) (simp_all, simp add: pfx_example_def)
  with addrAtOffset_val [OF pfx_example_ok(1) v]
  have "addr_val (addrAtOffset pfx_example 5) = 0xC0A80105" "BitLen (addrAtOffset pfx_example 5) = 32"
    by simp_all
  then show ?thesis
    by (cases "addrAtOffset pfx_example 5") (auto simp: word_unat_eq_iff)
qed

lemma selectIP_example:
  "fst (selectIP orders_id now s4_example cfg4_example pfx_example (msg4_example typ)) = Addr4 0xC0A80105"
  by (simp add: selectIP_def Let_def s4_example_def orders_id_def msg4_example_def mac_example_String
      clientIDOf_def EncodeToString_def matchBinding_def bindingScore_def sb_mac_example_def
      addrAtOffset_example inUse_def newLeaseTable_def EqualFold_def)

lemma lib4_example_parses: "d4_FromBytes lib4_example (in_Payload (pkt4_example typ)) = Some (msg4_example typ)"
  by (simp add: lib4_example_def pkt4_example_def)

lemma wantedIP_example: "wantedIP (msg4_example typ) = Addr4 0xC0A80105"
  by (simp add: wantedIP_def msg4_example_def To4_def AddrFromSlice_def be_nat_def Let_def)

lemma sole_example: "sole now (s4_leases s4_example) key ip"
  by (simp add: sole_def s4_example_def newLeaseTable_def)

lemma unambiguous_example: "unambiguous (snd ` set (s4_statics s4_example)) mac cid"
  by (simp add: unambiguous_def s4_example_def)

theorem handleFrame4_safe_witness:
  "case handleFrame4 orders_id lib4_example 0 env_example s4_example (pkt4_example MT_Discover) of
     (b, s', out) \<Rightarrow> s4_ok s' \<and> s4_statics s' = s4_statics s4_example"
proof -
  obtain b s' out where h: "handleFrame4 orders_id lib4_example 0 env_example s4_example
      (pkt4_example MT_Discover) = (b, s', out)" using prod_cases3 by blast
  from handleFrame4_safe [OF s4_example_ok orders_ok_examples(1) env_example_prefix h lib4_example_parses] h
  show ?thesis by (simp add: msg4_example_def)
qed

theorem selectIP_reserved_witness:
  "Contains pfx_example (fst (selectIP orders_id 0 s4_example cfg4_example pfx_example (msg4_example 1)))"
proof -
  obtain t where sel: "selectIP orders_id 0 s4_example cfg4_example pfx_example (msg4_example 1) =
      (Addr4 0xC0A80105, t)"
    using selectIP_example [of 0 1] by (metis prod.collapse)
  from selectIP_reserved [OF s4_example_ok orders_ok_examples(1) pfx_example_ok(1) sel] sel
  show ?thesis by simp
qed

theorem replyToRequest_ack_witness:
  "snd (replyToRequest orders_id lib4_example 0 env_example s4_example cfg4_example pfx_example
     (msg4_example MT_Request)) =
   sendReply lib4_example env_example cfg4_example pfx_example (msg4_example MT_Request) MT_Ack
     (Addr4 0xC0A80105)"
proof -
  obtain s' out where r: "replyToRequest orders_id lib4_example 0 env_example s4_example cfg4_example
      pfx_example (msg4_example MT_Request) = (s', out)" by fastforce
  from replyToRequest_ack [OF s4_example_ok orders_ok_examples(1) pfx_example_ok(1) r] r show ?thesis
    by (simp add: wantedIP_example selectIP_example)
qed

theorem offer_then_ack_witness:
  "\<exists>s1. timed_run (step4 lib4_example env_example (key4 (msg4_example MT_Discover)) (Addr4 0xC0A80105))
     0 s1 Minute (sweep4 Minute s1) \<and>
   snd (replyToRequest orders_rev lib4_example Minute env_example (sweep4 Minute s1) cfg4_example
     pfx_example (msg4_example MT_Request)) =
   sendReply lib4_example env_example cfg4_example pfx_example (msg4_example MT_Request) MT_Ack
     (Addr4 0xC0A80105)"
proof -
  obtain t where sel: "selectIP orders_id 0 s4_example cfg4_example pfx_example
      (msg4_example MT_Discover) = (Addr4 0xC0A80105, t)"
    using selectIP_example [of 0 MT_Discover] by (metis prod.collapse)
  obtain s1 offer where d: "replyToDiscover orders_id lib4_example 0 env_example s4_example
      cfg4_example pfx_example (msg4_example MT_Discover) = (s1, offer)" by fastforce
  have tr: "timed_run (step4 lib4_example env_example (key4 (msg4_example MT_Discover))
      (Addr4 0xC0A80105)) 0 s1 Minute (sweep4 Minute s1)"
    by (rule timed_run.tick [OF timed_run.start]) (simp_all add: step4_def)
  have "snd (replyToRequest orders_rev lib4_example Minute env_example (sweep4 Minute s1) cfg4_example
     pfx_example (msg4_example MT_Request)) =
   sendReply lib4_example env_example cfg4_example pfx_example (msg4_example MT_Request) MT_Ack
     (Addr4 0xC0A80105)"
    by (rule offer_then_ack [OF s4_example_ok pfx_example_ok(1)
          orders_ok_examples unambiguous_example sole_example sel _ d tr, THEN conjunct2])
      (simp_all add: cfg4_example_def wantedIP_example, simp_all add: msg4_example_def)
  with tr show ?thesis by blast
qed

theorem decline_quarantine_witness:
  "\<exists>s1. fst (handleMessage4 orders_id lib4_example 0 env_example s4_example cfg4_example pfx_example
       (msg4_example MT_Decline)) = s1 \<and>
     fst (selectIP orders_id 0 s1 cfg4_example pfx_example (msg4_example MT_Discover)) \<noteq>
       Addr4 0xC0A80105"
proof -
  obtain s1 out where h: "handleMessage4 orders_id lib4_example 0 env_example s4_example cfg4_example
      pfx_example (msg4_example MT_Decline) = (s1, out)" by fastforce
  have "fst (selectIP orders_id 0 s1 cfg4_example pfx_example (msg4_example MT_Discover)) \<noteq>
      Addr4 0xC0A80105"
    by (rule decline_quarantine [OF s4_example_ok pfx_example_ok(1)
          orders_ok_examples(1) _ _ _ h timed_run.start])
      (simp_all add: msg4_example_def cfg4_example_def requested4_def To4_def AddrFromSlice_def be_nat_def)
  with h show ?thesis by simp
qed

theorem transmit4_addressing_witness:
  "\<exists>frame p. transmit4 lib4_example env_example pfx_example (msg4_example 3) (MT_Ack, []) (Addr4 0xC0A80105) =
     [frame] \<and> Parse frame = Some p \<and> in_DstIP p = [192, 168, 1, 5] \<and> take 6 frame = mac_example"
proof -
  have ip: "AsSlice (Addr4 0xC0A80105) = [192, 168, 1, 5]" by (simp add: bytes_simps)
  show ?thesis
    using transmit4_addressing [of env_example "msg4_example 3" pfx_example "Addr4 0xC0A80105"
        lib4_example "(MT_Ack, [])"]
    by (auto simp: env_example_def msg4_example_def mac_example_def pfx_example_def lib4_example_def ip
        simp del: AsSlice.simps)
qed

end
