(* ===== verification/Dhcp6.thy ===== *)
theory Dhcp6
  imports Env Select Packet
begin

text \<open>
  \<^verbatim>\<open>internal/server/dhcp6.go\<close>: the stateful DHCPv6 server (IA_NA only) of one interface. As in
  \<^verbatim>\<open>Dhcp4\<close> the codec (\<^verbatim>\<open>github.com/insomniacslk/dhcp/dhcpv6\<close>) is the parameter \<open>dhcp6_lib\<close>
  and a parsed message is the record of what the handlers read. The client is identified by
  its DUID and its source MAC.
\<close>

section \<open>Messages and the codec\<close>

abbreviation MT6_Solicit :: u8 where "MT6_Solicit \<equiv> 1"
abbreviation MT6_Request :: u8 where "MT6_Request \<equiv> 3"
abbreviation MT6_Renew :: u8 where "MT6_Renew \<equiv> 5"
abbreviation MT6_Rebind :: u8 where "MT6_Rebind \<equiv> 6"
abbreviation MT6_Release :: u8 where "MT6_Release \<equiv> 8"
abbreviation MT6_InformationRequest :: u8 where "MT6_InformationRequest \<equiv> 11"

text \<open>\<open>m6_FQDN\<close>: the option may be absent, its domain name \<^verbatim>\<open>nil\<close>, or a list of labels.
  \<open>m6_OneIANA\<close>: the IAID of the first IA_NA.\<close>

record dhcp6_msg =
  m6_MessageType :: u8
  m6_ClientID :: "bytes option"
  m6_FQDN :: "string list option option"
  m6_OneIANA :: "bytes option"

datatype dhcp6_pkt = D6Message dhcp6_msg | D6Relay

datatype duid6 = DUIDLL u16 bytes

datatype mod6 =
    WithServerID duid6
  | WithDNS "bytes list"
  | WithIANA bytes duration duration

record 'r dhcp6_lib =
  d6_FromBytes :: "bytes \<Rightarrow> dhcp6_pkt option"
  d6_NewAdvertiseFromSolicit :: "dhcp6_msg \<Rightarrow> mod6 list \<Rightarrow> 'r option"
  d6_NewReplyFromMessage :: "dhcp6_msg \<Rightarrow> mod6 list \<Rightarrow> 'r option"
  d6_OneIANA :: "'r \<Rightarrow> bytes option"
  d6_setIaId :: "'r \<Rightarrow> bytes \<Rightarrow> 'r"
  d6_ToBytes :: "'r \<Rightarrow> bytes"

section \<open>Configuration and state\<close>

abbreviation dhcp6ServerPort :: u16 where "dhcp6ServerPort \<equiv> 547"
abbreviation dhcp6ClientPort :: u16 where "dhcp6ClientPort \<equiv> 546"
abbreviation HWTypeEthernet :: u16 where "HWTypeEthernet \<equiv> 1"

record DHCP6Config =
  c6_Enabled :: bool
  c6_PoolOffsetStart :: u64
  c6_PoolOffsetEnd :: u64
  c6_LeaseTime :: duration
  c6_DNS :: "addr list"

definition normalize6 :: "DHCP6Config \<Rightarrow> server_err + DHCP6Config" where
  "normalize6 c =
     (if \<not> c6_Enabled c then Inr c
      else if c6_PoolOffsetStart c = 0 \<or> c6_PoolOffsetEnd c < c6_PoolOffsetStart c
      then Inl (ErrDhcp6Pool (c6_PoolOffsetStart c) (c6_PoolOffsetEnd c))
      else Inr (if c6_LeaseTime c \<le> 0 then c\<lparr>c6_LeaseTime := Hour\<rparr> else c))"

record dhcp6Server =
  s6_cfg :: DHCP6Config
  s6_statics :: "(string, static_binding) gomap"
  s6_leases :: leaseTable

definition newDHCP6Server :: "DHCP6Config \<Rightarrow> dhcp6Server" where
  "newDHCP6Server cfg = \<lparr>s6_cfg = cfg, s6_statics = [], s6_leases = newLeaseTable\<rparr>"

text \<open>One tick of \<^verbatim>\<open>sweepLoop\<close>.\<close>

definition sweep6 :: "time \<Rightarrow> dhcp6Server \<Rightarrow> dhcp6Server" where
  "sweep6 now s = s\<lparr>s6_leases := expireSweep now (s6_leases s)\<rparr>"

definition PutStatic6 :: "dhcp6Server \<Rightarrow> static_binding \<Rightarrow> server_err + dhcp6Server" where
  "PutStatic6 s b =
     (if sb_ID b = '''' then Inl ErrNeedsID
      else case validate b of
        Some err \<Rightarrow> Inl err
      | None \<Rightarrow> Inr (s\<lparr>s6_statics := AList.update (sb_ID b) b (s6_statics s)\<rparr>))"

definition ReplaceStatics6 :: "dhcp6Server \<Rightarrow> static_binding list \<Rightarrow> server_err + dhcp6Server" where
  "ReplaceStatics6 s bs =
     (case buildStaticSet bs of
        Inl err \<Rightarrow> Inl err
      | Inr m \<Rightarrow> Inr (s\<lparr>s6_statics := m\<rparr>))"

definition ListStatic6 :: "orders \<Rightarrow> dhcp6Server \<Rightarrow> static_binding list" where
  "ListStatic6 ord s = map snd (ord_statics ord (s6_statics s))"

definition DeleteStatic6 :: "dhcp6Server \<Rightarrow> string \<Rightarrow> server_err + dhcp6Server" where
  "DeleteStatic6 s key =
     (if map_of (s6_statics s) key = None then Inl (ErrStaticNotFound key)
      else Inr (s\<lparr>s6_statics := AList.delete key (s6_statics s)\<rparr>))"

definition Leases6 :: "orders \<Rightarrow> time \<Rightarrow> dhcp6Server \<Rightarrow> lease list" where
  "Leases6 ord now s = snapshot (ord_leases ord) now (s6_leases s)"

definition ReleaseLease6 :: "dhcp6Server \<Rightarrow> addr \<Rightarrow> server_err + dhcp6Server" where
  "ReleaseLease6 s ip =
     (case lt_release (s6_leases s) ip of
        (ok, t) \<Rightarrow> if \<not> ok then Inl (ErrLeaseNotFound ip) else Inr (s\<lparr>s6_leases := t\<rparr>))"

section \<open>Address selection\<close>

text \<open>The part of \<open>selectIP6\<close> after the static match: the client's lease, then the pool.\<close>

definition selectDynamic6 ::
  "orders \<Rightarrow> time \<Rightarrow> leaseTable \<Rightarrow> DHCP6Config \<Rightarrow> prefix \<Rightarrow> addr list \<Rightarrow> lease \<Rightarrow> addr \<times> leaseTable" where
  "selectDynamic6 ord now t cfg prefix staticIPs lease =
     (let mac = lease_MAC lease;
          duidHex = lease_ClientID lease;
          gwIP = pfx_addr prefix;
          poolStart = addrAtOffset prefix (c6_PoolOffsetStart cfg);
          poolEnd = addrAtOffset prefix (c6_PoolOffsetEnd cfg);
          pool =
            (if \<not> IsValid poolStart \<or> \<not> IsValid poolEnd then (AddrNone, t)
             else allocate now t poolStart poolEnd
                    (\<lambda>ip. ip = gwIP \<or> ip \<in> set staticIPs) lease)
      in case byClient (ord_leases ord) now t mac duidHex of
           Some cur \<Rightarrow>
             if lease_IP cur \<notin> set staticIPs \<and> Contains (Masked prefix) (lease_IP cur)
             then (lease_IP cur, lt_set t (lease\<lparr>lease_IP := lease_IP cur\<rparr>))
             else pool
         | None \<Rightarrow> pool)"

definition selectIP6 ::
  "orders \<Rightarrow> time \<Rightarrow> dhcp6Server \<Rightarrow> DHCP6Config \<Rightarrow> prefix \<Rightarrow> bytes \<Rightarrow> string \<Rightarrow> string \<Rightarrow>
     addr \<times> leaseTable" where
  "selectIP6 ord now s cfg prefix srcMAC duidHex hostname =
     (let mac = HardwareAddr_String srcMAC;
          t = s6_leases s;
          bindings = map snd (ord_statics ord (s6_statics s));
          staticIPs = staticAddrs prefix bindings;
          lease = \<lparr>lease_IP = AddrNone, lease_MAC = mac, lease_ClientID = duidHex,
                   lease_Hostname = hostname, lease_Expiry = now + c6_LeaseTime cfg,
                   lease_Static = False\<rparr>;
          dynamic = selectDynamic6 ord now t cfg prefix staticIPs lease
      in case matchBinding bindings mac duidHex of
           Some b \<Rightarrow>
             (let ip = addrAtOffset prefix (sb_Offset b)
              in if IsValid ip
                 then (if inUse now t ip mac duidHex then (AddrNone, t)
                       else (ip, lt_set t (lease\<lparr>lease_IP := ip, lease_Static := True\<rparr>)))
                 else dynamic)
         | None \<Rightarrow> dynamic)"

definition hostnameOf :: "dhcp6_msg \<Rightarrow> string" where
  "hostnameOf msg =
     (case m6_FQDN msg of
        Some (Some (label # _)) \<Rightarrow> label
      | _ \<Rightarrow> '''')"

section \<open>Replies\<close>

definition serverDUID :: "env \<Rightarrow> duid6" where
  "serverDUID e = DUIDLL HWTypeEthernet (env_mac e)"

definition dnsServers6 :: "DHCP6Config \<Rightarrow> prefix \<Rightarrow> bytes list" where
  "dnsServers6 cfg prefix =
     (if c6_DNS cfg = [] then [AsSlice (pfx_addr prefix)] else map AsSlice (c6_DNS cfg))"

definition transmit6 :: "'r dhcp6_lib \<Rightarrow> env \<Rightarrow> ingress \<Rightarrow> 'r \<Rightarrow> bytes list" where
  "transmit6 lib e pkt reply =
     (let srcIP = env_linkLocal e
      in if \<not> IsValid srcIP then []
         else [CraftUDP6 (env_mac e) (in_SrcMAC pkt) (AsSlice srcIP) (in_SrcIP pkt)
                 dhcp6ServerPort dhcp6ClientPort (d6_ToBytes lib reply)])"

definition addressMods6 ::
  "env \<Rightarrow> DHCP6Config \<Rightarrow> prefix \<Rightarrow> dhcp6_msg \<Rightarrow> addr \<Rightarrow> mod6 list" where
  "addressMods6 e cfg prefix msg ip =
     [WithServerID (serverDUID e), WithDNS (dnsServers6 cfg prefix)] @
     (if m6_OneIANA msg \<noteq> None
      then [WithIANA (AsSlice ip) (go_div (c6_LeaseTime cfg) 2) (c6_LeaseTime cfg)] else [])"

definition keepIAID :: "'r dhcp6_lib \<Rightarrow> dhcp6_msg \<Rightarrow> 'r \<Rightarrow> 'r" where
  "keepIAID lib msg reply =
     (case m6_OneIANA msg of
        None \<Rightarrow> reply
      | Some iaid \<Rightarrow> if d6_OneIANA lib reply \<noteq> None then d6_setIaId lib reply iaid else reply)"

definition replyAddress ::
  "orders \<Rightarrow> 'r dhcp6_lib \<Rightarrow> time \<Rightarrow> env \<Rightarrow> dhcp6Server \<Rightarrow> DHCP6Config \<Rightarrow> prefix \<Rightarrow> ingress \<Rightarrow>
     dhcp6_msg \<Rightarrow> bytes \<Rightarrow> bool \<Rightarrow> dhcp6Server \<times> bytes list" where
  "replyAddress ord lib now e s cfg prefix pkt msg clientID advertise =
     (let duidHex = EncodeToString clientID;
          (ip, t) = selectIP6 ord now s cfg prefix (in_SrcMAC pkt) duidHex (hostnameOf msg);
          s' = s\<lparr>s6_leases := t\<rparr>;
          mods = addressMods6 e cfg prefix msg ip
      in if \<not> IsValid ip then (s', [])
         else case (if advertise then d6_NewAdvertiseFromSolicit lib msg mods
                    else d6_NewReplyFromMessage lib msg mods) of
                None \<Rightarrow> (s', [])
              | Some reply \<Rightarrow> (s', transmit6 lib e pkt (keepIAID lib msg reply)))"

definition replyStatus :: "'r dhcp6_lib \<Rightarrow> env \<Rightarrow> ingress \<Rightarrow> dhcp6_msg \<Rightarrow> bytes list" where
  "replyStatus lib e pkt msg =
     (case d6_NewReplyFromMessage lib msg [WithServerID (serverDUID e)] of
        None \<Rightarrow> []
      | Some reply \<Rightarrow> transmit6 lib e pkt reply)"

definition replyInformation ::
  "'r dhcp6_lib \<Rightarrow> env \<Rightarrow> DHCP6Config \<Rightarrow> prefix \<Rightarrow> ingress \<Rightarrow> dhcp6_msg \<Rightarrow> bytes list" where
  "replyInformation lib e cfg prefix pkt msg =
     (case d6_NewReplyFromMessage lib msg
        [WithServerID (serverDUID e), WithDNS (dnsServers6 cfg prefix)] of
        None \<Rightarrow> []
      | Some reply \<Rightarrow> transmit6 lib e pkt reply)"

section \<open>Handlers\<close>

definition handleMessage6 ::
  "orders \<Rightarrow> 'r dhcp6_lib \<Rightarrow> time \<Rightarrow> env \<Rightarrow> dhcp6Server \<Rightarrow> DHCP6Config \<Rightarrow> prefix \<Rightarrow> ingress \<Rightarrow>
     dhcp6_msg \<Rightarrow> bytes \<Rightarrow> dhcp6Server \<times> bytes list" where
  "handleMessage6 ord lib now e s cfg prefix pkt msg clientID =
     (if m6_MessageType msg = MT6_Solicit
      then replyAddress ord lib now e s cfg prefix pkt msg clientID True
      else if m6_MessageType msg \<in> {MT6_Request, MT6_Renew, MT6_Rebind}
      then replyAddress ord lib now e s cfg prefix pkt msg clientID False
      else if m6_MessageType msg = MT6_Release
      then (let duidHex = EncodeToString clientID;
                s' = (case byClient (ord_leases ord) now (s6_leases s)
                             (HardwareAddr_String (in_SrcMAC pkt)) duidHex of
                        None \<Rightarrow> s
                      | Some l \<Rightarrow> s\<lparr>s6_leases := snd (lt_release (s6_leases s) (lease_IP l))\<rparr>)
            in (s', replyStatus lib e pkt msg))
      else if m6_MessageType msg = MT6_InformationRequest
      then (s, replyInformation lib e cfg prefix pkt msg)
      else (s, []))"

definition handleFrame6 ::
  "orders \<Rightarrow> 'r dhcp6_lib \<Rightarrow> time \<Rightarrow> env \<Rightarrow> dhcp6Server \<Rightarrow> ingress \<Rightarrow>
     bool \<times> dhcp6Server \<times> bytes list" where
  "handleFrame6 ord lib now e s pkt =
     (if \<not> in_IsUDP6 pkt \<or> in_DstPort pkt \<noteq> dhcp6ServerPort then (False, s, [])
      else
        (let cfg = s6_cfg s
         in case env_v6 e of
              None \<Rightarrow> (True, s, [])
            | Some prefix \<Rightarrow>
                if \<not> c6_Enabled cfg then (True, s, [])
                else (case d6_FromBytes lib (in_Payload pkt) of
                        Some (D6Message msg) \<Rightarrow>
                          (case m6_ClientID msg of
                             None \<Rightarrow> (True, s, [])
                           | Some clientID \<Rightarrow>
                               (True, handleMessage6 ord lib now e s cfg prefix pkt msg clientID))
                      | _ \<Rightarrow> (True, s, []))))"

section \<open>The selection refines the reference selection\<close>

definition newLease6 :: "time \<Rightarrow> DHCP6Config \<Rightarrow> bytes \<Rightarrow> string \<Rightarrow> string \<Rightarrow> lease" where
  "newLease6 now cfg srcMAC duidHex hostname =
     \<lparr>lease_IP = AddrNone, lease_MAC = HardwareAddr_String srcMAC, lease_ClientID = duidHex,
      lease_Hostname = hostname, lease_Expiry = now + c6_LeaseTime cfg, lease_Static = False\<rparr>"

definition key6 :: "ingress \<Rightarrow> bytes \<Rightarrow> string" where
  "key6 pkt clientID = clientKey (HardwareAddr_String (in_SrcMAC pkt)) (EncodeToString clientID)"

definition s6_ok :: "dhcp6Server \<Rightarrow> bool" where
  "s6_ok s \<longleftrightarrow> statics_ok (s6_statics s) \<and> lt_ok (s6_leases s)"

lemma s6_ok_leases: "s6_ok s \<Longrightarrow> lt_ok (s6_leases s)"
  by (simp add: s6_ok_def)

lemma newLease6_simps [simp]:
  "lease_Expiry (newLease6 now cfg mac duid host) = now + c6_LeaseTime cfg"
  "lease_MAC (newLease6 now cfg mac duid host) = HardwareAddr_String mac"
  "lease_ClientID (newLease6 now cfg mac duid host) = duid"
  by (simp_all add: newLease6_def)

lemma set_ListStatic6: "orders_ok ord \<Longrightarrow> set (ListStatic6 ord s) = snd ` set (s6_statics s)"
  by (simp add: ListStatic6_def orders_ok_def go_order_set)

lemma selectIP6_chooseAddr:
  "selectIP6 ord now s cfg prefix mac duid host =
     chooseAddr (ord_leases ord) now (s6_leases s) (ListStatic6 ord s) prefix
       (c6_PoolOffsetStart cfg) (c6_PoolOffsetEnd cfg) AddrNone (newLease6 now cfg mac duid host)"
  unfolding selectIP6_def selectDynamic6_def chooseAddr_def chooseDynamic_def choosePool_def
    newLease6_def ListStatic6_def
  by (simp only: Let_def lease.simps IsValid_simps simp_thms if_False)

interpretation d6: static_store s6_statics PutStatic6 ReplaceStatics6 DeleteStatic6
  by unfold_locales
    (auto simp: PutStatic6_def ReplaceStatics6_def DeleteStatic6_def split: if_splits option.splits sum.splits)

lemma selectIP6_ok:
  "lt_ok (s6_leases s) \<Longrightarrow> selectIP6 ord now s cfg prefix mac duid host = (ip, t) \<Longrightarrow> lt_ok t"
  unfolding selectIP6_chooseAddr by (rule lt_ok_chooseAddr)

lemma selectIP6_granted:
  assumes "prefix_ok prefix" and "orders_ok ord" and "lt_ok (s6_leases s)"
    and "selectIP6 ord now s cfg prefix mac duid host = (ip, t)"
  shows "if IsValid ip
    then granted now (lt_lookup (s6_leases s)) (lt_lookup t) ip (clientKey (HardwareAddr_String mac) duid) \<and>
      Contains prefix ip
    else t = s6_leases s"
  using chooseAddr_granted [OF assms(1) _ assms(3) _ assms(4) [unfolded selectIP6_chooseAddr]] assms(2)
  by (simp add: orders_ok_def split: if_splits)

section \<open>What a frame does to the server\<close>

text \<open>Every message changes the lease table in one of three ways: not at all, by a selection for
  its sender, or by removing an unexpired lease of its sender.\<close>

inductive lease_effect6 :: "orders \<Rightarrow> time \<Rightarrow> prefix \<Rightarrow> string \<Rightarrow> leaseTable \<Rightarrow> leaseTable \<Rightarrow> bool"
  for ord now prefix key where
  unchanged: "lease_effect6 ord now prefix key t t"
| select: "s6_leases s = t \<Longrightarrow> selectIP6 ord now s cfg prefix mac duid host = (ip, t') \<Longrightarrow>
    key = clientKey (HardwareAddr_String mac) duid \<Longrightarrow> lease_effect6 ord now prefix key t t'"
| release: "byClient (ord_leases ord) now t mac duid = Some l \<Longrightarrow> key = clientKey mac duid \<Longrightarrow>
    lease_effect6 ord now prefix key t (snd (lt_release t (lease_IP l)))"

lemma replyAddress_state:
  "fst (replyAddress ord lib now e s cfg prefix pkt msg clientID adv) =
     s\<lparr>s6_leases := snd (selectIP6 ord now s cfg prefix (in_SrcMAC pkt) (EncodeToString clientID)
        (hostnameOf msg))\<rparr>"
  by (simp add: replyAddress_def Let_def split: prod.splits option.splits)

lemma handleMessage6_effect:
  assumes "handleMessage6 ord lib now e s cfg prefix pkt msg clientID = (s', out)"
  shows "s6_cfg s' = s6_cfg s \<and> s6_statics s' = s6_statics s \<and>
    lease_effect6 ord now prefix (key6 pkt clientID) (s6_leases s) (s6_leases s')"
proof -
  have s': "s' = fst (handleMessage6 ord lib now e s cfg prefix pkt msg clientID)" using assms by simp
  have sel: "lease_effect6 ord now prefix (key6 pkt clientID) (s6_leases s)
      (snd (selectIP6 ord now s cfg prefix (in_SrcMAC pkt) (EncodeToString clientID) (hostnameOf msg)))"
    by (rule select [OF refl _ key6_def]) (rule prod.collapse [symmetric])
  show ?thesis
    unfolding s' handleMessage6_def Let_def
    using sel unchanged release
    by (auto simp: replyAddress_state key6_def split: option.splits)
qed

lemma handleFrame6_cases:
  assumes "handleFrame6 ord lib now e s pkt = (b, s', out)"
  obtains (ignored) "s' = s" "out = []"
    "b \<longleftrightarrow> in_IsUDP6 pkt \<and> in_DstPort pkt = dhcp6ServerPort"
  | (handled) prefix msg clientID where "in_IsUDP6 pkt" "in_DstPort pkt = dhcp6ServerPort" "b"
    "env_v6 e = Some prefix" "c6_Enabled (s6_cfg s)"
    "d6_FromBytes lib (in_Payload pkt) = Some (D6Message msg)" "m6_ClientID msg = Some clientID"
    "handleMessage6 ord lib now e s (s6_cfg s) prefix pkt msg clientID = (s', out)"
  using assms
  by (auto simp: handleFrame6_def Let_def split: if_splits option.splits dhcp6_pkt.splits)

lemma lease_effect6_ok: "lease_effect6 ord now prefix key t t' \<Longrightarrow> lt_ok t \<Longrightarrow> lt_ok t'"
  by (induction rule: lease_effect6.induct) (auto intro: selectIP6_ok lt_ok_release)

lemma handleFrame6_state:
  assumes "handleFrame6 ord lib now e s pkt = (b, s', out)" and "s6_ok s"
  shows "s6_ok s' \<and> s6_cfg s' = s6_cfg s \<and> s6_statics s' = s6_statics s"
  using assms(1)
proof (cases rule: handleFrame6_cases)
  case ignored
  with assms(2) show ?thesis by simp
next
  case (handled prefix msg clientID)
  with handleMessage6_effect [OF handled(8)] assms(2) show ?thesis
    by (auto simp: s6_ok_def intro: lease_effect6_ok)
qed

text \<open>No message touches the unexpired lease of another client.\<close>

lemma lookup_effect6:
  assumes "lease_effect6 ord now prefix key' t t'" and "prefix_ok prefix" and "orders_ok ord"
    and "lt_ok t" and "lt_lookup t ip = Some c" and "now \<le> lease_Expiry c" and "leaseKey c \<noteq> key'"
  shows "lt_lookup t' ip = Some c"
  using assms(1)
proof cases
  case unchanged
  then show ?thesis using assms(5) by simp
next
  case (select s cfg mac duid host x)
  from selectIP6_granted [OF assms(2,3) _ select(2)] assms(4) select(1,3)
  consider "t' = t" | "granted now (lt_lookup t) (lt_lookup t') x key'"
    by (auto split: if_splits)
  then show ?thesis
  proof cases
    case 2
    then have "x \<noteq> ip" using assms(5-7) unfolding granted_def by metis
    with 2 assms(5) show ?thesis unfolding granted_def by auto
  qed (use assms(5) in simp)
next
  case (release mac duid l)
  have "lt_lookup t (lease_IP l) = Some l" "leaseKey l = key'"
    using lt.own_Some [OF _ assms(4) release(2)] assms(3) release(3) by (simp_all add: orders_ok_def)
  then have "lease_IP l \<noteq> ip" using assms(5,7) by auto
  with release assms(5) show ?thesis by (simp add: lt.lookup_remove)
qed

lemma leased_effect6:
  assumes "lease_effect6 ord now prefix key' t t'" and "prefix_ok prefix" and "orders_ok ord"
    and "lt_ok t" and "leased t key ip exp" and "now \<le> exp" and "key' \<noteq> key"
  shows "leased t' key ip exp"
  using assms(5-7) lookup_effect6 [OF assms(1-4)] unfolding leased_def by blast

lemma sole_effect6:
  assumes "lease_effect6 ord now prefix key' t t'" and "prefix_ok prefix" and "orders_ok ord"
    and "lt_ok t" and "sole now t key ip" and "key' \<noteq> key"
  shows "sole now t' key ip"
  using assms(1)
proof cases
  case unchanged
  then show ?thesis using assms(5) by simp
next
  case (select s cfg mac duid host x)
  from selectIP6_granted [OF assms(2,3) _ select(2)] assms(4) select(1,3)
  consider "t' = t" | "granted now (lt_lookup t) (lt_lookup t') x key'"
    by (auto split: if_splits)
  then show ?thesis using sole_granted [OF assms(5)] assms(5,6) by cases auto
next
  case (release mac duid l)
  with sole_update [OF assms(5) lt.lookup_remove, of "lease_IP l"] show ?thesis by simp
qed

section \<open>Traffic of other clients\<close>

text \<open>The client a frame speaks for, as far as the server is concerned.\<close>

definition sender6 :: "'r dhcp6_lib \<Rightarrow> ingress \<Rightarrow> string option" where
  "sender6 lib pkt =
     (case d6_FromBytes lib (in_Payload pkt) of
        Some (D6Message msg) \<Rightarrow> map_option (key6 pkt) (m6_ClientID msg)
      | _ \<Rightarrow> None)"

definition env6_ok :: "env \<Rightarrow> bool" where
  "env6_ok e \<longleftrightarrow> (case env_v6 e of None \<Rightarrow> True | Some p \<Rightarrow> prefix_ok p)"

definition step6 ::
  "'r dhcp6_lib \<Rightarrow> env \<Rightarrow> string \<Rightarrow> time \<Rightarrow> dhcp6Server \<Rightarrow> dhcp6Server \<Rightarrow> bool" where
  "step6 lib e key now s s' \<longleftrightarrow>
     s' = sweep6 now s \<or>
     (\<exists>ord pkt b out. env6_ok e \<and> orders_ok ord \<and> sender6 lib pkt \<noteq> Some key \<and>
        handleFrame6 ord lib now e s pkt = (b, s', out))"

lemma handleFrame6_effect:
  assumes "handleFrame6 ord lib now e s pkt = (b, s', out)" and "env6_ok e"
  shows "s' = s \<or> (\<exists>prefix key. prefix_ok prefix \<and> sender6 lib pkt = Some key \<and>
    lease_effect6 ord now prefix key (s6_leases s) (s6_leases s'))"
  using assms(1)
proof (cases rule: handleFrame6_cases)
  case (handled prefix msg clientID)
  have "prefix_ok prefix" using assms(2) handled(4) by (simp add: env6_ok_def)
  moreover have "sender6 lib pkt = Some (key6 pkt clientID)"
    using handled(6,7) by (simp add: sender6_def)
  ultimately show ?thesis using handleMessage6_effect [OF handled(8)] by blast
qed simp

lemma step6_ok:
  assumes "step6 lib e key now s s'" and "s6_ok s"
  shows "s6_ok s' \<and> s6_cfg s' = s6_cfg s \<and> s6_statics s' = s6_statics s"
  using assms(1) unfolding step6_def
proof
  assume "s' = sweep6 now s"
  with assms(2) show ?thesis by (simp add: sweep6_def s6_ok_def lt_ok_sweep)
qed (use handleFrame6_state assms(2) in blast)

lemma step6_leased:
  assumes "step6 lib e key now s s'" and "s6_ok s"
    and "leased (s6_leases s) key ip exp" and "now \<le> exp"
  shows "leased (s6_leases s') key ip exp"
  using assms(1) unfolding step6_def
proof
  assume "s' = sweep6 now s"
  with assms show ?thesis by (simp add: sweep6_def s6_ok_def leased_sweep)
next
  assume "\<exists>ord pkt b out. env6_ok e \<and> orders_ok ord \<and> sender6 lib pkt \<noteq> Some key \<and>
    handleFrame6 ord lib now e s pkt = (b, s', out)"
  then show ?thesis
    using handleFrame6_effect leased_effect6 [OF _ _ _ s6_ok_leases [OF assms(2)] assms(3,4)] assms(3)
    by metis
qed

lemma step6_sole:
  assumes "s6_ok s" and "step6 lib e key now s s'" and "sole now (s6_leases s) key ip"
  shows "sole now (s6_leases s') key ip"
  using assms(2) unfolding step6_def
proof
  assume "s' = sweep6 now s"
  with assms show ?thesis by (simp add: sweep6_def s6_ok_def sole_sweep)
next
  assume "\<exists>ord pkt b out. env6_ok e \<and> orders_ok ord \<and> sender6 lib pkt \<noteq> Some key \<and>
    handleFrame6 ord lib now e s pkt = (b, s', out)"
  then show ?thesis
    using handleFrame6_effect sole_effect6 [OF _ _ _ s6_ok_leases [OF assms(1)] assms(3)] assms(3)
    by metis
qed

interpretation book6: sole_server s6_leases s6_ok "\<lambda>s. (s6_cfg s, s6_statics s)"
  "step6 lib e key" key ip for lib :: "'r dhcp6_lib" and e key ip
  by unfold_locales (auto dest: step6_ok intro: step6_leased step6_sole s6_ok_leases)

section \<open>Properties\<close>

text \<open>C4: whatever a client sends to the DHCPv6 server, RELEASE included, every unexpired lease of
  every other client stays exactly as it is, and the server keeps its invariant, configuration
  and bindings.\<close>

theorem handleFrame6_isolates:
  assumes "s6_ok s" and "orders_ok ord" and "env6_ok e"
    and "handleFrame6 ord lib now e s pkt = (b, s', out)"
    and "lt_lookup (s6_leases s) ip = Some l" and "now \<le> lease_Expiry l"
    and "sender6 lib pkt \<noteq> Some (leaseKey l)"
  shows "lt_lookup (s6_leases s') ip = Some l \<and> s6_ok s' \<and> s6_cfg s' = s6_cfg s \<and>
    s6_statics s' = s6_statics s"
proof -
  have "lt_lookup (s6_leases s') ip = Some l"
    using handleFrame6_effect [OF assms(4,3)]
      lookup_effect6 [OF _ _ assms(2) s6_ok_leases [OF assms(1)] assms(5,6)] assms(5,7) by metis
  with handleFrame6_state [OF assms(4,1)] show ?thesis by simp
qed

text \<open>C15: the address advertised to a SOLICIT is the address the REQUEST that follows gets, as long
  as it arrives before the lease runs out: whatever frames other clients send in between and
  however often the sweeper runs, for a client that has no unexpired lease elsewhere (\<open>sole\<close>) and
  matches at most one static binding (\<open>unambiguous\<close>), in whatever orders the Go maps are iterated.
  Without these two conditions the answer may depend on the orders
  (\<open>selectIP6_depends_on_order\<close>).\<close>

theorem solicit_then_request:
  assumes "s6_ok s" and "prefix_ok prefix" and "orders_ok ord" and "orders_ok ord'"
    and "unambiguous (snd ` set (s6_statics s)) (HardwareAddr_String (in_SrcMAC pkt)) (EncodeToString duid)"
    and "sole now (s6_leases s) (key6 pkt duid) ip"
    and "selectIP6 ord now s cfg prefix (in_SrcMAC pkt) (EncodeToString duid) (hostnameOf sol) = (ip, t)"
    and "IsValid ip"
    and "replyAddress ord lib now e s cfg prefix pkt sol duid True = (s1, advertise)"
    and "timed_run (step6 lib e (key6 pkt duid)) now s1 now' s2" and "now' \<le> now + c6_LeaseTime cfg"
    and "in_SrcMAC pkt' = in_SrcMAC pkt"
  shows "snd (replyAddress ord' lib now' e s2 cfg prefix pkt' req duid False) =
    (case d6_NewReplyFromMessage lib req (addressMods6 e cfg prefix req ip) of
       None \<Rightarrow> []
     | Some reply \<Rightarrow> transmit6 lib e pkt' (keepIAID lib req reply))"
proof -
  have ok: "go_order (ord_leases ord)" "go_order (ord_leases ord')" "lt_ok (s6_leases s)"
    using assms(1,3,4) by (simp_all add: orders_ok_def s6_ok_def)
  have s1: "s1 = s\<lparr>s6_leases := t\<rparr>"
    using replyAddress_state [of ord lib now e s cfg prefix pkt sol duid True] assms(7,9) by simp
  have s1_ok: "s6_ok s1" using assms(1) s1 selectIP6_ok [OF ok(3) assms(7)] by (simp add: s6_ok_def)
  have sel: "chooseAddr (ord_leases ord) now (s6_leases s) (ListStatic6 ord s) prefix
      (c6_PoolOffsetStart cfg) (c6_PoolOffsetEnd cfg) AddrNone
      (newLease6 now cfg (in_SrcMAC pkt) (EncodeToString duid) (hostnameOf sol)) = (ip, s6_leases s1)"
    using assms(7) s1 by (simp add: selectIP6_chooseAddr)
  have "s6_statics s2 = s6_statics s" using book6.run_keeps [OF assms(10) s1_ok] s1 by simp
  then have sets: "set (ListStatic6 ord' s2) = set (ListStatic6 ord s)"
    using set_ListStatic6 assms(3,4) by simp
  have "fst (selectIP6 ord' now' s2 cfg prefix (in_SrcMAC pkt') (EncodeToString duid) (hostnameOf req)) = ip"
    unfolding selectIP6_chooseAddr
    by (rule book6.rebook [OF assms(2) ok _ sel assms(8) _ assms(6) s1_ok assms(10) _ sets])
      (use assms(3,5,11,12) set_ListStatic6 in \<open>simp_all add: key6_def\<close>)
  with assms(8) show ?thesis
    by (auto simp: replyAddress_def Let_def split: prod.splits option.splits)
qed

text \<open>An address reply goes out as one frame from the server's link-local address to the
  sender's MAC and address, port 547 to 546, whose payload is the codec's serialisation of a
  reply that carries the client's own IAID. The hypotheses on the codec: an IA_NA requested
  for the reply is present in it, and setting its IAID sets it.\<close>

theorem replyAddress_frame:
  assumes "selectIP6 ord now s cfg prefix (in_SrcMAC pkt) (EncodeToString duid) (hostnameOf msg) = (ip, t)"
    and "IsValid ip" and "m6_OneIANA msg = Some iaid"
    and "d6_NewReplyFromMessage lib msg (addressMods6 e cfg prefix msg ip) = Some reply"
    and "\<And>mods r a p v. d6_NewReplyFromMessage lib msg mods = Some r \<Longrightarrow> WithIANA a p v \<in> set mods \<Longrightarrow>
      d6_OneIANA lib r \<noteq> None"
    and "\<And>r x. d6_OneIANA lib r \<noteq> None \<Longrightarrow> d6_OneIANA lib (d6_setIaId lib r x) = Some x"
    and "length (env_mac e) = 6" and "length (in_SrcMAC pkt) = 6" and "length (in_SrcIP pkt) = 16"
    and "Is6 (env_linkLocal e)" and "\<And>r. length (d6_ToBytes lib r) \<le> 65527"
  shows "\<exists>frame r p. snd (replyAddress ord lib now e s cfg prefix pkt msg duid False) = [frame] \<and>
    take 6 frame = in_SrcMAC pkt \<and> Parse frame = Some p \<and>
    in_SrcIP p = AsSlice (env_linkLocal e) \<and> in_DstIP p = in_SrcIP pkt \<and>
    in_SrcPort p = 547 \<and> in_DstPort p = 546 \<and> in_Payload p = d6_ToBytes lib r \<and>
    d6_OneIANA lib r = Some iaid"
proof -
  let ?r = "d6_setIaId lib reply iaid"
  have ia: "d6_OneIANA lib reply \<noteq> None"
    using assms(5) [OF assms(4)] assms(3) by (auto simp: addressMods6_def)
  have ll: "To16 (AsSlice (env_linkLocal e)) = AsSlice (env_linkLocal e)"
      "length (AsSlice (env_linkLocal e)) = 16" "IsValid (env_linkLocal e)"
    using assms(10) by (cases "env_linkLocal e"; simp add: To16_def)+
  have dst: "To16 (in_SrcIP pkt) = in_SrcIP pkt" using assms(9) by (simp add: To16_def)
  let ?f = "CraftUDP6 (env_mac e) (in_SrcMAC pkt) (AsSlice (env_linkLocal e)) (in_SrcIP pkt) 547 546
    (d6_ToBytes lib ?r)"
  have out: "snd (replyAddress ord lib now e s cfg prefix pkt msg duid False) = [?f]"
    using assms(1-4) ia ll(3) by (simp add: replyAddress_def keepIAID_def transmit6_def)
  have src: "length (To16 (AsSlice (env_linkLocal e))) = 16" and dst': "length (To16 (in_SrcIP pkt)) = 16"
    using ll dst assms(9) by simp_all
  have "take 6 ?f = in_SrcMAC pkt"
    by (rule CraftUDP6_dstMAC [OF assms(7,8) src dst'])
  moreover note Parse_UDP6_frame [OF assms(7,8) src dst' assms(11) [of ?r], of 547 546]
  ultimately show ?thesis
    using out assms(6) [OF ia, of iaid] ll(1) dst by (intro exI [of _ ?f] exI [of _ ?r]) simp
qed

section \<open>A concrete server\<close>

definition pfx6_example :: prefix where
  "pfx6_example = Prefix (Addr6 0x20010DB8000000000000000000000001 []) 64"

definition lib6_example :: "(bytes option \<times> bytes) dhcp6_lib" where
  "lib6_example = \<lparr>
     d6_FromBytes = (\<lambda>b. case b of [] \<Rightarrow> None
       | typ # _ \<Rightarrow> Some (D6Message \<lparr>m6_MessageType = typ, m6_ClientID = Some [0, 3, 0, 1],
           m6_FQDN = None, m6_OneIANA = Some [0, 0, 0, 7]\<rparr>)),
     d6_NewAdvertiseFromSolicit = (\<lambda>msg mods. Some (None, [])),
     d6_NewReplyFromMessage = (\<lambda>msg mods. Some (Some [0, 0, 0, 0], [])),
     d6_OneIANA = fst,
     d6_setIaId = (\<lambda>r x. (Some x, snd r)),
     d6_ToBytes = (\<lambda>r. case fst r of None \<Rightarrow> [] | Some iaid \<Rightarrow> take 4 iaid)\<rparr>"

definition msg6_example :: "u8 \<Rightarrow> dhcp6_msg" where
  "msg6_example typ = \<lparr>m6_MessageType = typ, m6_ClientID = Some [0, 3, 0, 1],
     m6_FQDN = None, m6_OneIANA = Some [0, 0, 0, 7]\<rparr>"

definition cfg6_example :: DHCP6Config where
  "cfg6_example = \<lparr>c6_Enabled = True, c6_PoolOffsetStart = 0x100, c6_PoolOffsetEnd = 0x1FF,
     c6_LeaseTime = Hour, c6_DNS = []\<rparr>"

definition s6_example :: dhcp6Server where
  "s6_example = \<lparr>s6_cfg = cfg6_example, s6_statics = [(''vm1'', sb_mac_example)],
     s6_leases = newLeaseTable\<rparr>"

definition env6_example :: env where
  "env6_example = \<lparr>env_mac = [2, 0, 0, 0, 0, 1], env_v4 = None, env_v6 = Some pfx6_example,
     env_v6all = [pfx6_example], env_linkLocal = Addr6 0xFE800000000000000000000000000001 []\<rparr>"

definition pkt6_example :: "u8 \<Rightarrow> ingress" where
  "pkt6_example typ = emptyIngress\<lparr>in_IsUDP6 := True, in_SrcMAC := mac_example,
     in_SrcIP := ll_example, in_DstPort := 547, in_Payload := [typ]\<rparr>"

lemma pfx6_example_ok [simp]: "prefix_ok pfx6_example" "PfxIsValid pfx6_example"
  "host_bits pfx6_example = 64" "BitLen (pfx_addr pfx6_example) = 128"
  by (simp_all add: pfx6_example_def prefix_ok_def PfxIsValid_def host_bits_def)

lemma s6_example_ok [simp]: "s6_ok s6_example"
  by (simp add: s6_ok_def s6_example_def statics_ok_def sb_mac_example_def validate_def)

lemma env6_example_ok [simp]: "env6_ok env6_example"
  by (simp add: env6_ok_def env6_example_def)

lemma addr6_at_offset:
  assumes "unat off = n" and "n < 2 ^ 16"
  shows "addrAtOffset pfx6_example off = Addr6 (0x20010DB8000000000000000000000000 + of_nat n) []"
proof -
  have v: "IsValid (addrAtOffset pfx6_example off)" using assms by (simp add: addrAtOffset_valid_iff)
  have "addr_val (pfx_addr (Masked pfx6_example)) = 0x20010DB8000000000000000000000000"
    by (subst addr_val_Masked) (simp_all, simp add: pfx6_example_def)
  with addrAtOffset_val [OF pfx6_example_ok(1) v] assms(1)
  have "addr_val (addrAtOffset pfx6_example off) = 0x20010DB8000000000000000000000000 + n"
    "BitLen (addrAtOffset pfx6_example off) = 128" "Zone (addrAtOffset pfx6_example off) = []"
    by simp_all
  moreover have "unat (0x20010DB8000000000000000000000000 + of_nat n :: 128 word) =
      0x20010DB8000000000000000000000000 + n"
    using assms(2) by (simp add: unat_word_ariths unat_of_nat)
  ultimately show ?thesis
    by (cases "addrAtOffset pfx6_example off") (auto simp: word_unat_eq_iff)
qed

lemma selectIP6_example:
  "fst (selectIP6 orders_id now s6_example cfg6_example pfx6_example mac_example duid host) =
     Addr6 0x20010DB8000000000000000000000005 []"
  by (simp add: selectIP6_def Let_def s6_example_def orders_id_def mac_example_String
      matchBinding_def bindingScore_def sb_mac_example_def addr6_at_offset [of 5 5]
      inUse_def newLeaseTable_def EqualFold_def)

theorem handleFrame6_isolates_witness:
  "case handleFrame6 orders_id lib6_example 0 env6_example
      (s6_example\<lparr>s6_leases := lt_set newLeaseTable lease_example\<rparr>) (pkt6_example MT6_Release) of
     (b, s', out) \<Rightarrow> lt_lookup (s6_leases s') (Addr4 10) = Some lease_example"
proof -
  let ?s = "s6_example\<lparr>s6_leases := lt_set newLeaseTable lease_example\<rparr>"
  obtain b s' out where h: "handleFrame6 orders_id lib6_example 0 env6_example ?s
      (pkt6_example MT6_Release) = (b, s', out)" using prod_cases3 by blast
  have "s6_ok ?s" using s6_example_ok lt_ok_set [OF lt_ok_new] by (simp add: s6_ok_def)
  moreover have "lt_lookup (s6_leases ?s) (Addr4 10) = Some lease_example"
    by (simp add: lt_lookup_set lease_example_def)
  moreover have "sender6 lib6_example (pkt6_example MT6_Release) \<noteq> Some (leaseKey lease_example)"
    by (simp add: sender6_def lib6_example_def pkt6_example_def key6_def mac_example_String
        lease_example_def clientKey_def EncodeToString_def hexByte_def hexDigit_def ToLower_def)
  ultimately have "lt_lookup (s6_leases s') (Addr4 10) = Some lease_example"
    using handleFrame6_isolates [OF _ orders_ok_examples(1) env6_example_ok h]
    by (simp add: lease_example_def)
  with h show ?thesis by simp
qed

theorem solicit_then_request_witness:
  "\<exists>s1. fst (replyAddress orders_id lib6_example 0 env6_example s6_example cfg6_example pfx6_example
       (pkt6_example MT6_Solicit) (msg6_example MT6_Solicit) [0, 3, 0, 1] True) = s1 \<and>
     snd (replyAddress orders_rev lib6_example Minute env6_example (sweep6 Minute s1) cfg6_example
       pfx6_example (pkt6_example MT6_Request) (msg6_example MT6_Request) [0, 3, 0, 1] False) =
     transmit6 lib6_example env6_example (pkt6_example MT6_Request) (Some [0, 0, 0, 7], [])"
proof -
  obtain s1 out where a: "replyAddress orders_id lib6_example 0 env6_example s6_example cfg6_example
      pfx6_example (pkt6_example MT6_Solicit) (msg6_example MT6_Solicit) [0, 3, 0, 1] True = (s1, out)"
    by fastforce
  have mac: "in_SrcMAC (pkt6_example x) = mac_example" for x by (simp add: pkt6_example_def)
  let ?ip = "Addr6 0x20010DB8000000000000000000000005 []"
  obtain t where sel: "selectIP6 orders_id 0 s6_example cfg6_example pfx6_example
      (in_SrcMAC (pkt6_example MT6_Solicit)) (EncodeToString [0, 3, 0, 1])
      (hostnameOf (msg6_example MT6_Solicit)) = (?ip, t)"
    unfolding mac by (metis selectIP6_example prod.collapse)
  have run: "timed_run (step6 lib6_example env6_example (key6 (pkt6_example MT6_Solicit) [0, 3, 0, 1]))
      0 s1 Minute (sweep6 Minute s1)"
    by (rule timed_run.tick [OF timed_run.start]) (simp_all add: step6_def)
  have "snd (replyAddress orders_rev lib6_example Minute env6_example (sweep6 Minute s1) cfg6_example
       pfx6_example (pkt6_example MT6_Request) (msg6_example MT6_Request) [0, 3, 0, 1] False) =
     transmit6 lib6_example env6_example (pkt6_example MT6_Request) (Some [0, 0, 0, 7], [])"
    by (subst solicit_then_request [OF s6_example_ok pfx6_example_ok(1) orders_ok_examples _ _ sel _ a run])
      (simp_all add: unambiguous_def s6_example_def sole_def newLeaseTable_def cfg6_example_def mac
        lib6_example_def keepIAID_def msg6_example_def)
  with a show ?thesis by simp
qed

theorem replyAddress_frame_witness:
  "\<exists>frame p. snd (replyAddress orders_id lib6_example 0 env6_example s6_example cfg6_example pfx6_example
       (pkt6_example MT6_Request) (msg6_example MT6_Request) [0, 3, 0, 1] False) = [frame] \<and>
     Parse frame = Some p \<and> in_DstIP p = ll_example \<and> in_Payload p = [0, 0, 0, 7]"
proof -
  have mac: "in_SrcMAC (pkt6_example x) = mac_example" for x by (simp add: pkt6_example_def)
  obtain t where sel: "selectIP6 orders_id 0 s6_example cfg6_example pfx6_example
      (in_SrcMAC (pkt6_example MT6_Request)) (EncodeToString [0, 3, 0, 1])
      (hostnameOf (msg6_example MT6_Request)) = (Addr6 0x20010DB8000000000000000000000005 [], t)"
    unfolding mac by (metis selectIP6_example prod.collapse)
  have "\<exists>frame r p. snd (replyAddress orders_id lib6_example 0 env6_example s6_example cfg6_example
      pfx6_example (pkt6_example MT6_Request) (msg6_example MT6_Request) [0, 3, 0, 1] False) = [frame] \<and>
    take 6 frame = in_SrcMAC (pkt6_example MT6_Request) \<and> Parse frame = Some p \<and>
    in_SrcIP p = AsSlice (env_linkLocal env6_example) \<and> in_DstIP p = in_SrcIP (pkt6_example MT6_Request) \<and>
    in_SrcPort p = 547 \<and> in_DstPort p = 546 \<and> in_Payload p = d6_ToBytes lib6_example r \<and>
    d6_OneIANA lib6_example r = Some [0, 0, 0, 7]"
    by (rule replyAddress_frame [OF sel])
      (auto simp: lib6_example_def msg6_example_def env6_example_def pkt6_example_def mac_example_def
        ll_example_def split: option.splits)
  then show ?thesis
    by (auto simp: lib6_example_def pkt6_example_def)
qed

section \<open>Renumbering\<close>

text \<open>A client with two unexpired leases, as after the delegated prefix changed: one in the served
  prefix, one in the previous one. \<open>byClient\<close> returns whichever the map iteration meets
  first.\<close>

definition lease6_example :: "addr \<Rightarrow> lease" where
  "lease6_example ip = \<lparr>lease_IP = ip, lease_MAC = ''02:00:00:00:00:05'', lease_ClientID = '''',
     lease_Hostname = '''', lease_Expiry = Hour, lease_Static = False\<rparr>"

definition s6_renumbered :: dhcp6Server where
  "s6_renumbered = \<lparr>s6_cfg = cfg6_example, s6_statics = [], s6_leases = newLeaseTable\<lparr>lt_leases :=
     [(Addr6 0x20010DB8000000000000000000000142 [], lease6_example (Addr6 0x20010DB8000000000000000000000142 [])),
      (Addr6 0x20010DB8000000010000000000000100 [], lease6_example (Addr6 0x20010DB8000000010000000000000100 []))]\<rparr>\<rparr>"

lemma Contains_pfx6_example:
  "Contains (Masked pfx6_example) (Addr6 w []) \<longleftrightarrow> unat w div 2 ^ 64 = 0x20010DB800000000"
  using Contains_iff [OF pfx6_example_ok(1,2), of "Addr6 w []"] Contains_Masked [OF pfx6_example_ok(1)]
  by (simp add: pfx6_example_def host_bits_def)

lemma lease6_key [simp]:
  "lease_MAC (lease6_example ip) = ''02:00:00:00:00:05''" "lease_ClientID (lease6_example ip) = ''''"
  "lease_Expiry (lease6_example ip) = Hour" "lease_IP (lease6_example ip) = ip"
  by (simp_all add: lease6_example_def)

text \<open>So the same request in the same state may renew the client's current address or move the
  client to a fresh address of the pool although its current one is free for it.\<close>

theorem selectIP6_depends_on_order:
  "fst (selectIP6 orders_id 0 s6_renumbered cfg6_example pfx6_example mac_example '''' '''') =
     Addr6 0x20010DB8000000000000000000000142 [] \<and>
   fst (selectIP6 orders_rev 0 s6_renumbered cfg6_example pfx6_example mac_example '''' '''') =
     Addr6 0x20010DB8000000000000000000000100 []"
proof
  have gw: "pfx_addr pfx6_example = Addr6 0x20010DB8000000000000000000000001 []"
    by (simp add: pfx6_example_def)
  note ev = selectIP6_chooseAddr chooseAddr_def chooseDynamic_def choosePool_def Let_def
    ListStatic6_def s6_renumbered_def newLease6_def mac_example_String matchBinding_def
    byClient_def staticAddrs_def Contains_pfx6_example
  show "fst (selectIP6 orders_id 0 s6_renumbered cfg6_example pfx6_example mac_example '''' '''') =
     Addr6 0x20010DB8000000000000000000000142 []"
    by (simp add: ev orders_id_def)
  have "\<not> activeAt 0 (s6_leases s6_renumbered) (Addr6 0x20010DB8000000000000000000000100 [])"
    by (simp add: activeAt_def s6_renumbered_def)
  moreover have "scanFree (Addr6 0x20010DB8000000000000000000000100 []) b skip act =
      Addr6 0x20010DB8000000000000000000000100 []"
    if "\<not> Less b (Addr6 0x20010DB8000000000000000000000100 [])"
      "\<not> skip (Addr6 0x20010DB8000000000000000000000100 [])"
      "\<not> act (Addr6 0x20010DB8000000000000000000000100 [])" for b skip act
    using that by (simp add: scanFree.simps)
  ultimately show "fst (selectIP6 orders_rev 0 s6_renumbered cfg6_example pfx6_example mac_example '''' '''') =
     Addr6 0x20010DB8000000000000000000000100 []"
    by (simp add: ev orders_rev_def fst_allocate cfg6_example_def addr6_at_offset [of "0x100" "0x100"]
      addr6_at_offset [of "0x1FF" "0x1FF"] less_addr_iff activeAt_def gw)
qed

end
