(* ===== verification/Ra.thy ===== *)
theory Ra
  imports Env
begin

text \<open>
  \<^verbatim>\<open>internal/server/ra.go\<close>: router advertisements of one interface. The server remembers the
  prefixes of its previous advertisement and, per vanished prefix, how many more times it is
  advertised with zero lifetimes. A Go map of prefixes is an association list; the iteration
  orders of the three maps are the record \<open>ra_orders\<close>.
\<close>

section \<open>Configuration and state\<close>

abbreviation defaultRAInterval :: duration where "defaultRAInterval \<equiv> 200 * Second"
abbreviation defaultRouterLifetime :: duration where "defaultRouterLifetime \<equiv> 1800 * Second"
abbreviation defaultValidLifetime :: duration where "defaultValidLifetime \<equiv> 30 * 24 * Hour"
abbreviation defaultPreferredLifetime :: duration where "defaultPreferredLifetime \<equiv> 7 * 24 * Hour"
abbreviation ndpHopLimit :: u8 where "ndpHopLimit \<equiv> 255"
abbreviation deprecateResends :: int where "deprecateResends \<equiv> 3"

text \<open>\<^verbatim>\<open>ff02::1\<close> and its Ethernet multicast address.\<close>

definition allNodesIP6 :: bytes where
  "allNodesIP6 = [0xff, 0x02, 0, 0, 0, 0, 0, 0, 0, 0, 0, 0, 0, 0, 0, 1]"

definition allNodesMAC :: bytes where
  "allNodesMAC = [0x33, 0x33, 0, 0, 0, 1]"

record RAConfig =
  ra_Enabled :: bool
  ra_Autonomous :: bool
  ra_Managed :: bool
  ra_Other :: bool
  ra_Interval :: duration
  ra_RouterLifetime :: duration
  ra_ValidLifetime :: duration
  ra_PreferredLife :: duration
  ra_DNS :: "addr list"

definition normalizeRA :: "RAConfig \<Rightarrow> RAConfig" where
  "normalizeRA c =
     (let c = (if ra_Interval c \<le> 0 then c\<lparr>ra_Interval := defaultRAInterval\<rparr> else c);
          c = (if ra_RouterLifetime c \<le> 0 then c\<lparr>ra_RouterLifetime := defaultRouterLifetime\<rparr> else c);
          c = (if ra_ValidLifetime c \<le> 0 then c\<lparr>ra_ValidLifetime := defaultValidLifetime\<rparr> else c)
      in if ra_PreferredLife c \<le> 0 then c\<lparr>ra_PreferredLife := defaultPreferredLifetime\<rparr> else c)"

text \<open>\<open>rs_kick\<close>: the channel \<^verbatim>\<open>kick\<close> of capacity one holds a token.\<close>

record raServer =
  rs_cfg :: RAConfig
  rs_last :: "prefix list"
  rs_deprecate :: "(prefix, int) gomap"
  rs_kick :: bool

definition newRAServer :: "RAConfig \<Rightarrow> raServer" where
  "newRAServer cfg = \<lparr>rs_cfg = normalizeRA cfg, rs_last = [], rs_deprecate = [], rs_kick = False\<rparr>"

definition Kick :: "raServer \<Rightarrow> raServer" where
  "Kick s = s\<lparr>rs_kick := True\<rparr>"

record ra_orders =
  ro_live :: "(prefix \<times> bool) list \<Rightarrow> (prefix \<times> bool) list"
  ro_deprecate :: "(prefix \<times> int) list \<Rightarrow> (prefix \<times> int) list"
  ro_out :: "(prefix \<times> bool) list \<Rightarrow> (prefix \<times> bool) list"

definition ra_orders_ok :: "ra_orders \<Rightarrow> bool" where
  "ra_orders_ok ord \<longleftrightarrow> go_order (ro_live ord) \<and> go_order (ro_deprecate ord) \<and> go_order (ro_out ord)"

definition ra_orders_id :: ra_orders where
  "ra_orders_id = \<lparr>ro_live = (\<lambda>xs. xs), ro_deprecate = (\<lambda>xs. xs), ro_out = (\<lambda>xs. xs)\<rparr>"

lemma ra_orders_id_ok [simp]: "ra_orders_ok ra_orders_id"
  by (simp add: ra_orders_ok_def ra_orders_id_def)

section \<open>The advertised prefixes\<close>

text \<open>The map \<^verbatim>\<open>live\<close>: the masked /64s of the interface.\<close>

fun livePrefixes :: "bool \<Rightarrow> prefix list \<Rightarrow> (prefix, bool) gomap \<Rightarrow> (prefix, bool) gomap" where
  "livePrefixes v [] m = m"
| "livePrefixes v (p # ps) m =
     livePrefixes v ps (if pfx_bits p = 64 then AList.update (Masked p) v m else m)"

text \<open>Prefixes of the previous advertisement that vanished are queued.\<close>

fun queueVanished :: "(prefix, bool) gomap \<Rightarrow> prefix list \<Rightarrow> (prefix, int) gomap \<Rightarrow> (prefix, int) gomap" where
  "queueVanished live [] dep = dep"
| "queueVanished live (p # ps) dep =
     queueVanished live ps
       (if map_of live p \<noteq> Some True \<and> map_of dep p = None
        then AList.update p deprecateResends dep else dep)"

text \<open>The loop over \<^verbatim>\<open>live\<close>: advertise alive, stop deprecating.\<close>

fun mergeLive ::
  "(prefix \<times> bool) list \<Rightarrow> (prefix, bool) gomap \<Rightarrow> (prefix, int) gomap \<Rightarrow>
     (prefix, bool) gomap \<times> (prefix, int) gomap" where
  "mergeLive [] out dep = (out, dep)"
| "mergeLive ((p, _) # ps) out dep = mergeLive ps (AList.update p True out) (AList.delete p dep)"

text \<open>The loop over \<^verbatim>\<open>deprecate\<close>, which updates and deletes the entry it visits.\<close>

fun mergeDeprecated ::
  "(prefix \<times> int) list \<Rightarrow> (prefix, bool) gomap \<Rightarrow> (prefix, int) gomap \<Rightarrow>
     (prefix, bool) gomap \<times> (prefix, int) gomap" where
  "mergeDeprecated [] out dep = (out, dep)"
| "mergeDeprecated ((p, n) # ps) out dep =
     mergeDeprecated ps (AList.update p False out)
       (if n \<le> 1 then AList.delete p dep else AList.update p (n - 1) dep)"

definition currentPrefixes ::
  "ra_orders \<Rightarrow> env \<Rightarrow> raServer \<Rightarrow> (prefix, bool) gomap \<times> raServer" where
  "currentPrefixes ord e s =
     (let live = livePrefixes True (env_v6all e) [];
          dep = queueVanished live (rs_last s) (rs_deprecate s);
          (out, dep) = mergeLive (ro_live ord live) [] dep;
          (out, dep) = mergeDeprecated (ro_deprecate ord dep) out dep
      in (out, s\<lparr>rs_deprecate := dep, rs_last := map fst (ro_live ord live)\<rparr>))"

section \<open>The advertisement\<close>

definition rdnss :: "RAConfig \<Rightarrow> addr list" where
  "rdnss cfg = ra_DNS cfg"

text \<open>The fixed part, the source link-layer address option, a prefix information option and the
  RDNSS option, each built in its own slice.\<close>

definition raHeader :: "RAConfig \<Rightarrow> u16 \<Rightarrow> bytes" where
  "raHeader cfg routerLifetime =
     (let body = replicate 16 0;
          body = body[0 := ICMPv6TypeRouterAdvert];
          body = body[4 := 64];
          body = (if ra_Managed cfg then body[5 := body ! 5 OR push_bit 7 1] else body);
          body = (if ra_Other cfg then body[5 := body ! 5 OR push_bit 6 1] else body)
      in go_copy body 6 8 (be_bytes 2 (unat routerLifetime)))"

definition sllaOption :: "bytes \<Rightarrow> bytes" where
  "sllaOption mac =
     (let opt = replicate 8 0; opt = opt[0 := 1, 1 := 1] in go_copy opt 2 8 mac)"

definition lifetime32 :: "duration \<Rightarrow> u32" where
  "lifetime32 d = word_of_int (go_div d Second)"

definition prefixInfo :: "RAConfig \<Rightarrow> prefix \<Rightarrow> bool \<Rightarrow> bytes" where
  "prefixInfo cfg p alive =
     (let pi = replicate 32 0;
          pi = pi[0 := 3, 1 := 4];
          pi = pi[2 := word_of_int (pfx_bits p)];
          pi = pi[3 := push_bit 7 1];
          pi = (if ra_Autonomous cfg then pi[3 := pi ! 3 OR push_bit 6 1] else pi);
          pi = (if alive
                then go_copy (go_copy pi 4 8 (be_bytes 4 (unat (lifetime32 (ra_ValidLifetime cfg)))))
                       8 12 (be_bytes 4 (unat (lifetime32 (ra_PreferredLife cfg))))
                else pi)
      in go_copy pi 16 32 (As16 (pfx_addr p)))"

fun rdnssAddrs :: "nat \<Rightarrow> addr list \<Rightarrow> bytes \<Rightarrow> bytes" where
  "rdnssAddrs i [] rd = rd"
| "rdnssAddrs i (a # as) rd = rdnssAddrs (Suc i) as (go_copy rd (8 + 16 * i) (length rd) (As16 a))"

definition rdnssOption :: "RAConfig \<Rightarrow> addr list \<Rightarrow> bytes" where
  "rdnssOption cfg dns =
     (let rd = replicate (8 + 16 * length dns) 0;
          rd = rd[0 := 25];
          rd = rd[1 := of_nat (1 + 2 * length dns)];
          rd = go_copy rd 4 8 (be_bytes 4 (unat (lifetime32 (ra_RouterLifetime cfg))))
      in rdnssAddrs 0 dns rd)"

definition raBody ::
  "RAConfig \<Rightarrow> bytes \<Rightarrow> (prefix \<times> bool) list \<Rightarrow> u16 \<Rightarrow> bytes" where
  "raBody cfg mac prefixes routerLifetime =
     raHeader cfg routerLifetime @ sllaOption mac @
     concat (map (\<lambda>(p, alive). prefixInfo cfg p alive) prefixes) @
     (if rdnss cfg \<noteq> [] then rdnssOption cfg (rdnss cfg) else [])"

text \<open>The frames handed to \<^verbatim>\<open>env.write\<close>; \<open>None\<close> is the panic of \<open>CraftICMP6\<close>.\<close>

definition transmitRA ::
  "ra_orders \<Rightarrow> env \<Rightarrow> RAConfig \<Rightarrow> bytes \<Rightarrow> bytes \<Rightarrow> (prefix, bool) gomap \<Rightarrow> u16 \<Rightarrow>
     bytes list option" where
  "transmitRA ord e cfg dstMAC dstIP prefixes routerLifetime =
     (let srcIP = env_linkLocal e
      in if \<not> IsValid srcIP then Some []
         else map_option (\<lambda>frame. [frame])
                (CraftICMP6 (env_mac e) dstMAC (AsSlice srcIP) dstIP
                  (raBody cfg (env_mac e) (ro_out ord prefixes) routerLifetime) ndpHopLimit))"

definition send ::
  "ra_orders \<Rightarrow> env \<Rightarrow> raServer \<Rightarrow> RAConfig \<Rightarrow> bytes \<Rightarrow> bytes \<Rightarrow> raServer \<times> bytes list option" where
  "send ord e s cfg dstMAC dstIP =
     (let (prefixes, s') = currentPrefixes ord e s
      in (s', transmitRA ord e cfg dstMAC dstIP prefixes
                (word_of_int (go_div (ra_RouterLifetime cfg) Second))))"

definition sendFinal :: "ra_orders \<Rightarrow> env \<Rightarrow> RAConfig \<Rightarrow> bytes list option" where
  "sendFinal ord e cfg =
     transmitRA ord e cfg allNodesMAC allNodesIP6 (livePrefixes False (env_v6all e) []) 0"

definition handleFrameRA ::
  "ra_orders \<Rightarrow> env \<Rightarrow> raServer \<Rightarrow> ingress \<Rightarrow> bool \<times> raServer \<times> bytes list option" where
  "handleFrameRA ord e s pkt =
     (if \<not> in_IsICMP6 pkt \<or> in_ICMPTyp pkt \<noteq> ICMPv6TypeRouterSolicit then (False, s, Some [])
      else
        (let cfg = rs_cfg s
         in if \<not> ra_Enabled cfg then (True, s, Some [])
            else
              (let (dstMAC, dstIP) =
                 (if \<not> IP_IsUnspecified (in_SrcIP pkt) then (in_SrcMAC pkt, in_SrcIP pkt)
                  else (allNodesMAC, allNodesIP6))
               in (True, send ord e s cfg dstMAC dstIP))))"

text \<open>\<^verbatim>\<open>loop\<close>: at the top an advertisement is sent if enabled; then the goroutine waits for the end
  of the server, a kick or the timer.\<close>

datatype ra_phase = RATop | RAWait | RADone

inductive raStep ::
  "env \<Rightarrow> ra_phase \<times> raServer \<Rightarrow> bytes list option \<Rightarrow> ra_phase \<times> raServer \<Rightarrow> bool" for e where
  top: "ra_Enabled (rs_cfg s) \<Longrightarrow> ra_orders_ok ord \<Longrightarrow>
    send ord e s (rs_cfg s) allNodesMAC allNodesIP6 = (s', out) \<Longrightarrow>
    raStep e (RATop, s) out (RAWait, s')"
| idle: "\<not> ra_Enabled (rs_cfg s) \<Longrightarrow> raStep e (RATop, s) (Some []) (RAWait, s)"
| kicked: "rs_kick s \<Longrightarrow> raStep e (RAWait, s) (Some []) (RATop, s\<lparr>rs_kick := False\<rparr>)"
| timer: "raStep e (RAWait, s) (Some []) (RATop, s)"
| finish: "ra_orders_ok ord \<Longrightarrow>
    raStep e (RAWait, s) (if ra_Enabled (rs_cfg s) then sendFinal ord e (rs_cfg s) else Some []) (RADone, s)"
| kick: "raStep e (ph, s) (Some []) (ph, Kick s)"
| solicit: "ra_orders_ok ord \<Longrightarrow> handleFrameRA ord e s pkt = (b, s', out) \<Longrightarrow>
    raStep e (ph, s) out (ph, s')"

section \<open>Which prefixes are advertised\<close>

lemma map_of_go_order:
  assumes "go_order ord" and "gomap_ok m"
  shows "map_of (ord m) = map_of m"
proof -
  have "gomap_ok (ord m)"
    using assms by (metis go_order_def mset_map mset_eq_imp_distinct_iff)
  moreover have "set (ord m) = set m" using go_order_set [OF assms(1)] .
  ultimately show ?thesis using assms(2) by (metis map_of_inject_set)
qed

text \<open>The masked /64s of the interface.\<close>

definition live64 :: "env \<Rightarrow> prefix \<Rightarrow> bool" where
  "live64 e k \<longleftrightarrow> (\<exists>p \<in> set (env_v6all e). pfx_bits p = 64 \<and> Masked p = k)"

lemma gomap_ok_live: "gomap_ok m \<Longrightarrow> gomap_ok (livePrefixes v ps m)"
  by (induction v ps m rule: livePrefixes.induct) (simp_all add: distinct_update)

lemma livePrefixes_lookup:
  "map_of (livePrefixes v ps m) k =
     (if \<exists>p \<in> set ps. pfx_bits p = 64 \<and> Masked p = k then Some v else map_of m k)"
  by (induction v ps m rule: livePrefixes.induct) (auto simp: update_conv')

lemma live_lookup:
  "map_of (livePrefixes v (env_v6all e) []) k = (if live64 e k then Some v else None)"
  by (simp add: livePrefixes_lookup live64_def)

lemma gomap_ok_queue: "gomap_ok dep \<Longrightarrow> gomap_ok (queueVanished live ps dep)"
  by (induction live ps dep rule: queueVanished.induct) (simp_all add: distinct_update)

lemma queueVanished_lookup:
  "map_of (queueVanished live ps dep) k =
     (if k \<in> set ps \<and> map_of live k \<noteq> Some True \<and> map_of dep k = None then Some deprecateResends
      else map_of dep k)"
  by (induction live ps dep rule: queueVanished.induct) (auto simp: update_conv')

lemma mergeLive_lookup:
  "mergeLive ps out dep = (out', dep') \<Longrightarrow> gomap_ok out \<Longrightarrow> gomap_ok dep \<Longrightarrow>
     gomap_ok out' \<and> gomap_ok dep' \<and>
     map_of out' k = (if k \<in> fst ` set ps then Some True else map_of out k) \<and>
     map_of dep' k = (if k \<in> fst ` set ps then None else map_of dep k)"
  by (induction ps out dep rule: mergeLive.induct)
    (auto simp: update_conv' delete_conv' distinct_update distinct_delete)

lemma mergeDeprecated_lookup:
  "mergeDeprecated ps out dep = (out', dep') \<Longrightarrow> gomap_ok ps \<Longrightarrow> gomap_ok out \<Longrightarrow> gomap_ok dep \<Longrightarrow>
     gomap_ok out' \<and> gomap_ok dep' \<and>
     map_of out' k = (if k \<in> fst ` set ps then Some False else map_of out k) \<and>
     map_of dep' k = (case map_of ps k of
        None \<Rightarrow> map_of dep k | Some n \<Rightarrow> if n \<le> 1 then None else Some (n - 1))"
proof (induction ps out dep rule: mergeDeprecated.induct)
  case (1 out dep)
  then show ?case by simp
next
  case (2 p n ps out dep)
  let ?dep = "if n \<le> 1 then AList.delete p dep else AList.update p (n - 1) dep"
  have "gomap_ok ?dep" using 2(5) by (simp add: distinct_update distinct_delete)
  then have "gomap_ok out' \<and> gomap_ok dep' \<and>
     map_of out' k = (if k \<in> fst ` set ps then Some False else map_of (AList.update p False out) k) \<and>
     map_of dep' k = (case map_of ps k of
        None \<Rightarrow> map_of ?dep k | Some n \<Rightarrow> if n \<le> 1 then None else Some (n - 1))"
    using 2 by (simp add: distinct_update)
  moreover have "k = p \<longrightarrow> map_of ps k = None" and "k = p \<longrightarrow> k \<notin> fst ` set ps"
    using 2(3) by (simp_all add: map_of_eq_None_iff)
  ultimately show ?case
    by (cases "k = p"; cases "map_of ps k") (simp_all add: update_conv' delete_conv')
qed

text \<open>How often the prefix is still to be advertised as vanished when an advertisement starts.\<close>

definition pending :: "raServer \<Rightarrow> prefix \<Rightarrow> int option" where
  "pending s k =
     (case map_of (rs_deprecate s) k of
        Some n \<Rightarrow> Some n
      | None \<Rightarrow> if k \<in> set (rs_last s) then Some deprecateResends else None)"

definition rs_ok :: "raServer \<Rightarrow> bool" where
  "rs_ok s \<longleftrightarrow> gomap_ok (rs_deprecate s) \<and>
     (\<forall>p n. map_of (rs_deprecate s) p = Some n \<longrightarrow> 1 \<le> n \<and> n < deprecateResends \<and> p \<notin> set (rs_last s))"

lemma currentPrefixes_cases:
  assumes "currentPrefixes ord e s = (out, s')" and "gomap_ok (rs_deprecate s)" and "ra_orders_ok ord"
  shows "gomap_ok out \<and> gomap_ok (rs_deprecate s') \<and>
    set (rs_last s') = {k. live64 e k} \<and> rs_cfg s' = rs_cfg s \<and> rs_kick s' = rs_kick s \<and>
    map_of out k = (if live64 e k then Some True else map_option (\<lambda>_. False) (pending s k)) \<and>
    map_of (rs_deprecate s') k =
      (if live64 e k then None
       else case pending s k of None \<Rightarrow> None | Some n \<Rightarrow> if n \<le> 1 then None else Some (n - 1))"
proof -
  define live where "live = livePrefixes True (env_v6all e) []"
  define dep where "dep = queueVanished live (rs_last s) (rs_deprecate s)"
  obtain out1 dep1 where m1: "mergeLive (ro_live ord live) [] dep = (out1, dep1)" by fastforce
  obtain dep2 where m2: "mergeDeprecated (ro_deprecate ord dep1) out1 dep1 = (out, dep2)"
    and s': "s' = s\<lparr>rs_deprecate := dep2, rs_last := map fst (ro_live ord live)\<rparr>"
    using assms(1) m1 unfolding currentPrefixes_def Let_def live_def [symmetric] dep_def [symmetric]
    by (auto split: prod.splits)
  have ords: "go_order (ro_live ord)" "go_order (ro_deprecate ord)"
    using assms(3) by (simp_all add: ra_orders_ok_def)
  have live: "map_of live k = (if live64 e k then Some True else None)" for k
    unfolding live_def by (rule live_lookup)
  have "k \<in> fst ` set live \<longleftrightarrow> live64 e k" for k
    using live [of k] map_of_eq_None_iff [of live k] by (simp split: if_splits)
  then have keys: "fst ` set (ro_live ord live) = {k. live64 e k}"
    unfolding go_order_set [OF ords(1)] by blast
  have ok: "gomap_ok dep" unfolding dep_def by (rule gomap_ok_queue [OF assms(2)])
  note l1 = mergeLive_lookup [OF m1 _ ok, simplified]
  have dep1: "map_of dep1 k = (if live64 e k then None else pending s k)" for k
    using l1 by (simp add: keys dep_def queueVanished_lookup live pending_def split: option.splits)
  have ok1: "gomap_ok (ro_deprecate ord dep1)"
    using l1 ords(2) by (metis go_order_def mset_map mset_eq_imp_distinct_iff)
  have mo: "map_of (ro_deprecate ord dep1) = map_of dep1"
    using map_of_go_order [OF ords(2)] l1 by simp
  have mem: "k \<in> fst ` set (ro_deprecate ord dep1) \<longleftrightarrow> \<not> live64 e k \<and> pending s k \<noteq> None" for k
    using map_of_eq_None_iff [of "ro_deprecate ord dep1" k] by (auto simp: mo dep1 split: if_splits)
  note l2 = mergeDeprecated_lookup [OF m2 ok1, of k]
  show ?thesis
    using l1 l2 mem [of k] dep1 [of k] keys s' by (auto simp: mo split: option.splits if_splits)
qed

text \<open>The invariant holds initially and every advertisement re-establishes it.\<close>

lemma rs_ok_new [simp]: "rs_ok (newRAServer cfg)"
  by (simp add: rs_ok_def newRAServer_def)

lemma pending_bounds: "rs_ok s \<Longrightarrow> pending s k = Some n \<Longrightarrow> 1 \<le> n \<and> n \<le> deprecateResends"
  by (force simp: rs_ok_def pending_def split: option.splits if_splits)

lemma currentPrefixes_ok:
  assumes "rs_ok s" and "ra_orders_ok ord" and "currentPrefixes ord e s = (out, s')"
  shows "rs_ok s'"
proof -
  have g: "gomap_ok (rs_deprecate s)" using assms(1) by (simp add: rs_ok_def)
  have "1 \<le> n \<and> n < deprecateResends \<and> p \<notin> set (rs_last s')"
    if "map_of (rs_deprecate s') p = Some n" for p n
    using currentPrefixes_cases [OF assms(3) g assms(2), of p] that pending_bounds [OF assms(1), of p]
    by (auto split: if_splits option.splits)
  then show ?thesis
    using currentPrefixes_cases [OF assms(3) g assms(2)] by (simp add: rs_ok_def)
qed

section \<open>Successive advertisements\<close>

text \<open>The prefix maps of successive advertisements, each with the addressing and the map orders of
  its moment.\<close>

fun rounds :: "(ra_orders \<times> env) list \<Rightarrow> raServer \<Rightarrow> (prefix, bool) gomap list" where
  "rounds [] s = []"
| "rounds ((ord, e) # xs) s = (let (out, s') = currentPrefixes ord e s in out # rounds xs s')"

lemma rounds_pending:
  assumes "rs_ok s" and "\<forall>(ord, e) \<in> set xs. ra_orders_ok ord \<and> \<not> live64 e p" and "i < length xs"
  shows "map_of (rounds xs s ! i) p =
    (case pending s p of None \<Rightarrow> None | Some n \<Rightarrow> if int i < n then Some False else None)"
  using assms
proof (induction xs s arbitrary: i rule: rounds.induct)
  case (1 s)
  then show ?case by simp
next
  case (2 ord e xs s)
  obtain out s' where c: "currentPrefixes ord e s = (out, s')" by fastforce
  have ord: "ra_orders_ok ord" and nl: "\<not> live64 e p" using 2(3) by simp_all
  have g: "gomap_ok (rs_deprecate s)" using 2(2) by (simp add: rs_ok_def)
  note step = currentPrefixes_cases [OF c g ord, of p]
  have "p \<notin> set (rs_last s')" using step nl by simp
  then have pend: "pending s' p = map_of (rs_deprecate s') p"
    by (simp add: pending_def split: option.splits)
  note b = pending_bounds [OF 2(2), of p]
  show ?case
  proof (cases i)
    case 0
    then show ?thesis using c step nl b by (auto split: option.splits)
  next
    case (Suc j)
    have "map_of (rounds xs s' ! j) p =
        (case pending s' p of None \<Rightarrow> None | Some n \<Rightarrow> if int j < n then Some False else None)"
      using 2(1) [OF c [symmetric] refl currentPrefixes_ok [OF 2(2) ord c]] 2(3,4) Suc by simp
    then show ?thesis
      using c Suc pend step nl b by (auto split: option.splits if_splits)
  qed
qed

section \<open>Reading an advertisement back\<close>

text \<open>A decoder for the ICMPv6 message, written from RFC 4861 and RFC 8106 and independent of the
  encoder: flags, router lifetime in seconds and the options.\<close>

datatype ra_opt =
    SourceLLA bytes
  | PrefixInformation u8 bool bool nat nat bytes
  | RecursiveDNS nat "bytes list"
  | UnknownOption u8 bytes

fun chunks16 :: "bytes \<Rightarrow> bytes list" where
  "chunks16 bs = (if length bs < 16 then [] else take 16 bs # chunks16 (drop 16 bs))"

declare chunks16.simps [simp del]

definition ra_option :: "u8 \<Rightarrow> bytes \<Rightarrow> ra_opt" where
  "ra_option typ v =
     (if typ = 1 then SourceLLA v
      else if typ = 3 \<and> length v = 30
      then PrefixInformation (v ! 0) (bit (v ! 1) 7) (bit (v ! 1) 6)
             (be_nat (take 4 (drop 2 v))) (be_nat (take 4 (drop 6 v))) (take 16 (drop 14 v))
      else if typ = 25 then RecursiveDNS (be_nat (take 4 (drop 2 v))) (chunks16 (drop 6 v))
      else UnknownOption typ v)"

function ra_options :: "bytes \<Rightarrow> ra_opt list option" where
  "ra_options [] = Some []"
| "ra_options [x] = None"
| "ra_options (typ # n # rest) =
     (let k = 8 * unat n - 2
      in if n = 0 \<or> length rest < k then None
         else map_option ((#) (ra_option typ (take k rest))) (ra_options (drop k rest)))"
  by pat_completeness auto
termination
  by (relation "measure length") auto

text \<open>M flag, O flag, router lifetime, options.\<close>

definition ra_decode :: "bytes \<Rightarrow> (bool \<times> bool \<times> nat \<times> ra_opt list) option" where
  "ra_decode body =
     (if length body < 16 \<or> body ! 0 \<noteq> ICMPv6TypeRouterAdvert then None
      else map_option (\<lambda>opts. (bit (body ! 5) 7, bit (body ! 5) 6, be_nat (go_slice body 6 8), opts))
             (ra_options (drop 16 body)))"

lemma ra_options_tlv:
  assumes "length v = 8 * unat n - 2" and "n \<noteq> 0"
  shows "ra_options (typ # n # v @ rest) = map_option ((#) (ra_option typ v)) (ra_options rest)"
  using assms by (simp add: Let_def)

lemma replicate_8 [simp]: "replicate 8 (x :: u8) = [x, x, x, x, x, x, x, x]"
  by (simp add: numeral_eq_Suc)

lemma replicate_16 [simp]:
  "replicate 16 (x :: u8) = [x, x, x, x, x, x, x, x, x, x, x, x, x, x, x, x]"
  by (simp add: numeral_eq_Suc)

lemma sllaOption_layout: "length mac = 6 \<Longrightarrow> sllaOption mac = 1 # 1 # mac"
  by (simp add: sllaOption_def Let_def go_copy_def)

lemma raHeader_layout:
  "raHeader cfg rl =
     [134, 0, 0, 0, 64,
      (if ra_Managed cfg then push_bit 7 1 else 0) OR (if ra_Other cfg then push_bit 6 1 else 0)] @
     be_bytes 2 (unat rl) @ [0, 0, 0, 0, 0, 0, 0, 0]"
  by (simp add: raHeader_def Let_def go_copy_def)

lemma prefixInfo_layout:
  "prefixInfo cfg p alive =
     [3, 4, word_of_int (pfx_bits p), push_bit 7 1 OR (if ra_Autonomous cfg then push_bit 6 1 else 0)] @
     be_bytes 4 (if alive then unat (lifetime32 (ra_ValidLifetime cfg)) else 0) @
     be_bytes 4 (if alive then unat (lifetime32 (ra_PreferredLife cfg)) else 0) @
     [0, 0, 0, 0] @ As16 (pfx_addr p)"
proof -
  define z :: bytes where "z = be_bytes 4 0"
  have len: "length z = 4" by (simp add: z_def)
  have "replicate 32 (0 :: u8) = replicate 12 0 @ replicate 4 0 @ replicate 16 0"
    by (simp flip: replicate_add del: replicate_16)
  moreover have "replicate 12 (0 :: u8) = [0, 0, 0, 0] @ z @ z" "replicate 4 (0 :: u8) = [0, 0, 0, 0]"
    by (simp_all add: z_def bytes_simps, simp_all add: numeral_eq_Suc)
  ultimately have r: "replicate 32 (0 :: u8) = [0, 0, 0, 0] @ z @ z @ [0, 0, 0, 0] @ replicate 16 0"
    by simp
  show ?thesis
    unfolding prefixInfo_def Let_def r
    by (cases alive; cases "ra_Autonomous cfg")
      (simp_all add: frame_simps len del: replicate_16, simp_all add: z_def)
qed

lemma rdnssAddrs_layout:
  "length pre = 8 + 16 * i \<Longrightarrow>
     rdnssAddrs i dns (pre @ replicate (16 * length dns) 0) = pre @ concat (map As16 dns)"
proof (induction i dns "pre @ replicate (16 * length dns) (0 :: u8)" arbitrary: pre rule: rdnssAddrs.induct)
  case (1 i)
  then show ?case by simp
next
  case (2 i a as)
  have "go_copy (pre @ replicate (16 * length (a # as)) 0) (8 + 16 * i)
      (length (pre @ replicate (16 * length (a # as)) (0 :: u8))) (As16 a) =
      (pre @ As16 a) @ replicate (16 * length as) 0"
    using 2(2) by (simp add: go_copy_def)
  then show ?case using 2 by simp
qed

lemma rdnssOption_layout:
  "rdnssOption cfg dns =
     25 # of_nat (1 + 2 * length dns) # [0, 0] @
     be_bytes 4 (unat (lifetime32 (ra_RouterLifetime cfg))) @ concat (map As16 dns)"
proof -
  let ?h = "25 # of_nat (1 + 2 * length dns) # [0, 0] @
    be_bytes 4 (unat (lifetime32 (ra_RouterLifetime cfg)))"
  have r: "replicate (8 + 16 * length dns) (0 :: u8) =
      [0, 0, 0, 0, 0, 0, 0, 0] @ replicate (16 * length dns) 0"
    by (simp add: replicate_add)
  have "rdnssOption cfg dns = rdnssAddrs 0 dns (?h @ replicate (16 * length dns) 0)"
    unfolding rdnssOption_def Let_def r by (simp add: go_copy_def)
  also have "\<dots> = ?h @ concat (map As16 dns)"
    by (rule rdnssAddrs_layout) simp
  finally show ?thesis by simp
qed

lemma chunks16_concat: "chunks16 (concat (map As16 dns)) = map As16 dns"
proof (induction dns)
  case Nil
  then show ?case by (simp add: chunks16.simps)
next
  case (Cons a dns)
  then show ?case by (simp add: chunks16.simps [of "As16 a @ concat (map As16 dns)"])
qed

lemma unat_u32_mod [simp]: "unat (w :: u32) mod 4294967296 = unat w"
  using unsigned_less [of w, where ?'a = nat] by simp

lemma unat_u16_mod [simp]: "unat (w :: u16) mod 65536 = unat w"
  using unsigned_less [of w, where ?'a = nat] by simp

text \<open>What the advertisement says about one prefix and about the resolvers.\<close>

definition prefix_view :: "RAConfig \<Rightarrow> prefix \<times> bool \<Rightarrow> ra_opt" where
  "prefix_view cfg = (\<lambda>(p, alive). PrefixInformation (word_of_int (pfx_bits p)) True (ra_Autonomous cfg)
     (if alive then unat (lifetime32 (ra_ValidLifetime cfg)) else 0)
     (if alive then unat (lifetime32 (ra_PreferredLife cfg)) else 0) (As16 (pfx_addr p)))"

definition dns_view :: "RAConfig \<Rightarrow> ra_opt list" where
  "dns_view cfg = (if ra_DNS cfg = [] then []
     else [RecursiveDNS (unat (lifetime32 (ra_RouterLifetime cfg))) (map As16 (ra_DNS cfg))])"

lemma prefixInfo_option:
  "ra_options (prefixInfo cfg p alive @ rest) =
     map_option ((#) (prefix_view cfg (p, alive))) (ra_options rest)"
proof -
  define v where "v = drop 2 (prefixInfo cfg p alive)"
  have lay: "prefixInfo cfg p alive = 3 # 4 # v" and len: "length v = 30"
    by (simp_all add: v_def prefixInfo_layout)
  have "ra_option 3 v = prefix_view cfg (p, alive)"
    using len by (simp add: ra_option_def prefix_view_def v_def prefixInfo_layout bit_simps)
  then show ?thesis
    using ra_options_tlv [of v 4 3 rest] len by (simp add: lay)
qed

lemma prefixInfos_options:
  "ra_options (concat (map (\<lambda>(p, alive). prefixInfo cfg p alive) ps) @ rest) =
     map_option ((@) (map (prefix_view cfg) ps)) (ra_options rest)"
proof (induction ps)
  case Nil
  then show ?case by (simp add: option.map_ident_strong)
next
  case (Cons x ps)
  obtain p alive where "x = (p, alive)" by fastforce
  with Cons show ?case
    by (simp add: prefixInfo_option option.map_comp comp_def)
qed

lemma rdnss_option:
  assumes "length dns \<le> 127" and "dns \<noteq> []"
  shows "ra_options (rdnssOption cfg dns) =
    Some [RecursiveDNS (unat (lifetime32 (ra_RouterLifetime cfg))) (map As16 dns)]"
proof -
  define v where "v = [0, 0] @ be_bytes 4 (unat (lifetime32 (ra_RouterLifetime cfg))) @ concat (map As16 dns)"
  let ?n = "of_nat (1 + 2 * length dns) :: u8"
  have lay: "rdnssOption cfg dns = 25 # ?n # v @ []"
    by (simp add: rdnssOption_layout v_def)
  have n: "unat ?n = 1 + 2 * length dns" using assms(1) unat_of_nat [of "1 + 2 * length dns", where 'a = 8]
    by (simp del: of_nat_add of_nat_mult of_nat_Suc)
  have "length (concat (map As16 dns)) = 16 * length dns" by (induction dns) simp_all
  then have "length v = 8 * unat ?n - 2" using n by (simp add: v_def)
  moreover have "?n \<noteq> 0" using n by (metis Suc_eq_plus1_left nat.simps(3) unat_0)
  ultimately show ?thesis
    unfolding lay by (subst ra_options_tlv) (simp_all add: ra_option_def v_def chunks16_concat)
qed

lemma length_prefixInfo [simp]: "length (prefixInfo cfg p alive) = 32"
  by (simp add: prefixInfo_layout)

lemma length_concat_prefixInfo:
  "length (concat (map (\<lambda>(p, alive). prefixInfo cfg p alive) ps)) = 32 * length ps"
  by (induction ps) (auto split: prod.splits)

lemma length_concat_As16 [simp]: "length (concat (map As16 dns)) = 16 * length dns"
  by (induction dns) simp_all

lemma length_raBody:
  "length mac = 6 \<Longrightarrow> length (raBody cfg mac ps rl) =
     24 + 32 * length ps + (if ra_DNS cfg = [] then 0 else 8 + 16 * length (ra_DNS cfg))"
  by (simp add: raBody_def raHeader_layout sllaOption_layout length_concat_prefixInfo rdnss_def
      rdnssOption_layout)

lemma raBody_options:
  assumes "length mac = 6" and "length (ra_DNS cfg) \<le> 127"
  shows "ra_options (drop 16 (raBody cfg mac ps rl)) =
    Some (SourceLLA mac # map (prefix_view cfg) ps @ dns_view cfg)"
proof -
  let ?pis = "concat (map (\<lambda>(p, alive). prefixInfo cfg p alive) ps)"
  let ?dns = "if rdnss cfg \<noteq> [] then rdnssOption cfg (rdnss cfg) else []"
  have d: "drop 16 (raBody cfg mac ps rl) = 1 # 1 # mac @ ?pis @ ?dns"
    using assms(1) by (simp add: raBody_def raHeader_layout sllaOption_layout)
  have dns: "ra_options ?dns = Some (dns_view cfg)"
    using rdnss_option [of "ra_DNS cfg" cfg] assms(2) by (simp add: rdnss_def dns_view_def)
  show ?thesis
    unfolding d using assms(1) ra_options_tlv [of mac 1 1 "?pis @ ?dns"]
    by (simp add: prefixInfos_options dns ra_option_def)
qed

lemma raBody_decode:
  assumes "length mac = 6" and "length (ra_DNS cfg) \<le> 127" and "length c = 2"
  shows "ra_decode (take 2 (raBody cfg mac ps rl) @ c @ drop 4 (raBody cfg mac ps rl)) =
    Some (ra_Managed cfg, ra_Other cfg, unat rl, SourceLLA mac # map (prefix_view cfg) ps @ dns_view cfg)"
proof -
  let ?b = "raBody cfg mac ps rl"
  let ?m = "take 2 ?b @ c @ drop 4 ?b"
  let ?fl = "(if ra_Managed cfg then push_bit 7 1 else 0) OR (if ra_Other cfg then push_bit 6 (1 :: u8) else 0)"
  obtain c1 c2 where c: "c = [c1, c2]" using assms(3) by (metis length_0_conv length_Suc_conv numeral_2_eq_2)
  have b: "?b = [134, 0, 0, 0, 64, ?fl] @ be_bytes 2 (unat rl) @ drop 8 ?b"
    by (simp add: raBody_def raHeader_layout)
  have m: "?m = [134, 0, c1, c2, 64, ?fl] @ be_bytes 2 (unat rl) @ drop 8 ?b"
    by (subst b, subst b) (simp add: c)
  have "drop 16 ?m = drop 16 ?b" by (subst m) simp
  moreover have "16 \<le> length ?m" using length_raBody [OF assms(1), of cfg ps rl] assms(3) by simp
  moreover have "?m ! 0 = 134" "bit (?m ! 5) 7 = ra_Managed cfg" "bit (?m ! 5) 6 = ra_Other cfg"
    by (subst m, simp add: bit_simps)+
  moreover have "be_nat (go_slice ?m 6 8) = unat rl"
    by (subst m) (simp add: go_slice_def)
  ultimately show ?thesis
    using raBody_options [OF assms(1,2), of ps rl] by (simp add: ra_decode_def)
qed

lemma transmitRA_no_panic: "transmitRA ord e cfg dstMAC dstIP prefixes rl \<noteq> None"
  by (simp add: transmitRA_def Let_def CraftICMP6_def raBody_def raHeader_layout)

lemma send_state: "send ord e s cfg dm di = (s', out) \<Longrightarrow>
    \<exists>prefixes. currentPrefixes ord e s = (prefixes, s') \<and>
      out = transmitRA ord e cfg dm di prefixes (word_of_int (go_div (ra_RouterLifetime cfg) Second))"
  by (auto simp: send_def Let_def split: prod.splits)

lemma send_ok:
  assumes "send ord e s cfg dm di = (s', out)" and "rs_ok s" and "ra_orders_ok ord"
  shows "rs_ok s' \<and> out \<noteq> None"
  using send_state [OF assms(1)] currentPrefixes_ok [OF assms(2,3)] transmitRA_no_panic by blast

lemma handleFrameRA_ok:
  assumes "handleFrameRA ord e s pkt = (b, s', out)" and "rs_ok s" and "ra_orders_ok ord"
  shows "rs_ok s' \<and> out \<noteq> None"
  using assms(1) send_ok [OF _ assms(2,3)] assms(2)
  by (auto simp: handleFrameRA_def Let_def split: if_splits)

section \<open>Properties\<close>

text \<open>C19: a prefix that was advertised and then disappears from the interface is advertised with
  zero lifetimes in exactly the next three advertisements, and in none of the later ones for as
  long as it stays away, whatever else is served meanwhile and in whatever order the maps are
  iterated.\<close>

theorem ra_deprecation_schedule:
  assumes "rs_ok s" and "p \<in> set (rs_last s)"
    and "\<forall>(ord, e) \<in> set xs. ra_orders_ok ord \<and> \<not> live64 e p" and "i < length xs"
  shows "map_of (rounds xs s ! i) p = (if i < 3 then Some False else None)"
proof -
  have "map_of (rs_deprecate s) p = None"
    using assms(1,2) by (cases "map_of (rs_deprecate s) p") (auto simp: rs_ok_def)
  then have "pending s p = Some 3" using assms(2) by (simp add: pending_def)
  with rounds_pending [OF assms(1,3,4)] show ?thesis by simp
qed

text \<open>Whatever happens to the advertisement server (its loop, kicks, solicitations), it keeps
  its invariant: a prefix pending deprecation was not alive in the last advertisement and has
  one or two repetitions left; and building an advertisement never panics.\<close>

theorem raStep_invariant:
  assumes "raStep e (ph, s) out (ph', s')" and "rs_ok s"
  shows "rs_ok s' \<and> out \<noteq> None"
  using assms(1)
proof cases
  case (top ord)
  then show ?thesis using send_ok assms(2) by blast
next
  case (solicit ord pkt b)
  then show ?thesis using handleFrameRA_ok assms(2) by blast
qed (use assms(2) transmitRA_no_panic in \<open>auto simp: rs_ok_def Kick_def sendFinal_def\<close>)

text \<open>C22: an advertisement reaches the wire as one ICMPv6 frame with hop limit 255 from the
  link-local address, and a standard decoder reads from it: the M and O flags and the router
  lifetime of the configuration, the server's MAC, the configured resolvers, and exactly one
  prefix option per live /64 with the configured lifetimes and per prefix pending deprecation
  with zero lifetimes.\<close>

theorem send_advertises:
  assumes "rs_ok s" and "ra_orders_ok ord" and "currentPrefixes ord e s = (out, s')"
    and "length (env_mac e) = 6" and "length dstMAC = 6" and "length dstIP = 16"
    and "Is6 (env_linkLocal e)" and "length (ra_DNS cfg) \<le> 127" and "length out \<le> 1900"
  shows "\<exists>frame p prefixes. send ord e s cfg dstMAC dstIP = (s', Some [frame]) \<and>
    take 6 frame = dstMAC \<and> frame ! 21 = 255 \<and> Parse frame = Some p \<and> in_IsICMP6 p \<and>
    in_SrcIP p = AsSlice (env_linkLocal e) \<and> in_DstIP p = dstIP \<and>
    ra_decode (in_Payload p) =
      Some (ra_Managed cfg, ra_Other cfg, unat (word_of_int (go_div (ra_RouterLifetime cfg) Second) :: u16),
        SourceLLA (env_mac e) # map (prefix_view cfg) prefixes @ dns_view cfg) \<and>
    gomap_ok prefixes \<and>
    map_of prefixes = (\<lambda>k. if live64 e k then Some True else map_option (\<lambda>_. False) (pending s k))"
proof -
  let ?rl = "word_of_int (go_div (ra_RouterLifetime cfg) Second) :: u16"
  let ?ps = "ro_out ord out"
  let ?b = "raBody cfg (env_mac e) ?ps ?rl"
  have ord: "go_order (ro_out ord)" using assms(2) by (simp add: ra_orders_ok_def)
  have cur: "gomap_ok out" "map_of out k = (if live64 e k then Some True else map_option (\<lambda>_. False) (pending s k))" for k
    using currentPrefixes_cases [OF assms(3) _ assms(2)] assms(1) by (simp_all add: rs_ok_def)
  have ll: "To16 (AsSlice (env_linkLocal e)) = AsSlice (env_linkLocal e)"
      "length (AsSlice (env_linkLocal e)) = 16" "IsValid (env_linkLocal e)"
    using assms(7) by (cases "env_linkLocal e"; simp add: To16_def)+
  have dst: "To16 dstIP = dstIP" using assms(6) by (simp add: To16_def)
  have len: "4 \<le> length ?b" "length ?b \<le> 65535"
    using length_raBody [OF assms(4), of cfg ?ps ?rl] assms(8,9) go_order_length [OF ord, of out] by simp_all
  obtain frame c where f: "CraftICMP6 (env_mac e) dstMAC (AsSlice (env_linkLocal e)) dstIP ?b 255 = Some frame"
      "take 6 frame = dstMAC" "frame ! 21 = 255" "length c = 2"
      "Parse frame = Some (emptyIngress\<lparr>in_SrcMAC := env_mac e, in_IsICMP6 := True,
        in_SrcIP := To16 (AsSlice (env_linkLocal e)), in_DstIP := To16 dstIP, in_ICMPTyp := ?b ! 0,
        in_Payload := take 2 ?b @ c @ drop 4 ?b\<rparr>)"
    using Parse_ICMP6_frame [OF assms(4,5) _ _ len, of "AsSlice (env_linkLocal e)" dstIP 255] ll dst assms(6)
    by auto
  have out: "send ord e s cfg dstMAC dstIP = (s', Some [frame])"
    using f(1) ll(3) assms(3) by (simp add: send_def transmitRA_def)
  have "gomap_ok ?ps" using cur(1) ord by (metis go_order_def mset_map mset_eq_imp_distinct_iff)
  moreover have "map_of ?ps = (\<lambda>k. if live64 e k then Some True else map_option (\<lambda>_. False) (pending s k))"
    using map_of_go_order [OF ord cur(1)] cur(2) by auto
  ultimately show ?thesis
    using out f(2,3,5) ll(1) dst raBody_decode [OF assms(4,8) f(4), of ?ps ?rl]
    by (intro exI [of _ frame]) (simp, blast)
qed

section \<open>A concrete server\<close>

definition racfg_example :: RAConfig where
  "racfg_example = normalizeRA \<lparr>ra_Enabled = True, ra_Autonomous = True, ra_Managed = False,
     ra_Other = True, ra_Interval = 0, ra_RouterLifetime = 0, ra_ValidLifetime = 0,
     ra_PreferredLife = 0, ra_DNS = []\<rparr>"

definition pfx64_example :: prefix where
  "pfx64_example = Prefix (Addr6 0x20010DB8000000000000000000000000 []) 64"

text \<open>The prefix was advertised; now the interface has none.\<close>

definition rs_example :: raServer where
  "rs_example = \<lparr>rs_cfg = racfg_example, rs_last = [pfx64_example], rs_deprecate = [], rs_kick = False\<rparr>"

definition env_bare :: env where
  "env_bare = \<lparr>env_mac = [2, 0, 0, 0, 0, 1], env_v4 = None, env_v6 = None, env_v6all = [],
     env_linkLocal = Addr6 0xFE800000000000000000000000000001 []\<rparr>"

definition solicit_example :: ingress where
  "solicit_example = emptyIngress\<lparr>in_SrcMAC := mac_example, in_IsICMP6 := True, in_SrcIP := ll_example,
     in_ICMPTyp := ICMPv6TypeRouterSolicit\<rparr>"

lemma rs_example_ok [simp]: "rs_ok rs_example"
  by (simp add: rs_ok_def rs_example_def)

lemma env_bare_live [simp]: "\<not> live64 env_bare p"
  by (simp add: live64_def env_bare_def)

lemma racfg_example_simps [simp]: "ra_Enabled racfg_example" "ra_DNS racfg_example = []"
  by (simp_all add: racfg_example_def normalizeRA_def)

theorem ra_deprecation_schedule_witness:
  "map (\<lambda>m. map_of m pfx64_example)
     (rounds (replicate 4 (ra_orders_id, env_bare)) rs_example) = [Some False, Some False, Some False, None]"
proof -
  let ?xs = "replicate 4 (ra_orders_id, env_bare)"
  have s: "map_of (rounds ?xs rs_example ! i) pfx64_example = (if i < 3 then Some False else None)"
    if "i < 4" for i
    using ra_deprecation_schedule [of rs_example pfx64_example ?xs i] that by (simp add: rs_example_def [symmetric])
      (simp add: rs_example_def)
  have "length (rounds xs s) = length xs" for xs s
    by (induction xs s rule: rounds.induct) (simp_all add: Let_def split: prod.splits)
  then have "length (rounds ?xs rs_example) = 4" by simp
  then obtain a b c d where r: "rounds ?xs rs_example = [a, b, c, d]" by (auto simp: length_4_conv)
  show ?thesis using s [of 0] s [of 1] s [of 2] s [of 3] by (simp add: r)
qed

theorem raStep_invariant_witness:
  "raStep env_bare (RAWait, newRAServer racfg_example) (Some [])
     (RAWait, Kick (newRAServer racfg_example)) \<and> rs_ok (Kick (newRAServer racfg_example))"
  using raStep_invariant [OF raStep.kick rs_ok_new] raStep.kick by blast

theorem send_advertises_witness:
  "\<exists>frame p opts. snd (send ra_orders_id env_bare rs_example racfg_example allNodesMAC allNodesIP6) =
     Some [frame] \<and> Parse frame = Some p \<and>
     ra_decode (in_Payload p) = Some (False, True, 1800, opts)"
proof -
  obtain out s' where c: "currentPrefixes ra_orders_id env_bare rs_example = (out, s')" by fastforce
  have out: "out = [(pfx64_example, False)]"
    using c by (simp add: currentPrefixes_def env_bare_def rs_example_def ra_orders_id_def)
  have "\<exists>frame p prefixes. send ra_orders_id env_bare rs_example racfg_example allNodesMAC allNodesIP6 =
      (s', Some [frame]) \<and>
    take 6 frame = allNodesMAC \<and> frame ! 21 = 255 \<and> Parse frame = Some p \<and> in_IsICMP6 p \<and>
    in_SrcIP p = AsSlice (env_linkLocal env_bare) \<and> in_DstIP p = allNodesIP6 \<and>
    ra_decode (in_Payload p) =
      Some (ra_Managed racfg_example, ra_Other racfg_example,
        unat (word_of_int (go_div (ra_RouterLifetime racfg_example) Second) :: u16),
        SourceLLA (env_mac env_bare) # map (prefix_view racfg_example) prefixes @ dns_view racfg_example) \<and>
    gomap_ok prefixes \<and>
    map_of prefixes = (\<lambda>k. if live64 env_bare k then Some True
      else map_option (\<lambda>_. False) (pending rs_example k))"
    by (rule send_advertises [OF rs_example_ok ra_orders_id_ok c])
      (simp_all add: out env_bare_def allNodesMAC_def allNodesIP6_def)
  moreover have "ra_Managed racfg_example = False" "ra_Other racfg_example"
      "unat (word_of_int (go_div (ra_RouterLifetime racfg_example) Second) :: u16) = 1800"
    by (simp_all add: racfg_example_def normalizeRA_def go_div_def)
  ultimately show ?thesis by auto
qed

text \<open>Solicited advertisements go to one host only, but they use up the repetitions: after three
  solicitations of a single host the advertisement to all nodes no longer withdraws the prefix.\<close>

theorem solicitations_use_up_deprecation:
  "case handleFrameRA ra_orders_id env_bare rs_example solicit_example of (_, s1, _) \<Rightarrow>
   case handleFrameRA ra_orders_id env_bare s1 solicit_example of (_, s2, _) \<Rightarrow>
   case handleFrameRA ra_orders_id env_bare s2 solicit_example of (_, s3, _) \<Rightarrow>
     fst (currentPrefixes ra_orders_id env_bare rs_example) = [(pfx64_example, False)] \<and>
     fst (currentPrefixes ra_orders_id env_bare s3) = []"
  by (simp add: handleFrameRA_def send_def Let_def currentPrefixes_def rs_example_def env_bare_def
      solicit_example_def ra_orders_id_def IP_IsUnspecified_def ll_example_def v4InV6_def)

end
