(* ===== verification/PdClient.thy ===== *)
theory PdClient
  imports Netip
begin

text \<open>
  \<^verbatim>\<open>internal/pd/client.go\<close>: the DHCPv6 prefix-delegation client. The client talks to the clock,
  the socket, the kernel and the goroutines that stop, wake or release it. Each such
  interaction reads one entry of a script \<open>w :: nat \<Rightarrow> pd_world\<close>: the entry with the client's
  current tick answers whatever is asked at that tick. Theorems quantify over all scripts.

  The loops \<^verbatim>\<open>run\<close>, \<^verbatim>\<open>sessionLoop\<close> and \<^verbatim>\<open>boundLoop\<close> run as long as the program does: \<open>pdNext\<close> executes one
  iteration of the innermost active one, a session iteration in two parts where it drops a prefix
  before it solicits. \<open>exchange\<close> waits for answers in a loop that ends when
  its deadline passes: it is a partial function, \<open>None\<close> meaning that it never returns.
\<close>

section \<open>Configuration, messages and state\<close>

record pd_Config =
  pd_Uplink :: string
  pd_DUID :: bytes
  pd_IAID :: u32
  pd_InitialTimeout :: duration
  pd_MaxTimeout :: duration
  pd_Attempts :: int

definition normalizePD :: "pd_Config \<Rightarrow> pd_Config" where
  "normalizePD c =
     (let c = (if pd_InitialTimeout c \<le> 0 then c\<lparr>pd_InitialTimeout := Second\<rparr> else c);
          c = (if pd_MaxTimeout c \<le> 0 then c\<lparr>pd_MaxTimeout := 32 * Second\<rparr> else c)
      in if pd_Attempts c \<le> 0 then c\<lparr>pd_Attempts := 6\<rparr> else c)"

record Binding =
  bd_Prefix :: prefix
  bd_BoundAt :: time
  bd_ExpiresAt :: time

text \<open>What \<open>applyReply\<close> reads of a message: the first IA_PD with its status code and its prefixes, a
  prefix being \<^verbatim>\<open>nil\<close> or an address with a mask. \<open>'d\<close> is the type of DUIDs.\<close>

record ia_prefix =
  iap_ValidLifetime :: duration
  iap_Prefix :: "(bytes \<times> bytes) option"

record ia_pd =
  iapd_Status :: "u16 option"
  iapd_Prefixes :: "ia_prefix list"

record 'd pd_reply =
  rp_MessageType :: u8
  rp_TransactionID :: bytes
  rp_ServerID :: "'d option"
  rp_OneIAPD :: "ia_pd option"

datatype 'd pd_pkt = PDMessage "'d pd_reply" | PDRelay

record 'd pd_msg =
  sm_MessageType :: u8
  sm_TransactionID :: bytes
  sm_ClientID :: 'd
  sm_ServerID :: "'d option"
  sm_ElapsedTime :: duration
  sm_IaId :: bytes
  sm_IAPrefix :: "(bytes \<times> bytes) option"

text \<open>The codec (\<^verbatim>\<open>insomniacslk/dhcp/dhcpv6\<close>).\<close>

record 'd pd_lib =
  pl_FromBytes :: "bytes \<Rightarrow> 'd pd_pkt option"
  pl_DUIDFromBytes :: "bytes \<Rightarrow> 'd option"
  pl_ToBytes :: "'d pd_msg \<Rightarrow> bytes"

abbreviation PD_Solicit :: u8 where "PD_Solicit \<equiv> 1"
abbreviation PD_Advertise :: u8 where "PD_Advertise \<equiv> 2"
abbreviation PD_Request :: u8 where "PD_Request \<equiv> 3"
abbreviation PD_Renew :: u8 where "PD_Renew \<equiv> 5"
abbreviation PD_Rebind :: u8 where "PD_Rebind \<equiv> 6"
abbreviation PD_Reply :: u8 where "PD_Reply \<equiv> 7"
abbreviation PD_Release :: u8 where "PD_Release \<equiv> 8"

text \<open>One entry of the script: the clock; whether \<^verbatim>\<open>done\<close> is closed; the result of a read (\<open>None\<close>: an
  error, such as the read deadline) and of a write; whether a sleep ends with a wakeup or the
  timer rather than with the stop; whether \<open>Release\<close> was called since the last look; the bytes
  of \<^verbatim>\<open>rand.Read\<close>; the addresses of the uplink (an entry that is no \<^verbatim>\<open>IPNet\<close> is \<open>None\<close>) and whether
  listening on one succeeds; the link seen over netlink (up flag, addresses with their
  tentative flag).\<close>

record pd_world =
  pe_now :: time
  pe_stopped :: bool
  pe_recv :: "bytes option"
  pe_wrote :: bool
  pe_awake :: bool
  pe_release :: bool
  pe_txn :: "bytes option"
  pe_addrs :: "bytes option list option"
  pe_listen :: bool
  pe_link :: "(bool \<times> (bytes \<times> bool) list option) option"

text \<open>The client, with the callbacks it made and the datagrams it sent, oldest first, and the
  tick of its next interaction.\<close>

record 'd Client =
  cl_cfg :: pd_Config
  cl_state :: string
  cl_binding :: "Binding option"
  cl_serverDUID :: "'d option"
  cl_startedAt :: time
  cl_releaseReq :: bool
  cl_calls :: "(prefix \<times> bool) list"
  cl_sent :: "bytes list"
  cl_k :: nat

definition New :: "pd_Config \<Rightarrow> 'd Client" where
  "New cfg = \<lparr>cl_cfg = normalizePD cfg, cl_state = ''stopped'', cl_binding = None,
     cl_serverDUID = None, cl_startedAt = 0, cl_releaseReq = False, cl_calls = [],
     cl_sent = [], cl_k = 0\<rparr>"

definition Restore :: "time \<Rightarrow> 'd Client \<Rightarrow> Binding \<Rightarrow> 'd Client" where
  "Restore now c b =
     (if \<not> PfxIsValid (bd_Prefix b) \<or> bd_ExpiresAt b < now then c else c\<lparr>cl_binding := Some b\<rparr>)"

section \<open>Interactions\<close>

definition ask :: "(pd_world \<Rightarrow> 'a) \<Rightarrow> (nat \<Rightarrow> pd_world) \<Rightarrow> 'd Client \<Rightarrow> 'a \<times> 'd Client" where
  "ask q w c = (q (w (cl_k c)), c\<lparr>cl_k := Suc (cl_k c)\<rparr>)"

definition setState :: "string \<Rightarrow> 'd Client \<Rightarrow> 'd Client" where
  "setState s c = c\<lparr>cl_state := s\<rparr>"

definition markStart :: "(nat \<Rightarrow> pd_world) \<Rightarrow> 'd Client \<Rightarrow> 'd Client" where
  "markStart w c = (let (now, c) = ask pe_now w c in c\<lparr>cl_startedAt := now\<rparr>)"

definition callback :: "prefix \<Rightarrow> bool \<Rightarrow> 'd Client \<Rightarrow> 'd Client" where
  "callback p ok c = c\<lparr>cl_calls := cl_calls c @ [(p, ok)]\<rparr>"

text \<open>A \<open>Release\<close> that arrived since the last look counts as a pending request.\<close>

definition takeReleaseReq :: "(nat \<Rightarrow> pd_world) \<Rightarrow> 'd Client \<Rightarrow> bool \<times> 'd Client" where
  "takeReleaseReq w c =
     (let (arrived, c) = ask pe_release w c
      in (cl_releaseReq c \<or> arrived, c\<lparr>cl_releaseReq := False\<rparr>))"

definition dropPrefix :: "'d Client \<Rightarrow> 'd Client" where
  "dropPrefix c =
     (let b = cl_binding c; c = c\<lparr>cl_binding := None, cl_serverDUID := None\<rparr>
      in case b of None \<Rightarrow> c | Some b \<Rightarrow> callback (bd_Prefix b) False c)"

text \<open>\<^verbatim>\<open>net.IP.IsLinkLocalUnicast\<close>.\<close>

definition IP_IsLinkLocalUnicast :: "bytes \<Rightarrow> bool" where
  "IP_IsLinkLocalUnicast ip =
     (if To4 ip \<noteq> [] then To4 ip ! 0 = 169 \<and> To4 ip ! 1 = 254
      else length ip = 16 \<and> ip ! 0 = 0xfe \<and> ip ! 1 AND 0xc0 = 0x80)"

fun firstLinkLocal :: "bytes option list \<Rightarrow> bytes option" where
  "firstLinkLocal [] = None"
| "firstLinkLocal (None # as) = firstLinkLocal as"
| "firstLinkLocal (Some ip # as) =
     (if To4 ip = [] \<and> IP_IsLinkLocalUnicast ip then Some ip else firstLinkLocal as)"

text \<open>Whether a socket could be opened.\<close>

definition openSocket :: "(nat \<Rightarrow> pd_world) \<Rightarrow> 'd Client \<Rightarrow> bool \<times> 'd Client" where
  "openSocket w c =
     (let (addrs, c) = ask pe_addrs w c
      in case addrs of
           None \<Rightarrow> (False, c)
         | Some as \<Rightarrow>
             (case firstLinkLocal as of
                None \<Rightarrow> (False, c)
              | Some ll \<Rightarrow> ask pe_listen w c))"

definition uplinkReady :: "(nat \<Rightarrow> pd_world) \<Rightarrow> 'd Client \<Rightarrow> bool \<times> 'd Client" where
  "uplinkReady w c =
     (let (link, c) = ask pe_link w c
      in (case link of
            None \<Rightarrow> False
          | Some (up, None) \<Rightarrow> False
          | Some (up, Some addrs) \<Rightarrow>
              up \<and> (\<exists>(ip, tentative) \<in> set addrs. IP_IsLinkLocalUnicast ip \<and> \<not> tentative), c))"

section \<open>Messages\<close>

definition iaidBytes :: "u32 \<Rightarrow> bytes" where
  "iaidBytes v =
     [ucast (drop_bit 24 v), ucast (drop_bit 16 v), ucast (drop_bit 8 v), ucast v]"

definition buildMessage ::
  "'d pd_lib \<Rightarrow> (nat \<Rightarrow> pd_world) \<Rightarrow> 'd Client \<Rightarrow> u8 \<Rightarrow> bytes \<Rightarrow> 'd option \<Rightarrow>
     'd pd_msg option \<times> 'd Client" where
  "buildMessage lib w c typ txn serverID =
     (case pl_DUIDFromBytes lib (pd_DUID (cl_cfg c)) of
        None \<Rightarrow> (None, c)
      | Some duid \<Rightarrow>
          (let (now, c) = ask pe_now w c
           in (Some \<lparr>sm_MessageType = typ, sm_TransactionID = txn, sm_ClientID = duid,
                     sm_ServerID = serverID, sm_ElapsedTime = now - cl_startedAt c,
                     sm_IaId = iaidBytes (pd_IAID (cl_cfg c)),
                     sm_IAPrefix = map_option (\<lambda>b. (AsSlice (pfx_addr (Masked (bd_Prefix b))),
                                                    CIDRMask (pfx_bits (bd_Prefix b)) 128))
                                     (cl_binding c)\<rparr>, c)))"

text \<open>The receive loop of one attempt: until the deadline, the first datagram that parses as a
  message of the expected type and transaction.\<close>

partial_function (option) recvLoop ::
  "'d pd_lib \<Rightarrow> (nat \<Rightarrow> pd_world) \<Rightarrow> u8 \<Rightarrow> bytes \<Rightarrow> time \<Rightarrow> 'd Client \<Rightarrow>
     ('d pd_reply option \<times> 'd Client) option" where
  "recvLoop lib w expect txn deadline c =
     (let (now, c) = ask pe_now w c
      in if now < deadline
         then (let (r, c) = ask pe_recv w c
               in case r of
                    None \<Rightarrow> Some (None, c)
                  | Some buf \<Rightarrow>
                      (case pl_FromBytes lib buf of
                         Some (PDMessage resp) \<Rightarrow>
                           if rp_MessageType resp \<noteq> expect \<or> rp_TransactionID resp \<noteq> txn
                           then recvLoop lib w expect txn deadline c
                           else Some (Some resp, c)
                       | _ \<Rightarrow> recvLoop lib w expect txn deadline c))
         else Some (None, c))"

text \<open>The attempts, with the timeout doubled up to the maximum.\<close>

fun attempts ::
  "'d pd_lib \<Rightarrow> (nat \<Rightarrow> pd_world) \<Rightarrow> u8 \<Rightarrow> bytes \<Rightarrow> 'd option \<Rightarrow> u8 \<Rightarrow> nat \<Rightarrow> duration \<Rightarrow>
     'd Client \<Rightarrow> ('d pd_reply option \<times> 'd Client) option" where
  "attempts lib w typ txn serverID expect 0 timeout c = Some (None, c)"
| "attempts lib w typ txn serverID expect (Suc n) timeout c =
     (let (stop, c) = ask pe_stopped w c
      in if stop then Some (None, c)
         else
           (let (msg, c) = buildMessage lib w c typ txn serverID
            in case msg of
                 None \<Rightarrow> Some (None, c)
               | Some msg \<Rightarrow>
                   (let (wrote, c) = ask pe_wrote w c
                    in if \<not> wrote then Some (None, c)
                       else
                         (let c = c\<lparr>cl_sent := cl_sent c @ [pl_ToBytes lib msg]\<rparr>;
                              (now, c) = ask pe_now w c
                          in case recvLoop lib w expect txn (now + timeout) c of
                               None \<Rightarrow> None
                             | Some (Some resp, c) \<Rightarrow> Some (Some resp, c)
                             | Some (None, c) \<Rightarrow>
                                 attempts lib w typ txn serverID expect n
                                   (min (wrap64 (timeout * 2)) (pd_MaxTimeout (cl_cfg c))) c))))"

definition exchange ::
  "'d pd_lib \<Rightarrow> (nat \<Rightarrow> pd_world) \<Rightarrow> 'd Client \<Rightarrow> u8 \<Rightarrow> 'd option \<Rightarrow> u8 \<Rightarrow>
     ('d pd_reply option \<times> 'd Client) option" where
  "exchange lib w c typ serverID expect =
     (let (txn, c) = ask pe_txn w c
      in case txn of
           None \<Rightarrow> Some (None, c)
         | Some txn \<Rightarrow>
             attempts lib w typ txn serverID expect (nat (pd_Attempts (cl_cfg c)))
               (pd_InitialTimeout (cl_cfg c)) c)"

section \<open>Applying a reply\<close>

definition prefixLen :: "ia_prefix \<Rightarrow> nat" where
  "prefixLen p = (case iap_Prefix p of None \<Rightarrow> 129 | Some (ip, msk) \<Rightarrow> maskOnes msk)"

fun bestPrefix :: "ia_prefix list \<Rightarrow> ia_prefix option \<Rightarrow> ia_prefix option" where
  "bestPrefix [] best = best"
| "bestPrefix (p # ps) best =
     bestPrefix ps
       (if iap_ValidLifetime p \<le> 0 \<or> iap_Prefix p = None then best
        else case best of
               None \<Rightarrow> Some p
             | Some b \<Rightarrow> if prefixLen p < prefixLen b then Some p else best)"

definition applyReply ::
  "(nat \<Rightarrow> pd_world) \<Rightarrow> 'd Client \<Rightarrow> 'd pd_reply \<Rightarrow> bool \<times> 'd Client" where
  "applyReply w c reply =
     (case rp_OneIAPD reply of
        None \<Rightarrow> (False, c)
      | Some iapd \<Rightarrow>
          if (case iapd_Status iapd of None \<Rightarrow> False | Some st \<Rightarrow> st \<noteq> 0) then (False, c)
          else
            (case bestPrefix (iapd_Prefixes iapd) None of
               None \<Rightarrow> (False, c)
             | Some best \<Rightarrow>
                 (case iap_Prefix best of
                    None \<Rightarrow> (False, c)
                  | Some (ip, msk) \<Rightarrow>
                      (let addr = AddrFromSlice (To16 ip)
                       in if \<not> IsValid addr then (False, c)
                          else
                            (let prefix = Masked (PrefixFrom addr (int (maskOnes msk)));
                                 (now, c) = ask pe_now w c;
                                 old = cl_binding c;
                                 c = c\<lparr>cl_binding := Some \<lparr>bd_Prefix = prefix, bd_BoundAt = now,
                                                     bd_ExpiresAt = now + iap_ValidLifetime best\<rparr>,
                                       cl_serverDUID := rp_ServerID reply\<rparr>
                             in case old of
                                  None \<Rightarrow> (True, callback prefix True c)
                                | Some b \<Rightarrow>
                                    if bd_Prefix b \<noteq> prefix
                                    then (True, callback prefix True (callback (bd_Prefix b) False c))
                                    else (True, c))))))"

section \<open>The state machine\<close>

text \<open>\<^verbatim>\<open>reply := c.exchange(...); reply != nil && c.applyReply(reply)\<close>.\<close>

definition confirm ::
  "'d pd_lib \<Rightarrow> (nat \<Rightarrow> pd_world) \<Rightarrow> 'd Client \<Rightarrow> u8 \<Rightarrow> 'd option \<Rightarrow> (bool \<times> 'd Client) option" where
  "confirm lib w c typ serverID =
     (case exchange lib w c typ serverID PD_Reply of
        None \<Rightarrow> None
      | Some (None, c) \<Rightarrow> Some (False, c)
      | Some (Some reply, c) \<Rightarrow> Some (applyReply w c reply))"

definition maybeRelease ::
  "'d pd_lib \<Rightarrow> (nat \<Rightarrow> pd_world) \<Rightarrow> 'd Client \<Rightarrow> (bool \<times> 'd Client) option" where
  "maybeRelease lib w c =
     (let (req, c) = takeReleaseReq w c
      in if \<not> req then Some (False, c)
         else if cl_binding c = None then Some (False, c)
         else case cl_serverDUID c of
                None \<Rightarrow> Some (True, dropPrefix c)
              | Some server \<Rightarrow>
                  (case exchange lib w (markStart w (setState ''releasing'' c)) PD_Release
                          (Some server) PD_Reply of
                     None \<Rightarrow> None
                   | Some (_, c) \<Rightarrow> Some (True, dropPrefix c)))"

definition confirmExisting ::
  "'d pd_lib \<Rightarrow> (nat \<Rightarrow> pd_world) \<Rightarrow> 'd Client \<Rightarrow> (bool \<times> 'd Client) option" where
  "confirmExisting lib w c =
     (let rebind = (\<lambda>c. confirm lib w (markStart w (setState ''rebinding'' c)) PD_Rebind None)
      in case cl_serverDUID c of
           None \<Rightarrow> rebind c
         | Some server \<Rightarrow>
             (case confirm lib w (markStart w (setState ''renewing'' c)) PD_Renew (Some server) of
                None \<Rightarrow> None
              | Some (True, c) \<Rightarrow> Some (True, c)
              | Some (False, c) \<Rightarrow> rebind c))"

definition acquireFresh ::
  "'d pd_lib \<Rightarrow> (nat \<Rightarrow> pd_world) \<Rightarrow> 'd Client \<Rightarrow> (bool \<times> 'd Client) option" where
  "acquireFresh lib w c =
     (case exchange lib w (markStart w (setState ''soliciting'' c)) PD_Solicit None PD_Advertise of
        None \<Rightarrow> None
      | Some (None, c) \<Rightarrow> Some (False, c)
      | Some (Some adv, c) \<Rightarrow>
          (case rp_ServerID adv of
             None \<Rightarrow> Some (False, c)
           | Some advServer \<Rightarrow>
               confirm lib w (setState ''requesting'' c) PD_Request (Some advServer)))"

text \<open>Where the goroutine is: at the top of \<^verbatim>\<open>run\<close>, \<^verbatim>\<open>sessionLoop\<close> or \<^verbatim>\<open>boundLoop\<close>, before \<^verbatim>\<open>acquireFresh\<close>
  in the session loop, after a session, or finished. From one place to the next the goroutine
  waits (for the uplink, for replies, asleep) and then acts on what came: it makes callbacks only
  after the last wait of such a stretch. This is why a prefix dropped in the session loop ends a
  stretch, before the solicitation that follows.\<close>

datatype pd_loc = LRun | LSession | LFresh | LBound | LAfter | LDone

definition runBody :: "(nat \<Rightarrow> pd_world) \<Rightarrow> 'd Client \<Rightarrow> pd_loc \<times> 'd Client" where
  "runBody w c =
     (let (stop, c) = ask pe_stopped w c
      in if stop then (LDone, setState ''stopped'' c)
         else
           (let (opened, c) = openSocket w (setState ''resolving'' c)
            in if opened then (LSession, c)
               else
                 (let (awake, c) = ask pe_awake w c
                  in if awake then (LRun, c) else (LDone, setState ''stopped'' c))))"

definition afterSession :: "(nat \<Rightarrow> pd_world) \<Rightarrow> 'd Client \<Rightarrow> pd_loc \<times> 'd Client" where
  "afterSession w c =
     (let (stop, c) = ask pe_stopped w c
      in if stop then (LRun, c)
         else
           (let (awake, c) = ask pe_awake w c
            in if awake then (LRun, c) else (LDone, setState ''stopped'' c)))"

text \<open>The end of a session iteration: solicit, and hold what was delegated. Both ways out of a
  failed attempt leave the session.\<close>

definition sessionFresh ::
  "'d pd_lib \<Rightarrow> (nat \<Rightarrow> pd_world) \<Rightarrow> 'd Client \<Rightarrow> (pd_loc \<times> 'd Client) option" where
  "sessionFresh lib w c =
     (case acquireFresh lib w c of
        None \<Rightarrow> None
      | Some (True, c) \<Rightarrow> Some (LBound, c)
      | Some (False, c) \<Rightarrow> (let (_, c) = ask pe_awake w c in Some (LAfter, c)))"

definition sessionBody ::
  "'d pd_lib \<Rightarrow> (nat \<Rightarrow> pd_world) \<Rightarrow> 'd Client \<Rightarrow> (pd_loc \<times> 'd Client) option" where
  "sessionBody lib w c =
     (let (stop, c) = ask pe_stopped w c
      in if stop then Some (LAfter, c)
         else
           case maybeRelease lib w c of
             None \<Rightarrow> None
           | Some (True, c) \<Rightarrow> Some (LSession, c)
           | Some (False, c) \<Rightarrow>
               (case cl_binding c of
                  None \<Rightarrow> sessionFresh lib w c
                | Some b \<Rightarrow>
                    (let (now, c) = ask pe_now w c
                     in if now < bd_ExpiresAt b
                        then
                          (let (ready, c) = uplinkReady w c
                           in if \<not> ready
                              then (let (awake, c) = ask pe_awake w c
                                    in Some (if awake then LSession else LAfter, c))
                              else case confirmExisting lib w c of
                                     None \<Rightarrow> None
                                   | Some (True, c) \<Rightarrow> Some (LBound, c)
                                   | Some (False, c) \<Rightarrow> Some (LFresh, dropPrefix c))
                        else sessionFresh lib w c)))"

text \<open>\<^verbatim>\<open>boundLoop\<close>: it only ever returns true, so leaving it re-enters the session loop.\<close>

definition boundWait ::
  "'d pd_lib \<Rightarrow> (nat \<Rightarrow> pd_world) \<Rightarrow> time \<Rightarrow> 'd Client \<Rightarrow> (pd_loc \<times> 'd Client) option" where
  "boundWait lib w t1At c =
     (let (awake, c) = ask pe_awake w c
      in if \<not> awake then Some (LSession, c)
         else
           case maybeRelease lib w c of
             None \<Rightarrow> None
           | Some (True, c) \<Rightarrow> Some (LSession, c)
           | Some (False, c) \<Rightarrow>
               if cl_binding c = None then Some (LBound, c)
               else
                 (let (now, c) = ask pe_now w c
                  in if \<not> now < t1At then Some (LBound, c)
                     else
                       (let (ready, c) = uplinkReady w c
                        in if \<not> ready then Some (LBound, c)
                           else case confirmExisting lib w c of
                                  None \<Rightarrow> None
                                | Some (True, c) \<Rightarrow> Some (LBound, c)
                                | Some (False, c) \<Rightarrow> Some (LSession, dropPrefix c))))"

definition boundBody ::
  "'d pd_lib \<Rightarrow> (nat \<Rightarrow> pd_world) \<Rightarrow> 'd Client \<Rightarrow> (pd_loc \<times> 'd Client) option" where
  "boundBody lib w c =
     (let (stop, c) = ask pe_stopped w c
      in if stop then Some (LSession, c)
         else
           case maybeRelease lib w c of
             None \<Rightarrow> None
           | Some (True, c) \<Rightarrow> Some (LSession, c)
           | Some (False, c) \<Rightarrow>
               (case cl_binding c of
                  None \<Rightarrow> Some (LSession, c)
                | Some b \<Rightarrow>
                    (let (now, c) = ask pe_now w (setState ''bound'' c);
                         window = bd_ExpiresAt b - bd_BoundAt b;
                         t1At = bd_BoundAt b + go_div window 2;
                         t2At = bd_BoundAt b + go_div (wrap64 (window * 4)) 5
                     in if now < t1At then boundWait lib w t1At c
                        else if bd_ExpiresAt b < now then Some (LSession, dropPrefix c)
                        else
                          (let rebind = (t2At < now \<or> cl_serverDUID c = None);
                               typ = (if rebind then PD_Rebind else PD_Renew);
                               dst = (if rebind then None else cl_serverDUID c);
                               c = setState (if rebind then ''rebinding'' else ''renewing'') c
                           in case confirm lib w (markStart w c) typ dst of
                                None \<Rightarrow> None
                              | Some (True, c) \<Rightarrow> Some (LBound, c)
                              | Some (False, c) \<Rightarrow>
                                  (let (now, c) = ask pe_now w c
                                   in if bd_ExpiresAt b < now then Some (LSession, dropPrefix c)
                                      else Some (LBound, c))))))"

definition pdNext ::
  "'d pd_lib \<Rightarrow> (nat \<Rightarrow> pd_world) \<Rightarrow> pd_loc \<times> 'd Client \<Rightarrow> (pd_loc \<times> 'd Client) option" where
  "pdNext lib w = (\<lambda>(loc, c).
     case loc of
       LRun \<Rightarrow> Some (runBody w c)
     | LSession \<Rightarrow> sessionBody lib w c
     | LFresh \<Rightarrow> sessionFresh lib w c
     | LBound \<Rightarrow> boundBody lib w c
     | LAfter \<Rightarrow> Some (afterSession w c)
     | LDone \<Rightarrow> Some (LDone, c))"

section \<open>What the exchanges leave alone\<close>

text \<open>Everything but applying a reply and dropping the prefix is quiet: it keeps the delegation,
  makes no callback and changes no configuration.\<close>

definition quiet :: "'d Client \<Rightarrow> 'd Client \<Rightarrow> bool" where
  "quiet c c' \<longleftrightarrow> cl_binding c' = cl_binding c \<and> cl_serverDUID c' = cl_serverDUID c \<and>
     cl_calls c' = cl_calls c \<and> cl_cfg c' = cl_cfg c"

lemma quiet_refl [simp]: "quiet c c"
  by (simp add: quiet_def)

lemma quiet_trans: "quiet a b \<Longrightarrow> quiet b c \<Longrightarrow> quiet a c"
  by (simp add: quiet_def)

lemma ask_quiet: "ask q w c = (r, c') \<Longrightarrow> quiet c c'"
  by (auto simp: ask_def quiet_def)

lemma quiet_simps [simp]:
  "quiet c (snd (ask q w c))" "quiet c (setState s c)" "quiet c (markStart w c)"
  "quiet c (snd (takeReleaseReq w c))" "quiet c (snd (uplinkReady w c))"
  by (simp_all add: quiet_def ask_def setState_def markStart_def takeReleaseReq_def uplinkReady_def)

lemma openSocket_quiet: "openSocket w c = (b, c') \<Longrightarrow> quiet c c'"
  by (auto simp: openSocket_def ask_def quiet_def split: option.splits)

lemma buildMessage_quiet: "buildMessage lib w c typ txn srv = (m, c') \<Longrightarrow> quiet c c'"
  by (auto simp: buildMessage_def ask_def quiet_def split: option.splits)

lemma recvLoop_result:
  assumes "recvLoop lib w expect txn deadline c = Some (r, c')"
  shows "quiet c c' \<and> cl_sent c' = cl_sent c \<and>
    (\<forall>resp. r = Some resp \<longrightarrow> rp_MessageType resp = expect \<and> rp_TransactionID resp = txn)"
proof -
  let ?P = "\<lambda>lib w expect txn deadline c y. quiet c (snd y) \<and> cl_sent (snd y) = cl_sent c \<and>
    (\<forall>resp. fst y = Some resp \<longrightarrow> rp_MessageType resp = expect \<and> rp_TransactionID resp = txn)"
  have "?P lib w expect txn deadline c (r, c')"
  proof (rule recvLoop.raw_induct [where P = ?P, OF _ assms], goal_cases)
    case (1 rec lib w expect txn deadline c y)
    let ?c = "c\<lparr>cl_k := Suc (Suc (cl_k c))\<rparr>"
    have "rec lib w expect txn deadline ?c = Some y \<or>
        y = (None, c\<lparr>cl_k := Suc (cl_k c)\<rparr>) \<or> y = (None, ?c) \<or>
        (\<exists>resp. y = (Some resp, ?c) \<and> rp_MessageType resp = expect \<and> rp_TransactionID resp = txn)"
      using 1(2) by (auto simp: ask_def Let_def split: if_splits option.splits pd_pkt.splits)
    with 1(1) [of lib w expect txn deadline ?c y] show ?case
      by (auto simp: quiet_def)
  qed
  then show ?thesis by simp
qed

lemma attempts_result:
  assumes "attempts lib w typ txn srv expect n timeout c = Some (r, c')"
  shows "quiet c c' \<and> length (cl_sent c') \<le> length (cl_sent c) + n \<and>
    (\<forall>resp. r = Some resp \<longrightarrow> rp_MessageType resp = expect \<and> rp_TransactionID resp = txn)"
  using assms
proof (induction n arbitrary: timeout c)
  case 0
  then show ?case by simp
next
  case (Suc n)
  obtain stop c1 where a1: "ask pe_stopped w c = (stop, c1)" by fastforce
  obtain msg c2 where a2: "buildMessage lib w c1 typ txn srv = (msg, c2)" by fastforce
  obtain wrote c3 where a3: "ask pe_wrote w c2 = (wrote, c3)" by fastforce
  define c4 where "c4 = c3\<lparr>cl_sent := cl_sent c3 @ [pl_ToBytes lib (the msg)]\<rparr>"
  obtain now c5 where a5: "ask pe_now w c4 = (now, c5)" by fastforce
  have s: "cl_sent c1 = cl_sent c" "cl_sent c2 = cl_sent c1" "cl_sent c3 = cl_sent c2" "cl_sent c5 = cl_sent c4"
    using a1 a2 a3 a5 by (auto simp: ask_def buildMessage_def split: option.splits)
  have q: "quiet c c1" "quiet c c2" "quiet c c3" "quiet c c5"
    using ask_quiet [OF a1] buildMessage_quiet [OF a2] ask_quiet [OF a3] ask_quiet [OF a5]
    by (auto simp: quiet_def c4_def)
  consider (none) "r = None" "c' \<in> {c1, c2, c3}"
    | (some) resp where "r = Some resp" "recvLoop lib w expect txn (now + timeout) c5 = Some (r, c')"
    | (again) c6 where "recvLoop lib w expect txn (now + timeout) c5 = Some (None, c6)"
        "attempts lib w typ txn srv expect n (min (wrap64 (timeout * 2)) (pd_MaxTimeout (cl_cfg c6))) c6 = Some (r, c')"
    using Suc.prems a1 a2 a3 a5 unfolding c4_def
    by (auto split: if_splits option.splits)
  then show ?case
  proof cases
    case none
    then show ?thesis using q s by auto
  next
    case some
    then show ?thesis
      using recvLoop_result [OF some(2)] q(4) s by (auto simp: c4_def intro: quiet_trans)
  next
    case again
    then show ?thesis
      using Suc.IH [OF again(2)] recvLoop_result [OF again(1)] q(4) s
      by (auto simp: c4_def intro: quiet_trans)
  qed
qed

lemma exchange_result:
  assumes "exchange lib w c typ srv expect = Some (r, c')"
  shows "quiet c c' \<and> length (cl_sent c') \<le> length (cl_sent c) + nat (pd_Attempts (cl_cfg c)) \<and>
    (\<forall>resp. r = Some resp \<longrightarrow> rp_MessageType resp = expect)"
proof -
  obtain txn c1 where a: "ask pe_txn w c = (txn, c1)" by fastforce
  have c1: "quiet c c1" "cl_sent c1 = cl_sent c" using ask_quiet [OF a] a by (auto simp: ask_def)
  show ?thesis
  proof (cases txn)
    case None
    with assms a c1 show ?thesis by (simp add: exchange_def)
  next
    case (Some x)
    with assms a have "attempts lib w typ x srv expect (nat (pd_Attempts (cl_cfg c1)))
        (pd_InitialTimeout (cl_cfg c1)) c1 = Some (r, c')" by (simp add: exchange_def)
    from attempts_result [OF this] c1 show ?thesis by (auto simp: quiet_def)
  qed
qed

section \<open>The exchanges end\<close>

text \<open>Time passes: every moment lies in the past of all late enough entries of the script.\<close>

definition clock_advances :: "(nat \<Rightarrow> pd_world) \<Rightarrow> bool" where
  "clock_advances w \<longleftrightarrow> (\<forall>t. \<exists>K. \<forall>k \<ge> K. t \<le> pe_now (w k))"

lemma recvLoop_ends:
  assumes "\<forall>k \<ge> K. deadline \<le> pe_now (w k)"
  shows "\<exists>r c'. recvLoop lib w expect txn deadline c = Some (r, c')"
proof (induction "K - cl_k c" arbitrary: c rule: less_induct)
  case less
  show ?case
  proof (cases "pe_now (w (cl_k c)) < deadline")
    case False
    then show ?thesis by (subst recvLoop.simps) (simp add: ask_def)
  next
    case True
    let ?c = "c\<lparr>cl_k := Suc (Suc (cl_k c))\<rparr>"
    have "cl_k c < K" using True assms by (meson leD leI)
    then have "\<exists>r c'. recvLoop lib w expect txn deadline ?c = Some (r, c')"
      by (intro less) auto
    then show ?thesis
      by (subst recvLoop.simps)
        (auto simp: ask_def Let_def True split: option.splits pd_pkt.splits)
  qed
qed

named_theorems ends_rules

lemma ends_bind [ends_rules]:
  "m \<noteq> None \<Longrightarrow> (\<And>r c. f r c \<noteq> None) \<Longrightarrow> (case m of None \<Rightarrow> None | Some (r, c) \<Rightarrow> f r c) \<noteq> None"
  by (auto split: option.splits)

lemma ends_cases [ends_rules]:
  "a \<noteq> None \<Longrightarrow> b \<noteq> None \<Longrightarrow> (if p then a else b) \<noteq> None"
  "a \<noteq> None \<Longrightarrow> b \<noteq> None \<Longrightarrow> (case p of True \<Rightarrow> a | False \<Rightarrow> b) \<noteq> None"
  "a \<noteq> None \<Longrightarrow> (\<And>x. g x \<noteq> None) \<Longrightarrow> (case opt of None \<Rightarrow> a | Some x \<Rightarrow> g x) \<noteq> None"
  "(\<And>r c. h r c \<noteq> None) \<Longrightarrow> (case z of (r, c) \<Rightarrow> h r c) \<noteq> None"
  by (simp_all split: bool.splits option.splits prod.splits)

lemma ends_Some [ends_rules]: "Some x \<noteq> None"
  by simp

lemma ends_recvLoop: "clock_advances w \<Longrightarrow> recvLoop lib w expect txn deadline c \<noteq> None"
  using recvLoop_ends unfolding clock_advances_def by (metis option.distinct(1))

lemma ends_attempts: "clock_advances w \<Longrightarrow> attempts lib w ty txn srv expect n timeout c \<noteq> None"
  by (induction n arbitrary: timeout c)
    (simp, simp only: attempts.simps Let_def, intro ends_rules ends_recvLoop, simp_all)

lemma ends_exchange: "clock_advances w \<Longrightarrow> exchange lib w c ty srv expect \<noteq> None"
  unfolding exchange_def Let_def by (intro ends_rules ends_attempts)

lemma ends_confirm: "clock_advances w \<Longrightarrow> confirm lib w c ty srv \<noteq> None"
  unfolding confirm_def by (intro ends_rules ends_exchange)

lemma ends_confirmExisting: "clock_advances w \<Longrightarrow> confirmExisting lib w c \<noteq> None"
  unfolding confirmExisting_def Let_def by (intro ends_rules ends_confirm)

lemma ends_maybeRelease: "clock_advances w \<Longrightarrow> maybeRelease lib w c \<noteq> None"
  unfolding maybeRelease_def Let_def by (intro ends_rules ends_exchange)

text \<open>A pending release is carried out: the server is told as far as it answers, and the delegation is dropped.\<close>

lemma maybeRelease_drops:
  assumes "clock_advances w" and "cl_releaseReq c" and "cl_binding c = Some b"
  shows "\<exists>c'. maybeRelease lib w c = Some (True, c') \<and> cl_binding c' = None"
proof -
  define c1 where "c1 = (snd (ask pe_release w c))\<lparr>cl_releaseReq := False\<rparr>"
  have t: "takeReleaseReq w c = (True, c1)" "cl_binding c1 = Some b"
    using assms(2,3) by (simp_all add: takeReleaseReq_def c1_def ask_def)
  have d: "cl_binding (dropPrefix x) = None" for x :: "'a Client"
    by (simp add: dropPrefix_def callback_def Let_def split: option.split)
  show ?thesis
  proof (cases "cl_serverDUID c1")
    case None
    then show ?thesis using t d by (simp add: maybeRelease_def)
  next
    case (Some server)
    then show ?thesis
      using t d ends_exchange [OF assms(1), of lib "markStart w (setState ''releasing'' c1)" PD_Release "Some server" PD_Reply]
      by (auto simp: maybeRelease_def)
  qed
qed

lemma pdNext_releases:
  assumes "clock_advances w" and "cl_releaseReq c" and "cl_binding c = Some b" and "loc \<in> {LSession, LBound}"
    and "\<not> pe_stopped (w (cl_k c))"
  shows "\<exists>c'. pdNext lib w (loc, c) = Some (LSession, c') \<and> cl_binding c' = None"
proof -
  have "ask pe_stopped w c = (False, c\<lparr>cl_k := Suc (cl_k c)\<rparr>)" using assms(5) by (simp add: ask_def)
  moreover obtain c' where "maybeRelease lib w (c\<lparr>cl_k := Suc (cl_k c)\<rparr>) = Some (True, c')" "cl_binding c' = None"
    using maybeRelease_drops [OF assms(1), of "c\<lparr>cl_k := Suc (cl_k c)\<rparr>" b lib] assms(2,3) by auto
  ultimately show ?thesis using assms(4) by (auto simp: pdNext_def sessionBody_def boundBody_def)
qed

lemma ends_sessionFresh: "clock_advances w \<Longrightarrow> sessionFresh lib w c \<noteq> None"
  unfolding sessionFresh_def acquireFresh_def Let_def by (intro ends_rules ends_exchange ends_confirm)

lemma ends_sessionBody: "clock_advances w \<Longrightarrow> sessionBody lib w c \<noteq> None"
  unfolding sessionBody_def Let_def
  by (intro ends_rules ends_maybeRelease ends_confirmExisting ends_sessionFresh)

lemma ends_boundBody: "clock_advances w \<Longrightarrow> boundBody lib w c \<noteq> None"
  unfolding boundBody_def boundWait_def Let_def
  by (intro ends_rules ends_maybeRelease ends_confirmExisting ends_confirm)

section \<open>The callbacks\<close>

text \<open>What the receiver of the callbacks believes: which prefix is delegated. A loss must name the
  prefix that is held, and a gain may come only when none is held; anything else is \<open>None\<close>.\<close>

fun pdView :: "prefix option \<Rightarrow> (prefix \<times> bool) list \<Rightarrow> prefix option option" where
  "pdView v [] = Some v"
| "pdView v ((p, True) # h) = (if v = None then pdView (Some p) h else None)"
| "pdView v ((p, False) # h) = (if v = Some p then pdView None h else None)"

lemma pdView_append:
  "pdView v (h @ h') = (case pdView v h of None \<Rightarrow> None | Some v' \<Rightarrow> pdView v' h')"
  by (induction v h rule: pdView.induct) simp_all

definition consistent :: "prefix option \<Rightarrow> 'd Client \<Rightarrow> bool" where
  "consistent v c \<longleftrightarrow> pdView v (cl_calls c) = Some (map_option bd_Prefix (cl_binding c))"

lemma consistent_quiet: "quiet c c' \<Longrightarrow> consistent v c \<Longrightarrow> consistent v c'"
  by (simp add: quiet_def consistent_def)

lemma consistent_quiet_iff: "quiet c c' \<Longrightarrow> consistent v c' = consistent v c"
  by (simp add: quiet_def consistent_def)

lemma consistent_ask [simp]: "consistent v (snd (ask q w c)) = consistent v c"
  "consistent v (setState s c) = consistent v c" "consistent v (markStart w c) = consistent v c"
  "consistent v (snd (takeReleaseReq w c)) = consistent v c"
  "consistent v (snd (uplinkReady w c)) = consistent v c"
  by (simp_all add: consistent_quiet_iff)

lemma consistent_drop: "consistent v c \<Longrightarrow> consistent v (dropPrefix c)"
  by (auto simp: consistent_def dropPrefix_def callback_def Let_def pdView_append split: option.splits)

lemma consistent_apply: "applyReply w c reply = (ok, c') \<Longrightarrow> consistent v c \<Longrightarrow> consistent v c'"
  by (auto simp: consistent_def applyReply_def callback_def ask_def Let_def pdView_append
      split: option.splits if_splits)

lemma consistent_exchange:
  "exchange lib w c typ srv expect = Some (r, c') \<Longrightarrow> consistent v c \<Longrightarrow> consistent v c'"
  using exchange_result consistent_quiet by blast

text \<open>A small calculus for the bodies of the loops: \<open>keeps v m\<close> says that a computation that
  returns leaves a consistent client.\<close>

definition keeps :: "prefix option \<Rightarrow> ('a \<times> 'd Client) option \<Rightarrow> bool" where
  "keeps v m \<longleftrightarrow> (\<forall>r c. m = Some (r, c) \<longrightarrow> consistent v c)"

named_theorems keeps_rules

lemma keeps_Some [keeps_rules]: "consistent v c \<Longrightarrow> keeps v (Some (r, c))"
  by (simp add: keeps_def)

lemma keeps_bind [keeps_rules]:
  "keeps v m \<Longrightarrow> (\<And>r c. consistent v c \<Longrightarrow> keeps v (f r c)) \<Longrightarrow>
     keeps v (case m of None \<Rightarrow> None | Some (r, c) \<Rightarrow> f r c)"
  by (auto simp: keeps_def split: option.splits)

lemma keeps_ask [keeps_rules]:
  "consistent v c \<Longrightarrow> (\<And>r c. consistent v c \<Longrightarrow> keeps v (f r c)) \<Longrightarrow>
     keeps v (case ask q w c of (r, c) \<Rightarrow> f r c)"
  using consistent_ask(1) [of v q w c] by (simp add: case_prod_beta)

lemma keeps_take [keeps_rules]:
  "consistent v c \<Longrightarrow> (\<And>r c. consistent v c \<Longrightarrow> keeps v (f r c)) \<Longrightarrow>
     keeps v (case takeReleaseReq w c of (r, c) \<Rightarrow> f r c)"
  using consistent_ask(4) [of v w c] by (simp add: case_prod_beta)

lemma keeps_ready [keeps_rules]:
  "consistent v c \<Longrightarrow> (\<And>r c. consistent v c \<Longrightarrow> keeps v (f r c)) \<Longrightarrow>
     keeps v (case uplinkReady w c of (r, c) \<Rightarrow> f r c)"
  using consistent_ask(5) [of v w c] by (simp add: case_prod_beta)

lemma keeps_cases [keeps_rules]:
  "keeps v a \<Longrightarrow> keeps v b \<Longrightarrow> keeps v (if p then a else b)"
  "keeps v a \<Longrightarrow> keeps v b \<Longrightarrow> keeps v (case p of True \<Rightarrow> a | False \<Rightarrow> b)"
  "keeps v a \<Longrightarrow> (\<And>x. keeps v (g x)) \<Longrightarrow> keeps v (case opt of None \<Rightarrow> a | Some x \<Rightarrow> g x)"
  by (simp_all split: bool.splits option.splits)

lemma keeps_apply [keeps_rules]: "consistent v c \<Longrightarrow> keeps v (Some (applyReply w c reply))"
  by (simp add: keeps_def consistent_apply)

lemma keeps_exchange [keeps_rules]: "consistent v c \<Longrightarrow> keeps v (exchange lib w c ty srv expect)"
  by (simp add: keeps_def consistent_exchange)

lemma keeps_confirm [keeps_rules]: "consistent v c \<Longrightarrow> keeps v (confirm lib w c ty srv)"
  unfolding confirm_def by (intro keeps_rules) simp_all

lemma keeps_confirmExisting [keeps_rules]: "consistent v c \<Longrightarrow> keeps v (confirmExisting lib w c)"
  unfolding confirmExisting_def Let_def by (intro keeps_rules) simp_all

lemma keeps_maybeRelease [keeps_rules]: "consistent v c \<Longrightarrow> keeps v (maybeRelease lib w c)"
  unfolding maybeRelease_def Let_def by (intro keeps_rules consistent_drop) simp_all

lemma keeps_acquireFresh [keeps_rules]: "consistent v c \<Longrightarrow> keeps v (acquireFresh lib w c)"
  unfolding acquireFresh_def by (intro keeps_rules) simp_all

lemma keeps_sessionFresh [keeps_rules]: "consistent v c \<Longrightarrow> keeps v (sessionFresh lib w c)"
  unfolding sessionFresh_def Let_def by (intro keeps_rules) simp_all

lemma keeps_sessionBody: "consistent v c \<Longrightarrow> keeps v (sessionBody lib w c)"
  unfolding sessionBody_def Let_def by (intro keeps_rules consistent_drop) simp_all

lemma keeps_boundWait [keeps_rules]: "consistent v c \<Longrightarrow> keeps v (boundWait lib w t1At c)"
  unfolding boundWait_def Let_def by (intro keeps_rules consistent_drop) simp_all

lemma keeps_boundBody: "consistent v c \<Longrightarrow> keeps v (boundBody lib w c)"
  unfolding boundBody_def Let_def by (intro keeps_rules consistent_drop) simp_all
section \<open>Runs\<close>

fun pdRun ::
  "'d pd_lib \<Rightarrow> (nat \<Rightarrow> pd_world) \<Rightarrow> nat \<Rightarrow> pd_loc \<times> 'd Client \<Rightarrow> (pd_loc \<times> 'd Client) option" where
  "pdRun lib w 0 x = Some x"
| "pdRun lib w (Suc n) x = (case pdNext lib w x of None \<Rightarrow> None | Some y \<Rightarrow> pdRun lib w n y)"

lemma runBody_quiet: "runBody w c = (loc, c') \<Longrightarrow> quiet c c'"
  using openSocket_quiet [of w "setState ''resolving'' (c\<lparr>cl_k := Suc (cl_k c)\<rparr>)"]
  by (auto simp: runBody_def ask_def setState_def quiet_def split: prod.splits if_splits)

lemma afterSession_quiet: "afterSession w c = (loc, c') \<Longrightarrow> quiet c c'"
  by (auto simp: afterSession_def ask_def setState_def quiet_def split: if_splits)

lemma pdNext_consistent:
  assumes "pdNext lib w (loc, c) = Some (loc', c')" and "consistent v c"
  shows "consistent v c'"
  using assms keeps_sessionBody [OF assms(2), of lib w] keeps_sessionFresh [OF assms(2), of lib w] keeps_boundBody [OF assms(2), of lib w]
    runBody_quiet [of w c] afterSession_quiet [of w c] consistent_quiet [OF _ assms(2)]
  by (auto simp: pdNext_def keeps_def split: pd_loc.splits)

lemma pdRun_consistent:
  "pdRun lib w n (loc, c) = Some (loc', c') \<Longrightarrow> consistent v c \<Longrightarrow> consistent v c'"
proof (induction n arbitrary: loc c)
  case 0
  then show ?case by simp
next
  case (Suc n)
  then obtain loc1 c1 where "pdNext lib w (loc, c) = Some (loc1, c1)" "pdRun lib w n (loc1, c1) = Some (loc', c')"
    by (auto split: option.splits)
  then show ?case using Suc.IH pdNext_consistent Suc.prems(2) by blast
qed

lemma ends_pdRun:
  assumes "clock_advances w"
  shows "pdRun lib w n x \<noteq> None"
proof -
  have "pdNext lib w x \<noteq> None" for x
    using ends_sessionBody [OF assms] ends_sessionFresh [OF assms] ends_boundBody [OF assms]
    by (auto simp: pdNext_def split: prod.splits pd_loc.splits)
  then show ?thesis
    by (induction n arbitrary: x) (auto split: option.splits)
qed

section \<open>The delegated prefix of a reply\<close>

definition usable :: "ia_prefix \<Rightarrow> bool" where
  "usable p \<longleftrightarrow> 0 < iap_ValidLifetime p \<and> iap_Prefix p \<noteq> None"

text \<open>The first of the shortest usable prefixes.\<close>

definition shortest :: "ia_prefix list \<Rightarrow> ia_prefix \<Rightarrow> bool" where
  "shortest ps best \<longleftrightarrow> usable best \<and>
     (\<exists>before after. ps = before @ best # after \<and>
        (\<forall>p \<in> set before. usable p \<longrightarrow> prefixLen best < prefixLen p) \<and>
        (\<forall>p \<in> set after. usable p \<longrightarrow> prefixLen best \<le> prefixLen p))"

lemma bestPrefix_append: "bestPrefix (ps @ qs) best = bestPrefix qs (bestPrefix ps best)"
  by (induction ps arbitrary: best) simp_all

lemma bestPrefix_snoc:
  "bestPrefix (ps @ [p]) None =
     (if usable p
      then (case bestPrefix ps None of None \<Rightarrow> Some p | Some b \<Rightarrow> if prefixLen p < prefixLen b then Some p else Some b)
      else bestPrefix ps None)"
  by (auto simp: bestPrefix_append usable_def split: option.split)

lemma shortest_snoc:
  "shortest ps b \<Longrightarrow> usable p \<longrightarrow> prefixLen b \<le> prefixLen p \<Longrightarrow> shortest (ps @ [p]) b"
  "usable p \<Longrightarrow> \<forall>q \<in> set ps. usable q \<longrightarrow> prefixLen p < prefixLen q \<Longrightarrow> shortest (ps @ [p]) p"
proof -
  assume b: "shortest ps b" and le: "usable p \<longrightarrow> prefixLen b \<le> prefixLen p"
  then obtain xs ys where "ps = xs @ b # ys" "\<forall>q \<in> set xs. usable q \<longrightarrow> prefixLen b < prefixLen q"
    "\<forall>q \<in> set ys. usable q \<longrightarrow> prefixLen b \<le> prefixLen q" "usable b"
    by (auto simp: shortest_def)
  then show "shortest (ps @ [p]) b"
    unfolding shortest_def using le by (intro conjI exI [of _ xs] exI [of _ "ys @ [p]"]) auto
next
  assume "usable p" "\<forall>q \<in> set ps. usable q \<longrightarrow> prefixLen p < prefixLen q"
  then show "shortest (ps @ [p]) p"
    unfolding shortest_def by (intro conjI exI [of _ ps] exI [of _ "[]"]) auto
qed

lemma shortest_le: "shortest ps b \<Longrightarrow> p \<in> set ps \<Longrightarrow> usable p \<Longrightarrow> prefixLen b \<le> prefixLen p"
  by (fastforce simp: shortest_def)

lemma bestPrefix_shortest:
  "case bestPrefix ps None of None \<Rightarrow> \<forall>p \<in> set ps. \<not> usable p | Some b \<Rightarrow> shortest ps b"
proof (induction ps rule: rev_induct)
  case (snoc p ps)
  show ?case
  proof (cases "bestPrefix ps None")
    case None
    then show ?thesis using snoc shortest_snoc(2) [of p ps] by (auto simp: bestPrefix_snoc)
  next
    case (Some b)
    then have b: "shortest ps b" using snoc by simp
    have "shortest (ps @ [p]) p" if "usable p" "prefixLen p < prefixLen b"
      using shortest_snoc(2) [OF that(1)] shortest_le [OF b] that(2) by fastforce
    then show ?thesis using shortest_snoc(1) [OF b] Some by (auto simp: bestPrefix_snoc)
  qed
qed simp

lemma shortest_unique:
  assumes "shortest ps a" "shortest ps b"
  shows "a = b"
proof -
  obtain xs ys where a: "ps = xs @ a # ys" "\<forall>q \<in> set xs. usable q \<longrightarrow> prefixLen a < prefixLen q" "usable a"
    using assms(1) by (auto simp: shortest_def)
  obtain us vs where b: "ps = us @ b # vs" "\<forall>q \<in> set us. usable q \<longrightarrow> prefixLen b < prefixLen q" "usable b"
    using assms(2) by (auto simp: shortest_def)
  have "b \<in> set ps" by (simp add: b(1))
  moreover have "a \<in> set ps" by (simp add: a(1))
  ultimately have "prefixLen a \<le> prefixLen b" "prefixLen b \<le> prefixLen a"
    using shortest_le [OF assms(1), of b] shortest_le [OF assms(2), of a] a(3) b(3) by simp_all
  then have "a \<notin> set us" "b \<notin> set xs" using a(2,3) b(2,3) by fastforce+
  moreover obtain zs where "xs = us @ zs \<and> zs @ a # ys = b # vs \<or> xs @ zs = us \<and> a # ys = zs @ b # vs"
    using a(1) b(1) append_eq_append_conv2 [of xs "a # ys" us "b # vs"] by auto
  ultimately show ?thesis by (cases zs) auto
qed

lemma bestPrefix_iff: "bestPrefix ps None = Some b \<longleftrightarrow> shortest ps b"
proof
  assume s: "shortest ps b"
  then have "b \<in> set ps" "usable b" by (auto simp: shortest_def)
  then obtain b' where "bestPrefix ps None = Some b'" "shortest ps b'"
    using bestPrefix_shortest [of ps] by (auto split: option.splits)
  then show "bestPrefix ps None = Some b" using shortest_unique [OF s] by simp
qed (use bestPrefix_shortest [of ps] in simp)

text \<open>The reply delegates \<open>prefix\<close> for the time \<open>life\<close>.\<close>

definition delegates :: "'d pd_reply \<Rightarrow> prefix \<Rightarrow> int \<Rightarrow> bool" where
  "delegates reply prefix life \<longleftrightarrow>
     (\<exists>iapd best ip msk. rp_OneIAPD reply = Some iapd \<and> iapd_Status iapd \<in> {None, Some 0} \<and>
        shortest (iapd_Prefixes iapd) best \<and> iap_Prefix best = Some (ip, msk) \<and>
        IsValid (AddrFromSlice (To16 ip)) \<and>
        prefix = Masked (PrefixFrom (AddrFromSlice (To16 ip)) (int (maskOnes msk))) \<and>
        life = iap_ValidLifetime best)"

section \<open>Properties\<close>

text \<open>C11: at every point of every run of the client, the callbacks made so far describe the held
  delegation: each loss names the prefix announced last, each gain comes after the previous
  prefix was reported lost, and the net effect is exactly the current binding. Starting point
  is a client that has made no callback, with or without a restored binding.\<close>

theorem pdRun_callbacks:
  assumes "pdRun lib w n (loc, c) = Some (loc', c')" and "cl_calls c = []"
  shows "pdView (map_option bd_Prefix (cl_binding c)) (cl_calls c') =
    Some (map_option bd_Prefix (cl_binding c'))"
  using pdRun_consistent [OF assms(1), of "map_option bd_Prefix (cl_binding c)"] assms(2)
  by (simp add: consistent_def)

text \<open>C20: the client never hangs. If the clock advances, every iteration of its loops ends, so it
  can be run for any number of iterations, whatever arrives on the socket.\<close>

theorem pdRun_progress:
  assumes "clock_advances w"
  shows "\<exists>loc' c'. pdRun lib w n (loc, c) = Some (loc', c')"
  using ends_pdRun [OF assms, of lib n "(loc, c)"] by fastforce

text \<open>C34: an exchange keeps the delegation as it is, sends at most the configured number of
  messages, and returns only a message of the expected type.\<close>

theorem exchange_sound:
  assumes "exchange lib w c ty srv expect = Some (r, c')"
  shows "cl_binding c' = cl_binding c \<and> cl_calls c' = cl_calls c \<and>
    length (cl_sent c') \<le> length (cl_sent c) + nat (pd_Attempts (cl_cfg c)) \<and>
    (\<forall>resp. r = Some resp \<longrightarrow> rp_MessageType resp = expect)"
  using exchange_result [OF assms] by (simp add: quiet_def)

text \<open>C21: a reply is applied exactly when its IA_PD has no error status, contains a prefix with a
  positive lifetime, and the first of the shortest of those has a well-formed address. That
  prefix then becomes the binding, valid from now for its lifetime, the server is remembered,
  and the interface is told exactly if the prefix is another than before: the loss of the old
  one, if there was one, then the gain. Any other reply changes nothing.\<close>

theorem applyReply_binds:
  assumes "applyReply w c reply = (ok, c')"
  defines "now \<equiv> pe_now (w (cl_k c))" and "old \<equiv> map_option bd_Prefix (cl_binding c)"
  shows "(ok \<longleftrightarrow> (\<exists>prefix life. delegates reply prefix life)) \<and> (\<not> ok \<longrightarrow> c' = c) \<and>
    (\<forall>prefix life. delegates reply prefix life \<longrightarrow>
       cl_binding c' = Some \<lparr>bd_Prefix = prefix, bd_BoundAt = now, bd_ExpiresAt = now + life\<rparr> \<and>
       cl_serverDUID c' = rp_ServerID reply \<and> cl_cfg c' = cl_cfg c \<and>
       cl_calls c' = cl_calls c @
         (if old = Some prefix then []
          else (case old of None \<Rightarrow> [] | Some p \<Rightarrow> [(p, False)]) @ [(prefix, True)]))"
proof (cases "\<exists>prefix life. delegates reply prefix life")
  case False
  have "applyReply w c reply = (False, c)"
  proof (cases "rp_OneIAPD reply")
    case iapd: (Some iapd)
    show ?thesis
    proof (cases "bestPrefix (iapd_Prefixes iapd) None")
      case (Some best)
      then obtain ip msk where p: "iap_Prefix best = Some (ip, msk)"
        unfolding bestPrefix_iff by (auto simp: shortest_def usable_def)
      have "iapd_Status iapd \<notin> {None, Some 0} \<or> \<not> IsValid (AddrFromSlice (To16 ip))"
        using False iapd Some p unfolding delegates_def bestPrefix_iff by blast
      then show ?thesis by (auto simp: applyReply_def iapd Some p split: option.split)
    qed (simp add: applyReply_def iapd)
  qed (simp add: applyReply_def)
  then show ?thesis using False assms(1) by auto
next
  case True
  then obtain iapd best ip msk where r: "rp_OneIAPD reply = Some iapd" "iapd_Status iapd \<in> {None, Some 0}"
    "shortest (iapd_Prefixes iapd) best" "iap_Prefix best = Some (ip, msk)" "IsValid (AddrFromSlice (To16 ip))"
    by (auto simp: delegates_def)
  let ?prefix = "Masked (PrefixFrom (AddrFromSlice (To16 ip)) (int (maskOnes msk)))"
  have "ok \<and> cl_binding c' = Some \<lparr>bd_Prefix = ?prefix, bd_BoundAt = now, bd_ExpiresAt = now + iap_ValidLifetime best\<rparr> \<and>
      cl_serverDUID c' = rp_ServerID reply \<and> cl_cfg c' = cl_cfg c \<and>
      cl_calls c' = cl_calls c @
         (if old = Some ?prefix then []
          else (case old of None \<Rightarrow> [] | Some p \<Rightarrow> [(p, False)]) @ [(?prefix, True)])"
    using assms(1) r
    by (auto simp: applyReply_def bestPrefix_iff [symmetric] callback_def ask_def Let_def now_def old_def
        split: option.splits if_splits)
  moreover have "prefix = ?prefix \<and> life = iap_ValidLifetime best" if "delegates reply prefix life" for prefix life
  proof -
    from that r(1) obtain best' ip' msk' where d: "shortest (iapd_Prefixes iapd) best'" "iap_Prefix best' = Some (ip', msk')"
      "prefix = Masked (PrefixFrom (AddrFromSlice (To16 ip')) (int (maskOnes msk')))" "life = iap_ValidLifetime best'"
      by (auto simp: delegates_def)
    from d(2-4) r(4) show ?thesis unfolding shortest_unique [OF d(1) r(3)] by simp
  qed
  ultimately show ?thesis using True by blast
qed

text \<open>While the uplink is not usable, a still valid delegation is kept: the session iteration
  sends nothing, drops nothing and only waits.\<close>

theorem sessionBody_mid_roam:
  assumes "cl_binding c = Some b" and "\<not> cl_releaseReq c"
    and "\<not> pe_stopped (w (cl_k c))" and "\<not> pe_release (w (cl_k c + 1))"
    and "pe_now (w (cl_k c + 2)) < bd_ExpiresAt b"
    and "\<not> fst (uplinkReady w (c\<lparr>cl_k := cl_k c + 3\<rparr>))"
  shows "\<exists>loc c'. sessionBody lib w c = Some (loc, c') \<and> loc \<in> {LSession, LAfter} \<and>
    cl_binding c' = Some b \<and> cl_calls c' = cl_calls c \<and> cl_sent c' = cl_sent c"
  using assms
  by (auto simp: sessionBody_def maybeRelease_def takeReleaseReq_def ask_def uplinkReady_def Let_def
      numeral_3_eq_3)

section \<open>A concrete client\<close>

definition fe80_example :: bytes where
  "fe80_example = [0xfe, 0x80, 0, 0, 0, 0, 0, 0, 0, 0, 0, 0, 0, 0, 0, 1]"

text \<open>A codec whose messages are always the same reply, for a /56.\<close>

definition reply_example :: "u8 \<Rightarrow> unit pd_reply" where
  "reply_example typ = \<lparr>rp_MessageType = typ, rp_TransactionID = [1, 2, 3], rp_ServerID = Some (),
     rp_OneIAPD = Some \<lparr>iapd_Status = None, iapd_Prefixes =
       [\<lparr>iap_ValidLifetime = Hour,
         iap_Prefix = Some ([0x20, 0x01, 0x0d, 0xb8, 0, 0, 0, 0, 0, 0, 0, 0, 0, 0, 0, 0],
                            replicate 7 255 @ replicate 9 0)\<rparr>]\<rparr>\<rparr>"

definition libpd_example :: "unit pd_lib" where
  "libpd_example = \<lparr>
     pl_FromBytes = (\<lambda>b. case b of [] \<Rightarrow> None | typ # _ \<Rightarrow> Some (PDMessage (reply_example typ))),
     pl_DUIDFromBytes = (\<lambda>b. Some ()),
     pl_ToBytes = (\<lambda>m. [sm_MessageType m])\<rparr>"

text \<open>The uplink is usable, no server answers, nobody stops, wakes or releases the client: every
  sleep ends with its timer.\<close>

definition silent :: "time \<Rightarrow> nat \<Rightarrow> pd_world" where
  "silent t k = \<lparr>pe_now = t, pe_stopped = False, pe_recv = None, pe_wrote = True, pe_awake = True,
     pe_release = False, pe_txn = Some [1, 2, 3], pe_addrs = None, pe_listen = True,
     pe_link = Some (True, Some [(fe80_example, False)])\<rparr>"

definition binding_example :: Binding where
  "binding_example = \<lparr>bd_Prefix = Prefix (Addr6 0x20010DB8000000000000000000000000 []) 56,
     bd_BoundAt = 0, bd_ExpiresAt = Hour\<rparr>"

definition client_example :: "unit Client" where
  "client_example = (New \<lparr>pd_Uplink = ''wan'', pd_DUID = [0, 3], pd_IAID = 1, pd_InitialTimeout = 0,
     pd_MaxTimeout = 0, pd_Attempts = 1\<rparr>)\<lparr>cl_binding := Some binding_example, cl_serverDUID := Some ()\<rparr>"

lemma clock_advances_example: "clock_advances (\<lambda>k. (silent 0 k)\<lparr>pe_now := int k\<rparr>)"
  unfolding clock_advances_def
proof
  fix t :: time
  show "\<exists>K. \<forall>k \<ge> K. t \<le> pe_now ((silent 0 k)\<lparr>pe_now := int k\<rparr>)"
    by (rule exI [of _ "nat t"]) (simp add: nat_le_iff)
qed

theorem pdRun_callbacks_witness:
  "\<exists>loc' c'. pdRun libpd_example (\<lambda>k. (silent 0 k)\<lparr>pe_now := int k\<rparr>) 3 (LRun, client_example) = Some (loc', c') \<and>
     pdView (Some (bd_Prefix binding_example)) (cl_calls c') = Some (map_option bd_Prefix (cl_binding c'))"
proof -
  obtain loc' c' where r: "pdRun libpd_example (\<lambda>k. (silent 0 k)\<lparr>pe_now := int k\<rparr>) 3 (LRun, client_example) = Some (loc', c')"
    using ends_pdRun [OF clock_advances_example] by fastforce
  from pdRun_callbacks [OF r] r show ?thesis
    by (simp add: client_example_def New_def)
qed

theorem pdRun_progress_witness:
  "\<exists>loc' c'. pdRun libpd_example (\<lambda>k. (silent 0 k)\<lparr>pe_now := int k\<rparr>) 100 (LSession, client_example) = Some (loc', c')"
  by (rule pdRun_progress [OF clock_advances_example])

lemma silent_simps [simp]:
  "pe_now (silent t k) = t" "\<not> pe_stopped (silent t k)" "pe_recv (silent t k) = None"
  "pe_awake (silent t k)" "\<not> pe_release (silent t k)" "pe_txn (silent t k) = Some [1, 2, 3]"
  by (simp_all add: silent_def)

lemma silent_recvLoop: "\<exists>c'. recvLoop lib (silent t) expect txn d c = Some (None, c')"
  by (subst recvLoop.simps) (simp add: ask_def)

lemma silent_attempts:
  "\<exists>c'. attempts lib (silent t) ty txn srv expect n timeout c = Some (None, c')"
proof (induction n arbitrary: timeout c)
  case 0
  then show ?case by simp
next
  case (Suc n)
  obtain msg c2 where m: "buildMessage lib (silent t) (c\<lparr>cl_k := Suc (cl_k c)\<rparr>) ty txn srv = (msg, c2)"
    by fastforce
  let ?c4 = "c2\<lparr>cl_sent := cl_sent c2 @ [pl_ToBytes lib (the msg)], cl_k := Suc (Suc (cl_k c2))\<rparr>"
  obtain c5 where r: "recvLoop lib (silent t) expect txn (t + timeout) ?c4 = Some (None, c5)"
    using silent_recvLoop by blast
  have "pe_wrote (silent t k)" for k by (simp add: silent_def)
  then show ?case
    using m r Suc [of "min (wrap64 (timeout * 2)) (pd_MaxTimeout (cl_cfg c5))" c5]
    by (cases msg) (simp_all add: ask_def)
qed

lemma silent_exchange:
  "\<exists>c'. exchange lib (silent t) c ty srv expect = Some (None, c') \<and> quiet c c'"
proof -
  have "\<exists>c'. exchange lib (silent t) c ty srv expect = Some (None, c')"
    unfolding exchange_def using silent_attempts by (simp add: ask_def)
  then show ?thesis using exchange_result by blast
qed

lemma silent_confirm: "\<exists>c'. confirm lib (silent t) c ty srv = Some (False, c') \<and> quiet c c'"
  using silent_exchange [of lib t c ty srv PD_Reply] by (auto simp: confirm_def)

lemma silent_confirmExisting: "\<exists>c'. confirmExisting lib (silent t) c = Some (False, c') \<and> quiet c c'"
proof -
  have re: "\<exists>c'. confirm lib (silent t) (markStart (silent t) (setState s x)) ty srv = Some (False, c') \<and> quiet x c'"
    for s x ty srv
    using silent_confirm [of lib t "markStart (silent t) (setState s x)" ty srv]
    by (auto simp: quiet_def markStart_def setState_def ask_def)
  show ?thesis
  proof (cases "cl_serverDUID c")
    case None
    then show ?thesis using re by (simp add: confirmExisting_def)
  next
    case (Some server)
    obtain x where x: "confirm lib (silent t) (markStart (silent t) (setState ''renewing'' c)) PD_Renew
        (Some server) = Some (False, x)" "quiet c x"
      using re by blast
    obtain c' where "confirm lib (silent t) (markStart (silent t) (setState ''rebinding'' x)) PD_Rebind None =
        Some (False, c')" "quiet x c'"
      using re by blast
    then show ?thesis using Some x quiet_trans by (auto simp: confirmExisting_def)
  qed
qed

theorem exchange_sound_witness:
  "\<exists>r c'. exchange libpd_example (silent 0) client_example PD_Renew (Some ()) PD_Reply = Some (r, c') \<and>
     length (cl_sent c') \<le> 1 \<and> cl_binding c' = Some binding_example"
proof -
  obtain r c' where e: "exchange libpd_example (silent 0) client_example PD_Renew (Some ()) PD_Reply = Some (r, c')"
    using silent_exchange by blast
  from exchange_sound [OF e] e show ?thesis by (simp add: client_example_def New_def normalizePD_def)
qed

theorem applyReply_binds_witness:
  "fst (applyReply (silent 5) client_example (reply_example PD_Reply)) \<and>
   map_option bd_ExpiresAt (cl_binding (snd (applyReply (silent 5) client_example (reply_example PD_Reply)))) =
     Some (Hour + 5)"
proof -
  obtain ok c' where a: "applyReply (silent 5) client_example (reply_example PD_Reply) = (ok, c')" by fastforce
  have "\<exists>prefix. delegates (reply_example PD_Reply) prefix Hour"
    unfolding delegates_def
    by (simp add: reply_example_def bestPrefix_iff [symmetric] To16_def AddrFromSlice_def)
  then show ?thesis using applyReply_binds [OF a] a by (auto simp: silent_def)
qed

theorem sessionBody_mid_roam_witness:
  "\<exists>loc c'. sessionBody libpd_example (\<lambda>k. (silent 7 k)\<lparr>pe_link := None\<rparr>) client_example = Some (loc, c') \<and>
     cl_binding c' = Some binding_example"
proof -
  have "\<exists>loc c'. sessionBody libpd_example (\<lambda>k. (silent 7 k)\<lparr>pe_link := None\<rparr>) client_example = Some (loc, c') \<and>
      loc \<in> {LSession, LAfter} \<and> cl_binding c' = Some binding_example \<and>
      cl_calls c' = cl_calls client_example \<and> cl_sent c' = cl_sent client_example"
    by (rule sessionBody_mid_roam)
      (simp_all add: client_example_def New_def silent_def binding_example_def uplinkReady_def ask_def)
  then show ?thesis by blast
qed

section \<open>Where the code and its description part\<close>

text \<open>The package comment promises RENEW at T1. But the wait before T1 is cut into sleeps of at most
  a minute, and after each of them, not only after a wakeup, the delegation is confirmed: a
  server that does not answer for that long loses the client its prefix an hour before it
  expires.\<close>

theorem boundBody_drops_before_T1:
  assumes "cl_binding c = Some b" and "\<not> cl_releaseReq c"
    and "now < bd_BoundAt b + go_div (bd_ExpiresAt b - bd_BoundAt b) 2"
  shows "\<exists>c'. boundBody lib (silent now) c = Some (LSession, c') \<and> cl_binding c' = None \<and>
    cl_calls c' = cl_calls c @ [(bd_Prefix b, False)]"
proof -
  let ?c = "c\<lparr>cl_state := ''bound'', cl_releaseReq := False,
    cl_k := Suc (Suc (Suc (Suc (Suc (Suc (Suc (cl_k c)))))))\<rparr>"
  have ready: "uplinkReady (silent now) x = (True, x\<lparr>cl_k := Suc (cl_k x)\<rparr>)" for x :: "'a Client"
    by (simp add: uplinkReady_def ask_def silent_def IP_IsLinkLocalUnicast_def fe80_example_def To4_def v4InV6_def)
  obtain c1 where c1: "confirmExisting lib (silent now) ?c = Some (False, c1)" "quiet ?c c1"
    using silent_confirmExisting by blast
  have b: "cl_binding c1 = Some b" "cl_calls c1 = cl_calls c"
    using c1(2) assms(1) by (simp_all add: quiet_def setState_def)
  have "boundBody lib (silent now) c = Some (LSession, dropPrefix c1)"
    using assms c1(1)
    by (simp add: boundBody_def boundWait_def maybeRelease_def takeReleaseReq_def ask_def setState_def ready)
  then show ?thesis using b by (simp add: dropPrefix_def callback_def)
qed

text \<open>Outside \<^verbatim>\<open>boundLoop\<close> nothing looks at the expiry of the held delegation except to choose how to
  renew it: while the uplink has no link-local address the client keeps an expired prefix for as
  long as that lasts, and its interface goes on serving it.\<close>

theorem expired_prefix_kept:
  assumes "cl_binding c = Some b" and "bd_ExpiresAt b < now"
  shows "\<exists>c'. pdRun lib (silent now) n (LRun, c) = Some (LRun, c') \<and>
    cl_binding c' = Some b \<and> cl_calls c' = cl_calls c"
  using assms
proof (induction n arbitrary: c)
  case 0
  then show ?case by simp
next
  case (Suc n)
  let ?c = "setState ''resolving'' (c\<lparr>cl_k := Suc (Suc (Suc (cl_k c)))\<rparr>)"
  have "pe_addrs (silent now k) = None" for k by (simp add: silent_def)
  then have "runBody (silent now) c = (LRun, ?c)"
    by (simp add: runBody_def openSocket_def ask_def setState_def)
  then have "pdRun lib (silent now) (Suc n) (LRun, c) = pdRun lib (silent now) n (LRun, ?c)"
    by (simp add: pdNext_def)
  then show ?case using Suc.IH [of ?c] Suc.prems by (simp add: setState_def)
qed

end
