(* ===== verification/Sysctl.thy ===== *)
theory Sysctl
  imports Prelude
begin

text \<open>
  \<^verbatim>\<open>internal/pdroute/sysctl.go\<close>: the process-wide registry of sysctl settings. Several routed
  segments may share an uplink, so every setting is counted: it is changed by its first user
  and put back by its last one, unless somebody else rewrote it meanwhile.
\<close>

section \<open>The registry\<close>

record sysctlEntry =
  se_refs :: int
  se_old :: string
  se_set :: string

text \<open>The registry together with the files it works on.\<close>

record sysctlReg =
  sy_entries :: "string \<Rightarrow> sysctlEntry option"
  sy_files :: "string \<Rightarrow> string option"

definition sysctlBase :: string where
  "sysctlBase = ''/proc/sys''"

text \<open>\<^verbatim>\<open>filepath.Join\<close> on an interface name that is one path element; it drops an empty element.\<close>

definition sysctlPath :: "string \<Rightarrow> string \<Rightarrow> string" where
  "sysctlPath iface key =
     sysctlBase @ ''/net/ipv6/conf/'' @ (if iface = [] then [] else iface @ ''/'') @ key"

definition readSysctl :: "string \<Rightarrow> sysctlReg \<Rightarrow> string option" where
  "readSysctl path s = map_option TrimSpace (sy_files s path)"

text \<open>\<open>wr\<close> says for which files writing succeeds.\<close>

definition writeSysctl :: "(string \<Rightarrow> bool) \<Rightarrow> string \<Rightarrow> string \<Rightarrow> sysctlReg \<Rightarrow> bool \<times> sysctlReg" where
  "writeSysctl wr path v s =
     (if wr path then (True, s\<lparr>sy_files := (sy_files s)(path \<mapsto> v)\<rparr>) else (False, s))"

definition acquire ::
  "(string \<Rightarrow> bool) \<Rightarrow> string \<Rightarrow> (string \<Rightarrow> string \<times> bool) \<Rightarrow> sysctlReg \<Rightarrow> sysctlReg" where
  "acquire wr path want s =
     (case sy_entries s path of
        Some e \<Rightarrow> s\<lparr>sy_entries := (sy_entries s)(path \<mapsto> e\<lparr>se_refs := se_refs e + 1\<rparr>)\<rparr>
      | None \<Rightarrow>
          (let e = \<lparr>se_refs = 1, se_old = [], se_set = []\<rparr>;
               put = (\<lambda>e s. s\<lparr>sy_entries := (sy_entries s)(path \<mapsto> e)\<rparr>)
           in case readSysctl path s of
                None \<Rightarrow> put e s
              | Some cur \<Rightarrow>
                  (let e = e\<lparr>se_old := cur\<rparr>; (next, change) = want cur
                   in if change \<and> next \<noteq> cur
                      then (let (ok, s) = writeSysctl wr path next s
                            in if ok then put (e\<lparr>se_set := next\<rparr>) s else put e s)
                      else put e s)))"

definition release :: "(string \<Rightarrow> bool) \<Rightarrow> string \<Rightarrow> sysctlReg \<Rightarrow> sysctlReg" where
  "release wr path s =
     (case sy_entries s path of
        None \<Rightarrow> s
      | Some e \<Rightarrow>
          (let e = e\<lparr>se_refs := se_refs e - 1\<rparr>
           in if se_refs e > 0 then s\<lparr>sy_entries := (sy_entries s)(path \<mapsto> e)\<rparr>
              else
                (let s = s\<lparr>sy_entries := (sy_entries s)(path := None)\<rparr>
                 in if se_set e = [] \<or> se_set e = se_old e then s
                    else
                      (case readSysctl path s of
                         None \<Rightarrow> s
                       | Some cur \<Rightarrow>
                           if cur \<noteq> se_set e then s else snd (writeSysctl wr path (se_old e) s)))))"

definition acceptRAWant :: "string \<Rightarrow> string \<times> bool" where
  "acceptRAWant cur = (''2'', cur = ''1'')"

definition forwardingWant :: "string \<Rightarrow> string \<times> bool" where
  "forwardingWant cur = (''1'', cur = ''0'')"

definition acquireAcceptRA :: "(string \<Rightarrow> bool) \<Rightarrow> string \<Rightarrow> sysctlReg \<Rightarrow> sysctlReg" where
  "acquireAcceptRA wr iface = acquire wr (sysctlPath iface ''accept_ra'') acceptRAWant"

definition acquireForwarding :: "(string \<Rightarrow> bool) \<Rightarrow> string \<Rightarrow> sysctlReg \<Rightarrow> sysctlReg" where
  "acquireForwarding wr iface = acquire wr (sysctlPath iface ''forwarding'') forwardingWant"

definition releaseAcceptRA :: "(string \<Rightarrow> bool) \<Rightarrow> string \<Rightarrow> sysctlReg \<Rightarrow> sysctlReg" where
  "releaseAcceptRA wr iface = release wr (sysctlPath iface ''accept_ra'')"

definition releaseForwarding :: "(string \<Rightarrow> bool) \<Rightarrow> string \<Rightarrow> sysctlReg \<Rightarrow> sysctlReg" where
  "releaseForwarding wr iface = release wr (sysctlPath iface ''forwarding'')"

section \<open>Counting users\<close>

definition refs :: "string \<Rightarrow> sysctlReg \<Rightarrow> int" where
  "refs p s = (case sy_entries s p of None \<Rightarrow> 0 | Some e \<Rightarrow> se_refs e)"

text \<open>\<open>held p v want s\<close>: the registry is sound for file \<open>p\<close>, whose value was \<open>v\<close> before anyone used it
  and on which every user wants \<open>want\<close>.\<close>

definition held :: "string \<Rightarrow> string \<Rightarrow> (string \<Rightarrow> string \<times> bool) \<Rightarrow> sysctlReg \<Rightarrow> bool" where
  "held p v want s \<longleftrightarrow>
     (case sy_entries s p of
        None \<Rightarrow> readSysctl p s = Some v
      | Some e \<Rightarrow>
          se_refs e \<ge> 1 \<and> se_old e = v \<and>
          (if snd (want v) \<and> fst (want v) \<noteq> v
           then se_set e = fst (want v) \<and> readSysctl p s = Some (fst (want v))
           else se_set e = [] \<and> readSysctl p s = Some v))"

lemma readSysctl_write [simp]: "readSysctl p (s\<lparr>sy_files := fs\<rparr>) = map_option TrimSpace (fs p)"
  by (simp add: readSysctl_def)

lemma readSysctl_entries [simp]: "readSysctl p (s\<lparr>sy_entries := es\<rparr>) = readSysctl p s"
  by (simp add: readSysctl_def)

lemmas sysctl_ops = writeSysctl_def Let_def case_prod_beta

lemma held_frame:
  "sy_entries s' p = sy_entries s p \<Longrightarrow> sy_files s' p = sy_files s p \<Longrightarrow>
     held p v want s' = held p v want s"
  by (simp add: held_def readSysctl_def cong: option.case_cong)

lemma acquire_other:
  "p \<noteq> q \<Longrightarrow> sy_entries (acquire wr q want s) p = sy_entries s p"
  "p \<noteq> q \<Longrightarrow> sy_files (acquire wr q want s) p = sy_files s p"
  by (auto simp: acquire_def sysctl_ops split: option.splits)

lemma release_other:
  "p \<noteq> q \<Longrightarrow> sy_entries (release wr q s) p = sy_entries s p"
  "p \<noteq> q \<Longrightarrow> sy_files (release wr q s) p = sy_files s p"
  by (auto simp: release_def sysctl_ops split: option.splits)

lemma refs_other: "sy_entries s' p = sy_entries s p \<Longrightarrow> refs p s' = refs p s"
  by (simp add: refs_def)

lemma refs_acquire: "refs p (acquire wr q want s) = refs p s + (if p = q then 1 else 0)"
  by (cases "p = q")
    (auto simp: refs_def acquire_other acquire_def sysctl_ops split: option.splits)

lemma refs_release:
  "refs p s \<ge> 1 \<Longrightarrow> refs p (release wr q s) = refs p s - (if p = q then 1 else 0)"
  by (cases "p = q")
    (auto simp: refs_def release_other release_def sysctl_ops split: option.splits)

text \<open>The value the file has while the setting is used.\<close>

definition settled :: "string \<Rightarrow> (string \<Rightarrow> string \<times> bool) \<Rightarrow> string" where
  "settled v want = (if snd (want v) then fst (want v) else v)"

lemma held_iff:
  "held p v want s \<longleftrightarrow>
     (case sy_entries s p of
        None \<Rightarrow> readSysctl p s = Some v
      | Some e \<Rightarrow> se_refs e \<ge> 1 \<and> se_old e = v \<and> readSysctl p s = Some (settled v want) \<and>
          se_set e = (if settled v want = v then [] else settled v want))"
  by (auto simp: held_def settled_def split: option.split)

lemma held_acquire:
  assumes "held p v want s" "wr p" "TrimSpace (settled v want) = settled v want"
  shows "held p v want (acquire wr p want s)"
proof (cases "sy_entries s p")
  case None
  then have r: "readSysctl p s = Some v" using assms(1) by (simp add: held_iff)
  show ?thesis
    using assms(2,3) by (auto simp: held_iff acquire_def None r sysctl_ops settled_def)
next
  case (Some e)
  then show ?thesis using assms(1) by (simp add: held_iff acquire_def)
qed

lemma held_release:
  assumes "held p v want s" "wr p" "settled v want \<noteq> []" "TrimSpace v = v"
  shows "held p v want (release wr p s)"
proof (cases "sy_entries s p")
  case None
  then show ?thesis using assms(1) by (simp add: release_def)
next
  case (Some e)
  then have e: "se_old e = v" "readSysctl p s = Some (settled v want)"
    "se_set e = (if settled v want = v then [] else settled v want)"
    using assms(1) by (simp_all add: held_iff)
  show ?thesis
  proof (cases "settled v want = v")
    case True
    then show ?thesis using Some e by (auto simp: held_iff release_def Let_def)
  next
    case False
    then show ?thesis
      using Some e assms(2-) by (auto simp: held_iff release_def sysctl_ops)
  qed
qed

section \<open>Counted settings\<close>

text \<open>The interface the routed segments use: settings with a number of users each. The laws: taking
  and dropping a setting count its users and no other's, and keep it sound.\<close>

locale counted_settings =
  fixes take1 :: "'n \<Rightarrow> 's \<Rightarrow> 's"
    and drop1 :: "'n \<Rightarrow> 's \<Rightarrow> 's"
    and users :: "'n \<Rightarrow> 's \<Rightarrow> int"
    and sound :: "'n \<Rightarrow> 's \<Rightarrow> bool"
  assumes users_take1: "users n (take1 m s) = users n s + (if n = m then 1 else 0)"
    and users_drop1: "users m s \<ge> 1 \<Longrightarrow> users n (drop1 m s) = users n s - (if n = m then 1 else 0)"
    and sound_take1: "sound n s \<Longrightarrow> sound n (take1 m s)"
    and sound_drop1: "sound n s \<Longrightarrow> sound n (drop1 m s)"
begin

lemma users_takes: "users n (fold take1 ns s) = users n s + int (count_list ns n)"
  by (induction ns arbitrary: s) (auto simp: users_take1)

lemma users_drops:
  "(\<And>m. int (count_list ns m) \<le> users m s) \<Longrightarrow>
     users n (fold drop1 ns s) = users n s - int (count_list ns n)"
proof (induction ns arbitrary: s)
  case (Cons m ns)
  have m: "users m s \<ge> 1" using Cons.prems [of m] by simp
  have "int (count_list ns q) \<le> users q (drop1 m s)" for q
    using Cons.prems [of q] users_drop1 [OF m, of q] by (auto split: if_splits)
  then show ?case using Cons.IH users_drop1 [OF m, of n] by auto
qed simp

lemma sound_takes: "sound n s \<Longrightarrow> sound n (fold take1 ns s)"
  by (induction ns arbitrary: s) (auto simp: sound_take1)

lemma sound_drops: "sound n s \<Longrightarrow> sound n (fold drop1 ns s)"
  by (induction ns arbitrary: s) (auto simp: sound_drop1)

end

datatype setting = AcceptRA string | Forwarding string

fun settingPath :: "setting \<Rightarrow> string" where
  "settingPath (AcceptRA i) = sysctlPath i ''accept_ra''"
| "settingPath (Forwarding i) = sysctlPath i ''forwarding''"

fun settingWant :: "setting \<Rightarrow> string \<Rightarrow> string \<times> bool" where
  "settingWant (AcceptRA i) = acceptRAWant"
| "settingWant (Forwarding i) = forwardingWant"

definition takeSetting :: "(string \<Rightarrow> bool) \<Rightarrow> setting \<Rightarrow> sysctlReg \<Rightarrow> sysctlReg" where
  "takeSetting wr n = acquire wr (settingPath n) (settingWant n)"

definition dropSetting :: "(string \<Rightarrow> bool) \<Rightarrow> setting \<Rightarrow> sysctlReg \<Rightarrow> sysctlReg" where
  "dropSetting wr n = release wr (settingPath n)"

lemma sysctlPath_inj: "sysctlPath i k = sysctlPath j k \<longleftrightarrow> i = j"
  by (auto simp: sysctlPath_def)

lemma sysctlPath_keys: "sysctlPath i ''accept_ra'' \<noteq> sysctlPath j ''forwarding''"
proof
  assume "sysctlPath i ''accept_ra'' = sysctlPath j ''forwarding''"
  then have "last (sysctlPath i ''accept_ra'') = last (sysctlPath j ''forwarding'')" by simp
  then show False by (simp add: sysctlPath_def)
qed

lemma settingPath_inj: "settingPath n = settingPath m \<longleftrightarrow> n = m"
  by (cases n; cases m) (auto simp: sysctlPath_inj sysctlPath_keys dest: sym)

text \<open>A setting is sound for the value \<open>v n\<close> it had before, as long as its file can be written.\<close>

definition settingSound ::
  "(string \<Rightarrow> bool) \<Rightarrow> (setting \<Rightarrow> string) \<Rightarrow> setting \<Rightarrow> sysctlReg \<Rightarrow> bool" where
  "settingSound wr v n s \<longleftrightarrow>
     wr (settingPath n) \<and> TrimSpace (v n) = v n \<and> v n \<noteq> [] \<and> held (settingPath n) (v n) (settingWant n) s"

lemma settled_setting:
  assumes "TrimSpace v = v" "v \<noteq> []"
  shows "TrimSpace (settled v (settingWant n)) = settled v (settingWant n)" "settled v (settingWant n) \<noteq> []"
proof -
  have *: "TrimSpace ''1'' = ''1''" "TrimSpace ''2'' = ''2''"
    by (simp_all add: TrimSpace_def go_space_def)
  show "TrimSpace (settled v (settingWant n)) = settled v (settingWant n)" "settled v (settingWant n) \<noteq> []"
    using assms * by (cases n; simp add: settled_def acceptRAWant_def forwardingWant_def)+
qed

lemma settingSound_takeSetting:
  assumes "settingSound wr v n s"
  shows "settingSound wr v n (takeSetting wr m s)"
proof (cases "n = m")
  case True
  then show ?thesis
    using assms settled_setting(1) [of "v n" n] held_acquire [of "settingPath n" "v n" "settingWant n" s wr]
    by (simp add: settingSound_def takeSetting_def)
next
  case False
  then have "settingPath n \<noteq> settingPath m" by (simp add: settingPath_inj)
  from held_frame [OF acquire_other(1) [OF this] acquire_other(2) [OF this]]
  show ?thesis using assms by (simp add: settingSound_def takeSetting_def)
qed

lemma settingSound_dropSetting:
  assumes "settingSound wr v n s"
  shows "settingSound wr v n (dropSetting wr m s)"
proof (cases "n = m")
  case True
  then show ?thesis
    using assms settled_setting(2) [of "v n" n] held_release [of "settingPath n" "v n" "settingWant n" s wr]
    by (simp add: settingSound_def dropSetting_def)
next
  case False
  then have "settingPath n \<noteq> settingPath m" by (simp add: settingPath_inj)
  from held_frame [OF release_other(1) [OF this] release_other(2) [OF this]]
  show ?thesis using assms by (simp add: settingSound_def dropSetting_def)
qed

lemma refs_dropSetting:
  assumes "refs (settingPath m) s \<ge> 1"
  shows "refs (settingPath n) (dropSetting wr m s) = refs (settingPath n) s - (if n = m then 1 else 0)"
  using assms refs_release [of "settingPath m" s wr "settingPath m"]
    refs_other [OF release_other(1), of "settingPath n" "settingPath m" wr s]
  by (auto simp: dropSetting_def settingPath_inj)

interpretation sy: counted_settings "takeSetting wr" "dropSetting wr" "\<lambda>n. refs (settingPath n)"
  "settingSound wr v" for wr v
  by unfold_locales
    (simp_all add: takeSetting_def [of wr] refs_acquire settingPath_inj refs_dropSetting
      settingSound_takeSetting [unfolded takeSetting_def] settingSound_dropSetting)

lemma settingSound_reads:
  assumes "settingSound wr v n s"
  shows "readSysctl (settingPath n) s =
    Some (if refs (settingPath n) s > 0 then settled (v n) (settingWant n) else v n)"
  using assms by (auto simp: settingSound_def held_iff refs_def split: option.splits)

end
