(* ===== verification/PdRoute.thy ===== *)
theory PdRoute
  imports Netip Sysctl
begin

text \<open>
  \<^verbatim>\<open>internal/pdroute/pdroute.go\<close>: policy routing of a delegated prefix. A routed segment owns one
  routing table; while a prefix is installed, a rule pair selects the table for traffic from
  and to the prefix, and the table holds the subnet route and a copy of the uplink's default
  route. The kernel is reached through the netlink package, which is a parameter: a record of
  operations on an abstract kernel state \<open>'k\<close>. Errors of its operations are only logged, so an
  operation that changes the kernel is a function to the next kernel state.
\<close>

section \<open>The netlink package\<close>

type_synonym ipnet = "bytes \<times> bytes"

abbreviation (input) FAMILY_V6 :: int where "FAMILY_V6 \<equiv> 10"
abbreviation (input) RT_TABLE_UNSPEC :: int where "RT_TABLE_UNSPEC \<equiv> 0"
abbreviation (input) RTPROT_RA :: int where "RTPROT_RA \<equiv> 9"
abbreviation (input) routeProto :: int where "routeProto \<equiv> 213"

text \<open>\<^verbatim>\<open>netlink.Rule\<close> and \<^verbatim>\<open>netlink.Route\<close>: the fields the program reads or sets; the others are \<open>'o\<close>.\<close>

record 'o rule =
  ru_Family :: int
  ru_Table :: int
  ru_Priority :: int
  ru_Src :: "ipnet option"
  ru_Dst :: "ipnet option"
  ru_other :: 'o

record 'o route =
  ro_Dst :: "ipnet option"
  ro_Gw :: "bytes option"
  ro_LinkIndex :: int
  ro_Table :: int
  ro_Protocol :: int
  ro_Priority :: int
  ro_other :: 'o

record ('k, 'o) netlink =
  nl_LinkByName :: "'k \<Rightarrow> string \<Rightarrow> int option"
  nl_AddrList :: "'k \<Rightarrow> int \<Rightarrow> ipnet list"
  nl_AddrAdd :: "'k \<Rightarrow> int \<Rightarrow> ipnet \<Rightarrow> 'k"
  nl_AddrDel :: "'k \<Rightarrow> int \<Rightarrow> ipnet \<Rightarrow> 'k"
  nl_NewRule :: "'o rule"
  nl_RuleList :: "'k \<Rightarrow> 'o rule list option"
  nl_RuleAdd :: "'k \<Rightarrow> 'o rule \<Rightarrow> 'k"
  nl_RuleDel :: "'k \<Rightarrow> 'o rule \<Rightarrow> 'k"
  nl_zeroOther :: 'o
  nl_RouteList :: "'k \<Rightarrow> int \<Rightarrow> 'o route list option"
  nl_RouteReplace :: "'k \<Rightarrow> 'o route \<Rightarrow> 'k"
  nl_RouteDel :: "'k \<Rightarrow> 'o route \<Rightarrow> 'k"

section \<open>Helpers\<close>

definition prefixToIPNet :: "prefix \<Rightarrow> ipnet" where
  "prefixToIPNet p = (AsSlice (pfx_addr (Masked p)), CIDRMask (pfx_bits p) 128)"

definition defaultDst :: ipnet where
  "defaultDst = (replicate 16 0, CIDRMask 0 128)"

definition isDefault :: "ipnet option \<Rightarrow> bool" where
  "isDefault d = (case d of None \<Rightarrow> True | Some (ip, msk) \<Rightarrow> fst (MaskSize msk) = 0)"

definition ipNetEqual :: "ipnet option \<Rightarrow> ipnet option \<Rightarrow> bool" where
  "ipNetEqual a b =
     (case (a, b) of
        (Some (ipa, ma), Some (ipb, mb)) \<Rightarrow> MaskSize ma = MaskSize mb \<and> IP_Equal ipa ipb
      | (None, None) \<Rightarrow> True
      | _ \<Rightarrow> False)"

definition keepNet :: "prefix \<Rightarrow> ipnet option" where
  "keepNet keep = (if PfxIsValid keep then Some (prefixToIPNet keep) else None)"

section \<open>Routes\<close>

record pdroute_Config =
  pr_Iface :: string
  pr_Uplink :: string
  pr_Table :: int
  pr_RulePriority :: int

record Routes =
  rr_cfg :: pdroute_Config
  rr_started :: bool
  rr_stopped :: bool
  rr_prefix :: prefix

text \<open>What a segment acts on: the kernel, the shared sysctl registry, and which sysctls can be
  written.\<close>

record 'k host =
  ho_kernel :: 'k
  ho_sysctls :: sysctlReg
  ho_writable :: "string \<Rightarrow> bool"

definition on_kernel :: "('k \<Rightarrow> 'k) \<Rightarrow> 'k host \<Rightarrow> 'k host" where
  "on_kernel f h = h\<lparr>ho_kernel := f (ho_kernel h)\<rparr>"

definition on_sysctls :: "((string \<Rightarrow> bool) \<Rightarrow> sysctlReg \<Rightarrow> sysctlReg) \<Rightarrow> 'k host \<Rightarrow> 'k host" where
  "on_sysctls f h = h\<lparr>ho_sysctls := f (ho_writable h) (ho_sysctls h)\<rparr>"

definition newRoutes :: "pdroute_Config \<Rightarrow> Routes" where
  "newRoutes cfg = \<lparr>rr_cfg = cfg, rr_started = False, rr_stopped = False, rr_prefix = ZeroPrefix\<rparr>"

definition addRule :: "('k, 'o) netlink \<Rightarrow> pdroute_Config \<Rightarrow> string \<Rightarrow> prefix \<Rightarrow> 'k \<Rightarrow> 'k" where
  "addRule nl cfg dir prefix k =
     (let rule = (nl_NewRule nl)\<lparr>ru_Family := FAMILY_V6, ru_Table := pr_Table cfg,
                                 ru_Priority := pr_RulePriority cfg\<rparr>;
          rule = (if dir = ''from'' then rule\<lparr>ru_Src := Some (prefixToIPNet prefix)\<rparr>
                  else rule\<lparr>ru_Dst := Some (prefixToIPNet prefix)\<rparr>)
      in nl_RuleAdd nl k rule)"

definition spareRule :: "pdroute_Config \<Rightarrow> ipnet option \<Rightarrow> 'o rule \<Rightarrow> bool" where
  "spareRule cfg keep ru \<longleftrightarrow>
     ru_Table ru \<noteq> pr_Table cfg \<or>
     keep \<noteq> None \<and> (ipNetEqual (ru_Src ru) keep \<or> ipNetEqual (ru_Dst ru) keep)"

definition wipeRulesLocked :: "('k, 'o) netlink \<Rightarrow> pdroute_Config \<Rightarrow> prefix \<Rightarrow> 'k \<Rightarrow> 'k" where
  "wipeRulesLocked nl cfg keep k =
     (case nl_RuleList nl k of
        None \<Rightarrow> k
      | Some rules \<Rightarrow>
          fold (\<lambda>ru k. if spareRule cfg (keepNet keep) ru then k
                       else nl_RuleDel nl k (ru\<lparr>ru_Family := FAMILY_V6\<rparr>)) rules k)"

definition listTable :: "('k, 'o) netlink \<Rightarrow> pdroute_Config \<Rightarrow> 'k \<Rightarrow> 'o route list" where
  "listTable nl cfg k = (case nl_RouteList nl k (pr_Table cfg) of None \<Rightarrow> [] | Some routes \<Rightarrow> routes)"

definition flushTableExceptLocked ::
  "('k, 'o) netlink \<Rightarrow> pdroute_Config \<Rightarrow> prefix \<Rightarrow> 'k \<Rightarrow> 'k" where
  "flushTableExceptLocked nl cfg keep k =
     fold (\<lambda>rt k. if keepNet keep \<noteq> None \<and> ro_Gw rt = None \<and> ipNetEqual (ro_Dst rt) (keepNet keep) then k
                  else nl_RouteDel nl k rt) (listTable nl cfg k) k"

definition flushTableLocked :: "('k, 'o) netlink \<Rightarrow> pdroute_Config \<Rightarrow> 'k \<Rightarrow> 'k" where
  "flushTableLocked nl cfg = flushTableExceptLocked nl cfg ZeroPrefix"

definition betterDefault :: "'o route \<Rightarrow> 'o route \<Rightarrow> bool" where
  "betterDefault a b =
     (let aRA = (ro_Protocol a = RTPROT_RA); bRA = (ro_Protocol b = RTPROT_RA)
      in if aRA \<noteq> bRA then aRA else ro_Priority a < ro_Priority b)"

definition mirrorable :: "pdroute_Config \<Rightarrow> int \<Rightarrow> 'o route \<Rightarrow> bool" where
  "mirrorable cfg uplinkIdx rt \<longleftrightarrow>
     \<not> (ro_Table rt = pr_Table cfg \<or> ro_Protocol rt = routeProto) \<and>
     \<not> (ro_LinkIndex rt \<noteq> uplinkIdx \<or> ro_Gw rt = None \<or> \<not> isDefault (ro_Dst rt))"

fun bestDefault :: "pdroute_Config \<Rightarrow> int \<Rightarrow> 'o route list \<Rightarrow> 'o route option \<Rightarrow> 'o route option" where
  "bestDefault cfg uplinkIdx [] best = best"
| "bestDefault cfg uplinkIdx (rt # routes) best =
     bestDefault cfg uplinkIdx routes
       (if mirrorable cfg uplinkIdx rt
        then (case best of
                None \<Rightarrow> Some rt
              | Some b \<Rightarrow> if betterDefault rt b then Some rt else best)
        else best)"

definition removeDefaultLocked :: "('k, 'o) netlink \<Rightarrow> pdroute_Config \<Rightarrow> 'k \<Rightarrow> 'k" where
  "removeDefaultLocked nl cfg k =
     fold (\<lambda>rt k. if ro_Gw rt = None \<or> \<not> isDefault (ro_Dst rt) then k
                  else nl_RouteDel nl k rt) (listTable nl cfg k) k"

definition syncDefaultLocked :: "('k, 'o) netlink \<Rightarrow> Routes \<Rightarrow> 'k \<Rightarrow> 'k" where
  "syncDefaultLocked nl r k =
     (let cfg = rr_cfg r
      in if \<not> PfxIsValid (rr_prefix r) then k
         else
           case nl_LinkByName nl k (pr_Uplink cfg) of
             None \<Rightarrow> removeDefaultLocked nl cfg k
           | Some uplinkIdx \<Rightarrow>
               (case nl_RouteList nl k RT_TABLE_UNSPEC of
                  None \<Rightarrow> k
                | Some routes \<Rightarrow>
                    (case bestDefault cfg uplinkIdx routes None of
                       None \<Rightarrow> removeDefaultLocked nl cfg k
                     | Some best \<Rightarrow>
                         nl_RouteReplace nl k
                           \<lparr>ro_Dst = Some defaultDst, ro_Gw = ro_Gw best,
                              ro_LinkIndex = uplinkIdx, ro_Table = pr_Table cfg,
                              ro_Protocol = routeProto, ro_Priority = 1024,
                              ro_other = nl_zeroOther nl\<rparr>)))"

text \<open>One round of \<^verbatim>\<open>mirrorLoop\<close>.\<close>

definition mirrorRound :: "('k, 'o) netlink \<Rightarrow> Routes \<Rightarrow> 'k host \<Rightarrow> 'k host" where
  "mirrorRound nl r h =
     (if PfxIsValid (rr_prefix r) then on_kernel (syncDefaultLocked nl r) h else h)"

definition ensureStartedLocked :: "('k, 'o) netlink \<Rightarrow> Routes \<times> 'k host \<Rightarrow> Routes \<times> 'k host" where
  "ensureStartedLocked nl = (\<lambda>(r, h).
     if rr_started r \<or> rr_stopped r then (r, h)
     else
       (let r = r\<lparr>rr_started := True\<rparr>; cfg = rr_cfg r;
            h = on_kernel (wipeRulesLocked nl cfg ZeroPrefix) h;
            h = on_kernel (flushTableLocked nl cfg) h;
            h = on_sysctls (\<lambda>wr. acquireAcceptRA wr (pr_Uplink cfg)) h;
            h = on_sysctls (\<lambda>wr. acquireForwarding wr (pr_Uplink cfg)) h;
            h = on_sysctls (\<lambda>wr. acquireForwarding wr (pr_Iface cfg)) h
        in (r, h)))"

definition Start :: "('k, 'o) netlink \<Rightarrow> Routes \<times> 'k host \<Rightarrow> Routes \<times> 'k host" where
  "Start nl rh = ensureStartedLocked nl rh"

definition subnetRoute :: "('k, 'o) netlink \<Rightarrow> pdroute_Config \<Rightarrow> int \<Rightarrow> prefix \<Rightarrow> 'o route" where
  "subnetRoute nl cfg idx prefix =
     \<lparr>ro_Dst = Some (prefixToIPNet prefix), ro_Gw = None, ro_LinkIndex = idx,
        ro_Table = pr_Table cfg, ro_Protocol = routeProto, ro_Priority = 0,
        ro_other = nl_zeroOther nl\<rparr>"

definition installKernel :: "('k, 'o) netlink \<Rightarrow> Routes \<Rightarrow> prefix \<Rightarrow> 'k \<Rightarrow> 'k" where
  "installKernel nl r prefix k =
     (let cfg = rr_cfg r
      in case nl_LinkByName nl k (pr_Iface cfg) of
           None \<Rightarrow> k
         | Some idx \<Rightarrow>
             (let k = nl_RouteReplace nl k (subnetRoute nl cfg idx prefix);
                  k = fold (\<lambda>dir. addRule nl cfg dir prefix) [''from'', ''to''] k;
                  k = wipeRulesLocked nl cfg prefix k;
                  k = flushTableExceptLocked nl cfg prefix k
              in syncDefaultLocked nl r k))"

definition Install :: "('k, 'o) netlink \<Rightarrow> prefix \<Rightarrow> Routes \<times> 'k host \<Rightarrow> Routes \<times> 'k host" where
  "Install nl prefix = (\<lambda>(r, h).
     if rr_stopped r then (r, h)
     else
       (let (r, h) = ensureStartedLocked nl (r, h);
            r = r\<lparr>rr_prefix := prefix\<rparr>
        in (r, on_kernel (installKernel nl r prefix) h)))"

definition clearLocked :: "('k, 'o) netlink \<Rightarrow> Routes \<times> 'k host \<Rightarrow> Routes \<times> 'k host" where
  "clearLocked nl = (\<lambda>(r, h).
     if \<not> PfxIsValid (rr_prefix r) \<and> \<not> rr_started r then (r, h)
     else
       (let r = r\<lparr>rr_prefix := ZeroPrefix\<rparr>;
            h = on_kernel (wipeRulesLocked nl (rr_cfg r) ZeroPrefix) h
        in (r, on_kernel (flushTableLocked nl (rr_cfg r)) h)))"

definition Clear :: "('k, 'o) netlink \<Rightarrow> Routes \<times> 'k host \<Rightarrow> Routes \<times> 'k host" where
  "Clear nl rh = clearLocked nl rh"

definition Stop :: "('k, 'o) netlink \<Rightarrow> Routes \<times> 'k host \<Rightarrow> Routes \<times> 'k host" where
  "Stop nl = (\<lambda>(r, h).
     if rr_stopped r then (r, h)
     else
       (let (r, h) = clearLocked nl (r\<lparr>rr_stopped := True\<rparr>, h); cfg = rr_cfg r
        in if rr_started r
           then (r, on_sysctls (\<lambda>wr. releaseAcceptRA wr (pr_Uplink cfg))
                      (on_sysctls (\<lambda>wr. releaseForwarding wr (pr_Uplink cfg))
                        (on_sysctls (\<lambda>wr. releaseForwarding wr (pr_Iface cfg)) h)))
           else (r, h)))"

section \<open>Several segments and the settings they share\<close>

definition needs :: "Routes \<Rightarrow> setting list" where
  "needs r = [AcceptRA (pr_Uplink (rr_cfg r)), Forwarding (pr_Uplink (rr_cfg r)), Forwarding (pr_Iface (rr_cfg r))]"

definition active :: "Routes \<Rightarrow> bool" where
  "active r \<longleftrightarrow> rr_started r \<and> \<not> rr_stopped r"

lemmas setting_ops =
  takeSetting_def dropSetting_def acquireAcceptRA_def acquireForwarding_def
  releaseAcceptRA_def releaseForwarding_def

lemma host_simps [simp]:
  "ho_sysctls (on_kernel f h) = ho_sysctls h" "ho_writable (on_kernel f h) = ho_writable h"
  "ho_kernel (on_kernel f h) = f (ho_kernel h)" "ho_kernel (on_sysctls g h) = ho_kernel h"
  "ho_sysctls (on_sysctls g h) = g (ho_writable h) (ho_sysctls h)"
  "ho_writable (on_sysctls g h) = ho_writable h"
  by (simp_all add: on_kernel_def on_sysctls_def)

lemma ensureStarted_settings:
  assumes "ensureStartedLocked nl (r, h) = (r', h')"
  shows "rr_cfg r' = rr_cfg r \<and> rr_stopped r' = rr_stopped r \<and> ho_writable h' = ho_writable h \<and>
    (rr_started r' \<longleftrightarrow> rr_started r \<or> \<not> rr_stopped r) \<and>
    ho_sysctls h' = (if \<not> active r \<and> active r' then fold (takeSetting (ho_writable h)) (needs r) (ho_sysctls h)
                     else ho_sysctls h)"
  using assms
  by (auto simp: ensureStartedLocked_def Let_def active_def needs_def setting_ops split: if_splits)

lemma clearLocked_settings:
  assumes "clearLocked nl (r, h) = (r', h')"
  shows "rr_cfg r' = rr_cfg r \<and> rr_stopped r' = rr_stopped r \<and> rr_started r' = rr_started r \<and>
    ho_writable h' = ho_writable h \<and> ho_sysctls h' = ho_sysctls h"
  using assms by (auto simp: clearLocked_def Let_def split: if_splits)

lemma Stop_settings:
  assumes "Stop nl (r, h) = (r', h')"
  shows "rr_cfg r' = rr_cfg r \<and> \<not> active r' \<and> rr_stopped r' \<and> ho_writable h' = ho_writable h \<and>
    ho_sysctls h' = (if active r then fold (dropSetting (ho_writable h)) (rev (needs r)) (ho_sysctls h)
                     else ho_sysctls h)"
proof (cases "rr_stopped r")
  case True
  then show ?thesis using assms by (simp add: Stop_def active_def)
next
  case False
  obtain r1 h1 where c: "clearLocked nl (r\<lparr>rr_stopped := True\<rparr>, h) = (r1, h1)" by fastforce
  then show ?thesis
    using assms False clearLocked_settings [OF c]
    by (auto simp: Stop_def Let_def active_def needs_def setting_ops split: if_splits)
qed

text \<open>The segments of one process: any of them is started, gets or loses a prefix, mirrors the
  default route or is stopped, and the kernel changes on its own.\<close>

inductive segments_step :: "('k, 'o) netlink \<Rightarrow> Routes list \<times> 'k host \<Rightarrow> Routes list \<times> 'k host \<Rightarrow> bool"
  for nl where
  Start: "i < length rs \<Longrightarrow> Start nl (rs ! i, h) = (r, h') \<Longrightarrow> segments_step nl (rs, h) (rs[i := r], h')"
| Install: "i < length rs \<Longrightarrow> Install nl p (rs ! i, h) = (r, h') \<Longrightarrow> segments_step nl (rs, h) (rs[i := r], h')"
| Clear: "i < length rs \<Longrightarrow> Clear nl (rs ! i, h) = (r, h') \<Longrightarrow> segments_step nl (rs, h) (rs[i := r], h')"
| Mirror: "i < length rs \<Longrightarrow> segments_step nl (rs, h) (rs, mirrorRound nl (rs ! i) h)"
| Stop: "i < length rs \<Longrightarrow> Stop nl (rs ! i, h) = (r, h') \<Longrightarrow> segments_step nl (rs, h) (rs[i := r], h')"
| World: "segments_step nl (rs, h) (rs, h\<lparr>ho_kernel := k\<rparr>)"

definition contribution :: "setting \<Rightarrow> Routes \<Rightarrow> nat" where
  "contribution n r = (if active r then count_list (needs r) n else 0)"

definition demand :: "setting \<Rightarrow> Routes list \<Rightarrow> nat" where
  "demand n rs = sum_list (map (contribution n) rs)"

lemma demand_update:
  assumes "i < length rs"
  shows "demand n (rs[i := r]) + contribution n (rs ! i) = demand n rs + contribution n r"
  using assms elem_le_sum_list [of i "map (contribution n) rs"]
  by (simp add: demand_def map_update sum_list_update)

definition segments_ok :: "(setting \<Rightarrow> string) \<Rightarrow> setting \<Rightarrow> Routes list \<times> 'k host \<Rightarrow> bool" where
  "segments_ok v n = (\<lambda>(rs, h).
     (\<forall>m. refs (settingPath m) (ho_sysctls h) = int (demand m rs)) \<and>
     settingSound (ho_writable h) v n (ho_sysctls h))"

text \<open>What one operation on a segment does to the settings.\<close>

definition settings_effect :: "Routes \<times> 'k host \<Rightarrow> Routes \<times> 'k host \<Rightarrow> bool" where
  "settings_effect = (\<lambda>(r, h) (r', h').
     ho_writable h' = ho_writable h \<and>
     (ho_sysctls h' = ho_sysctls h \<and> (\<forall>n. contribution n r' = contribution n r) \<or>
      ho_sysctls h' = fold (takeSetting (ho_writable h)) (needs r) (ho_sysctls h) \<and> \<not> active r \<and>
        (\<forall>n. contribution n r' = count_list (needs r) n) \<or>
      ho_sysctls h' = fold (dropSetting (ho_writable h)) (rev (needs r)) (ho_sysctls h) \<and> active r \<and>
        (\<forall>n. contribution n r' = 0)))"

lemma contribution_cong:
  "active r' = active r \<Longrightarrow> rr_cfg r' = rr_cfg r \<Longrightarrow> contribution n r' = contribution n r"
  by (simp add: contribution_def needs_def)

lemma settings_effect_ensureStarted:
  assumes "ensureStartedLocked nl (r, h) = (r', h')"
  shows "settings_effect (r, h) (r', h')"
  using ensureStarted_settings [OF assms] contribution_cong [of r' r]
  by (cases "active r"; cases "active r'")
    (auto simp: settings_effect_def contribution_def [of _ r'] contribution_def [of _ r] needs_def active_def)

lemma settings_effect_Install:
  assumes "Install nl p (r, h) = (r', h')"
  shows "settings_effect (r, h) (r', h')"
proof (cases "rr_stopped r")
  case True
  then show ?thesis using assms by (simp add: Install_def settings_effect_def)
next
  case False
  obtain r1 h1 where e: "ensureStartedLocked nl (r, h) = (r1, h1)" by fastforce
  have r': "r' = r1\<lparr>rr_prefix := p\<rparr>" "h' = on_kernel (installKernel nl (r1\<lparr>rr_prefix := p\<rparr>) p) h1"
    using assms False e by (auto simp: Install_def Let_def)
  have "contribution n r' = contribution n r1" for n
    by (rule contribution_cong) (simp_all add: r' active_def)
  then show ?thesis
    using settings_effect_ensureStarted [OF e] by (simp add: settings_effect_def r'(2))
qed

lemma settings_effect_Clear:
  assumes "Clear nl (r, h) = (r', h')"
  shows "settings_effect (r, h) (r', h')"
  using clearLocked_settings [OF assms [unfolded Clear_def]] contribution_cong [of r' r]
  by (simp add: settings_effect_def active_def)

lemma settings_effect_Stop:
  assumes "Stop nl (r, h) = (r', h')"
  shows "settings_effect (r, h) (r', h')"
  using Stop_settings [OF assms] by (auto simp: settings_effect_def contribution_def active_def)

lemma segments_ok_effect:
  assumes "segments_ok v n (rs, h)" "i < length rs" "settings_effect (rs ! i, h) (r, h')"
  shows "segments_ok v n (rs[i := r], h')"
proof -
  let ?s = "ho_sysctls h" and ?wr = "ho_writable h"
  have ok: "refs (settingPath m) ?s = int (demand m rs)" "settingSound ?wr v n ?s" for m
    using assms(1) by (auto simp: segments_ok_def)
  note upd = demand_update [OF assms(2)]
  have le: "contribution m (rs ! i) \<le> demand m rs" for m
    using elem_le_sum_list [of i "map (contribution m) rs"] assms(2)
    by (simp add: demand_def)
  from assms(3) consider
      (same) "ho_sysctls h' = ?s" "\<And>n. contribution n r = contribution n (rs ! i)"
    | (took) "ho_sysctls h' = fold (takeSetting ?wr) (needs (rs ! i)) ?s" "\<not> active (rs ! i)"
        "\<And>n. contribution n r = count_list (needs (rs ! i)) n"
    | (dropped) "ho_sysctls h' = fold (dropSetting ?wr) (rev (needs (rs ! i))) ?s" "active (rs ! i)"
        "\<And>n. contribution n r = 0"
    by (auto simp: settings_effect_def)
  then have "refs (settingPath m) (ho_sysctls h') = int (demand m (rs[i := r])) \<and>
    settingSound ?wr v n (ho_sysctls h')" for m
  proof cases
    case same
    then show ?thesis using ok(1) [of m] ok(2) upd [of m r] by simp
  next
    case took
    then show ?thesis
      using ok(1) [of m] ok(2) upd [of m r] sy.users_takes [where wr = ?wr and n = m and ns = "needs (rs ! i)" and s = ?s]
        sy.sound_takes [where wr = ?wr and v = v and n = n and ns = "needs (rs ! i)" and s = ?s]
      by (simp add: contribution_def)
  next
    case dropped
    have "int (count_list (rev (needs (rs ! i))) q) \<le> refs (settingPath q) ?s" for q
      using ok(1) [of q] le [of q] dropped(2) by (simp add: contribution_def)
    then show ?thesis
      using dropped ok(1) [of m] ok(2) upd [of m r] le [of m]
        sy.users_drops [where wr = ?wr and n = m and ns = "rev (needs (rs ! i))" and s = ?s]
        sy.sound_drops [where wr = ?wr and v = v and n = n and ns = "rev (needs (rs ! i))" and s = ?s]
      by (simp add: contribution_def)
  qed
  then show ?thesis using assms(3) by (simp add: segments_ok_def settings_effect_def)
qed

lemma segments_ok_step:
  assumes "segments_step nl st st'" "segments_ok v n st"
  shows "segments_ok v n st'"
  using assms
proof (induction rule: segments_step.induct)
  case (Start i rs h r h')
  then show ?case by (auto simp: Start_def intro: segments_ok_effect settings_effect_ensureStarted)
next
  case (Mirror i rs h)
  then show ?case by (auto simp: segments_ok_def mirrorRound_def)
next
  case (World rs h k)
  then show ?case by (simp add: segments_ok_def)
qed (auto intro: segments_ok_effect settings_effect_Install settings_effect_Clear settings_effect_Stop)

lemma segments_ok_run:
  "(segments_step nl)\<^sup>*\<^sup>* st st' \<Longrightarrow> segments_ok v n st \<Longrightarrow> segments_ok v n st'"
  by (induction rule: rtranclp_induct) (auto intro: segments_ok_step)

section \<open>What the netlink package promises\<close>

text \<open>The rules and routes of the kernel, as the package lists them.\<close>

definition rulesOf :: "('k, 'o) netlink \<Rightarrow> 'k \<Rightarrow> 'o rule set" where
  "rulesOf nl k = (\<lambda>ru. ru\<lparr>ru_Family := FAMILY_V6\<rparr>) ` set (the (nl_RuleList nl k))"

definition routesOf :: "('k, 'o) netlink \<Rightarrow> 'k \<Rightarrow> 'o route set" where
  "routesOf nl k = set (the (nl_RouteList nl k RT_TABLE_UNSPEC))"

definition sameDst :: "ipnet option \<Rightarrow> ipnet option \<Rightarrow> bool" where
  "sameDst a b \<longleftrightarrow> isDefault a \<and> isDefault b \<or> ipNetEqual a b"

text \<open>Listing succeeds; a listing of one table is the part of the full listing with that table. A
  fresh rule selects nothing. Adding a rule with a proper source or destination makes it
  listed, or it was listed already; deleting removes exactly the given entry; replacing a
  route makes it listed and removes at most routes of the same table and destination. No
  operation on rules changes routes or links, and conversely.\<close>

definition netlink_lists :: "('k, 'o) netlink \<Rightarrow> bool" where
  "netlink_lists nl \<longleftrightarrow>
     (\<forall>k. nl_RuleList nl k \<noteq> None) \<and>
     (\<forall>k t. \<exists>routes. nl_RouteList nl k t = Some routes \<and>
        (t \<noteq> RT_TABLE_UNSPEC \<longrightarrow> set routes = {rt \<in> routesOf nl k. ro_Table rt = t})) \<and>
     ru_Src (nl_NewRule nl) = None \<and> ru_Dst (nl_NewRule nl) = None"

definition netlink_rules :: "('k, 'o) netlink \<Rightarrow> bool" where
  "netlink_rules nl \<longleftrightarrow>
     (\<forall>k ru. ru_Family ru = FAMILY_V6 \<longrightarrow>
        (\<forall>n. ru_Src ru = Some n \<or> ru_Dst ru = Some n \<longrightarrow> \<not> isDefault (Some n)) \<longrightarrow>
        (\<exists>x. rulesOf nl (nl_RuleAdd nl k ru) = insert (ru\<lparr>ru_other := x\<rparr>) (rulesOf nl k))) \<and>
     (\<forall>k ru. ru_Family ru = FAMILY_V6 \<longrightarrow> rulesOf nl (nl_RuleDel nl k ru) = rulesOf nl k - {ru})"

definition netlink_routes :: "('k, 'o) netlink \<Rightarrow> bool" where
  "netlink_routes nl \<longleftrightarrow>
     (\<forall>k rt. \<exists>x d D. sameDst d (ro_Dst rt) \<and>
        D \<subseteq> {q. ro_Table q = ro_Table rt \<and> sameDst (ro_Dst q) (ro_Dst rt)} \<and>
        routesOf nl (nl_RouteReplace nl k rt) =
          insert (rt\<lparr>ro_Dst := d, ro_other := x\<rparr>) (routesOf nl k - D)) \<and>
     (\<forall>k rt. routesOf nl (nl_RouteDel nl k rt) = routesOf nl k - {rt})"

definition netlink_frame :: "('k, 'o) netlink \<Rightarrow> bool" where
  "netlink_frame nl \<longleftrightarrow>
     (\<forall>k ru. routesOf nl (nl_RuleAdd nl k ru) = routesOf nl k \<and>
        routesOf nl (nl_RuleDel nl k ru) = routesOf nl k) \<and>
     (\<forall>k rt. rulesOf nl (nl_RouteReplace nl k rt) = rulesOf nl k \<and>
        rulesOf nl (nl_RouteDel nl k rt) = rulesOf nl k) \<and>
     (\<forall>k ru rt. nl_LinkByName nl (nl_RuleAdd nl k ru) = nl_LinkByName nl k \<and>
        nl_LinkByName nl (nl_RuleDel nl k ru) = nl_LinkByName nl k \<and>
        nl_LinkByName nl (nl_RouteReplace nl k rt) = nl_LinkByName nl k \<and>
        nl_LinkByName nl (nl_RouteDel nl k rt) = nl_LinkByName nl k)"

definition netlink_ok :: "('k, 'o) netlink \<Rightarrow> bool" where
  "netlink_ok nl \<longleftrightarrow> netlink_lists nl \<and> netlink_rules nl \<and> netlink_routes nl \<and> netlink_frame nl"

lemma netlink_list:
  assumes "netlink_ok nl"
  shows "nl_RuleList nl k \<noteq> None"
    and "\<exists>routes. nl_RouteList nl k t = Some routes \<and>
           (t \<noteq> RT_TABLE_UNSPEC \<longrightarrow> set routes = {rt \<in> routesOf nl k. ro_Table rt = t})"
    and "ru_Src (nl_NewRule nl) = None" "ru_Dst (nl_NewRule nl) = None"
  using assms unfolding netlink_ok_def netlink_lists_def by blast+

lemma netlink_RuleAdd:
  assumes "netlink_ok nl" "ru_Family ru = FAMILY_V6"
    "\<And>n. ru_Src ru = Some n \<or> ru_Dst ru = Some n \<Longrightarrow> \<not> isDefault (Some n)"
  obtains x where "rulesOf nl (nl_RuleAdd nl k ru) = insert (ru\<lparr>ru_other := x\<rparr>) (rulesOf nl k)"
  using assms unfolding netlink_ok_def netlink_rules_def by blast

lemma netlink_RuleDel:
  "netlink_ok nl \<Longrightarrow> ru_Family ru = FAMILY_V6 \<Longrightarrow> rulesOf nl (nl_RuleDel nl k ru) = rulesOf nl k - {ru}"
  unfolding netlink_ok_def netlink_rules_def by simp

lemma netlink_RouteReplace:
  assumes "netlink_ok nl"
  obtains x d D where "sameDst d (ro_Dst rt)"
    "D \<subseteq> {q. ro_Table q = ro_Table rt \<and> sameDst (ro_Dst q) (ro_Dst rt)}"
    "routesOf nl (nl_RouteReplace nl k rt) = insert (rt\<lparr>ro_Dst := d, ro_other := x\<rparr>) (routesOf nl k - D)"
  using assms unfolding netlink_ok_def netlink_routes_def by blast

lemma netlink_RouteDel: "netlink_ok nl \<Longrightarrow> routesOf nl (nl_RouteDel nl k rt) = routesOf nl k - {rt}"
  unfolding netlink_ok_def netlink_routes_def by simp

lemma netlink_frames:
  assumes "netlink_ok nl"
  shows "routesOf nl (nl_RuleAdd nl k ru) = routesOf nl k"
    and "routesOf nl (nl_RuleDel nl k ru) = routesOf nl k"
    and "rulesOf nl (nl_RouteReplace nl k rt) = rulesOf nl k"
    and "rulesOf nl (nl_RouteDel nl k rt) = rulesOf nl k"
    and "nl_LinkByName nl (nl_RuleAdd nl k ru) = nl_LinkByName nl k"
    and "nl_LinkByName nl (nl_RuleDel nl k ru) = nl_LinkByName nl k"
    and "nl_LinkByName nl (nl_RouteReplace nl k rt) = nl_LinkByName nl k"
    and "nl_LinkByName nl (nl_RouteDel nl k rt) = nl_LinkByName nl k"
  using assms unfolding netlink_ok_def netlink_frame_def by simp_all

section \<open>Operations on the table\<close>

text \<open>Each clean-up walks a listing and deletes the entries that are not spared.\<close>

lemma fold_delete:
  assumes "\<And>x k. S (del k x) = S k - {f x}"
  shows "S (fold (\<lambda>x k. if P x then k else del k x) xs k) = S k - f ` {x \<in> set xs. \<not> P x}"
proof (induction xs arbitrary: k)
  case (Cons x xs)
  then show ?case by (cases "P x") (auto simp: assms)
qed simp

lemma fold_keeps:
  assumes "\<And>x k. T (del k x) = T k"
  shows "T (fold (\<lambda>x k. if P x then k else del k x) xs k) = T k"
  by (induction xs arbitrary: k) (simp_all add: assms)

lemma image_minus_spared:
  assumes "\<And>x. P (f x) = P x"
  shows "f ` A - f ` {x \<in> A. \<not> P x} = {y \<in> f ` A. P y}"
proof (rule set_eqI)
  fix y
  show "y \<in> f ` A - f ` {x \<in> A. \<not> P x} \<longleftrightarrow> y \<in> {y \<in> f ` A. P y}"
    using assms by (cases "P y") fastforce+
qed

lemma spareRule_Family [simp]:
  "spareRule cfg keep (ru\<lparr>ru_Family := FAMILY_V6\<rparr>) = spareRule cfg keep ru"
  by (simp add: spareRule_def)

lemma wipeRules_effect:
  assumes ok: "netlink_ok nl"
  shows "rulesOf nl (wipeRulesLocked nl cfg keep k) = {ru \<in> rulesOf nl k. spareRule cfg (keepNet keep) ru}"
    and "routesOf nl (wipeRulesLocked nl cfg keep k) = routesOf nl k"
    and "nl_LinkByName nl (wipeRulesLocked nl cfg keep k) = nl_LinkByName nl k"
proof -
  obtain rules where l: "nl_RuleList nl k = Some rules" using netlink_list(1) [OF ok] by blast
  let ?f = "\<lambda>ru. ru\<lparr>ru_Family := FAMILY_V6\<rparr>"
  have r: "rulesOf nl k = ?f ` set rules" unfolding rulesOf_def l by simp
  let ?P = "spareRule cfg (keepNet keep)" and ?del = "\<lambda>k ru. nl_RuleDel nl k (?f ru)"
  have w: "wipeRulesLocked nl cfg keep k = fold (\<lambda>ru k. if ?P ru then k else ?del k ru) rules k"
    unfolding wipeRulesLocked_def l by simp
  have "rulesOf nl (?del k ru) = rulesOf nl k - {?f ru}" for k ru
    by (rule netlink_RuleDel [OF ok]) simp
  from fold_delete [where S = "rulesOf nl" and f = ?f and del = ?del, OF this]
  show "rulesOf nl (wipeRulesLocked nl cfg keep k) = {ru \<in> rulesOf nl k. ?P ru}"
    unfolding w using image_minus_spared [where f = ?f and P = ?P and A = "set rules"] by (simp add: r)
  show "routesOf nl (wipeRulesLocked nl cfg keep k) = routesOf nl k"
    "nl_LinkByName nl (wipeRulesLocked nl cfg keep k) = nl_LinkByName nl k"
    unfolding w by (rule fold_keeps, rule netlink_frames [OF ok])+
qed

lemma set_listTable:
  assumes "netlink_ok nl" "pr_Table cfg \<noteq> RT_TABLE_UNSPEC"
  shows "set (listTable nl cfg k) = {rt \<in> routesOf nl k. ro_Table rt = pr_Table cfg}"
proof -
  obtain routes where "nl_RouteList nl k (pr_Table cfg) = Some routes"
    "set routes = {rt \<in> routesOf nl k. ro_Table rt = pr_Table cfg}"
    using netlink_list(2) [OF assms(1), of k "pr_Table cfg"] assms(2) by blast
  then show ?thesis by (simp add: listTable_def)
qed

definition spareRoute :: "pdroute_Config \<Rightarrow> ipnet option \<Rightarrow> 'o route \<Rightarrow> bool" where
  "spareRoute cfg keep rt \<longleftrightarrow>
     ro_Table rt \<noteq> pr_Table cfg \<or> keep \<noteq> None \<and> ro_Gw rt = None \<and> ipNetEqual (ro_Dst rt) keep"

lemma flushTable_effect:
  assumes ok: "netlink_ok nl" "pr_Table cfg \<noteq> RT_TABLE_UNSPEC"
  shows "routesOf nl (flushTableExceptLocked nl cfg keep k) =
      {rt \<in> routesOf nl k. spareRoute cfg (keepNet keep) rt}"
    and "rulesOf nl (flushTableExceptLocked nl cfg keep k) = rulesOf nl k"
    and "nl_LinkByName nl (flushTableExceptLocked nl cfg keep k) = nl_LinkByName nl k"
proof -
  show "routesOf nl (flushTableExceptLocked nl cfg keep k) =
      {rt \<in> routesOf nl k. spareRoute cfg (keepNet keep) rt}"
    unfolding flushTableExceptLocked_def
    by (subst fold_delete [where f = "\<lambda>x. x"])
      (auto simp: netlink_RouteDel [OF ok(1)] set_listTable [OF ok] spareRoute_def)
  show "rulesOf nl (flushTableExceptLocked nl cfg keep k) = rulesOf nl k"
    "nl_LinkByName nl (flushTableExceptLocked nl cfg keep k) = nl_LinkByName nl k"
    unfolding flushTableExceptLocked_def
    by (rule fold_keeps, simp add: netlink_frames [OF ok(1)])+
qed

lemma removeDefault_effect:
  assumes ok: "netlink_ok nl" "pr_Table cfg \<noteq> RT_TABLE_UNSPEC"
  shows "routesOf nl (removeDefaultLocked nl cfg k) =
      {rt \<in> routesOf nl k. ro_Table rt = pr_Table cfg \<longrightarrow> ro_Gw rt = None \<or> \<not> isDefault (ro_Dst rt)}"
    and "rulesOf nl (removeDefaultLocked nl cfg k) = rulesOf nl k"
proof -
  show "routesOf nl (removeDefaultLocked nl cfg k) =
      {rt \<in> routesOf nl k. ro_Table rt = pr_Table cfg \<longrightarrow> ro_Gw rt = None \<or> \<not> isDefault (ro_Dst rt)}"
    unfolding removeDefaultLocked_def
    by (subst fold_delete [where f = "\<lambda>x. x"])
      (auto simp: netlink_RouteDel [OF ok(1)] set_listTable [OF ok])
  show "rulesOf nl (removeDefaultLocked nl cfg k) = rulesOf nl k"
    unfolding removeDefaultLocked_def by (rule fold_keeps) (simp add: netlink_frames [OF ok(1)])
qed

section \<open>The mirrored default route\<close>

lemma sameDst_default: "sameDst a b \<Longrightarrow> isDefault a = isDefault b"
  by (auto simp: sameDst_def isDefault_def ipNetEqual_def split: option.splits)

lemma isDefault_defaultDst: "isDefault (Some defaultDst)"
  using CIDRMask_Size [of 0] by (simp add: isDefault_def defaultDst_def)

definition proper6 :: "prefix \<Rightarrow> bool" where
  "proper6 p \<longleftrightarrow> Is6 (pfx_addr p) \<and> 0 < pfx_bits p \<and> pfx_bits p \<le> 128"

lemma proper6_valid [simp]: "proper6 p \<Longrightarrow> PfxIsValid p"
  by (simp add: proper6_def PfxIsValid_def)

lemma proper6_not_default: "proper6 p \<Longrightarrow> \<not> isDefault (Some (prefixToIPNet p))"
  using CIDRMask_Size [of "nat (pfx_bits p)"]
  by (auto simp: proper6_def isDefault_def prefixToIPNet_def nat_le_iff)

lemma ipNetEqual_refl [simp]: "ipNetEqual a a"
  by (auto simp: ipNetEqual_def split: option.split)

lemma betterDefault_trans:
  "\<not> betterDefault c b \<Longrightarrow> \<not> betterDefault b a \<Longrightarrow> \<not> betterDefault c a"
  "betterDefault b a \<Longrightarrow> \<not> betterDefault a b"
  by (cases "ro_Protocol a = RTPROT_RA"; cases "ro_Protocol b = RTPROT_RA"; cases "ro_Protocol c = RTPROT_RA";
      simp add: betterDefault_def)+

lemma bestDefault_spec:
  "case bestDefault cfg i rts best of
     None \<Rightarrow> best = None \<and> (\<forall>c \<in> set rts. \<not> mirrorable cfg i c)
   | Some b \<Rightarrow> (best = Some b \<or> b \<in> set rts \<and> mirrorable cfg i b) \<and>
       (\<forall>c. best = Some c \<or> c \<in> set rts \<and> mirrorable cfg i c \<longrightarrow> \<not> betterDefault c b)"
proof (induction rts arbitrary: best)
  case Nil
  then show ?case using betterDefault_trans(2) by (cases best) auto
next
  case (Cons rt rts)
  let ?best = "if mirrorable cfg i rt
    then case best of None \<Rightarrow> Some rt | Some b \<Rightarrow> if betterDefault rt b then Some rt else best else best"
  have b: "best = Some c \<or> c = rt \<and> mirrorable cfg i rt \<Longrightarrow>
      \<exists>b. ?best = Some b \<and> \<not> betterDefault c b" for c
    using betterDefault_trans(2) by (auto split: option.splits)
  show ?case
  proof (cases "bestDefault cfg i rts ?best")
    case None
    then show ?thesis using Cons.IH [of ?best] b [of rt] by (auto split: option.splits if_splits)
  next
    case (Some d)
    have IH: "?best = Some d \<or> d \<in> set rts \<and> mirrorable cfg i d"
      "?best = Some c \<or> c \<in> set rts \<and> mirrorable cfg i c \<Longrightarrow> \<not> betterDefault c d" for c
      using Cons.IH [of ?best] unfolding Some by auto
    have "\<not> betterDefault c d" if "best = Some c \<or> c \<in> set (rt # rts) \<and> mirrorable cfg i c" for c
    proof (cases "c \<in> set rts \<and> mirrorable cfg i c")
      case False
      then have "best = Some c \<or> c = rt \<and> mirrorable cfg i rt" using that by auto
      then obtain e where "?best = Some e" "\<not> betterDefault c e" using b by blast
      then show ?thesis using IH(2) [of e] betterDefault_trans(1) by blast
    qed (use IH in blast)
    moreover have "best = Some d \<or> d \<in> set (rt # rts) \<and> mirrorable cfg i d"
      using IH(1) by (auto split: option.splits if_splits)
    ultimately show ?thesis using Some by simp
  qed
qed

text \<open>\<open>mirrors cfg i best rt\<close>: \<open>rt\<close> is the copy of the uplink's route \<open>best\<close> in the segment's table.\<close>

definition mirrors :: "pdroute_Config \<Rightarrow> int \<Rightarrow> 'o route \<Rightarrow> 'o route \<Rightarrow> bool" where
  "mirrors cfg i best rt \<longleftrightarrow>
     isDefault (ro_Dst rt) \<and> ro_Gw rt = ro_Gw best \<and> ro_LinkIndex rt = i \<and> ro_Table rt = pr_Table cfg \<and>
     ro_Protocol rt = routeProto \<and> ro_Priority rt = 1024"

lemma mirrorable_Gw: "mirrorable cfg i best \<Longrightarrow> ro_Gw best \<noteq> None"
  by (simp add: mirrorable_def)

text \<open>One synchronisation, given the uplink's index: with a usable default route its copy is put in,
  otherwise the copy is taken out.\<close>

lemma syncDefault_cases:
  assumes ok: "netlink_ok nl" "pr_Table (rr_cfg r) \<noteq> RT_TABLE_UNSPEC" "PfxIsValid (rr_prefix r)"
    and link: "nl_LinkByName nl k (pr_Uplink (rr_cfg r)) = Some i"
  obtains (mirrored) best rt D where "best \<in> routesOf nl k" "mirrorable (rr_cfg r) i best"
      "\<forall>c \<in> routesOf nl k. mirrorable (rr_cfg r) i c \<longrightarrow> \<not> betterDefault c best"
      "mirrors (rr_cfg r) i best rt"
      "D \<subseteq> {q. ro_Table q = pr_Table (rr_cfg r) \<and> isDefault (ro_Dst q)}"
      "routesOf nl (syncDefaultLocked nl r k) = insert rt (routesOf nl k - D)"
      "rulesOf nl (syncDefaultLocked nl r k) = rulesOf nl k"
    | (none) "\<forall>c \<in> routesOf nl k. \<not> mirrorable (rr_cfg r) i c"
      "syncDefaultLocked nl r k = removeDefaultLocked nl (rr_cfg r) k"
proof -
  obtain routes where l: "nl_RouteList nl k RT_TABLE_UNSPEC = Some routes"
    using netlink_list(2) [OF ok(1)] by blast
  have rts: "routesOf nl k = set routes" by (simp add: routesOf_def l)
  let ?cfg = "rr_cfg r"
  show thesis
  proof (cases "bestDefault ?cfg i routes None")
    case None
    then show ?thesis
      using none bestDefault_spec [where cfg = ?cfg and i = i and rts = routes and best = None] link ok(3)
      by (simp add: syncDefaultLocked_def Let_def l rts)
  next
    case (Some best)
    let ?rt = "\<lparr>ro_Dst = Some defaultDst, ro_Gw = ro_Gw best, ro_LinkIndex = i, ro_Table = pr_Table ?cfg,
      ro_Protocol = routeProto, ro_Priority = 1024, ro_other = nl_zeroOther nl\<rparr>"
    have s: "syncDefaultLocked nl r k = nl_RouteReplace nl k ?rt"
      using Some link ok(3) by (simp add: syncDefaultLocked_def Let_def l)
    obtain x d D where rep: "sameDst d (ro_Dst ?rt)"
      "D \<subseteq> {q. ro_Table q = ro_Table ?rt \<and> sameDst (ro_Dst q) (ro_Dst ?rt)}"
      "routesOf nl (nl_RouteReplace nl k ?rt) = insert (?rt\<lparr>ro_Dst := d, ro_other := x\<rparr>) (routesOf nl k - D)"
      by (rule netlink_RouteReplace [OF ok(1)])
    have "mirrors ?cfg i best (?rt\<lparr>ro_Dst := d, ro_other := x\<rparr>)"
      using sameDst_default [OF rep(1)] isDefault_defaultDst by (simp add: mirrors_def)
    moreover have "D \<subseteq> {q. ro_Table q = pr_Table ?cfg \<and> isDefault (ro_Dst q)}"
      using rep(2) sameDst_default [of _ "Some defaultDst"] isDefault_defaultDst by auto
    moreover have "best \<in> routesOf nl k" "mirrorable ?cfg i best"
      "\<forall>c \<in> routesOf nl k. mirrorable ?cfg i c \<longrightarrow> \<not> betterDefault c best"
      using bestDefault_spec [where cfg = ?cfg and i = i and rts = routes and best = None]
      unfolding Some rts by auto
    ultimately show ?thesis
      using mirrored [OF _ _ _ _ _ rep(3) [folded s]] netlink_frames(3) [OF ok(1), of k ?rt] s by simp
  qed
qed

lemma syncDefault_effect:
  fixes nl :: "('k, 'o) netlink" and k :: 'k
  assumes ok: "netlink_ok nl" "pr_Table (rr_cfg r) \<noteq> RT_TABLE_UNSPEC"
  defines "k' \<equiv> syncDefaultLocked nl r k"
  shows "rulesOf nl k' = rulesOf nl k"
    and "\<And>rt. ro_Table rt \<noteq> pr_Table (rr_cfg r) \<or> \<not> isDefault (ro_Dst rt) \<Longrightarrow>
           rt \<in> routesOf nl k' \<longleftrightarrow> rt \<in> routesOf nl k"
    and "\<And>rt. rt \<in> routesOf nl k' \<Longrightarrow> rt \<in> routesOf nl k \<or>
           (\<exists>i best. best \<in> routesOf nl k \<and> mirrorable (rr_cfg r) i best \<and> mirrors (rr_cfg r) i best rt)"
proof -
  have "rulesOf nl k' = rulesOf nl k \<and>
    (\<forall>rt. ro_Table rt \<noteq> pr_Table (rr_cfg r) \<or> \<not> isDefault (ro_Dst rt) \<longrightarrow>
       rt \<in> routesOf nl k' \<longleftrightarrow> rt \<in> routesOf nl k) \<and>
    (\<forall>rt. rt \<in> routesOf nl k' \<longrightarrow> rt \<in> routesOf nl k \<or>
       (\<exists>i best. best \<in> routesOf nl k \<and> mirrorable (rr_cfg r) i best \<and> mirrors (rr_cfg r) i best rt))"
    (is "?E k'")
  proof (cases "PfxIsValid (rr_prefix r)")
    case False
    then have "k' = k" by (simp add: k'_def syncDefaultLocked_def Let_def)
    then show ?thesis by simp
  next
    case True
    have removed: "?E (removeDefaultLocked nl (rr_cfg r) k)"
      using removeDefault_effect [OF ok, of k] by auto
    show ?thesis
    proof (cases "nl_LinkByName nl k (pr_Uplink (rr_cfg r))")
      case None
      then have "k' = removeDefaultLocked nl (rr_cfg r) k"
        using True by (simp add: k'_def syncDefaultLocked_def Let_def)
      then show ?thesis using removed by simp
    next
      case (Some i)
      show ?thesis
      proof (cases rule: syncDefault_cases [OF ok True Some, case_names mirrored none])
        case (mirrored best rt D)
        have "rt \<noteq> q" if "ro_Table q \<noteq> pr_Table (rr_cfg r) \<or> \<not> isDefault (ro_Dst q)" for q
          using mirrored(4) that by (auto simp: mirrors_def)
        moreover note m = mirrored [folded k'_def]
        ultimately have "rt' \<in> routesOf nl k' \<longleftrightarrow> rt' \<in> routesOf nl k"
          if "ro_Table rt' \<noteq> pr_Table (rr_cfg r) \<or> \<not> isDefault (ro_Dst rt')" for rt'
          using that m(5,6) by auto
        moreover have "rt' \<in> routesOf nl k \<or> (\<exists>i best. best \<in> routesOf nl k \<and>
            mirrorable (rr_cfg r) i best \<and> mirrors (rr_cfg r) i best rt')" if "rt' \<in> routesOf nl k'" for rt'
          using that m(1,2,4,6) by (cases "rt' = rt") auto
        ultimately show ?thesis using m(7) by simp
      next
        case none
        then show ?thesis using removed by (simp add: k'_def)
      qed
    qed
  qed
  then show "rulesOf nl k' = rulesOf nl k"
    "\<And>rt. ro_Table rt \<noteq> pr_Table (rr_cfg r) \<or> \<not> isDefault (ro_Dst rt) \<Longrightarrow>
           rt \<in> routesOf nl k' \<longleftrightarrow> rt \<in> routesOf nl k"
    "\<And>rt. rt \<in> routesOf nl k' \<Longrightarrow> rt \<in> routesOf nl k \<or>
           (\<exists>i best. best \<in> routesOf nl k \<and> mirrorable (rr_cfg r) i best \<and> mirrors (rr_cfg r) i best rt)"
    by blast+
qed

section \<open>Installing and clearing a prefix\<close>

definition selects :: "pdroute_Config \<Rightarrow> string \<Rightarrow> prefix \<Rightarrow> 'o rule \<Rightarrow> bool" where
  "selects cfg dir p ru \<longleftrightarrow>
     ru_Table ru = pr_Table cfg \<and> ru_Priority ru = pr_RulePriority cfg \<and>
     (ru_Src ru, ru_Dst ru) =
       (if dir = ''from'' then (Some (prefixToIPNet p), None) else (None, Some (prefixToIPNet p)))"

lemma addRule_effect:
  assumes "netlink_ok nl" "proper6 p"
  obtains ru where "selects cfg dir p ru" "rulesOf nl (addRule nl cfg dir p k) = insert ru (rulesOf nl k)"
    "routesOf nl (addRule nl cfg dir p k) = routesOf nl k"
    "nl_LinkByName nl (addRule nl cfg dir p k) = nl_LinkByName nl k"
proof -
  define ru where "ru = (let rule = (nl_NewRule nl)\<lparr>ru_Family := FAMILY_V6, ru_Table := pr_Table cfg,
      ru_Priority := pr_RulePriority cfg\<rparr>
    in if dir = ''from'' then rule\<lparr>ru_Src := Some (prefixToIPNet p)\<rparr> else rule\<lparr>ru_Dst := Some (prefixToIPNet p)\<rparr>)"
  have a: "addRule nl cfg dir p k = nl_RuleAdd nl k ru" by (simp add: addRule_def ru_def Let_def)
  have s: "selects cfg dir p (ru\<lparr>ru_other := x\<rparr>)" "ru_Family ru = FAMILY_V6" for x
    using netlink_list(3,4) [OF assms(1)] by (simp_all add: selects_def ru_def Let_def)
  have "\<not> isDefault (Some n)" if "ru_Src ru = Some n \<or> ru_Dst ru = Some n" for n
    using that s(1) [of undefined] proper6_not_default [OF assms(2)]
    by (auto simp: selects_def split: if_splits)
  then obtain x where "rulesOf nl (nl_RuleAdd nl k ru) = insert (ru\<lparr>ru_other := x\<rparr>) (rulesOf nl k)"
    by (rule netlink_RuleAdd [OF assms(1) s(2)])
  then show thesis using that s(1) netlink_frames(1,5) [OF assms(1)] unfolding a by blast
qed

lemma selects_spared: "selects cfg dir p ru \<Longrightarrow> spareRule cfg (Some (prefixToIPNet p)) ru"
  by (auto simp: selects_def spareRule_def split: if_splits)

lemma installKernel_effect:
  assumes ok: "netlink_ok nl" "pr_Table (rr_cfg r) \<noteq> RT_TABLE_UNSPEC" and p: "proper6 p"
    and link: "nl_LinkByName nl k (pr_Iface (rr_cfg r)) = Some i"
  defines "k' \<equiv> installKernel nl r p k" and "net \<equiv> Some (prefixToIPNet p)" and "T \<equiv> pr_Table (rr_cfg r)"
  shows "\<exists>ru \<in> rulesOf nl k'. selects (rr_cfg r) ''from'' p ru" "\<exists>ru \<in> rulesOf nl k'. selects (rr_cfg r) ''to'' p ru"
    and "\<And>ru. ru \<in> rulesOf nl k' \<Longrightarrow> ru_Table ru = T \<Longrightarrow> ipNetEqual (ru_Src ru) net \<or> ipNetEqual (ru_Dst ru) net"
    and "{ru \<in> rulesOf nl k'. ru_Table ru \<noteq> T} = {ru \<in> rulesOf nl k. ru_Table ru \<noteq> T}"
    and "\<exists>rt \<in> routesOf nl k'. ro_Table rt = T \<and> ro_Gw rt = None \<and> ipNetEqual (ro_Dst rt) net \<and> ro_LinkIndex rt = i"
    and "\<And>rt. rt \<in> routesOf nl k' \<Longrightarrow> ro_Table rt = T \<Longrightarrow> ro_Gw rt = None \<and> ipNetEqual (ro_Dst rt) net \<or>
      (\<exists>j best. best \<in> routesOf nl k \<and> mirrorable (rr_cfg r) j best \<and> mirrors (rr_cfg r) j best rt)"
    and "{rt \<in> routesOf nl k'. ro_Table rt \<noteq> T} = {rt \<in> routesOf nl k. ro_Table rt \<noteq> T}"
proof -
  let ?cfg = "rr_cfg r" and ?sub = "subnetRoute nl (rr_cfg r) i p"
  define k1 where "k1 = nl_RouteReplace nl k ?sub"
  define k2 where "k2 = addRule nl ?cfg ''to'' p (addRule nl ?cfg ''from'' p k1)"
  define k3 where "k3 = wipeRulesLocked nl ?cfg p k2"
  define k4 where "k4 = flushTableExceptLocked nl ?cfg p k3"
  have k': "k' = syncDefaultLocked nl r k4"
    using link by (simp add: k'_def installKernel_def Let_def k1_def k2_def k3_def k4_def)
  have net: "keepNet p = net" using p by (simp add: keepNet_def net_def)
  obtain x d D where sub: "sameDst d (ro_Dst ?sub)"
    "D \<subseteq> {q. ro_Table q = ro_Table ?sub \<and> sameDst (ro_Dst q) (ro_Dst ?sub)}"
    "routesOf nl k1 = insert (?sub\<lparr>ro_Dst := d, ro_other := x\<rparr>) (routesOf nl k - D)"
    unfolding k1_def by (rule netlink_RouteReplace [OF ok(1)])
  have d: "ipNetEqual d net" "\<not> isDefault d"
    using sub(1) sameDst_default [OF sub(1)] proper6_not_default [OF p]
    by (auto simp: sameDst_def subnetRoute_def net_def)
  obtain f where f: "selects ?cfg ''from'' p f" "rulesOf nl (addRule nl ?cfg ''from'' p k1) = insert f (rulesOf nl k1)"
    "routesOf nl (addRule nl ?cfg ''from'' p k1) = routesOf nl k1"
    by (rule addRule_effect [OF ok(1) p])
  obtain t where t: "selects ?cfg ''to'' p t" "rulesOf nl k2 = insert t (insert f (rulesOf nl k1))"
    "routesOf nl k2 = routesOf nl k1"
    using addRule_effect [OF ok(1) p, of ?cfg "''to''" "addRule nl ?cfg ''from'' p k1"]
    unfolding k2_def f(2,3) by metis
  note wipe = wipeRules_effect [OF ok(1), of ?cfg p k2, folded k3_def, unfolded net]
  note flush = flushTable_effect [OF ok, of p k3, folded k4_def, unfolded net]
  note sync = syncDefault_effect [OF ok, where k = k4, folded k']
  have rules: "rulesOf nl k' = {ru \<in> insert t (insert f (rulesOf nl k)). spareRule ?cfg net ru}"
    using sync(1) flush(2) wipe(1) t(2) netlink_frames(3) [OF ok(1), of k ?sub, folded k1_def] by simp
  have sel: "ru_Table t = T" "ru_Table f = T" using t(1) f(1) by (simp_all add: selects_def T_def)
  show "\<exists>ru \<in> rulesOf nl k'. selects ?cfg ''from'' p ru" "\<exists>ru \<in> rulesOf nl k'. selects ?cfg ''to'' p ru"
    using rules f(1) t(1) selects_spared [OF f(1)] selects_spared [OF t(1)] unfolding net_def by auto
  show "\<And>ru. ru \<in> rulesOf nl k' \<Longrightarrow> ru_Table ru = T \<Longrightarrow> ipNetEqual (ru_Src ru) net \<or> ipNetEqual (ru_Dst ru) net"
    using rules by (auto simp: spareRule_def T_def)
  show "{ru \<in> rulesOf nl k'. ru_Table ru \<noteq> T} = {ru \<in> rulesOf nl k. ru_Table ru \<noteq> T}"
    using rules sel by (auto simp: spareRule_def T_def)
  have r4: "routesOf nl k4 = {rt \<in> insert (?sub\<lparr>ro_Dst := d, ro_other := x\<rparr>) (routesOf nl k - D). spareRoute ?cfg net rt}"
    using flush(1) wipe(2) t(3) sub(3) by simp
  have subT: "ro_Table ?sub = T" by (simp add: subnetRoute_def T_def)
  have others4: "rt \<in> routesOf nl k4 \<longleftrightarrow> rt \<in> routesOf nl k" if "ro_Table rt \<noteq> T" for rt
    using that sub(2) subT unfolding r4 by (auto simp: spareRoute_def T_def)
  have "?sub\<lparr>ro_Dst := d, ro_other := x\<rparr> \<in> routesOf nl k'"
    using sync(2) [where rt = "?sub\<lparr>ro_Dst := d, ro_other := x\<rparr>"] d
    by (simp add: r4 spareRoute_def net_def subnetRoute_def)
  moreover have "ro_Table (?sub\<lparr>ro_Dst := d, ro_other := x\<rparr>) = T \<and> ro_Gw (?sub\<lparr>ro_Dst := d, ro_other := x\<rparr>) = None \<and>
    ipNetEqual (ro_Dst (?sub\<lparr>ro_Dst := d, ro_other := x\<rparr>)) net \<and> ro_LinkIndex (?sub\<lparr>ro_Dst := d, ro_other := x\<rparr>) = i"
    using d(1) subT by (simp add: subnetRoute_def)
  ultimately show "\<exists>rt \<in> routesOf nl k'. ro_Table rt = T \<and> ro_Gw rt = None \<and> ipNetEqual (ro_Dst rt) net \<and> ro_LinkIndex rt = i"
    by blast
  show "ro_Gw rt = None \<and> ipNetEqual (ro_Dst rt) net \<or>
      (\<exists>j best. best \<in> routesOf nl k \<and> mirrorable (rr_cfg r) j best \<and> mirrors (rr_cfg r) j best rt)"
    if rt: "rt \<in> routesOf nl k'" "ro_Table rt = T" for rt
  proof (cases "rt \<in> routesOf nl k4")
    case True
    then show ?thesis using rt(2) unfolding r4 by (simp add: spareRoute_def T_def)
  next
    case False
    then obtain j best where b: "best \<in> routesOf nl k4" "mirrorable ?cfg j best" "mirrors ?cfg j best rt"
      using sync(3) [OF rt(1)] by blast
    then have "best \<in> routesOf nl k" using others4 [of best] by (simp add: mirrorable_def T_def)
    then show ?thesis using b by blast
  qed
  show "{rt \<in> routesOf nl k'. ro_Table rt \<noteq> T} = {rt \<in> routesOf nl k. ro_Table rt \<noteq> T}"
    using others4 sync(2) unfolding T_def by blast
qed

text \<open>Removing everything of the table, as a start after a crash and \<open>Clear\<close> do.\<close>

lemma wipe_all_effect:
  fixes nl :: "('k, 'o) netlink" and k :: 'k
  assumes ok: "netlink_ok nl" "pr_Table cfg \<noteq> RT_TABLE_UNSPEC"
  defines "k' \<equiv> flushTableLocked nl cfg (wipeRulesLocked nl cfg ZeroPrefix k)"
  shows "rulesOf nl k' = {ru \<in> rulesOf nl k. ru_Table ru \<noteq> pr_Table cfg}"
    and "routesOf nl k' = {rt \<in> routesOf nl k. ro_Table rt \<noteq> pr_Table cfg}"
    and "nl_LinkByName nl k' = nl_LinkByName nl k"
  using wipeRules_effect [OF ok(1), of cfg ZeroPrefix k]
    flushTable_effect [OF ok, of ZeroPrefix "wipeRulesLocked nl cfg ZeroPrefix k"]
  by (simp_all add: k'_def flushTableLocked_def spareRule_def spareRoute_def keepNet_def)

lemma ensureStarted_kernel:
  assumes ok: "netlink_ok nl" "pr_Table (rr_cfg r) \<noteq> RT_TABLE_UNSPEC"
    and e: "ensureStartedLocked nl (r, h) = (r1, h1)"
  shows "{ru \<in> rulesOf nl (ho_kernel h1). ru_Table ru \<noteq> pr_Table (rr_cfg r)} =
      {ru \<in> rulesOf nl (ho_kernel h). ru_Table ru \<noteq> pr_Table (rr_cfg r)}"
    and "{rt \<in> routesOf nl (ho_kernel h1). ro_Table rt \<noteq> pr_Table (rr_cfg r)} =
      {rt \<in> routesOf nl (ho_kernel h). ro_Table rt \<noteq> pr_Table (rr_cfg r)}"
    and "nl_LinkByName nl (ho_kernel h1) = nl_LinkByName nl (ho_kernel h)"
proof -
  have "ho_kernel h1 \<in> {ho_kernel h, flushTableLocked nl (rr_cfg r) (wipeRulesLocked nl (rr_cfg r) ZeroPrefix (ho_kernel h))}"
    using e by (auto simp: ensureStartedLocked_def Let_def split: if_splits)
  then show "{ru \<in> rulesOf nl (ho_kernel h1). ru_Table ru \<noteq> pr_Table (rr_cfg r)} =
      {ru \<in> rulesOf nl (ho_kernel h). ru_Table ru \<noteq> pr_Table (rr_cfg r)}"
    "{rt \<in> routesOf nl (ho_kernel h1). ro_Table rt \<noteq> pr_Table (rr_cfg r)} =
      {rt \<in> routesOf nl (ho_kernel h). ro_Table rt \<noteq> pr_Table (rr_cfg r)}"
    "nl_LinkByName nl (ho_kernel h1) = nl_LinkByName nl (ho_kernel h)"
    using wipe_all_effect [OF ok, of "ho_kernel h"] by auto
qed

lemma demand_pos: "0 < demand n rs \<longleftrightarrow> (\<exists>r \<in> set rs. active r \<and> n \<in> set (needs r))"
proof -
  have "demand n rs = 0 \<longleftrightarrow> (\<forall>r \<in> set rs. \<not> (active r \<and> n \<in> set (needs r)))"
    by (induction rs) (auto simp: demand_def contribution_def count_list_0_iff)
  then show ?thesis by (simp add: zero_less_iff_neq_zero)
qed

lemma demand_new: "demand n (map newRoutes cfgs) = 0"
  by (induction cfgs) (simp_all add: demand_def contribution_def active_def newRoutes_def)

section \<open>Properties\<close>

text \<open>C17: installing a prefix leaves the segment's table selected by exactly the rules for traffic from
  and to this prefix, and holding only its subnet route and a copy of a default route of the
  uplink; rules and routes of a previous prefix and of a crashed process are gone, and no other
  table is touched. The hypotheses on the netlink package are its documented effects.\<close>

theorem Install_routes_prefix:
  assumes "netlink_ok nl" and "pr_Table (rr_cfg r) \<noteq> 0" and "proper6 p" and "\<not> rr_stopped r"
    and "nl_LinkByName nl (ho_kernel h) (pr_Iface (rr_cfg r)) = Some i"
    and "Install nl p (r, h) = (r', h')"
  defines "T \<equiv> pr_Table (rr_cfg r)" and "net \<equiv> Some (prefixToIPNet p)"
    and "rules \<equiv> rulesOf nl (ho_kernel h')" and "routes \<equiv> routesOf nl (ho_kernel h')"
  shows "rr_prefix r' = p \<and>
    (\<exists>ru \<in> rules. selects (rr_cfg r) ''from'' p ru) \<and> (\<exists>ru \<in> rules. selects (rr_cfg r) ''to'' p ru) \<and>
    (\<forall>ru \<in> rules. ru_Table ru = T \<longrightarrow> ipNetEqual (ru_Src ru) net \<or> ipNetEqual (ru_Dst ru) net) \<and>
    {ru \<in> rules. ru_Table ru \<noteq> T} = {ru \<in> rulesOf nl (ho_kernel h). ru_Table ru \<noteq> T} \<and>
    (\<exists>rt \<in> routes. ro_Table rt = T \<and> ro_Gw rt = None \<and> ipNetEqual (ro_Dst rt) net \<and> ro_LinkIndex rt = i) \<and>
    (\<forall>rt \<in> routes. ro_Table rt = T \<longrightarrow> ro_Gw rt = None \<and> ipNetEqual (ro_Dst rt) net \<or>
       (\<exists>j. \<exists>best \<in> routesOf nl (ho_kernel h). mirrorable (rr_cfg r) j best \<and> mirrors (rr_cfg r) j best rt)) \<and>
    {rt \<in> routes. ro_Table rt \<noteq> T} = {rt \<in> routesOf nl (ho_kernel h). ro_Table rt \<noteq> T}"
proof -
  obtain r1 h1 where e: "ensureStartedLocked nl (r, h) = (r1, h1)" by fastforce
  have cfg: "rr_cfg r1 = rr_cfg r" using ensureStarted_settings [OF e] by simp
  note ok = assms(1,2)
  note start = ensureStarted_kernel [OF ok e]
  have r': "r' = r1\<lparr>rr_prefix := p\<rparr>" "ho_kernel h' = installKernel nl (r1\<lparr>rr_prefix := p\<rparr>) p (ho_kernel h1)"
    using assms(4,6) e by (auto simp: Install_def Let_def)
  have link: "nl_LinkByName nl (ho_kernel h1) (pr_Iface (rr_cfg r')) = Some i" "rr_cfg r' = rr_cfg r"
    using start(3) assms(5) by (simp_all add: r' cfg)
  note inst = installKernel_effect [OF ok(1) _ assms(3) link(1), unfolded link(2), OF ok(2),
    folded r'(2) [folded r'(1)], folded T_def net_def rules_def routes_def]
  have best: "best \<in> routesOf nl (ho_kernel h)"
    if "best \<in> routesOf nl (ho_kernel h1)" "mirrorable (rr_cfg r) j best" for best j
    using that start(2) by (auto simp: mirrorable_def)
  have mirror: "ro_Gw rt = None \<and> ipNetEqual (ro_Dst rt) net \<or>
      (\<exists>j. \<exists>best \<in> routesOf nl (ho_kernel h). mirrorable (rr_cfg r) j best \<and> mirrors (rr_cfg r) j best rt)"
    if "rt \<in> routes" "ro_Table rt = T" for rt
    using inst(6) [OF that] best by auto
  have others: "{ru \<in> rules. ru_Table ru \<noteq> T} = {ru \<in> rulesOf nl (ho_kernel h). ru_Table ru \<noteq> T}"
    "{rt \<in> routes. ro_Table rt \<noteq> T} = {rt \<in> routesOf nl (ho_kernel h). ro_Table rt \<noteq> T}"
    using inst(4,7) start(1,2) unfolding T_def by (simp_all only:)
  show ?thesis
    using inst(1,2,3,5) mirror by (intro conjI others ballI impI) (simp_all add: r')
qed

text \<open>Losing the prefix leaves no trace: no rule and no route refers to the segment's table any
  more, every other rule and route is untouched, and the sysctls stay as they are.\<close>

theorem Clear_leaves_no_trace:
  assumes "netlink_ok nl" and "pr_Table (rr_cfg r) \<noteq> 0" and "rr_started r" and "Clear nl (r, h) = (r', h')"
  shows "\<not> PfxIsValid (rr_prefix r') \<and> ho_sysctls h' = ho_sysctls h \<and>
    rulesOf nl (ho_kernel h') = {ru \<in> rulesOf nl (ho_kernel h). ru_Table ru \<noteq> pr_Table (rr_cfg r)} \<and>
    routesOf nl (ho_kernel h') = {rt \<in> routesOf nl (ho_kernel h). ro_Table rt \<noteq> pr_Table (rr_cfg r)}"
  using assms(3,4) wipe_all_effect [OF assms(1,2), of "ho_kernel h"]
  by (auto simp: Clear_def clearLocked_def Let_def)

text \<open>While a prefix is installed and the uplink exists, one round of the mirror leaves a copy of
  the uplink's best default route in the table (advertised routes first, then the smallest
  metric, never a mirrored one), or no default route when the uplink has none.\<close>

theorem syncDefault_mirrors_best:
  assumes "netlink_ok nl" and "pr_Table (rr_cfg r) \<noteq> 0" and "PfxIsValid (rr_prefix r)"
    and "nl_LinkByName nl k (pr_Uplink (rr_cfg r)) = Some i"
  shows "if \<exists>c \<in> routesOf nl k. mirrorable (rr_cfg r) i c
    then \<exists>best \<in> routesOf nl k. mirrorable (rr_cfg r) i best \<and>
      (\<forall>c \<in> routesOf nl k. mirrorable (rr_cfg r) i c \<longrightarrow> \<not> betterDefault c best) \<and>
      (\<exists>rt \<in> routesOf nl (syncDefaultLocked nl r k). mirrors (rr_cfg r) i best rt)
    else \<forall>rt \<in> routesOf nl (syncDefaultLocked nl r k).
      ro_Table rt = pr_Table (rr_cfg r) \<longrightarrow> ro_Gw rt = None \<or> \<not> isDefault (ro_Dst rt)"
proof (cases rule: syncDefault_cases [OF assms, case_names mirrored none])
  case (mirrored best rt D)
  then show ?thesis by auto
next
  case none
  then show ?thesis using removeDefault_effect(1) [OF assms(1,2), of k] by auto
qed

text \<open>Segments share the sysctls of their uplinks without interfering: however segments are
  started, stopped, given and deprived of prefixes, a setting has the value they need as long
  as a started segment needs it, and the value it had before any of them once none does. The
  setting's file must be readable and writable, and nobody else may write it.\<close>

theorem segments_share_settings:
  assumes "(segments_step nl)\<^sup>*\<^sup>* (map newRoutes cfgs, h) (rs, h')"
    and "\<And>m. sy_entries (ho_sysctls h) (settingPath m) = None"
    and "readSysctl (settingPath n) (ho_sysctls h) = Some value"
    and "TrimSpace value = value" and "value \<noteq> []" and "ho_writable h (settingPath n)"
  shows "readSysctl (settingPath n) (ho_sysctls h') =
    Some (if \<exists>r \<in> set rs. active r \<and> n \<in> set (needs r) then settled value (settingWant n) else value)"
proof -
  have "segments_ok (\<lambda>_. value) n (map newRoutes cfgs, h)"
    using assms(2-) by (simp add: segments_ok_def demand_new refs_def settingSound_def held_iff)
  then have "segments_ok (\<lambda>_. value) n (rs, h')" by (rule segments_ok_run [OF assms(1)])
  then show ?thesis
    using settingSound_reads [of "ho_writable h'" "\<lambda>_. value" n "ho_sysctls h'"]
    by (simp add: segments_ok_def demand_pos)
qed

section \<open>Examples\<close>

text \<open>A kernel with two bridges and an uplink, whose state is its list of rules, routes and addresses.\<close>

type_synonym kernel_example = "unit rule list \<times> unit route list \<times> (int \<times> ipnet) list"

definition nl_example :: "(kernel_example, unit) netlink" where
  "nl_example = \<lparr>
     nl_LinkByName = (\<lambda>k n. if n = ''br0'' then Some 3 else if n = ''br1'' then Some 4 else if n = ''wlan0'' then Some 7 else None),
     nl_AddrList = (\<lambda>k i. map snd (filter (\<lambda>x. fst x = i) (snd (snd k)))),
     nl_AddrAdd = (\<lambda>k i a. (fst k, fst (snd k), List.insert (i, a) (snd (snd k)))),
     nl_AddrDel = (\<lambda>k i a. (fst k, fst (snd k), removeAll (i, a) (snd (snd k)))),
     nl_NewRule = \<lparr>ru_Family = 0, ru_Table = 0, ru_Priority = -1, ru_Src = None, ru_Dst = None, ru_other = ()\<rparr>,
     nl_RuleList = (\<lambda>k. Some (fst k)),
     nl_RuleAdd = (\<lambda>k ru. (List.insert ru (fst k), snd k)),
     nl_RuleDel = (\<lambda>k ru. (filter (\<lambda>q. q\<lparr>ru_Family := FAMILY_V6\<rparr> \<noteq> ru) (fst k), snd k)),
     nl_zeroOther = (),
     nl_RouteList = (\<lambda>k t. Some (if t = RT_TABLE_UNSPEC then fst (snd k) else filter (\<lambda>rt. ro_Table rt = t) (fst (snd k)))),
     nl_RouteReplace = (\<lambda>k rt. (fst k, rt # filter (\<lambda>q. \<not> (ro_Table q = ro_Table rt \<and> sameDst (ro_Dst q) (ro_Dst rt))) (fst (snd k)), snd (snd k))),
     nl_RouteDel = (\<lambda>k rt. (fst k, removeAll rt (fst (snd k)), snd (snd k)))\<rparr>"

lemma sameDst_refl [simp]: "sameDst a a"
  by (simp add: sameDst_def)

lemma nl_example_simps [simp]:
  "nl_LinkByName nl_example k n = (if n = ''br0'' then Some 3 else if n = ''br1'' then Some 4 else if n = ''wlan0'' then Some 7 else None)"
  "nl_RuleList nl_example k = Some (fst k)"
  "nl_RouteList nl_example k t = Some (if t = RT_TABLE_UNSPEC then fst (snd k) else filter (\<lambda>rt. ro_Table rt = t) (fst (snd k)))"
  "ru_Src (nl_NewRule nl_example) = None" "ru_Dst (nl_NewRule nl_example) = None"
  "nl_RuleAdd nl_example k ru = (List.insert ru (fst k), snd k)"
  "nl_RuleDel nl_example k ru = (filter (\<lambda>q. q\<lparr>ru_Family := FAMILY_V6\<rparr> \<noteq> ru) (fst k), snd k)"
  "nl_RouteReplace nl_example k rt =
     (fst k, rt # filter (\<lambda>q. \<not> (ro_Table q = ro_Table rt \<and> sameDst (ro_Dst q) (ro_Dst rt))) (fst (snd k)), snd (snd k))"
  "nl_RouteDel nl_example k rt = (fst k, removeAll rt (fst (snd k)), snd (snd k))"
  "nl_AddrList nl_example k i = map snd (filter (\<lambda>x. fst x = i) (snd (snd k)))"
  "nl_AddrAdd nl_example k i a = (fst k, fst (snd k), List.insert (i, a) (snd (snd k)))"
  "nl_AddrDel nl_example k i a = (fst k, fst (snd k), removeAll (i, a) (snd (snd k)))"
  by (simp_all add: nl_example_def)

lemma rulesOf_example: "rulesOf nl_example k = (\<lambda>ru. ru\<lparr>ru_Family := FAMILY_V6\<rparr>) ` set (fst k)"
  and routesOf_example: "routesOf nl_example k = set (fst (snd k))"
  by (simp_all add: rulesOf_def routesOf_def)

lemma netlink_ok_example: "netlink_ok nl_example"
proof -
  have "netlink_lists nl_example" by (auto simp: netlink_lists_def routesOf_example)
  moreover have "netlink_rules nl_example"
    unfolding netlink_rules_def rulesOf_example by auto
  moreover have "netlink_routes nl_example"
  proof -
    have "\<exists>x d D. sameDst d (ro_Dst rt) \<and> D \<subseteq> {q. ro_Table q = ro_Table rt \<and> sameDst (ro_Dst q) (ro_Dst rt)} \<and>
        routesOf nl_example (nl_RouteReplace nl_example k rt) =
          insert (rt\<lparr>ro_Dst := d, ro_other := x\<rparr>) (routesOf nl_example k - D)" for k and rt :: "unit route"
      by (rule exI [of _ "()"], rule exI [of _ "ro_Dst rt"],
          rule exI [of _ "{q. ro_Table q = ro_Table rt \<and> sameDst (ro_Dst q) (ro_Dst rt)}"])
        (auto simp: routesOf_example)
    then show ?thesis by (auto simp: netlink_routes_def routesOf_example)
  qed
  moreover have "netlink_frame nl_example" by (simp add: netlink_frame_def rulesOf_example routesOf_example fun_eq_iff)
  ultimately show ?thesis by (simp add: netlink_ok_def)
qed

definition prcfg_example :: "string \<Rightarrow> int \<Rightarrow> pdroute_Config" where
  "prcfg_example br table = \<lparr>pr_Iface = br, pr_Uplink = ''wlan0'', pr_Table = table, pr_RulePriority = 5000\<rparr>"

definition pd64_example :: prefix where
  "pd64_example = Prefix (Addr6 0x20010db8000000000000000000000000 []) 64"

definition uplink_default_example :: "unit route" where
  "uplink_default_example = \<lparr>ro_Dst = None, ro_Gw = Some [0xfe, 0x80, 0, 0, 0, 0, 0, 0, 0, 0, 0, 0, 0, 0, 0, 1],
     ro_LinkIndex = 7, ro_Table = 254, ro_Protocol = RTPROT_RA, ro_Priority = 1024, ro_other = ()\<rparr>"

definition host_example :: "kernel_example host" where
  "host_example = \<lparr>ho_kernel = ([], [uplink_default_example], []),
     ho_sysctls = \<lparr>sy_entries = (\<lambda>_. None), sy_files = (\<lambda>_. Some (''1'' @ [char_of (10::nat)]))\<rparr>,
     ho_writable = (\<lambda>_. True)\<rparr>"

lemma prcfg_example_simps [simp]:
  "pr_Iface (prcfg_example br t) = br" "pr_Uplink (prcfg_example br t) = ''wlan0''" "pr_Table (prcfg_example br t) = t"
  by (simp_all add: prcfg_example_def)

lemma newRoutes_simps [simp]:
  "rr_cfg (newRoutes cfg) = cfg" "\<not> rr_started (newRoutes cfg)" "\<not> rr_stopped (newRoutes cfg)"
  by (simp_all add: newRoutes_def)

theorem Install_routes_prefix_witness:
  "case Install nl_example pd64_example (newRoutes (prcfg_example ''br0'' 1001), host_example) of
     (r', h') \<Rightarrow> rr_prefix r' = pd64_example \<and>
       (\<exists>ru \<in> rulesOf nl_example (ho_kernel h'). selects (prcfg_example ''br0'' 1001) ''from'' pd64_example ru)"
proof -
  obtain r' h' where i: "Install nl_example pd64_example (newRoutes (prcfg_example ''br0'' 1001), host_example) = (r', h')"
    by fastforce
  have "proper6 pd64_example" by (simp add: proper6_def pd64_example_def)
  from Install_routes_prefix [OF netlink_ok_example _ this _ _ i, of 3] show ?thesis by (simp add: i)
qed

theorem Clear_leaves_no_trace_witness:
  "case Clear nl_example ((newRoutes (prcfg_example ''br0'' 254))\<lparr>rr_started := True\<rparr>, host_example) of
     (r', h') \<Rightarrow> routesOf nl_example (ho_kernel h') = {}"
proof -
  let ?r = "(newRoutes (prcfg_example ''br0'' 254))\<lparr>rr_started := True\<rparr>"
  obtain r' h' where c: "Clear nl_example (?r, host_example) = (r', h')" by fastforce
  have "routesOf nl_example (ho_kernel host_example) = {uplink_default_example}" "ro_Table uplink_default_example = 254"
    by (simp_all add: routesOf_example host_example_def uplink_default_example_def)
  then show ?thesis using Clear_leaves_no_trace [OF netlink_ok_example _ _ c] by (auto simp: c)
qed

theorem syncDefault_mirrors_best_witness:
  "\<exists>rt \<in> routesOf nl_example (syncDefaultLocked nl_example
       ((newRoutes (prcfg_example ''br0'' 1001))\<lparr>rr_prefix := pd64_example\<rparr>) ([], [uplink_default_example], [])).
     mirrors (prcfg_example ''br0'' 1001) 7 uplink_default_example rt"
proof -
  let ?r = "(newRoutes (prcfg_example ''br0'' 1001))\<lparr>rr_prefix := pd64_example\<rparr>"
  have m: "mirrorable (prcfg_example ''br0'' 1001) 7 uplink_default_example"
    by (simp add: mirrorable_def uplink_default_example_def isDefault_def)
  have "PfxIsValid pd64_example" by (simp add: pd64_example_def PfxIsValid_def)
  then show ?thesis
    using syncDefault_mirrors_best [OF netlink_ok_example, of ?r "([], [uplink_default_example], [])" 7] m
    by (simp add: routesOf_example)
qed

theorem segments_share_settings_witness:
  "\<exists>rs h'. (segments_step nl_example)\<^sup>*\<^sup>*
       (map newRoutes [prcfg_example ''br0'' 1001, prcfg_example ''br1'' 1002], host_example) (rs, h') \<and>
     \<not> active (rs ! 0) \<and> active (rs ! 1) \<and>
     readSysctl (settingPath (AcceptRA ''wlan0'')) (ho_sysctls h') = Some ''2''"
proof -
  let ?a = "newRoutes (prcfg_example ''br0'' 1001)" and ?b = "newRoutes (prcfg_example ''br1'' 1002)"
  let ?step = "segments_step nl_example"
  obtain a1 h1 where s1: "Start nl_example (?a, host_example) = (a1, h1)" by fastforce
  obtain b1 h2 where s2: "Start nl_example (?b, h1) = (b1, h2)" by fastforce
  obtain a2 h3 where s3: "Stop nl_example (a1, h2) = (a2, h3)" by fastforce
  have "?step ([?a, ?b], host_example) ([a1, ?b], h1)" "?step ([a1, ?b], h1) ([a1, b1], h2)"
    "?step ([a1, b1], h2) ([a2, b1], h3)"
    using segments_step.Start [of 0 "[?a, ?b]" nl_example host_example a1 h1]
      segments_step.Start [of 1 "[a1, ?b]" nl_example h1 b1 h2]
      segments_step.Stop [of 0 "[a1, b1]" nl_example h2 a2 h3] s1 s2 s3
    by simp_all
  then have run: "?step\<^sup>*\<^sup>* (map newRoutes [prcfg_example ''br0'' 1001, prcfg_example ''br1'' 1002], host_example)
      ([a2, b1], h3)"
    by (auto intro: converse_rtranclp_into_rtranclp)
  have act: "\<not> active a2" "active b1" "AcceptRA ''wlan0'' \<in> set (needs b1)"
    using Stop_settings [OF s3] ensureStarted_settings [OF s2 [unfolded Start_def]]
    by (simp_all add: active_def needs_def)
  have "TrimSpace (''1'' @ [char_of (10::nat)]) = ''1''" "TrimSpace ''1'' = ''1''"
    by (simp_all add: TrimSpace_def go_space_def)
  then have "readSysctl (settingPath (AcceptRA ''wlan0'')) (ho_sysctls h3) = Some ''2''"
    using segments_share_settings [OF run, of "AcceptRA ''wlan0''" "''1''"] act
    by (simp add: host_example_def readSysctl_def settled_def acceptRAWant_def del: char_of_nat)
  then show ?thesis using run act by (intro exI [of _ "[a2, b1]"] exI [of _ h3]) simp
qed

end
