(* ===== verification/Ifwatch.thy ===== *)
theory Ifwatch
  imports Netip
begin

text \<open>
  \<^verbatim>\<open>internal/ifwatch/ifwatch.go\<close>: the state of an interface as read from netlink, and the
  watcher that tells its subscribers, debounced, that something changed.
\<close>

section \<open>Reading an interface\<close>

record ifState =
  st_Exists :: bool
  st_Up :: bool
  st_Index :: int
  st_MAC :: bytes
  st_V4 :: "prefix list"
  st_V6 :: "prefix list"
  st_LinkLocal :: addr

definition zeroState :: ifState where
  "zeroState = \<lparr>st_Exists = False, st_Up = False, st_Index = 0, st_MAC = [], st_V4 = [], st_V6 = [],
     st_LinkLocal = AddrNone\<rparr>"

text \<open>What netlink answers for a name: the link's attributes and its addresses with their masks,
  \<open>None\<close> where listing them fails.\<close>

record link_attrs =
  la_Up :: bool
  la_Index :: int
  la_HardwareAddr :: bytes
  la_Addrs :: "(bytes \<times> bytes) list option"

fun snapshotAddrs :: "(bytes \<times> bytes) list \<Rightarrow> ifState \<Rightarrow> ifState" where
  "snapshotAddrs [] st = st"
| "snapshotAddrs ((aIP, aMask) # addrs) st =
     snapshotAddrs addrs
       (let ip = AddrFromSlice aIP
        in if \<not> IsValid ip then st
           else
             (let ip = Unmap ip; ones = int (maskOnes aMask)
              in if Is4 ip then st\<lparr>st_V4 := st_V4 st @ [PrefixFrom ip ones]\<rparr>
                 else if IsLinkLocalUnicast ip then st\<lparr>st_LinkLocal := ip\<rparr>
                 else if Is6 ip then st\<lparr>st_V6 := st_V6 st @ [PrefixFrom ip ones]\<rparr>
                 else st))"

definition Snapshot :: "link_attrs option \<Rightarrow> ifState" where
  "Snapshot link =
     (case link of
        None \<Rightarrow> zeroState
      | Some attrs \<Rightarrow>
          (let st = zeroState\<lparr>st_Exists := True, st_Up := la_Up attrs, st_Index := la_Index attrs,
                 st_MAC := la_HardwareAddr attrs\<rparr>
           in case la_Addrs attrs of None \<Rightarrow> st | Some addrs \<Rightarrow> snapshotAddrs addrs st))"

section \<open>The watcher\<close>

text \<open>
  A subscriber's channel has capacity one: it holds a tick or not. \<open>wa_pending\<close> and \<open>wa_timerC\<close> (the
  timer channel is not nil) are the two locals of \<^verbatim>\<open>loop\<close>, and \<open>wa_looping\<close> says that the goroutine
  has not returned.
\<close>

record Watcher =
  wa_subs :: "bool list"
  wa_done :: bool
  wa_pending :: bool
  wa_timerC :: bool
  wa_looping :: bool

definition newWatcher :: Watcher where
  "newWatcher = \<lparr>wa_subs = [], wa_done = False, wa_pending = False, wa_timerC = False, wa_looping = True\<rparr>"

definition Subscribe :: "Watcher \<Rightarrow> nat \<times> Watcher" where
  "Subscribe w = (length (wa_subs w), w\<lparr>wa_subs := wa_subs w @ [False]\<rparr>)"

definition closeWatcher :: "Watcher \<Rightarrow> Watcher" where
  "closeWatcher w = (if wa_done w then w else w\<lparr>wa_done := True\<rparr>)"

definition arm :: "Watcher \<Rightarrow> Watcher" where
  "arm w = (if wa_pending w then w else w\<lparr>wa_pending := True, wa_timerC := True\<rparr>)"

definition fire :: "Watcher \<Rightarrow> Watcher" where
  "fire w = w\<lparr>wa_pending := False, wa_timerC := False, wa_subs := map (\<lambda>_. True) (wa_subs w)\<rparr>"

text \<open>\<open>watcher_step\<close>: what can happen next. While the goroutine \<^verbatim>\<open>loop\<close> runs, its \<^verbatim>\<open>select\<close> picks one of
  the ready cases: \<open>done\<close> is closed and the loop returns; an address or link event arrives, or its
  channel turns out to be closed and the loop returns; the timer fires. Clients subscribe, receive a
  tick or close the watcher at any time, also when nobody runs the loop any more.\<close>

datatype watcher_event = Changed | ChannelClosed | Stopped | Fired | Subscribed | Received nat | Closed

inductive watcher_step :: "Watcher \<Rightarrow> watcher_event \<Rightarrow> Watcher \<Rightarrow> bool" where
  stopped: "wa_looping w \<Longrightarrow> wa_done w \<Longrightarrow> watcher_step w Stopped (w\<lparr>wa_looping := False\<rparr>)"
| changed: "wa_looping w \<Longrightarrow> watcher_step w Changed (arm w)"
| channel_closed: "wa_looping w \<Longrightarrow> watcher_step w ChannelClosed (w\<lparr>wa_looping := False\<rparr>)"
| fired: "wa_looping w \<Longrightarrow> wa_timerC w \<Longrightarrow> watcher_step w Fired (fire w)"
| subscribed: "watcher_step w Subscribed (snd (Subscribe w))"
| received: "i < length (wa_subs w) \<Longrightarrow> wa_subs w ! i \<Longrightarrow>
    watcher_step w (Received i) (w\<lparr>wa_subs := (wa_subs w)[i := False]\<rparr>)"
| closed: "watcher_step w Closed (closeWatcher w)"

inductive_cases watcher_stepE: "watcher_step w ev w'"

inductive watcher_run :: "Watcher \<Rightarrow> watcher_event list \<Rightarrow> Watcher \<Rightarrow> bool" where
  refl: "watcher_run w [] w"
| step: "watcher_step w ev w' \<Longrightarrow> watcher_run w' evs w'' \<Longrightarrow> watcher_run w (ev # evs) w''"

lemmas watcher_simps = arm_def fire_def Subscribe_def closeWatcher_def newWatcher_def

text \<open>The two locals agree in every state of a watcher: a change is pending exactly when the timer that
  will announce it is armed.\<close>

lemma timer_step: "watcher_step w ev w' \<Longrightarrow> wa_timerC w = wa_pending w \<Longrightarrow> wa_timerC w' = wa_pending w'"
  by (auto simp: watcher_simps elim!: watcher_stepE split: if_splits)

lemma timer_run: "watcher_run w evs w' \<Longrightarrow> wa_timerC w = wa_pending w \<Longrightarrow> wa_timerC w' = wa_pending w'"
  by (induction rule: watcher_run.induct) (auto dest: timer_step)

text \<open>The loop returns on a closed channel or after \<^verbatim>\<open>Close\<close> only, and then does nothing more.\<close>

lemma looping_run:
  "watcher_run w evs w' \<Longrightarrow> wa_looping w \<Longrightarrow>
     wa_looping w' \<or> ChannelClosed \<in> set evs \<or> Stopped \<in> set evs \<and> wa_done w'"
proof (induction rule: watcher_run.induct)
  case (step w ev w' evs w'')
  have done_run: "watcher_run v es v' \<Longrightarrow> wa_done v \<Longrightarrow> wa_done v'" for v es v'
    by (induction rule: watcher_run.induct)
      (auto simp: watcher_simps elim!: watcher_stepE split: if_splits)
  show ?case
  proof (cases "wa_looping w'")
    case True
    then show ?thesis using step.IH by auto
  next
    case False
    with step.hyps(1) step.prems have "ev = ChannelClosed \<or> ev = Stopped \<and> wa_done w'"
      by (auto simp: watcher_simps elim!: watcher_stepE split: if_splits)
    with done_run [OF step.hyps(2)] show ?thesis by auto
  qed
qed simp

lemma closed_channel_silences:
  assumes "watcher_run w evs w'" and "\<not> wa_looping w"
  shows "\<not> wa_looping w' \<and> Changed \<notin> set evs \<and> Fired \<notin> set evs"
  using assms
  by (induction rule: watcher_run.induct)
    (auto simp: watcher_simps elim!: watcher_stepE split: if_splits)

text \<open>Subscriber \<open>i\<close> has been told, or the timer that will tell it is armed.\<close>

definition informed :: "nat \<Rightarrow> Watcher \<Rightarrow> bool" where
  "informed i w \<longleftrightarrow> i < length (wa_subs w) \<and> (wa_pending w \<or> wa_subs w ! i)"

lemma informed_step:
  "watcher_step w ev w' \<Longrightarrow> ev \<noteq> Received i \<Longrightarrow> informed i w \<Longrightarrow> informed i w'"
  by (auto simp: informed_def watcher_simps nth_append nth_list_update
      elim!: watcher_stepE split: if_splits)

lemma informed_run:
  "watcher_run w evs w' \<Longrightarrow> Received i \<notin> set evs \<Longrightarrow> informed i w \<Longrightarrow> informed i w'"
  by (induction rule: watcher_run.induct) (auto intro: informed_step)

section \<open>Properties\<close>

text \<open>What netlink lists for an address \<open>a\<close> of length \<open>n\<close>: its bytes and the contiguous mask of its family.
  The kernel's addresses are valid, carry no zone and a length within their family's; \<open>kernel_entry\<close>
  leaves IPv4-mapped IPv6 addresses out.\<close>

definition kernelAddr :: "addr \<times> nat \<Rightarrow> bytes \<times> bytes" where
  "kernelAddr e = (AsSlice (fst e), CIDRMask (int (snd e)) (BitLen (fst e)))"

definition kernel_entry :: "addr \<times> nat \<Rightarrow> bool" where
  "kernel_entry e \<longleftrightarrow> IsValid (fst e) \<and> Zone (fst e) = [] \<and> Unmap (fst e) = fst e \<and> snd e \<le> BitLen (fst e)"

lemma PrefixFrom_entry: "kernel_entry (a, n) \<Longrightarrow> PrefixFrom a (int n) = Prefix a (int n)"
  by (simp add: kernel_entry_def PrefixFrom_def)

lemma kernelAddr_reads:
  assumes "kernel_entry (a, n)"
  shows "AddrFromSlice (fst (kernelAddr (a, n))) = a" and "maskOnes (snd (kernelAddr (a, n))) = n"
  using assms by (simp_all add: kernel_entry_def kernelAddr_def AddrFromSlice_AsSlice maskOnes_CIDRMask)

lemma snapshotAddrs_exact:
  assumes "\<forall>e \<in> set es. kernel_entry e"
  shows "snapshotAddrs (map kernelAddr es) st =
    st\<lparr>st_V4 := st_V4 st @ [Prefix a (int n). (a, n) \<leftarrow> es, Is4 a],
       st_V6 := st_V6 st @ [Prefix a (int n). (a, n) \<leftarrow> es, Is6 a \<and> \<not> IsLinkLocalUnicast a],
       st_LinkLocal := last (st_LinkLocal st # [a. (a, n) \<leftarrow> es, Is6 a \<and> IsLinkLocalUnicast a])\<rparr>"
  using assms
proof (induction es arbitrary: st)
  case (Cons e es)
  obtain a n where e: "e = (a, n)" by force
  with Cons.prems have k: "kernel_entry (a, n)" by simp
  then have "IsValid a" "Unmap a = a" by (simp_all add: kernel_entry_def)
  with Cons e kernelAddr_reads [OF k] PrefixFrom_entry [OF k] show ?case
    by (cases "kernelAddr (a, n)"; cases a) (auto simp: Let_def)
qed simp

text \<open>C38: the snapshot of an existing link lists exactly the addresses netlink reports: under V4 the
  IPv4 ones with their lengths, in order, under V6 the IPv6 ones that are not link-local, and as
  link-local address the last link-local one, or none; every prefix of either list is valid, and the
  flags, index and MAC are the link's. Stated for addresses in the kernel's form, IPv4-mapped IPv6
  addresses excepted.\<close>

theorem Snapshot_exact:
  assumes "la_Addrs attrs = Some (map kernelAddr es)" and "\<forall>e \<in> set es. kernel_entry e"
  shows "Snapshot (Some attrs) =
      \<lparr>st_Exists = True, st_Up = la_Up attrs, st_Index = la_Index attrs, st_MAC = la_HardwareAddr attrs,
       st_V4 = [Prefix a (int n). (a, n) \<leftarrow> es, Is4 a],
       st_V6 = [Prefix a (int n). (a, n) \<leftarrow> es, Is6 a \<and> \<not> IsLinkLocalUnicast a],
       st_LinkLocal = last (AddrNone # [a. (a, n) \<leftarrow> es, Is6 a \<and> IsLinkLocalUnicast a])\<rparr> \<and>
    (\<forall>p \<in> set (st_V4 (Snapshot (Some attrs))) \<union> set (st_V6 (Snapshot (Some attrs))).
       PfxIsValid p \<and> prefix_ok p)"
proof -
  have "Snapshot (Some attrs) =
      \<lparr>st_Exists = True, st_Up = la_Up attrs, st_Index = la_Index attrs, st_MAC = la_HardwareAddr attrs,
       st_V4 = [Prefix a (int n). (a, n) \<leftarrow> es, Is4 a],
       st_V6 = [Prefix a (int n). (a, n) \<leftarrow> es, Is6 a \<and> \<not> IsLinkLocalUnicast a],
       st_LinkLocal = last (AddrNone # [a. (a, n) \<leftarrow> es, Is6 a \<and> IsLinkLocalUnicast a])\<rparr>"
    by (simp add: Snapshot_def assms(1) snapshotAddrs_exact [OF assms(2)] zeroState_def)
  then show ?thesis using assms(2) by (auto simp: PfxIsValid_def prefix_ok_def kernel_entry_def)
qed

theorem Snapshot_exact_witness:
  "let es = [(Addr4 0xC0A80101, 24), (Addr6 0xFE800000000000000000000000000001 [], 64),
             (Addr6 0x20010DB8000000000000000000000001 [], 64)];
       st = Snapshot (Some \<lparr>la_Up = True, la_Index = 2, la_HardwareAddr = [2, 0, 0, 0, 0, 1],
              la_Addrs = Some (map kernelAddr es)\<rparr>)
   in st_V4 st = [Prefix (Addr4 0xC0A80101) 24] \<and>
      st_V6 st = [Prefix (Addr6 0x20010DB8000000000000000000000001 []) 64] \<and>
      st_LinkLocal st = Addr6 0xFE800000000000000000000000000001 [] \<and> st_Up st"
proof -
  let ?es = "[(Addr4 0xC0A80101, 24), (Addr6 0xFE800000000000000000000000000001 [], 64),
      (Addr6 0x20010DB8000000000000000000000001 [], 64)]"
  let ?attrs = "\<lparr>la_Up = True, la_Index = 2, la_HardwareAddr = [2, 0, 0, 0, 0, 1],
      la_Addrs = Some (map kernelAddr ?es)\<rparr>"
  have "\<forall>e \<in> set ?es. kernel_entry e" by (simp add: kernel_entry_def Is4In6_def)
  then show ?thesis using Snapshot_exact [of ?attrs ?es] by (simp add: Let_def Is4In6_def)
qed

text \<open>Why IPv4-mapped addresses are excepted: \<^verbatim>\<open>Unmap\<close> makes them IPv4 addresses, but the mask keeps
  its IPv6 length, and the prefix put into V4 is then invalid.\<close>

lemma mapped_address_invalid:
  assumes "Is4In6 w" and "32 < n" and "n \<le> 128"
  shows "st_V4 (snapshotAddrs [kernelAddr (Addr6 w [], n)] st) =
    st_V4 st @ [Prefix (Addr4 (of_nat (unat w))) (-1)]"
  using assms maskOnes_CIDRMask [of n "Addr6 w []"] AddrFromSlice_AsSlice [of "Addr6 w []"]
  by (simp add: kernelAddr_def Let_def PrefixFrom_def)

text \<open>C39: no change is lost while the watcher works. After a link or address event of a running watcher,
  as long as subscriber \<open>i\<close> takes no tick: it has a tick waiting; or the loop runs with its timer
  armed, so that it can fire and then gives every subscriber a tick; or the loop has returned, which
  it does only because a netlink channel was closed or after \<^verbatim>\<open>Close\<close>.\<close>

theorem watcher_informs:
  assumes "watcher_run newWatcher pre w" and "watcher_run w (Changed # evs) w'"
    and "i < length (wa_subs w)" and "Received i \<notin> set evs"
  shows "wa_subs w' ! i \<or>
    wa_looping w' \<and> wa_timerC w' \<and> watcher_step w' Fired (fire w') \<and> (\<forall>s \<in> set (wa_subs (fire w')). s) \<or>
    \<not> wa_looping w' \<and> (ChannelClosed \<in> set evs \<or> Stopped \<in> set evs \<and> wa_done w')"
proof -
  from assms(2) obtain w1 where w1: "watcher_step w Changed w1" "watcher_run w1 evs w'"
    by (auto elim: watcher_run.cases)
  then have "informed i w1" "wa_looping w1"
    using assms(3) by (auto simp: informed_def arm_def elim!: watcher_stepE)
  then have inf: "informed i w'" and loop:
    "wa_looping w' \<or> ChannelClosed \<in> set evs \<or> Stopped \<in> set evs \<and> wa_done w'"
    using informed_run looping_run w1(2) assms(4) by blast+
  have "wa_timerC w = wa_pending w"
    by (rule timer_run [OF assms(1)]) (simp add: newWatcher_def)
  then have "wa_timerC w' = wa_pending w'" using timer_run [OF assms(2)] by simp
  moreover have "\<forall>s \<in> set (wa_subs (fire w')). s" by (simp add: fire_def)
  ultimately show ?thesis using inf loop by (auto simp: informed_def intro: fired)
qed

theorem watcher_informs_witness:
  "\<exists>w'. watcher_run (snd (Subscribe newWatcher)) [Changed, Changed] w' \<and> wa_looping w' \<and> wa_timerC w' \<and>
     watcher_step w' Fired (fire w') \<and> (\<forall>s \<in> set (wa_subs (fire w')). s)"
proof -
  let ?w = "snd (Subscribe newWatcher)"
  have s: "watcher_step ?w Changed (arm ?w)" "watcher_step (arm ?w) Changed (arm (arm ?w))"
    by (rule changed, simp add: watcher_simps)+
  have pre: "watcher_run newWatcher [Subscribed] ?w"
    by (rule watcher_run.step [OF subscribed watcher_run.refl])
  have run: "watcher_run ?w [Changed, Changed] (arm (arm ?w))"
    by (rule watcher_run.step [OF s(1) watcher_run.step [OF s(2) watcher_run.refl]])
  have "\<not> wa_subs (arm (arm ?w)) ! 0" by (simp add: watcher_simps)
  with watcher_informs [OF pre run, of 0] run show ?thesis by (auto simp: watcher_simps)
qed

end
