(* ===== verification/State.thy ===== *)
theory State
  imports Binding PdClient
begin

text \<open>
  \<^verbatim>\<open>internal/server/state.go\<close>: the durable state and its store. Saving is debounced (\<open>markDirty\<close>) and
  atomic (write to a temporary file, then rename). The JSON encoding is a parameter; the file
  system is a map from paths to contents, and \<open>saveNow\<close> yields every state it goes through, so
  that a crash at any point is covered.
\<close>

section \<open>The persisted state\<close>

record persistedIface =
  pi_Statics4 :: "static_binding list"
  pi_Statics6 :: "static_binding list"
  pi_Leases4 :: "lease list"
  pi_Leases6 :: "lease list"
  pi_PD :: "Binding option"

text \<open>A missing entry and a nil pointer are both \<open>None\<close>.\<close>

type_synonym persistedState = "string \<Rightarrow> persistedIface option"

text \<open>\<^verbatim>\<open>json.MarshalIndent\<close> and \<^verbatim>\<open>json.Unmarshal\<close> for the persisted state; \<open>None\<close> is an error.\<close>

record state_json =
  sj_Marshal :: "persistedState \<Rightarrow> bytes option"
  sj_Unmarshal :: "bytes \<Rightarrow> persistedState option"

type_synonym files = "string \<Rightarrow> bytes option"

record stateStore =
  ss_path :: string
  ss_pending :: bool

definition newStateStore :: "string \<Rightarrow> stateStore" where
  "newStateStore path = \<lparr>ss_path = path, ss_pending = False\<rparr>"

text \<open>The second component says whether an error is returned. \<open>readable\<close>: reading an existing file
  succeeds.\<close>

definition load :: "state_json \<Rightarrow> bool \<Rightarrow> stateStore \<Rightarrow> files \<Rightarrow> persistedState \<times> bool" where
  "load js readable s fs =
     (if ss_path s = [] then ((\<lambda>_. None), False)
      else
        case fs (ss_path s) of
          None \<Rightarrow> ((\<lambda>_. None), False)
        | Some content \<Rightarrow>
            if \<not> readable then ((\<lambda>_. None), True)
            else (case sj_Unmarshal js content of
                    None \<Rightarrow> ((\<lambda>_. None), True)
                  | Some st \<Rightarrow> (st, False)))"

text \<open>\<open>markDirty\<close> starts a timer unless one is running; \<open>saveDue\<close> is the first half of what the timer
  runs, the second half is \<open>saveNow\<close>.\<close>

definition markDirty :: "stateStore \<Rightarrow> stateStore" where
  "markDirty s =
     (if ss_path s = [] then s else if ss_pending s then s else s\<lparr>ss_pending := True\<rparr>)"

definition saveDue :: "stateStore \<Rightarrow> stateStore" where
  "saveDue s = s\<lparr>ss_pending := False\<rparr>"

text \<open>What the file system answers: whether the calls succeed, and what a partial write leaves.\<close>

record save_os =
  so_mkdir :: bool
  so_write :: bool
  so_partial :: "bytes option"
  so_rename :: bool

definition tmpPath :: "string \<Rightarrow> string" where
  "tmpPath path = path @ ''.tmp''"

definition saveNow :: "state_json \<Rightarrow> save_os \<Rightarrow> stateStore \<Rightarrow> persistedState \<Rightarrow> files \<Rightarrow> files list" where
  "saveNow js os s st fs =
     (if ss_path s = [] then [fs]
      else
        case sj_Marshal js st of
          None \<Rightarrow> [fs]
        | Some content \<Rightarrow>
            (let tmp = tmpPath (ss_path s); written = fs(tmp \<mapsto> content)
             in if \<not> so_mkdir os then [fs]
                else if \<not> so_write os then [fs, fs(tmp := so_partial os)]
                else if \<not> so_rename os then [fs, fs(tmp := so_partial os), written]
                else [fs, fs(tmp := so_partial os), written,
                      written(ss_path s \<mapsto> content, tmp := None)]))"

section \<open>No change goes unsaved\<close>

lemma tmpPath_neq [simp]: "tmpPath p \<noteq> p" "p \<noteq> tmpPath p"
  by (simp_all add: tmpPath_def)

text \<open>The store beside a state that changes, with the saves taken apart into their file operations, since
  \<^verbatim>\<open>saveNow\<close> holds no lock: several saves, of timers that fired and of the shutdown, may be under way
  at once. \<open>cu_state\<close> is what \<^verbatim>\<open>collect\<close> would return, \<open>cu_due\<close> counts the saves that have not collected
  yet, \<open>cu_busy\<close> are those that have, each with what it collected and the bytes it writes. The history
  component \<open>cu_upset\<close> says that a save has failed or met another one since a save last began alone.\<close>

datatype save_stage = Collected | Writing | Written

record custody =
  cu_store :: stateStore
  cu_state :: persistedState
  cu_fs :: files
  cu_due :: nat
  cu_busy :: "(save_stage \<times> persistedState \<times> bytes) list"
  cu_upset :: bool

inductive custody_step :: "state_json \<Rightarrow> custody \<Rightarrow> custody \<Rightarrow> bool" for js where
  change: "custody_step js c (c\<lparr>cu_state := st, cu_store := markDirty (cu_store c)\<rparr>)"
| timer: "ss_pending (cu_store c) \<Longrightarrow>
    custody_step js c (c\<lparr>cu_store := saveDue (cu_store c), cu_due := Suc (cu_due c)\<rparr>)"
| shutdown: "custody_step js c (c\<lparr>cu_due := Suc (cu_due c)\<rparr>)"
| no_path: "cu_due c = Suc n \<Longrightarrow> ss_path (cu_store c) = [] \<Longrightarrow> custody_step js c (c\<lparr>cu_due := n\<rparr>)"
| collect: "cu_due c = Suc n \<Longrightarrow> ss_path (cu_store c) \<noteq> [] \<Longrightarrow> sj_Marshal js (cu_state c) = Some content \<Longrightarrow>
    custody_step js c (c\<lparr>cu_due := n, cu_busy := (Collected, cu_state c, content) # cu_busy c,
      cu_upset := (cu_busy c \<noteq> [])\<rparr>)"
| marshal_fails: "cu_due c = Suc n \<Longrightarrow> ss_path (cu_store c) \<noteq> [] \<Longrightarrow> sj_Marshal js (cu_state c) = None \<Longrightarrow>
    custody_step js c (c\<lparr>cu_due := n, cu_upset := True\<rparr>)"
| mkdir_fails: "cu_busy c = xs @ (Collected, st, content) # ys \<Longrightarrow>
    custody_step js c (c\<lparr>cu_busy := xs @ ys, cu_upset := True\<rparr>)"
| create: "cu_busy c = xs @ (Collected, st, content) # ys \<Longrightarrow>
    custody_step js c (c\<lparr>cu_busy := xs @ (Writing, st, content) # ys,
      cu_fs := (cu_fs c)(tmpPath (ss_path (cu_store c)) := part)\<rparr>)"
| wrote: "cu_busy c = xs @ (Writing, st, content) # ys \<Longrightarrow>
    custody_step js c (c\<lparr>cu_busy := xs @ (Written, st, content) # ys,
      cu_fs := (cu_fs c)(tmpPath (ss_path (cu_store c)) \<mapsto> content)\<rparr>)"
| write_fails: "cu_busy c = xs @ (Writing, st, content) # ys \<Longrightarrow>
    custody_step js c (c\<lparr>cu_busy := xs @ ys, cu_upset := True\<rparr>)"
| rename: "cu_busy c = xs @ (Written, st, content) # ys \<Longrightarrow>
    cu_fs c (tmpPath (ss_path (cu_store c))) = Some bytes \<Longrightarrow>
    custody_step js c (c\<lparr>cu_busy := xs @ ys,
      cu_fs := (cu_fs c)(ss_path (cu_store c) \<mapsto> bytes, tmpPath (ss_path (cu_store c)) := None)\<rparr>)"
| rename_fails: "cu_busy c = xs @ (Written, st, content) # ys \<Longrightarrow>
    custody_step js c (c\<lparr>cu_busy := xs @ ys, cu_upset := True\<rparr>)"

text \<open>Another save is still to come.\<close>

definition awaited :: "custody \<Rightarrow> bool" where
  "awaited c \<longleftrightarrow> ss_pending (cu_store c) \<or> 0 < cu_due c"

definition on_disk :: "state_json \<Rightarrow> custody \<Rightarrow> bool" where
  "on_disk js c \<longleftrightarrow> load js True (cu_store c) (cu_fs c) = (cu_state c, False)"

definition faithful :: "state_json \<Rightarrow> bool" where
  "faithful js \<longleftrightarrow> (\<forall>st content. sj_Marshal js st = Some content \<longrightarrow> sj_Unmarshal js content = Some st)"

text \<open>Without an upset at most one save is at work; it has the current state in hand, or another save
  is to come, and the temporary file is its own.\<close>

definition in_custody :: "state_json \<Rightarrow> custody \<Rightarrow> bool" where
  "in_custody js c \<longleftrightarrow> ss_path (cu_store c) \<noteq> [] \<and>
     (\<not> cu_upset c \<longrightarrow>
        cu_busy c = [] \<and> (on_disk js c \<or> awaited c) \<or>
        (\<exists>stage st content. cu_busy c = [(stage, st, content)] \<and> sj_Marshal js st = Some content \<and>
           (st = cu_state c \<or> awaited c) \<and>
           (stage = Written \<longrightarrow> cu_fs c (tmpPath (ss_path (cu_store c))) = Some content)))"

lemma markDirty_store [simp]:
  "ss_path (markDirty s) = ss_path s" "ss_path s \<noteq> [] \<Longrightarrow> ss_pending (markDirty s)"
  "ss_path (saveDue s) = ss_path s" "\<not> ss_pending (saveDue s)"
  by (simp_all add: markDirty_def saveDue_def)

lemma load_cong: "ss_path s = ss_path s' \<Longrightarrow> load js r s fs = load js r s' fs"
  by (simp add: load_def)

lemma one_busy:
  assumes "in_custody js c" "\<not> cu_upset c" "cu_busy c = xs @ (stage, st, content) # ys"
  shows "xs = [] \<and> ys = []" "sj_Marshal js st = Some content" "st = cu_state c \<or> awaited c"
    "stage = Written \<Longrightarrow> cu_fs c (tmpPath (ss_path (cu_store c))) = Some content"
proof -
  show 1: "xs = [] \<and> ys = []"
    using assms by (cases xs; cases ys) (auto simp: in_custody_def)
  show "sj_Marshal js st = Some content" "st = cu_state c \<or> awaited c"
    "stage = Written \<Longrightarrow> cu_fs c (tmpPath (ss_path (cu_store c))) = Some content"
    using assms 1 by (simp_all add: in_custody_def)
qed

lemma in_custody_step:
  assumes "custody_step js c c'" and "faithful js" and "in_custody js c"
  shows "in_custody js c'"
  using assms(1,3)
proof (induction rule: custody_step.induct)
  case (create c xs st content ys part)
  then show ?case using one_busy [OF create(2) _ create(1)] by (auto simp: in_custody_def awaited_def)
next
  case (wrote c xs st content ys)
  then show ?case using one_busy [OF wrote(2) _ wrote(1)] by (auto simp: in_custody_def awaited_def)
next
  case (rename c xs st content ys bytes)
  then show ?case
    using one_busy [OF rename(3) _ rename(1)] assms(2)
    by (auto simp: in_custody_def awaited_def on_disk_def load_def faithful_def)
qed (auto simp: in_custody_def awaited_def on_disk_def load_def)

lemma in_custody_run: "(custody_step js)\<^sup>*\<^sup>* c c' \<Longrightarrow> faithful js \<Longrightarrow> in_custody js c \<Longrightarrow> in_custody js c'"
  by (induction rule: rtranclp_induct) (auto intro: in_custody_step)

section \<open>Properties\<close>

text \<open>C24: saving is atomic. In every state of the file system a save goes through, up to and including
  a crash in the middle of writing, loading yields what it yielded before or the complete new
  state, and no file other than the state file and its temporary file changes; if every call
  succeeds, loading yields the new state. The hypothesis on the encoding: what it encodes, it
  decodes to the same state.\<close>

theorem saveNow_atomic:
  assumes "\<And>content. sj_Marshal js st = Some content \<Longrightarrow> sj_Unmarshal js content = Some st"
  shows "(\<forall>fs' \<in> set (saveNow js os s st fs).
      load js True s fs' \<in> {load js True s fs, (st, False)} \<and>
      (\<forall>p. p \<notin> {ss_path s, tmpPath (ss_path s)} \<longrightarrow> fs' p = fs p)) \<and>
    (ss_path s \<noteq> [] \<and> sj_Marshal js st \<noteq> None \<and> so_mkdir os \<and> so_write os \<and> so_rename os \<longrightarrow>
      load js True s (last (saveNow js os s st fs)) = (st, False))"
proof (cases "sj_Marshal js st")
  case None
  then show ?thesis by (simp add: saveNow_def)
next
  case (Some content)
  show ?thesis by (simp add: saveNow_def load_def Some assms [OF Some] Let_def)
qed

definition js_example :: state_json where
  "js_example = \<lparr>sj_Marshal = (\<lambda>st. Some []), sj_Unmarshal = (\<lambda>b. Some (\<lambda>_. None))\<rparr>"

theorem saveNow_atomic_witness:
  "load js_example True (newStateStore ''s'')
     (last (saveNow js_example \<lparr>so_mkdir = True, so_write = True, so_partial = None, so_rename = True\<rparr>
       (newStateStore ''s'') (\<lambda>_. None) (\<lambda>_. None))) = ((\<lambda>_. None), False)"
  using saveNow_atomic [of js_example "\<lambda>_. None" "\<lparr>so_mkdir = True, so_write = True, so_partial = None, so_rename = True\<rparr>"
      "newStateStore ''s''" "\<lambda>_. None"]
  by (simp add: js_example_def newStateStore_def)


definition persisted_example :: persistedIface where
  "persisted_example = \<lparr>pi_Statics4 = [], pi_Statics6 = [], pi_Leases4 = [], pi_Leases6 = [], pi_PD = None\<rparr>"

text \<open>An encoding of two states.\<close>

definition bound_state :: persistedState where
  "bound_state = [''br0'' \<mapsto> persisted_example]"

definition js2_example :: state_json where
  "js2_example = \<lparr>sj_Marshal = (\<lambda>st. if st = Map.empty then Some [0] else if st = bound_state then Some [1] else None),
     sj_Unmarshal = (\<lambda>b. if b = [0] then Some Map.empty else if b = [1] then Some bound_state else None)\<rparr>"

definition custody_example :: custody where
  "custody_example = \<lparr>cu_store = newStateStore ''s'', cu_state = Map.empty, cu_fs = [''s'' \<mapsto> [0]], cu_due = 0, cu_busy = [],
     cu_upset = False\<rparr>"

lemma js2_simps [simp]:
  "bound_state \<noteq> Map.empty" "Map.empty \<noteq> bound_state" "faithful js2_example"
  "sj_Marshal js2_example Map.empty = Some [0]" "sj_Marshal js2_example bound_state = Some [1]"
  "sj_Unmarshal js2_example [0] = Some Map.empty" "sj_Unmarshal js2_example [1] = Some bound_state"
proof -
  show b: "bound_state \<noteq> Map.empty" by (simp add: bound_state_def)
  then show "Map.empty \<noteq> bound_state" by metis
  show "faithful js2_example" using b by (auto simp: faithful_def js2_example_def)
qed (use bound_state_def in \<open>simp_all add: js2_example_def bound_state_def\<close>)


text \<open>A change whose timer fires and whose save collects; the file operations of a save that has collected.\<close>

lemma step3_run: "r a b \<Longrightarrow> r b c \<Longrightarrow> r c d \<Longrightarrow> d = e \<Longrightarrow> r\<^sup>*\<^sup>* a e"
  by (meson converse_rtranclp_into_rtranclp r_into_rtranclp)

lemma save_begins:
  assumes "ss_path (cu_store c) \<noteq> []" "\<not> ss_pending (cu_store c)" "sj_Marshal js st = Some content"
  shows "(custody_step js)\<^sup>*\<^sup>* c (c\<lparr>cu_state := st, cu_busy := (Collected, st, content) # cu_busy c, cu_upset := (cu_busy c \<noteq> [])\<rparr>)"
proof -
  define c1 where "c1 = c\<lparr>cu_state := st, cu_store := markDirty (cu_store c)\<rparr>"
  define c2 where "c2 = c1\<lparr>cu_store := saveDue (cu_store c1), cu_due := Suc (cu_due c1)\<rparr>"
  have store: "saveDue (markDirty (cu_store c)) = cu_store c"
    using assms(1,2) by (simp add: markDirty_def saveDue_def)
  have "custody_step js c c1" unfolding c1_def by (rule change)
  moreover have "custody_step js c1 c2" unfolding c2_def by (rule timer) (simp add: c1_def assms(1))
  moreover have "custody_step js c2 (c2\<lparr>cu_due := cu_due c, cu_busy := (Collected, cu_state c2, content) # cu_busy c2,
      cu_upset := (cu_busy c2 \<noteq> [])\<rparr>)"
    by (rule collect) (simp_all add: c2_def c1_def assms(1,3))
  moreover have "c2\<lparr>cu_due := cu_due c, cu_busy := (Collected, cu_state c2, content) # cu_busy c2, cu_upset := (cu_busy c2 \<noteq> [])\<rparr> =
      c\<lparr>cu_state := st, cu_busy := (Collected, st, content) # cu_busy c, cu_upset := (cu_busy c \<noteq> [])\<rparr>"
    by (cases c) (use store in \<open>simp add: c2_def c1_def\<close>)
  ultimately show ?thesis by (rule step3_run)
qed

lemma save_ends:
  assumes "cu_busy c = xs @ (Collected, st, content) # ys"
  shows "(custody_step js)\<^sup>*\<^sup>* c (c\<lparr>cu_busy := xs @ ys,
    cu_fs := (cu_fs c)(ss_path (cu_store c) \<mapsto> content, tmpPath (ss_path (cu_store c)) := None)\<rparr>)"
proof -
  let ?tmp = "tmpPath (ss_path (cu_store c))"
  define c1 where "c1 = c\<lparr>cu_busy := xs @ (Writing, st, content) # ys, cu_fs := (cu_fs c)(?tmp := None)\<rparr>"
  define c2 where "c2 = c1\<lparr>cu_busy := xs @ (Written, st, content) # ys, cu_fs := (cu_fs c1)(?tmp \<mapsto> content)\<rparr>"
  have "custody_step js c c1" unfolding c1_def by (rule create) (rule assms)
  moreover have "custody_step js c1 c2"
    unfolding c2_def using wrote [of c1 xs st content ys js] by (simp add: c1_def)
  moreover have "custody_step js c2 (c2\<lparr>cu_busy := xs @ ys,
      cu_fs := (cu_fs c2)(ss_path (cu_store c) \<mapsto> content, ?tmp := None)\<rparr>)"
    using rename [of c2 xs st content ys content js] by (simp add: c2_def c1_def)
  moreover have "c2\<lparr>cu_busy := xs @ ys, cu_fs := (cu_fs c2)(ss_path (cu_store c) \<mapsto> content, ?tmp := None)\<rparr> =
      c\<lparr>cu_busy := xs @ ys, cu_fs := (cu_fs c)(ss_path (cu_store c) \<mapsto> content, ?tmp := None)\<rparr>"
    by (cases c) (simp add: c2_def c1_def fun_upd_twist)
  ultimately show ?thesis by (rule step3_run)
qed

text \<open>A failed save is not repeated: what it should have written stays unsaved until the next change.\<close>

lemma failed_save_forgets:
  "\<exists>c. (custody_step js2_example)\<^sup>*\<^sup>* custody_example c \<and> cu_state c = bound_state \<and> \<not> awaited c \<and> cu_busy c = [] \<and>
     load js2_example True (cu_store c) (cu_fs c) = (Map.empty, False)"
proof -
  define c1 where "c1 = custody_example\<lparr>cu_state := bound_state, cu_busy := [(Collected, bound_state, [1])], cu_upset := False\<rparr>"
  define c2 where "c2 = c1\<lparr>cu_busy := [], cu_upset := True\<rparr>"
  have "(custody_step js2_example)\<^sup>*\<^sup>* custody_example c1"
    using save_begins [of custody_example js2_example bound_state "[1]"]
    by (simp add: c1_def custody_example_def newStateStore_def)
  moreover have "custody_step js2_example c1 c2"
    using mkdir_fails [of c1 "[]" bound_state "[1]" "[]"] by (simp add: c1_def c2_def)
  ultimately have "(custody_step js2_example)\<^sup>*\<^sup>* custody_example c2" by (rule rtranclp.rtrancl_into_rtrancl)
  moreover have "cu_state c2 = bound_state \<and> \<not> awaited c2 \<and> cu_busy c2 = [] \<and>
      load js2_example True (cu_store c2) (cu_fs c2) = (Map.empty, False)"
    by (simp add: c2_def c1_def custody_example_def awaited_def load_def newStateStore_def)
  ultimately show ?thesis by blast
qed

text \<open>Two saves that overlap: the older one can be the last to rename, and then its outdated state stays.\<close>

lemma overlapping_saves_lose_update:
  "\<exists>c. (custody_step js2_example)\<^sup>*\<^sup>* custody_example c \<and> cu_state c = Map.empty \<and> \<not> awaited c \<and> cu_busy c = [] \<and>
     load js2_example True (cu_store c) (cu_fs c) = (bound_state, False)"
proof -
  let ?old = "(Collected, bound_state, [1])" and ?new = "(Collected, Map.empty, [0])"
  define c1 where "c1 = custody_example\<lparr>cu_state := bound_state, cu_busy := [?old], cu_upset := False\<rparr>"
  define c2 where "c2 = c1\<lparr>cu_state := Map.empty, cu_busy := [?new, ?old], cu_upset := True\<rparr>"
  define c3 where "c3 = c2\<lparr>cu_busy := [?old], cu_fs := (cu_fs c2)(''s'' \<mapsto> [0], tmpPath ''s'' := None)\<rparr>"
  define c4 where "c4 = c3\<lparr>cu_busy := [], cu_fs := (cu_fs c3)(''s'' \<mapsto> [1], tmpPath ''s'' := None)\<rparr>"
  note ex = custody_example_def newStateStore_def
  have "(custody_step js2_example)\<^sup>*\<^sup>* custody_example c1"
    using save_begins [of custody_example js2_example bound_state "[1]"] by (simp add: c1_def ex)
  also have "(custody_step js2_example)\<^sup>*\<^sup>* c1 c2"
    using save_begins [of c1 js2_example Map.empty "[0]"] by (simp add: c2_def c1_def ex)
  also have "(custody_step js2_example)\<^sup>*\<^sup>* c2 c3"
    using save_ends [of c2 "[]" Map.empty "[0]" "[?old]" js2_example] by (simp add: c3_def c2_def c1_def ex)
  also have "(custody_step js2_example)\<^sup>*\<^sup>* c3 c4"
    using save_ends [of c3 "[]" bound_state "[1]" "[]" js2_example] by (simp add: c4_def c3_def c2_def c1_def ex)
  finally have "(custody_step js2_example)\<^sup>*\<^sup>* custody_example c4" .
  moreover have "cu_state c4 = Map.empty \<and> \<not> awaited c4 \<and> cu_busy c4 = [] \<and>
      load js2_example True (cu_store c4) (cu_fs c4) = (bound_state, False)"
    by (simp add: c4_def c3_def c2_def c1_def ex awaited_def load_def tmpPath_def)
  ultimately show ?thesis by blast
qed

end
