(* ===== verification/Transport.thy ===== *)
theory Transport
  imports Packet
begin

text \<open>
  \<^verbatim>\<open>internal/transport/afpacket.go\<close>: the packet socket of a served interface. The filter is the
  cBPF program of the source, run by an interpreter of the classic BPF machine; opening,
  writing and closing are sequences of system calls whose results are arguments.
\<close>

section \<open>The classic BPF machine\<close>

datatype bpf_cond = JumpEqual | JumpNotEqual | JumpBitsSet

datatype bpf_instr =
    LoadExtensionVLANTagPresent
  | LoadAbsolute nat nat
  | LoadIndirect nat nat
  | LoadMemShift nat
  | JumpIf bpf_cond u32 nat nat
  | RetConstant u32

fun bpf_cond_holds :: "bpf_cond \<Rightarrow> u32 \<Rightarrow> u32 \<Rightarrow> bool" where
  "bpf_cond_holds JumpEqual a v = (a = v)"
| "bpf_cond_holds JumpNotEqual a v = (a \<noteq> v)"
| "bpf_cond_holds JumpBitsSet a v = (a AND v \<noteq> 0)"

definition bpf_load :: "bytes \<Rightarrow> nat \<Rightarrow> nat \<Rightarrow> u32 option" where
  "bpf_load pkt off sz =
     (if off + sz \<le> length pkt then Some (of_nat (be_nat (go_slice pkt off (off + sz)))) else None)"

text \<open>The result is the number of bytes accepted. A load outside the packet ends the program with
  0, as the kernel does; so does running past the end. Jumps go forward only.\<close>

function bpf_run :: "bool \<Rightarrow> bytes \<Rightarrow> bpf_instr list \<Rightarrow> u32 \<Rightarrow> nat \<Rightarrow> u32" where
  "bpf_run vlan pkt [] a x = 0"
| "bpf_run vlan pkt (LoadExtensionVLANTagPresent # prog) a x =
     bpf_run vlan pkt prog (if vlan then 1 else 0) x"
| "bpf_run vlan pkt (LoadAbsolute off sz # prog) a x =
     (case bpf_load pkt off sz of None \<Rightarrow> 0 | Some v \<Rightarrow> bpf_run vlan pkt prog v x)"
| "bpf_run vlan pkt (LoadIndirect off sz # prog) a x =
     (case bpf_load pkt (x + off) sz of None \<Rightarrow> 0 | Some v \<Rightarrow> bpf_run vlan pkt prog v x)"
| "bpf_run vlan pkt (LoadMemShift off # prog) a x =
     (case bpf_load pkt off 1 of
        None \<Rightarrow> 0
      | Some v \<Rightarrow> bpf_run vlan pkt prog a (4 * unat (v AND 0xF)))"
| "bpf_run vlan pkt (JumpIf cond v skipTrue skipFalse # prog) a x =
     bpf_run vlan pkt (drop (if bpf_cond_holds cond a v then skipTrue else skipFalse) prog) a x"
| "bpf_run vlan pkt (RetConstant v # prog) a x = v"
  by pat_completeness auto
termination
  by (relation "measure (\<lambda>(vlan, pkt, prog, a, x). length prog)") auto

abbreviation acceptLen :: u32 where "acceptLen \<equiv> 0x40000"

definition filterProgram :: "bpf_instr list" where
  "filterProgram =
    [LoadExtensionVLANTagPresent,
     JumpIf JumpNotEqual 0 18 0,
     LoadAbsolute 12 2,
     JumpIf JumpEqual 0x86DD 0 7,
     LoadAbsolute 20 1,
     JumpIf JumpEqual 17 0 2,
     LoadAbsolute 56 2,
     JumpIf JumpEqual 547 11 12,
     JumpIf JumpEqual 58 0 11,
     LoadAbsolute 54 1,
     JumpIf JumpEqual 133 8 9,
     JumpIf JumpEqual 0x0800 0 8,
     LoadAbsolute 23 1,
     JumpIf JumpEqual 17 0 6,
     LoadAbsolute 20 2,
     JumpIf JumpBitsSet 0x1FFF 4 0,
     LoadMemShift 14,
     LoadIndirect 16 2,
     JumpIf JumpEqual 67 0 1,
     RetConstant acceptLen,
     RetConstant 0]"

text \<open>The socket queues a frame exactly when the program accepts some of its bytes.\<close>

definition filterAccepts :: "bool \<Rightarrow> bytes \<Rightarrow> bool" where
  "filterAccepts vlan pkt \<longleftrightarrow> bpf_run vlan pkt filterProgram 0 0 \<noteq> 0"

section \<open>The socket\<close>

datatype syscall =
    SysSocket
  | SysAttachFilter nat "bpf_instr list"
  | SysAddMembership nat
  | SysBind nat u16 nat
  | SysShutdown nat
  | SysClose nat
  | SysSendto nat bytes nat bytes

datatype transport_err = ErrInterface | ErrPacketSocket | ErrAttachFilter | ErrBind | ErrShortFrame | ErrSendto

record Conn =
  cn_fd :: nat
  cn_ifindex :: nat
  cn_closed :: bool

text \<open>What the system answers: the interface index, the descriptor, and which calls succeed.\<close>

record os_open =
  os_ifindex :: "nat option"
  os_socket :: "nat option"
  os_attach :: bool
  os_bind :: bool

definition htons :: "u16 \<Rightarrow> u16" where
  "htons v = push_bit 8 v OR drop_bit 8 v"

abbreviation ETH_P_ALL :: u16 where "ETH_P_ALL \<equiv> 3"

definition openConn :: "os_open \<Rightarrow> (transport_err + Conn) \<times> syscall list" where
  "openConn os =
     (case os_ifindex os of
        None \<Rightarrow> (Inl ErrInterface, [])
      | Some ifindex \<Rightarrow>
          (case os_socket os of
             None \<Rightarrow> (Inl ErrPacketSocket, [SysSocket])
           | Some fd \<Rightarrow>
               if \<not> os_attach os
               then (Inl ErrAttachFilter, [SysSocket, SysAttachFilter fd filterProgram, SysClose fd])
               else if \<not> os_bind os
               then (Inl ErrBind, [SysSocket, SysAttachFilter fd filterProgram, SysAddMembership ifindex,
                       SysBind fd (htons ETH_P_ALL) ifindex, SysClose fd])
               else (Inr \<lparr>cn_fd = fd, cn_ifindex = ifindex, cn_closed = False\<rparr>,
                     [SysSocket, SysAttachFilter fd filterProgram, SysAddMembership ifindex,
                      SysBind fd (htons ETH_P_ALL) ifindex])))"

definition writeConn :: "bool \<Rightarrow> Conn \<Rightarrow> bytes \<Rightarrow> transport_err option \<times> syscall list" where
  "writeConn sent c frame =
     (if length frame < 14 then (Some ErrShortFrame, [])
      else (let addr = go_copy (replicate 8 0) 0 8 (go_slice frame 0 6)
            in (if sent then None else Some ErrSendto,
                [SysSendto (cn_fd c) frame (cn_ifindex c) addr])))"

definition closeConn :: "Conn \<Rightarrow> Conn \<times> syscall list" where
  "closeConn c =
     (if cn_closed c then (c, [])
      else (c\<lparr>cn_closed := True\<rparr>, [SysShutdown (cn_fd c), SysClose (cn_fd c)]))"

section \<open>What the filter admits\<close>

lemma bpf_load_byte: "off < length pkt \<Longrightarrow> bpf_load pkt off 1 = Some (ucast (pkt ! off))"
  by (simp add: bpf_load_def go_slice_def take_Suc_conv_app_nth Cons_nth_drop_Suc [symmetric] be_nat_def)

lemma bpf_load_None [simp]: "length pkt < off + sz \<Longrightarrow> bpf_load pkt off sz = None"
  by (simp add: bpf_load_def)

text \<open>The 16-bit field of a frame at an offset.\<close>

definition field16 :: "bytes \<Rightarrow> nat \<Rightarrow> nat" where
  "field16 pkt off = be_nat (go_slice pkt off (off + 2))"

lemma bpf_load_16: "off + 2 \<le> length pkt \<Longrightarrow> bpf_load pkt off 2 = Some (of_nat (field16 pkt off))"
  by (simp add: bpf_load_def field16_def)

lemma field16_less: "field16 pkt off < 65536"
proof -
  have "be_nat (go_slice pkt off (off + 2)) < 256 ^ length (go_slice pkt off (off + 2))"
    by (rule be_nat_less)
  also have "\<dots> \<le> 256 ^ 2" by (rule power_increasing) (simp_all add: go_slice_def)
  finally show ?thesis by (simp add: field16_def)
qed

lemma of_nat_field16: "(of_nat (field16 pkt off) :: u32) = w \<longleftrightarrow> field16 pkt off = unat w"
  using field16_less [of pkt off] by (auto simp: word_unat_eq_iff unat_of_nat)

lemma ucast_byte: "(ucast (b :: u8) :: u32) = w \<longleftrightarrow> unat b = unat w"
  using less_trans [OF unat_u8_less [of b], of 4294967296]
  by (simp add: word_unat_eq_iff unsigned_ucast_eq take_bit_eq_mod)

lemma mask_13: "(w :: u32) AND 0x1FFF = take_bit 13 w"
  by (simp add: take_bit_eq_mask mask_eq_exp_minus_1)

lemma frag_offset: "(of_nat (field16 pkt off) :: u32) AND 0x1FFF = 0 \<longleftrightarrow> field16 pkt off mod 8192 = 0"
proof -
  have "unat (take_bit 13 (of_nat (field16 pkt off) :: u32)) = field16 pkt off mod 8192"
    using field16_less [of pkt off] by (simp add: unat_take_bit_mod unat_of_nat)
  then show ?thesis by (simp add: mask_13 flip: unat_eq_0)
qed

text \<open>The header length in bytes, from the first byte of the IPv4 header.\<close>

definition ihl4 :: "bytes \<Rightarrow> nat" where
  "ihl4 pkt = 4 * unat ((ucast (pkt ! 14) :: u32) AND 0xF)"

definition admits4 :: "bytes \<Rightarrow> bool" where
  "admits4 pkt \<longleftrightarrow> field16 pkt 12 = 0x0800 \<and> 24 \<le> length pkt \<and> unat (pkt ! 23) = 17 \<and>
     field16 pkt 20 mod 8192 = 0 \<and> ihl4 pkt + 18 \<le> length pkt \<and> field16 pkt (ihl4 pkt + 16) = 67"

definition admits6 :: "bytes \<Rightarrow> bool" where
  "admits6 pkt \<longleftrightarrow> field16 pkt 12 = 0x86DD \<and> 21 \<le> length pkt \<and>
     (unat (pkt ! 20) = 17 \<and> 58 \<le> length pkt \<and> field16 pkt 56 = 547 \<or>
      unat (pkt ! 20) = 58 \<and> 55 \<le> length pkt \<and> unat (pkt ! 54) = 133)"

lemma load1: "bpf_load pkt off 1 = (if off < length pkt then Some (ucast (pkt ! off)) else None)"
  using bpf_load_byte [of off pkt] by (cases "off < length pkt") simp_all

lemma load2: "bpf_load pkt off 2 = (if off + 2 \<le> length pkt then Some (of_nat (field16 pkt off)) else None)"
  by (cases "off + 2 \<le> length pkt") (simp_all add: bpf_load_16)

lemma filterAccepts_cases:
  "filterAccepts vlan pkt \<longleftrightarrow> \<not> vlan \<and> 14 \<le> length pkt \<and> (admits4 pkt \<or> admits6 pkt)"
  unfolding filterAccepts_def filterProgram_def admits4_def admits6_def
  by (simp add: load1 [unfolded One_nat_def] load2 of_nat_field16 ucast_byte frag_offset ihl4_def)

section \<open>The filter and the parser\<close>

text \<open>The packets some server of the interface consumes.\<close>

definition wanted :: "ingress \<Rightarrow> bool" where
  "wanted p \<longleftrightarrow> in_IsUDP4 p \<and> in_DstPort p = 67 \<or> in_IsUDP6 p \<and> in_DstPort p = 547 \<or>
     in_IsICMP6 p \<and> in_ICMPTyp p = ICMPv6TypeRouterSolicit"

lemma field16_drop: "field16 (drop n pkt) off = field16 pkt (n + off)"
  by (simp add: field16_def go_slice_def add.commute add.left_commute)

lemma field16_slice:
  assumes "a + off + 2 \<le> b"
  shows "field16 (go_slice pkt a b) off = field16 pkt (a + off)"
proof -
  have "take 2 (drop off (take (b - a) (drop a pkt))) = take 2 (drop (a + off) pkt)"
    using assms by (simp add: drop_take min_def add.commute)
  then show ?thesis by (simp add: field16_def go_slice_def)
qed

lemma port_eq: "n < 65536 \<Longrightarrow> (of_nat (field16 pkt off) :: u16) = of_nat n \<longleftrightarrow> field16 pkt off = n"
  using field16_less [of pkt off] by (simp add: word_unat_eq_iff unat_of_nat)

lemma mask_14: "(w :: u16) AND 0x3FFF = take_bit 14 w"
  by (simp add: take_bit_eq_mask mask_eq_exp_minus_1)

lemma frag_both:
  assumes "(of_nat (field16 pkt off) :: u16) AND 0x3FFF = 0"
  shows "field16 pkt off mod 8192 = 0"
proof -
  have "unat (of_nat (field16 pkt off) :: u16) mod 2 ^ 14 = 0"
    using assms unat_take_bit_mod [of 14 "of_nat (field16 pkt off) :: u16"] unfolding mask_14 by simp
  moreover have "unat (of_nat (field16 pkt off) :: u16) = field16 pkt off"
    using field16_less [of pkt off] by (simp add: unat_of_nat)
  ultimately have "field16 pkt off mod 16384 mod 8192 = 0" by simp
  then show ?thesis by (simp add: mod_mod_cancel)
qed

lemma byte_eq: "(b :: u8) = numeral n \<longleftrightarrow> unat b = unat (numeral n :: u8)"
  by (rule word_unat_eq_iff)

lemma ihl4_body: "ihl4 pkt = unat ((pkt ! 14) AND 0x0F) * 4"
proof -
  have "(ucast (pkt ! 14) :: u32) AND 0xF = ucast ((pkt ! 14) AND 0x0F)"
    by (rule bit_eqI) (auto simp: bit_simps dest: bit_imp_le_length)
  then show ?thesis
    using less_trans [OF unat_u8_less [of "(pkt ! 14) AND 0x0F"], of 4294967296]
    by (simp add: ihl4_def unsigned_ucast_eq take_bit_eq_mod)
qed

lemma slice_field16: "be_nat (go_slice pkt a (a + 2)) = field16 pkt a"
  by (simp add: field16_def)

lemma parse4_admits:
  assumes "parseIPv4 (emptyIngress\<lparr>in_SrcMAC := m\<rparr>) (drop 14 pkt) = Some p" and "field16 pkt 12 = 0x0800"
  shows "wanted p \<longleftrightarrow> admits4 pkt"
proof -
  let ?body = "drop 14 pkt"
  define ihl where "ihl = unat (?body ! 0 AND 0x0F) * 4"
  define tot where "tot = be_nat (go_slice ?body 2 4)"
  have f6: "be_nat (go_slice ?body 6 8) = field16 pkt 20"
    using field16_drop [of 14 pkt 6] by (simp add: field16_def)
  have g: "20 \<le> length ?body" "20 \<le> ihl" "ihl \<le> tot" "tot \<le> length ?body" "8 \<le> length (go_slice ?body ihl tot)"
      "(of_nat (field16 pkt 20) :: u16) AND 0x3FFF = 0" "?body ! 9 = ProtoUDP"
      "p = emptyIngress\<lparr>in_SrcMAC := m, in_IsUDP4 := True, in_SrcIP := go_slice ?body 12 16,
        in_DstIP := go_slice ?body 16 20,
        in_SrcPort := of_nat (be_nat (go_slice (go_slice ?body ihl tot) 0 2)),
        in_DstPort := of_nat (be_nat (go_slice (go_slice ?body ihl tot) 2 4)),
        in_Payload := drop 8 (go_slice ?body ihl tot)\<rparr>"
    using assms(1) unfolding parseIPv4_def ihl_def [symmetric] tot_def [symmetric] Let_def f6
    by (auto split: if_splits)
  have b: "ihl + 8 \<le> tot" using g(3-5) by (simp add: go_slice_def)
  have n: "?body ! 0 = pkt ! 14" "?body ! 9 = pkt ! 23" using g(1) by simp_all
  have i: "ihl4 pkt = ihl" by (simp add: ihl_def ihl4_body n)
  have port: "be_nat (go_slice (go_slice ?body ihl tot) 2 4) = field16 pkt (ihl + 16)"
    using b field16_slice [of ihl 2 tot ?body] field16_drop [of 14 pkt "ihl + 2"]
    by (simp add: field16_def add.commute)
  have len: "24 \<le> length pkt" "ihl + 18 \<le> length pkt" using g(1,4) b by simp_all
  have "wanted p \<longleftrightarrow> field16 pkt (ihl + 16) = 67"
    using port_eq [of 67 pkt "ihl + 16"] by (simp add: wanted_def g(8) port emptyIngress_def)
  also have "\<dots> \<longleftrightarrow> admits4 pkt"
    using g(7) n len frag_both [OF g(6)] by (simp add: admits4_def i assms(2))
  finally show ?thesis .
qed

lemma parse6_admits:
  assumes "parseIPv6 (emptyIngress\<lparr>in_SrcMAC := m\<rparr>) (drop 14 pkt) = Some p" and "field16 pkt 12 = 0x86DD"
  shows "wanted p \<longleftrightarrow> admits6 pkt"
proof -
  let ?body = "drop 14 pkt"
  define n where "n = be_nat (go_slice ?body 4 6)"
  let ?q = "emptyIngress\<lparr>in_SrcMAC := m, in_SrcIP := go_slice ?body 8 24, in_DstIP := go_slice ?body 24 40\<rparr>"
  let ?rest = "go_slice ?body 40 (40 + n)"
  have g: "40 \<le> length ?body" "40 + n \<le> length ?body"
    "(?body ! 6 = ProtoUDP \<and> 8 \<le> length ?rest \<and>
        p = ?q\<lparr>in_IsUDP6 := True, in_SrcPort := of_nat (be_nat (go_slice ?rest 0 2)),
               in_DstPort := of_nat (be_nat (go_slice ?rest 2 4)), in_Payload := drop 8 ?rest\<rparr>) \<or>
     (?body ! 6 = ProtoICMPv6 \<and> 4 \<le> length ?rest \<and>
        p = ?q\<lparr>in_IsICMP6 := True, in_ICMPTyp := ?rest ! 0, in_Payload := ?rest\<rparr>)"
    using assms(1) unfolding parseIPv6_def n_def [symmetric] Let_def
    by (auto split: if_splits)
  have len: "length ?rest = n" using g(2) by (simp add: go_slice_def)
  have b6: "?body ! 6 = pkt ! 20" using g(1) by simp
  have l: "54 \<le> length pkt" using g(1) by simp
  from g(3) show ?thesis
  proof
    assume u: "?body ! 6 = ProtoUDP \<and> 8 \<le> length ?rest \<and>
        p = ?q\<lparr>in_IsUDP6 := True, in_SrcPort := of_nat (be_nat (go_slice ?rest 0 2)),
               in_DstPort := of_nat (be_nat (go_slice ?rest 2 4)), in_Payload := drop 8 ?rest\<rparr>"
    have port: "be_nat (go_slice ?rest 2 4) = field16 pkt 56"
      using u len field16_slice [of 40 2 "40 + n" ?body] field16_drop [of 14 pkt 42]
      by (simp add: field16_def)
    have "wanted p \<longleftrightarrow> field16 pkt 56 = 547"
      using u port port_eq [of 547 pkt 56] by (simp add: wanted_def emptyIngress_def)
    also have "\<dots> \<longleftrightarrow> admits6 pkt"
      using u b6 l len g(2) assms(2) by (auto simp: admits6_def)
    finally show ?thesis .
  next
    assume i: "?body ! 6 = ProtoICMPv6 \<and> 4 \<le> length ?rest \<and>
        p = ?q\<lparr>in_IsICMP6 := True, in_ICMPTyp := ?rest ! 0, in_Payload := ?rest\<rparr>"
    have ty: "?rest ! 0 = pkt ! 54" using i len g(2) by (simp add: go_slice_def)
    have "wanted p \<longleftrightarrow> unat (pkt ! 54) = 133"
      using i ty by (simp add: wanted_def emptyIngress_def byte_eq)
    also have "\<dots> \<longleftrightarrow> admits6 pkt"
      using i b6 l len g(2) assms(2) by (auto simp: admits6_def)
    finally show ?thesis .
  qed
qed

section \<open>Properties\<close>

text \<open>The filter program accepts exactly the untagged frames that are IPv4 UDP to port 67 in a
  first fragment, IPv6 UDP to port 547, or ICMPv6 router solicitations; a frame too short for
  the fields read is rejected.\<close>

theorem filterProgram_admits:
  "filterAccepts vlan pkt \<longleftrightarrow> \<not> vlan \<and> 14 \<le> length pkt \<and> (admits4 pkt \<or> admits6 pkt)"
  by (rule filterAccepts_cases)

text \<open>C23: on every frame the parser understands, the kernel filter and the servers agree: an untagged
  frame is queued exactly when it is a packet some server consumes, and a tagged one never.\<close>

theorem filter_agrees_with_Parse:
  assumes "Parse pkt = Some p"
  shows "filterAccepts vlan pkt \<longleftrightarrow> \<not> vlan \<and> wanted p"
proof -
  have len: "14 \<le> length pkt" using assms by (simp add: Parse_def split: if_splits)
  have et: "be_nat (go_slice pkt 12 14) = field16 pkt 12" by (simp add: field16_def)
  have "wanted p \<longleftrightarrow> admits4 pkt \<or> admits6 pkt"
  proof (cases "field16 pkt 12 = 0x0800")
    case True
    then have "parseIPv4 (emptyIngress\<lparr>in_SrcMAC := go_slice pkt 6 12\<rparr>) (drop 14 pkt) = Some p"
      using assms len et by (simp add: Parse_def Let_def)
    with parse4_admits True show ?thesis by (simp add: admits6_def)
  next
    case False
    then have "field16 pkt 12 = 0x86DD"
        "parseIPv6 (emptyIngress\<lparr>in_SrcMAC := go_slice pkt 6 12\<rparr>) (drop 14 pkt) = Some p"
      using assms len et by (simp_all add: Parse_def Let_def split: if_splits)
    with parse6_admits show ?thesis by (simp add: admits4_def)
  qed
  with len show ?thesis by (simp add: filterAccepts_cases)
qed

theorem filter_agrees_with_Parse_witness:
  "filterAccepts False (CraftUDP4 mac_example mac_example ip_gw_example ip_gw_example 68 67 [1, 2, 3])"
proof -
  have "Parse (CraftUDP4 mac_example mac_example ip_gw_example ip_gw_example 68 67 [1, 2, 3]) =
      Some (emptyIngress\<lparr>in_SrcMAC := mac_example, in_IsUDP4 := True, in_SrcIP := To4 ip_gw_example,
        in_DstIP := To4 ip_gw_example, in_SrcPort := 68, in_DstPort := 67, in_Payload := [1, 2, 3]\<rparr>)"
    by (rule Parse_UDP4_frame) (simp_all add: mac_example_def ip_gw_example_def To4_def)
  from filter_agrees_with_Parse [OF this, of False] show ?thesis
    by (simp add: wanted_def)
qed

text \<open>No unfiltered frame is ever queued and no descriptor leaks. Whatever the system calls
  answer, the socket is bound only after the filter program has been attached to it; a failed
  attempt closes the descriptor it opened, and a successful one leaves it open.\<close>

theorem openConn_order:
  "case openConn os of (r, calls) \<Rightarrow>
     (\<forall>i fd proto ifindex. i < length calls \<longrightarrow> calls ! i = SysBind fd proto ifindex \<longrightarrow>
        SysAttachFilter fd filterProgram \<in> set (take i calls) \<and> os_attach os) \<and>
     (case r of
        Inl err \<Rightarrow> (\<forall>fd. os_ifindex os \<noteq> None \<longrightarrow> os_socket os = Some fd \<longrightarrow> last calls = SysClose fd)
      | Inr c \<Rightarrow> \<not> cn_closed c \<and> os_socket os = Some (cn_fd c) \<and> SysClose (cn_fd c) \<notin> set calls)"
  unfolding openConn_def
  by (auto simp: nth_Cons' take_Cons' split: option.splits if_splits)

theorem openConn_order_witness:
  "snd (openConn \<lparr>os_ifindex = Some 2, os_socket = Some 7, os_attach = True, os_bind = False\<rparr>) =
     [SysSocket, SysAttachFilter 7 filterProgram, SysAddMembership 2, SysBind 7 (htons ETH_P_ALL) 2, SysClose 7]"
  using openConn_order [of "\<lparr>os_ifindex = Some 2, os_socket = Some 7, os_attach = True, os_bind = False\<rparr>"]
  by (simp add: openConn_def)

text \<open>Closing is idempotent: however often \<open>Close\<close> is called, the descriptor is shut down and
  closed once, by the first call.\<close>

lemma closeConn_once:
  "snd (closeConn (fst (closeConn c))) = [] \<and>
   (snd (closeConn c) = (if cn_closed c then [] else [SysShutdown (cn_fd c), SysClose (cn_fd c)]))"
  by (simp add: closeConn_def)

end
