(* ===== verification/Dns.thy ===== *)
theory Dns
  imports Prelude
begin

text \<open>
  \<^verbatim>\<open>internal/dnsfwd\<close>: the DNS forwarder. An upstream answers a query or fails; a chain tries its
  upstreams in order; the listeners relay queries and answer SERVFAIL when no upstream does.
  A connection is what it delivers: the datagrams that arrive before the query's deadline, or
  the bytes of a stream before it ends.
\<close>

section \<open>Upstreams\<close>

datatype dns_err =
    ErrNoUpstreams | ErrNoNameservers | ErrDial | ErrWrite | ErrRead
  | ErrProxyStatus | ErrProxyCode | ErrProxyLength | ErrProxyBogus | ErrProxyAnswer | ErrProxyTxid

type_synonym upstream = "bytes \<Rightarrow> bool \<Rightarrow> dns_err + bytes"

fun chainLoop :: "upstream list \<Rightarrow> bytes \<Rightarrow> bool \<Rightarrow> dns_err option \<Rightarrow> dns_err + bytes" where
  "chainLoop [] query tcp lastErr =
     Inl (case lastErr of None \<Rightarrow> ErrNoUpstreams | Some err \<Rightarrow> err)"
| "chainLoop (u # ups) query tcp lastErr =
     (case u query tcp of
        Inr ans \<Rightarrow> Inr ans
      | Inl err \<Rightarrow> chainLoop ups query tcp (Some err))"

definition chainExchange :: "upstream list \<Rightarrow> upstream" where
  "chainExchange ups query tcp = chainLoop ups query tcp None"

text \<open>\<^verbatim>\<open>net.SplitHostPort\<close>: whether it succeeds.\<close>

definition SplitHostPort_ok :: "string \<Rightarrow> bool" where
  "SplitHostPort_ok s =
     (case lastIndex CHR '':'' s of
        None \<Rightarrow> False
      | Some i \<Rightarrow>
          if s ! 0 = CHR ''[''
          then (case firstIndex CHR '']'' s of
                  None \<Rightarrow> False
                | Some e \<Rightarrow> Suc e = i \<and> CHR ''['' \<notin> set (drop 1 s) \<and> CHR '']'' \<notin> set (drop (Suc e) s))
          else CHR '':'' \<notin> set (take i s) \<and> CHR ''['' \<notin> set s \<and> CHR '']'' \<notin> set s)"

definition normalizeServer :: "string \<Rightarrow> string" where
  "normalizeServer s =
     (if SplitHostPort_ok s then s
      else if CHR '':'' \<in> set s \<and> take 1 s \<noteq> ''['' then ''['' @ s @ '']:53''
      else s @ '':53'')"

fun normalizeServers :: "string list \<Rightarrow> string list" where
  "normalizeServers [] = []"
| "normalizeServers (s # ss) =
     (let s = TrimSpace s
      in if s = [] then normalizeServers ss else normalizeServer s # normalizeServers ss)"

text \<open>\<^verbatim>\<open>strings.Fields\<close>.\<close>

function Fields :: "string \<Rightarrow> string list" where
  "Fields s =
     (let s = dropWhile go_space s
      in if s = [] then []
         else takeWhile (\<lambda>c. \<not> go_space c) s # Fields (dropWhile (\<lambda>c. \<not> go_space c) s))"
  by pat_completeness auto
termination
proof (relation "measure length")
  fix s x :: string
  assume x: "x = dropWhile go_space s" "x \<noteq> []"
  then obtain c r where "x = c # r" "\<not> go_space c"
    by (metis (full_types) hd_dropWhile list.exhaust_sel)
  then have "length (dropWhile (\<lambda>c. \<not> go_space c) x) < length x"
    using length_dropWhile_le [of _ r] by (simp add: less_Suc_eq_le)
  also have "length x \<le> length s" using x(1) length_dropWhile_le by blast
  finally show "(dropWhile (\<lambda>c. \<not> go_space c) x, s) \<in> measure length" by simp
qed simp

text \<open>The lines of the file, as \<^verbatim>\<open>bufio.Scanner\<close> delivers them; \<open>None\<close> when it cannot be opened.\<close>

definition parseResolvConf :: "string list option \<Rightarrow> string list" where
  "parseResolvConf content =
     (case content of
        None \<Rightarrow> []
      | Some ls \<Rightarrow>
          concat (map (\<lambda>l. let fields = Fields l
                           in if 2 \<le> length fields \<and> fields ! 0 = ''nameserver'' then [fields ! 1] else []) ls))"

text \<open>The cache of \<open>NewResolvConf\<close>: the servers and the modification time they were read at; \<open>None\<close> is
  the nil slice, which \<open>normalizeServers\<close> also returns when there is no server. \<open>stat\<close> is the
  file's modification time, \<open>None\<close> when it cannot be read.\<close>

definition resolvLoad ::
  "time option \<Rightarrow> string list option \<Rightarrow> string list option \<times> time \<Rightarrow> string list \<times> (string list option \<times> time)" where
  "resolvLoad stat content cache =
     (let (cached, mtime) = cache; servers = (\<lambda>c. case c of None \<Rightarrow> [] | Some ss \<Rightarrow> ss)
      in case stat of
           None \<Rightarrow> (servers cached, cache)
         | Some t \<Rightarrow>
             if t = mtime \<and> cached \<noteq> None then (servers cached, cache)
             else (let ss = normalizeServers (parseResolvConf content);
                       cached = (if ss = [] then None else Some ss)
                   in (ss, (cached, t))))"

fun serverLoop :: "(string \<Rightarrow> dns_err + bytes) \<Rightarrow> string list \<Rightarrow> dns_err \<Rightarrow> dns_err + bytes" where
  "serverLoop ask [] lastErr = Inl lastErr"
| "serverLoop ask (srv # servers) lastErr =
     (case ask srv of Inr ans \<Rightarrow> Inr ans | Inl err \<Rightarrow> serverLoop ask servers err)"

text \<open>A connection to a server: whether dialling and writing succeed, the datagrams received before
  the deadline, the bytes received before the stream ends.\<close>

record dns_conn =
  dc_dialled :: bool
  dc_written :: bool
  dc_datagrams :: "bytes list"
  dc_stream :: bytes

definition sameTxid :: "bytes \<Rightarrow> bytes \<Rightarrow> bool" where
  "sameTxid a b \<longleftrightarrow> a ! 0 = b ! 0 \<and> a ! 1 = b ! 1"

fun recvUDP :: "bytes \<Rightarrow> bytes list \<Rightarrow> dns_err + bytes" where
  "recvUDP query [] = Inl ErrRead"
| "recvUDP query (d # ds) =
     (let buf = take 4096 d
      in if 2 \<le> length buf \<and> 2 \<le> length query \<and> sameTxid buf query then Inr buf
         else recvUDP query ds)"

definition exchangeUDP :: "(string \<Rightarrow> dns_conn) \<Rightarrow> string \<Rightarrow> bytes \<Rightarrow> dns_err + bytes" where
  "exchangeUDP net server query =
     (let conn = net server
      in if \<not> dc_dialled conn then Inl ErrDial
         else if \<not> dc_written conn then Inl ErrWrite
         else recvUDP query (dc_datagrams conn))"

text \<open>\<^verbatim>\<open>io.ReadFull\<close> on what remains of a stream.\<close>

definition readFull :: "nat \<Rightarrow> bytes \<Rightarrow> (bytes \<times> bytes) option" where
  "readFull n s = (if n \<le> length s then Some (take n s, drop n s) else None)"

definition frame16 :: "bytes \<Rightarrow> bytes" where
  "frame16 msg = be_bytes 2 (length msg mod 2 ^ 16) @ msg"

definition exchangeTCP :: "(string \<Rightarrow> dns_conn) \<Rightarrow> string \<Rightarrow> bytes \<Rightarrow> dns_err + bytes" where
  "exchangeTCP net server query =
     (let conn = net server
      in if \<not> dc_dialled conn then Inl ErrDial
         else if \<not> dc_written conn then Inl ErrWrite
         else (case readFull 2 (dc_stream conn) of
                 None \<Rightarrow> Inl ErrRead
               | Some (lenBuf, s) \<Rightarrow>
                   (case readFull (be_nat lenBuf) s of
                      None \<Rightarrow> Inl ErrRead
                    | Some (ans, _) \<Rightarrow> Inr ans)))"

definition serverListExchange :: "(string \<Rightarrow> dns_conn) \<Rightarrow> string list \<Rightarrow> upstream" where
  "serverListExchange net servers query tcp =
     (if servers = [] then Inl ErrNoNameservers
      else serverLoop (\<lambda>srv. if tcp then exchangeTCP net srv query else exchangeUDP net srv query)
             servers ErrNoNameservers)"

section \<open>The resolver of Android\<close>

text \<open>\<^verbatim>\<open>base64.URLEncoding\<close> without padding.\<close>

definition b64alphabet :: string where
  "b64alphabet = ''ABCDEFGHIJKLMNOPQRSTUVWXYZabcdefghijklmnopqrstuvwxyz0123456789-_''"

definition b64char :: "nat \<Rightarrow> char" where
  "b64char i = b64alphabet ! i"

fun b64encode :: "bytes \<Rightarrow> string" where
  "b64encode [] = []"
| "b64encode [a] =
     (let n = unat a * 2 ^ 16 in [b64char (n div 2 ^ 18), b64char (n div 2 ^ 12 mod 64)])"
| "b64encode [a, b] =
     (let n = unat a * 2 ^ 16 + unat b * 2 ^ 8
      in [b64char (n div 2 ^ 18), b64char (n div 2 ^ 12 mod 64), b64char (n div 2 ^ 6 mod 64)])"
| "b64encode (a # b # c # rest) =
     (let n = unat a * 2 ^ 16 + unat b * 2 ^ 8 + unat c
      in [b64char (n div 2 ^ 18), b64char (n div 2 ^ 12 mod 64), b64char (n div 2 ^ 6 mod 64),
          b64char (n mod 64)] @ b64encode rest)"

text \<open>The command, with its terminating zero byte.\<close>

definition proxyCommand :: "bytes \<Rightarrow> bytes" where
  "proxyCommand query = map of_char (''resnsend 0 0 '' @ b64encode query) @ [0]"

text \<open>The response: a signed status, a length, and the answer.\<close>

definition proxyResponse :: "bytes \<Rightarrow> bytes \<Rightarrow> dns_err + bytes" where
  "proxyResponse query s =
     (case readFull 4 s of
        None \<Rightarrow> Inl ErrProxyStatus
      | Some (c, s) \<Rightarrow>
          if sint (of_nat (be_nat c) :: u32) < 0 then Inl ErrProxyCode
          else
            (case readFull 4 s of
               None \<Rightarrow> Inl ErrProxyLength
             | Some (l, s) \<Rightarrow>
                 (let sz = be_nat l
                  in if sz = 0 \<or> 65535 < sz then Inl ErrProxyBogus
                     else (case readFull sz s of
                             None \<Rightarrow> Inl ErrProxyAnswer
                           | Some (ans, _) \<Rightarrow>
                               if 2 \<le> length ans \<and> 2 \<le> length query \<and> \<not> sameTxid ans query
                               then Inl ErrProxyTxid
                               else Inr ans))))"

text \<open>A connection to the resolver's socket: whether dialling succeeds, whether writing given bytes does,
  and the bytes received in return for them before the stream ends.\<close>

record proxy_conn =
  px_dialled :: bool
  px_writes :: "bytes \<Rightarrow> bool"
  px_answer :: "bytes \<Rightarrow> bytes"

definition androidExchange :: "proxy_conn \<Rightarrow> upstream" where
  "androidExchange conn query tcp =
     (if \<not> px_dialled conn then Inl ErrDial
      else
        (let cmd = proxyCommand query
         in if \<not> px_writes conn cmd then Inl ErrWrite
            else proxyResponse query (px_answer conn cmd)))"

section \<open>The listeners\<close>

definition servfail :: "bytes \<Rightarrow> bytes" where
  "servfail q =
     (let out = q; out = out[2 := out ! 2 OR 0x80]
      in out[3 := (out ! 3 AND 0xF0) OR 2])"

definition answerOf :: "upstream \<Rightarrow> bytes \<Rightarrow> bool \<Rightarrow> bytes" where
  "answerOf up q tcp = (case up q tcp of Inr ans \<Rightarrow> ans | Inl err \<Rightarrow> servfail q)"

text \<open>What \<open>serveUDP\<close> sends for one datagram.\<close>

definition serveUDP :: "upstream \<Rightarrow> bytes \<Rightarrow> bytes option" where
  "serveUDP up datagram =
     (let q = take 4096 datagram in if length q < 12 then None else Some (answerOf up q False))"

text \<open>What \<open>serveTCPConn\<close> writes; \<open>wr k\<close> says whether the write of the \<open>k\<close>-th answer succeeds.\<close>

function serveTCPConn :: "upstream \<Rightarrow> (nat \<Rightarrow> bool) \<Rightarrow> nat \<Rightarrow> bytes \<Rightarrow> bytes list" where
  "serveTCPConn up wr k s =
     (case readFull 2 s of
        None \<Rightarrow> []
      | Some (lenBuf, s1) \<Rightarrow>
          (case readFull (be_nat lenBuf) s1 of
             None \<Rightarrow> []
           | Some (q, s2) \<Rightarrow>
               if length q < 12 then []
               else
                 (let out = frame16 (answerOf up q True)
                  in if \<not> wr k then [] else out # serveTCPConn up wr (Suc k) s2)))"
  by pat_completeness auto
termination
  by (relation "measure (\<lambda>(up, wr, k, s). length s)") (auto simp: readFull_def split: if_splits)

text \<open>\<open>itoa\<close> writes into eight bytes from the end; \<open>None\<close> is the panic of an index out of range.\<close>

function itoaLoop :: "int \<Rightarrow> nat \<Rightarrow> string \<Rightarrow> string option" where
  "itoaLoop v i acc =
     (if 0 < v
      then (if i = 0 then None
            else itoaLoop (v div 10) (i - 1) (char_of (nat (48 + v mod 10)) # acc))
      else Some acc)"
  by pat_completeness auto
termination
  by (relation "measure (\<lambda>(v, i, acc). nat v)") auto

definition itoa :: "int \<Rightarrow> string option" where
  "itoa v = (if v = 0 then Some ''0'' else itoaLoop v 8 [])"

text \<open>The server: \<open>dnsNew\<close> binds both listeners to the interface, or neither is left open; the outer \<open>None\<close> is the panic
  of \<open>itoa\<close>. \<open>udp\<close> and \<open>tcp\<close>: whether the listeners can be opened.\<close>

record dnsServer =
  ds_iface :: string
  ds_port :: int
  ds_closed :: bool

datatype dns_call = ListenUDP string string | ListenTCP string string | CloseUDP | CloseTCP

definition dnsNew :: "bool \<Rightarrow> bool \<Rightarrow> string \<Rightarrow> int \<Rightarrow> (dnsServer option \<times> dns_call list) option" where
  "dnsNew udp tcp iface port =
     (case itoa port of
        None \<Rightarrow> None
      | Some p \<Rightarrow>
          (let s = \<lparr>ds_iface = iface, ds_port = port, ds_closed = False\<rparr>
           in if \<not> udp then Some (None, [ListenUDP iface p])
              else if \<not> tcp then Some (None, [ListenUDP iface p, ListenTCP iface p, CloseUDP])
              else Some (Some s, [ListenUDP iface p, ListenTCP iface p])))"

definition dnsClose :: "dnsServer \<Rightarrow> dnsServer \<times> dns_call list" where
  "dnsClose s = (if ds_closed s then (s, []) else (s\<lparr>ds_closed := True\<rparr>, [CloseUDP, CloseTCP]))"

text \<open>The receive and the accept loop over a script of what each call returns, \<open>None\<close> for an error, and of
  whether the server is closed then. The first yields the datagrams sent, the second what each
  connection gets.\<close>

fun udpLoop :: "upstream \<Rightarrow> (bytes option \<times> bool) list \<Rightarrow> bytes list" where
  "udpLoop up [] = []"
| "udpLoop up ((None, closed) # reads) = (if closed then [] else udpLoop up reads)"
| "udpLoop up ((Some d, closed) # reads) =
     (case serveUDP up d of None \<Rightarrow> udpLoop up reads | Some ans \<Rightarrow> ans # udpLoop up reads)"

fun tcpLoop :: "upstream \<Rightarrow> (((nat \<Rightarrow> bool) \<times> bytes) option \<times> bool) list \<Rightarrow> bytes list list" where
  "tcpLoop up [] = []"
| "tcpLoop up ((None, closed) # accepts) = (if closed then [] else tcpLoop up accepts)"
| "tcpLoop up ((Some (wr, stream), closed) # accepts) = serveTCPConn up wr 0 stream # tcpLoop up accepts"

declare serveTCPConn.simps [simp del] Fields.simps [simp del]

section \<open>Chains and listeners\<close>

lemma chainLoop_Inr:
  "chainLoop ups q tcp e = Inr ans \<longleftrightarrow>
     (\<exists>pre u post. ups = pre @ u # post \<and> u q tcp = Inr ans \<and> (\<forall>p \<in> set pre. \<exists>err. p q tcp = Inl err))"
proof (induction ups arbitrary: e)
  case (Cons v ups)
  show ?case
  proof (cases "v q tcp")
    case (Inl err)
    then have "chainLoop (v # ups) q tcp e = Inr ans \<longleftrightarrow>
      (\<exists>pre u post. ups = pre @ u # post \<and> u q tcp = Inr ans \<and> (\<forall>p \<in> set pre. \<exists>err. p q tcp = Inl err))"
      using Cons.IH by simp
    also have "\<dots> \<longleftrightarrow> (\<exists>pre u post. v # ups = pre @ u # post \<and> u q tcp = Inr ans \<and>
        (\<forall>p \<in> set pre. \<exists>err. p q tcp = Inl err))" (is "?L \<longleftrightarrow> ?R")
    proof
      assume ?L
      then obtain pre u post where "ups = pre @ u # post" "u q tcp = Inr ans" "\<forall>p \<in> set pre. \<exists>err. p q tcp = Inl err"
        by blast
      then show ?R using Inl by (intro exI [of _ "v # pre"]) auto
    next
      assume ?R
      then obtain pre u post where *: "v # ups = pre @ u # post" "u q tcp = Inr ans"
        "\<forall>p \<in> set pre. \<exists>err. p q tcp = Inl err" by blast
      then obtain pre' where "pre = v # pre'" using Inl by (cases pre) auto
      with * show ?L by auto
    qed
    finally show ?thesis .
  next
    case (Inr a)
    have "(\<exists>pre u post. v # ups = pre @ u # post \<and> u q tcp = Inr ans \<and> (\<forall>p \<in> set pre. \<exists>err. p q tcp = Inl err)) \<longleftrightarrow>
        a = ans" (is "?R \<longleftrightarrow> _")
    proof
      assume ?R
      then obtain pre u post where *: "v # ups = pre @ u # post" "u q tcp = Inr ans"
        "\<forall>p \<in> set pre. \<exists>err. p q tcp = Inl err" by blast
      then have "pre = []" using Inr by (cases pre) auto
      with * Inr show "a = ans" by simp
    next
      assume "a = ans"
      then show ?R using Inr by (intro exI [of _ "[]"]) auto
    qed
    then show ?thesis using Inr by simp
  qed
qed simp

lemma chainLoop_Inl:
  "chainLoop ups q tcp e = Inl err \<Longrightarrow> u \<in> set ups \<Longrightarrow> \<exists>err. u q tcp = Inl err"
  by (induction ups arbitrary: e) (auto split: sum.splits)

lemma servfail_frame:
  assumes "12 \<le> length q"
  shows "length (servfail q) = length q" "take 2 (servfail q) = take 2 q" "drop 4 (servfail q) = drop 4 q"
    "bit (servfail q ! 2) 7" "servfail q ! 3 AND 0x0F = 2"
proof -
  have "bit (w OR 0x80 :: u8) 7" for w by (simp add: bit_simps)
  moreover have "((w AND 0xF0) OR 2) AND 0x0F = (2 :: u8)" for w
    by (simp add: bit.conj_disj_distrib2 and.assoc)
  ultimately show "length (servfail q) = length q" "take 2 (servfail q) = take 2 q" "drop 4 (servfail q) = drop 4 q"
    "bit (servfail q ! 2) 7" "servfail q ! 3 AND 0x0F = 2"
    using assms by (simp_all add: servfail_def)
qed

lemma readFull_frame16:
  assumes "length q < 2 ^ 16"
  shows "readFull 2 (frame16 q @ s) = Some (be_bytes 2 (length q), q @ s)"
    "be_nat (be_bytes 2 (length q)) = length q" "readFull (length q) (q @ s) = Some (q, s)"
  using assms by (simp_all add: readFull_def frame16_def)

lemma serveTCPConn_step:
  assumes "12 \<le> length q" "length q < 2 ^ 16"
  shows "serveTCPConn up (\<lambda>_. True) k (frame16 q @ s) =
    frame16 (answerOf up q True) # serveTCPConn up (\<lambda>_. True) (Suc k) s"
  using assms readFull_frame16(1,3) [OF assms(2), of s] readFull_frame16(2) [OF assms(2)]
  by (subst serveTCPConn.simps) simp

lemma serveTCPConn_end: "serveTCPConn up wr k [] = []"
  by (subst serveTCPConn.simps) (simp add: readFull_def)

section \<open>Server names\<close>

lemma SplitHostPort_host:
  "CHR '':'' \<notin> set s \<Longrightarrow> CHR ''['' \<notin> set s \<Longrightarrow> CHR '']'' \<notin> set s \<Longrightarrow> s \<noteq> [] \<Longrightarrow>
     SplitHostPort_ok (s @ '':53'')"
  using lastIndex_append [of "CHR '':''" "''53''" s]
  by (cases s) (auto simp: SplitHostPort_ok_def)

lemma SplitHostPort_bracket:
  assumes "CHR ''['' \<notin> set s" "CHR '']'' \<notin> set s"
  shows "SplitHostPort_ok (''['' @ s @ '']:53'')"
  using assms lastIndex_append [of "CHR '':''" "''53''" "CHR ''['' # s @ '']''"]
    firstIndex_append [of "CHR '']''" "CHR ''['' # s" "'':53''"]
  by (simp add: SplitHostPort_ok_def)

section \<open>Base 64\<close>

text \<open>The decoder of RFC 4648, section 5, without padding.\<close>

definition b64index :: "char \<Rightarrow> nat" where
  "b64index c = length (takeWhile (\<lambda>d. d \<noteq> c) b64alphabet)"

fun b64decode :: "string \<Rightarrow> bytes" where
  "b64decode (c1 # c2 # c3 # c4 # rest) =
     (let n = b64index c1 * 2 ^ 18 + b64index c2 * 2 ^ 12 + b64index c3 * 2 ^ 6 + b64index c4
      in [of_nat (n div 2 ^ 16), of_nat (n div 2 ^ 8 mod 256), of_nat (n mod 256)] @ b64decode rest)"
| "b64decode [c1, c2, c3] =
     (let n = b64index c1 * 2 ^ 18 + b64index c2 * 2 ^ 12 + b64index c3 * 2 ^ 6
      in [of_nat (n div 2 ^ 16), of_nat (n div 2 ^ 8 mod 256)])"
| "b64decode [c1, c2] = (let n = b64index c1 * 2 ^ 18 + b64index c2 * 2 ^ 12 in [of_nat (n div 2 ^ 16)])"
| "b64decode _ = []"

lemma b64index_char: "i < 64 \<Longrightarrow> b64index (b64char i) = i"
proof -
  have "list_all (\<lambda>i. b64index (b64char i) = i) [0..<64]" by code_simp
  then show "i < 64 \<Longrightarrow> b64index (b64char i) = i" by (simp add: list_all_iff)
qed

lemma sextets:
  fixes n :: nat
  assumes "n < 2 ^ 24"
  shows "n div 2 ^ 18 < 64" "n div 2 ^ 12 mod 64 < 64" "n div 2 ^ 6 mod 64 < 64" "n mod 64 < 64"
    and "n div 2 ^ 18 * 2 ^ 18 + n div 2 ^ 12 mod 64 * 2 ^ 12 + n div 2 ^ 6 mod 64 * 2 ^ 6 + n mod 64 = n"
proof -
  show "n div 2 ^ 18 < 64" "n div 2 ^ 12 mod 64 < 64" "n div 2 ^ 6 mod 64 < 64" "n mod 64 < 64"
    using assms by (simp_all add: less_mult_imp_div_less)
  have "n div 64 = n div 4096 * 64 + n div 64 mod 64" "n div 4096 = n div 262144 * 64 + n div 4096 mod 64"
    "n = n div 64 * 64 + n mod 64"
    using div_mult2_eq [of n 64 64] div_mult2_eq [of n 4096 64] by simp_all
  then have "n div 262144 * 262144 + n div 4096 mod 64 * 4096 + n div 64 mod 64 * 64 + n mod 64 = n"
    by linarith
  then show "n div 2 ^ 18 * 2 ^ 18 + n div 2 ^ 12 mod 64 * 2 ^ 12 + n div 2 ^ 6 mod 64 * 2 ^ 6 + n mod 64 = n"
    by simp
qed

lemma octets:
  assumes "a < 256" "b < 256" "c < (256 :: nat)"
  defines "n \<equiv> a * 2 ^ 16 + b * 2 ^ 8 + c"
  shows "n < 2 ^ 24" "n div 2 ^ 16 = a" "n div 2 ^ 8 mod 256 = b" "n mod 256 = c"
proof -
  have n: "n = (a * 256 + b) * 256 + c" by (simp add: n_def)
  have d: "n mod 256 = c" unfolding n mod_mult_self3 using assms(3) by simp
  have e: "n div 256 = a * 256 + b" unfolding n using assms(3) by (subst div_mult_self3) simp_all
  from d show "n mod 256 = c" .
  have "n div 256 mod 256 = b" unfolding e mod_mult_self3 using assms(2) by simp
  then show "n div 2 ^ 8 mod 256 = b" by simp
  show "n < 2 ^ 24" "n div 2 ^ 16 = a" using assms by simp_all
qed

lemma b64_quad:
  assumes "n < (2 ^ 24 :: nat)"
  shows "b64index (b64char (n div 2 ^ 18)) * 2 ^ 18 + b64index (b64char (n div 2 ^ 12 mod 64)) * 2 ^ 12 +
      b64index (b64char (n div 2 ^ 6 mod 64)) * 2 ^ 6 + b64index (b64char (n mod 64)) = n"
  using sextets [OF assms] by (simp only: b64index_char)

lemma b64decode_encode: "b64decode (b64encode q) = q"
proof (induction q rule: b64encode.induct)
  case (2 a)
  note o = octets [OF unat_u8_less unat_u8_less unat_u8_less, of a 0 0, simplified]
  have z: "unat a * 65536 div 64 mod 64 = 0" "unat a * 65536 mod 64 = 0" by (simp_all add: mod_eq_0_iff_dvd div_mult_swap)
  show ?case using b64_quad [of "unat a * 2 ^ 16"] o z b64index_char [of 0] by (simp add: Let_def)
next
  case (3 a b)
  note o = octets [OF unat_u8_less unat_u8_less unat_u8_less, of a b 0, simplified]
  have z: "(unat a * 65536 + unat b * 256) mod 64 = 0"
    by (simp add: mod_eq_0_iff_dvd)
  show ?case using b64_quad [of "unat a * 2 ^ 16 + unat b * 2 ^ 8"] o z b64index_char [of 0] by (simp add: Let_def)
next
  case (4 a b c rest)
  note o = octets [OF unat_u8_less unat_u8_less unat_u8_less, of a b c]
  show ?case using b64_quad [OF o(1)] o(2-) "4.IH" by (simp add: Let_def)
qed simp

section \<open>Port numbers\<close>

declare itoaLoop.simps [simp del]

lemma itoaLoop_decimal:
  "0 < n \<Longrightarrow> itoaLoop (int n) i acc = (if n < 10 ^ i then Some (decimal n @ acc) else None)"
proof (induction n arbitrary: i acc rule: decimal.induct)
  case (1 n)
  have digit: "char_of (nat (48 + int n mod 10)) = (char_of (48 + n mod 10) :: char)"
    by (simp add: nat_add_distrib nat_mod_distrib)
  show ?case
  proof (cases "i = 0")
    case True
    then show ?thesis using "1.prems" by (simp add: itoaLoop.simps)
  next
    case False
    then obtain j where j: "i = Suc j" by (cases i) auto
    have step: "itoaLoop (int n) i acc = itoaLoop (int (n div 10)) j (char_of (48 + n mod 10) # acc)"
      using "1.prems" digit by (subst itoaLoop.simps) (simp add: j zdiv_int)
    show ?thesis
    proof (cases "n < 10")
      case True
      moreover have "n < 10 * 10 ^ j" using True by (rule less_le_trans) simp
      ultimately show ?thesis using step "1.prems" j by (simp add: itoaLoop.simps decimal.simps [of n])
    next
      case False
      have "n div 10 < 10 ^ j \<longleftrightarrow> n < 10 ^ i" by (simp add: j div_less_iff_less_mult mult.commute)
      then show ?thesis using step "1.IH" [OF False] False by (simp add: decimal.simps [of n])
    qed
  qed
qed

text \<open>While the server is open, errors do not end the loops: every datagram and every connection is served, in
  order. After closing, the next error ends them.\<close>

lemma udpLoop_open:
  "\<forall>(r, closed) \<in> set reads. \<not> closed \<Longrightarrow> udpLoop up reads = List.map_filter (\<lambda>(r, _). Option.bind r (serveUDP up)) reads"
  by (induction up reads rule: udpLoop.induct) (auto simp: map_filter_simps split: option.splits)

lemma tcpLoop_open:
  "\<forall>(a, closed) \<in> set accepts. \<not> closed \<Longrightarrow>
     tcpLoop up accepts = List.map_filter (\<lambda>(a, _). map_option (\<lambda>(wr, stream). serveTCPConn up wr 0 stream) a) accepts"
  by (induction up accepts rule: tcpLoop.induct) (auto simp: map_filter_simps)

lemma loops_end:
  "udpLoop up ((None, ds_closed (fst (dnsClose s))) # reads) = []" "tcpLoop up ((None, ds_closed (fst (dnsClose s))) # accepts) = []"
  by (simp_all add: dnsClose_def)

lemma dnsNew_no_leak:
  assumes "dnsNew udp tcp iface port = Some (None, calls)"
  shows "\<not> udp \<or> CloseUDP \<in> set calls"
  using assms by (auto simp: dnsNew_def Let_def split: option.splits if_splits)

section \<open>Properties\<close>

text \<open>C30: every query with a complete header is answered. The answer is that of the first upstream of
  the chain that has one; if none has, it is a SERVFAIL response of the same length that echoes
  the identifier and the question.\<close>

theorem forwarder_answers:
  assumes "12 \<le> length q" and "length q \<le> 4096"
  shows "\<exists>ans. serveUDP (chainExchange ups) q = Some ans \<and>
    ((\<exists>pre u post. ups = pre @ u # post \<and> u q False = Inr ans \<and> (\<forall>p \<in> set pre. \<exists>err. p q False = Inl err)) \<or>
     (\<forall>u \<in> set ups. \<exists>err. u q False = Inl err) \<and> length ans = length q \<and> take 2 ans = take 2 q \<and>
       drop 4 ans = drop 4 q \<and> bit (ans ! 2) 7 \<and> ans ! 3 AND 0x0F = 2)"
proof (cases "chainExchange ups q False")
  case (Inl err)
  then have "\<forall>u \<in> set ups. \<exists>err. u q False = Inl err" using chainLoop_Inl by (fastforce simp: chainExchange_def)
  then show ?thesis using Inl assms servfail_frame [OF assms(1)] by (simp add: serveUDP_def answerOf_def)
next
  case (Inr ans)
  then show ?thesis
    using assms chainLoop_Inr [of ups q False None ans] by (simp add: serveUDP_def answerOf_def chainExchange_def)
qed

theorem forwarder_answers_witness:
  "\<exists>ans. serveUDP (chainExchange [(\<lambda>q tcp. Inl ErrDial), (\<lambda>q tcp. Inr [7, 7])]) (replicate 12 1) = Some ans \<and> ans = [7, 7]"
  using forwarder_answers [of "replicate 12 1" "[(\<lambda>q tcp. Inl ErrDial), (\<lambda>q tcp. Inr [7, 7])]"]
  by (auto simp: serveUDP_def answerOf_def chainExchange_def)

text \<open>C31: a TCP client may pipeline queries: each gets its answer, in order, and what is written is
  decodable: framed by its length, which fits as long as the upstream's answer does.\<close>

theorem serveTCP_pipelined:
  assumes "\<forall>q \<in> set qs. 12 \<le> length q \<and> length q < 2 ^ 16"
  shows "serveTCPConn up (\<lambda>_. True) k (concat (map frame16 qs)) = map (\<lambda>q. frame16 (answerOf up q True)) qs \<and>
    (\<forall>q \<in> set qs. \<forall>rest. length (answerOf up q True) < 2 ^ 16 \<longrightarrow>
       readFull 2 (frame16 (answerOf up q True) @ rest) =
         Some (be_bytes 2 (length (answerOf up q True)), answerOf up q True @ rest))"
proof
  show "serveTCPConn up (\<lambda>_. True) k (concat (map frame16 qs)) = map (\<lambda>q. frame16 (answerOf up q True)) qs"
    using assms by (induction qs arbitrary: k) (simp_all add: serveTCPConn_end serveTCPConn_step)
qed (use readFull_frame16(1) in blast)

theorem serveTCP_pipelined_witness:
  "serveTCPConn (\<lambda>q tcp. Inl ErrRead) (\<lambda>_. True) 0 (frame16 (replicate 12 0) @ frame16 (replicate 13 0)) =
     [frame16 (servfail (replicate 12 0)), frame16 (servfail (replicate 13 0))]"
  using serveTCP_pipelined [of "[replicate 12 0, replicate 13 0]" "\<lambda>q tcp. Inl ErrRead" 0]
  by (simp add: answerOf_def)

lemma sint_nonneg:
  assumes "n < 2 ^ 32"
  shows "sint (of_nat n :: u32) < 0 \<longleftrightarrow> 2 ^ 31 \<le> n"
proof -
  have "sint (of_nat n :: u32) < 0 \<longleftrightarrow> odd (int n div 2147483648)"
    using assms by (simp add: sint_uint unsigned_of_nat take_bit_nat_eq_self signed_take_bit_eq_if_positive
        signed_take_bit_eq_if_negative bit_iff_odd)
  also have "int n div 2147483648 = (if 2 ^ 31 \<le> n then 1 else 0)" using assms by auto
  finally show ?thesis by simp
qed

text \<open>A response is taken exactly when it has the right form.\<close>

lemma readFull_Some: "readFull n s = Some (a, b) \<longleftrightarrow> length a = n \<and> s = a @ b"
  by (auto simp: readFull_def)

lemma proxyResponse_iff:
  "proxyResponse query s = Inr ans \<longleftrightarrow>
     (\<exists>code rest. s = be_bytes 4 code @ be_bytes 4 (length ans) @ ans @ rest \<and> code < 2 ^ 31 \<and>
        0 < length ans \<and> length ans \<le> 65535 \<and> (length ans < 2 \<or> length query < 2 \<or> sameTxid ans query))"
    (is "?l \<longleftrightarrow> ?r")
proof
  assume ?l
  then obtain c l s1 s2 rest where r: "readFull 4 s = Some (c, s1)" "\<not> sint (of_nat (be_nat c) :: u32) < 0"
    "readFull 4 s1 = Some (l, s2)" "be_nat l \<noteq> 0" "be_nat l \<le> 65535" "readFull (be_nat l) s2 = Some (ans, rest)"
    "length ans < 2 \<or> length query < 2 \<or> sameTxid ans query"
    by (auto simp: proxyResponse_def Let_def not_less not_le split: option.splits if_splits)
  then have s: "s = c @ l @ ans @ rest" "length c = 4" "length l = 4" "length ans = be_nat l"
    by (simp_all add: readFull_Some)
  have c: "be_nat c < 2 ^ 32" using be_nat_less [of c] s(2) by simp
  have "s = be_bytes 4 (be_nat c) @ be_bytes 4 (length ans) @ ans @ rest"
    using s be_bytes_be_nat [of c] be_bytes_be_nat [of l] by simp
  moreover have "be_nat c < 2 ^ 31" using r(2) sint_nonneg [OF c] by simp
  ultimately show ?r using r(4,5,7) s(4) by auto
next
  assume ?r
  then obtain code rest where s: "s = be_bytes 4 code @ be_bytes 4 (length ans) @ ans @ rest" "code < 2 ^ 31"
    "0 < length ans" "length ans \<le> 65535" "length ans < 2 \<or> length query < 2 \<or> sameTxid ans query"
    by blast
  have "\<not> sint (of_nat code :: u32) < 0" using s(2) sint_nonneg [of code] by simp
  then show ?l using s by (auto simp: proxyResponse_def readFull_def Let_def)
qed

text \<open>C32: what is written to Android's resolver is the query (decoding the command's last word gives it
  back), and an answer is returned exactly when the connection works and what comes back starts
  with a status that is not negative, a length between 1 and 65535, and an answer of that length
  which repeats the query's identifier where both are long enough to have one.\<close>

theorem androidExchange_roundtrip:
  fixes query :: bytes
  defines "cmd \<equiv> proxyCommand query"
  shows "(\<exists>text. cmd = map of_char (''resnsend 0 0 '' @ text) @ [0] \<and> b64decode text = query) \<and>
    (androidExchange conn query tcp = Inr ans \<longleftrightarrow>
       px_dialled conn \<and> px_writes conn cmd \<and>
       (\<exists>code rest. px_answer conn cmd = be_bytes 4 code @ be_bytes 4 (length ans) @ ans @ rest \<and> code < 2 ^ 31 \<and>
          0 < length ans \<and> length ans \<le> 65535 \<and> (length ans < 2 \<or> length query < 2 \<or> sameTxid ans query)))"
  using proxyResponse_iff [of query "px_answer conn cmd" ans] b64decode_encode
  by (auto simp: androidExchange_def cmd_def proxyCommand_def Let_def)

theorem androidExchange_roundtrip_witness:
  "androidExchange \<lparr>px_dialled = True, px_writes = (\<lambda>_. True), px_answer = (\<lambda>_. be_bytes 4 0 @ be_bytes 4 2 @ [1, 2])\<rparr>
     [1, 2, 3] False = Inr [1, 2]"
  using androidExchange_roundtrip [of "[1, 2, 3]"
      "\<lparr>px_dialled = True, px_writes = (\<lambda>_. True), px_answer = (\<lambda>_. be_bytes 4 0 @ be_bytes 4 2 @ [1, 2])\<rparr>" False "[1, 2]"]
  by (auto simp: sameTxid_def numeral_2_eq_2 intro!: exI [of _ 0] exI [of _ "[]"])

text \<open>Every configured server name without stray brackets becomes one that \<^verbatim>\<open>net.Dial\<close> can split into
  host and port: a bare host name or address gets port 53, a bare IPv6 address brackets too.\<close>

theorem normalizeServers_dialable:
  assumes "\<forall>s \<in> set ss. CHR ''['' \<notin> set s \<and> CHR '']'' \<notin> set s"
  shows "\<forall>s \<in> set (normalizeServers ss). SplitHostPort_ok s"
proof -
  have "SplitHostPort_ok (normalizeServer s)" if "s \<noteq> []" "CHR ''['' \<notin> set s" "CHR '']'' \<notin> set s" for s
    using that SplitHostPort_host [of s] SplitHostPort_bracket [of s]
    by (cases s) (auto simp: normalizeServer_def)
  moreover have "set (TrimSpace s) \<subseteq> set s" for s
    by (auto simp: TrimSpace_def dest!: set_dropWhileD)
  ultimately show ?thesis using assms by (induction ss) (auto simp: Let_def)
qed

theorem normalizeServers_dialable_witness:
  "\<forall>s \<in> set (normalizeServers ['' 1.1.1.1 '', ''2606:4700::1'', ''9.9.9.9:5353'']). SplitHostPort_ok s"
  using normalizeServers_dialable [of "['' 1.1.1.1 '', ''2606:4700::1'', ''9.9.9.9:5353'']"] by simp

text \<open>\<open>itoa\<close> prints a port number in decimal; it panics exactly from 100,000,000 on, beyond every
  port, and prints nothing for a negative number.\<close>

theorem itoa_decimal:
  "itoa v = (if v < 0 then Some [] else if v < 10 ^ 8 then Some (decimal (nat v)) else None)"
proof (cases "0 < v")
  case True
  then show ?thesis using itoaLoop_decimal [of "nat v" 8 "[]"] by (auto simp: itoa_def nat_less_iff)
next
  case False
  moreover have "decimal 0 = ''0''" by code_simp
  ultimately show ?thesis by (simp add: itoa_def itoaLoop.simps)
qed

end
