(* ===== verification/Dnat.thy ===== *)
theory Dnat
  imports Dns
begin

text \<open>
  \<^verbatim>\<open>internal/dnsfwd/dnat.go\<close>: the REDIRECT rules for DNS. The program \<^verbatim>\<open>iptables\<close> is a parameter: it
  takes the state of the rule table and its arguments to success or failure and the next
  state. \<open>Remove\<close> deletes until a deletion fails; it is a partial function, \<open>None\<close> meaning that it
  never returns.
\<close>

section \<open>Rules\<close>

record DNATRule =
  dn_iface :: string
  dn_ip :: string
  dn_port :: int

definition spec :: "DNATRule \<Rightarrow> string \<Rightarrow> string list" where
  "spec r proto =
     [''PREROUTING'', ''-t'', ''nat'', ''-i'', dn_iface r, ''-d'', dn_ip r, ''-p'', proto, ''--dport'', ''53'',
      ''-j'', ''REDIRECT'', ''--to-ports'', strconv_Itoa (dn_port r)]"

type_synonym 'i iptables = "'i \<Rightarrow> string list \<Rightarrow> bool \<times> 'i"

partial_function (option) removeLoop :: "'i iptables \<Rightarrow> string list \<Rightarrow> 'i \<Rightarrow> 'i option" where
  "removeLoop ipt args st =
     (let (ok, st') = ipt st args in if ok then removeLoop ipt args st' else Some st')"

definition removeDNAT :: "'i iptables \<Rightarrow> DNATRule \<Rightarrow> 'i \<Rightarrow> 'i option" where
  "removeDNAT ipt r st =
     (case removeLoop ipt (''-D'' # spec r ''udp'') st of
        None \<Rightarrow> None
      | Some st \<Rightarrow> removeLoop ipt (''-D'' # spec r ''tcp'') st)"

text \<open>The rule, or \<open>None\<close> for the error, and the next state.\<close>

definition InstallDNAT ::
  "'i iptables \<Rightarrow> string \<Rightarrow> string \<Rightarrow> int \<Rightarrow> 'i \<Rightarrow> (DNATRule option \<times> 'i) option" where
  "InstallDNAT ipt iface ip port st =
     (let r = \<lparr>dn_iface = iface, dn_ip = ip, dn_port = port\<rparr>;
          undo = (\<lambda>st. map_option (\<lambda>st. (None, st)) (removeDNAT ipt r st))
      in case removeDNAT ipt r st of
           None \<Rightarrow> None
         | Some st \<Rightarrow>
             (let (ok, st) = ipt st (''-A'' # spec r ''udp'')
              in if \<not> ok then undo st
                 else
                   (let (ok, st) = ipt st (''-A'' # spec r ''tcp'')
                    in if \<not> ok then undo st else Some (Some r, st))))"

section \<open>What \<^verbatim>\<open>iptables\<close> does\<close>

text \<open>Appending adds one instance of the rule or fails; deleting removes one instance, or fails when
  there is none.\<close>

definition iptables_ok :: "'i iptables \<Rightarrow> ('i \<Rightarrow> string list multiset) \<Rightarrow> bool" where
  "iptables_ok ipt rules \<longleftrightarrow>
     (\<forall>st s. rules (snd (ipt st (''-A'' # s))) =
        (if fst (ipt st (''-A'' # s)) then add_mset s (rules st) else rules st)) \<and>
     (\<forall>st s. fst (ipt st (''-D'' # s)) = (s \<in># rules st) \<and>
        rules (snd (ipt st (''-D'' # s))) = rules st - {#s#})"

lemma removeLoop_result:
  assumes "iptables_ok ipt rules"
  shows "\<exists>st'. removeLoop ipt (''-D'' # s) st = Some st' \<and> rules st' = filter_mset (\<lambda>x. x \<noteq> s) (rules st)"
proof (induction "count (rules st) s" arbitrary: st)
  case 0
  have D: "fst (ipt st (''-D'' # s)) = (s \<in># rules st)" "rules (snd (ipt st (''-D'' # s))) = rules st - {#s#}"
    using assms by (auto simp: iptables_ok_def)
  have "s \<notin># rules st" using 0 by (metis count_eq_zero_iff)
  moreover from this have "filter_mset (\<lambda>x. x \<noteq> s) (rules st) = rules st"
    by (auto simp: filter_mset_eq_conv)
  ultimately show ?case using D by (subst removeLoop.simps) (simp add: case_prod_beta diff_single_trivial)
next
  case (Suc n)
  have D: "fst (ipt st (''-D'' # s)) = (s \<in># rules st)" "rules (snd (ipt st (''-D'' # s))) = rules st - {#s#}"
    using assms by (auto simp: iptables_ok_def)
  have m: "s \<in># rules st" using Suc(2) by (metis count_inI nat.distinct(1))
  have "n = count (rules (snd (ipt st (''-D'' # s)))) s" using Suc(2) D(2) by simp
  from Suc(1) [OF this] obtain st' where "removeLoop ipt (''-D'' # s) (snd (ipt st (''-D'' # s))) = Some st'"
    "rules st' = filter_mset (\<lambda>x. x \<noteq> s) (rules st - {#s#})" using D(2) by auto
  moreover have "filter_mset (\<lambda>x. x \<noteq> s) (rules st - {#s#}) = filter_mset (\<lambda>x. x \<noteq> s) (rules st)"
    by (rule multiset_eqI) auto
  ultimately show ?case using D(1) m by (subst removeLoop.simps) (simp add: case_prod_beta)
qed

lemma spec_inj: "spec r ''udp'' \<noteq> spec r ''tcp''"
  by (simp add: spec_def)

lemma removeDNAT_result:
  assumes "iptables_ok ipt rules"
  shows "\<exists>st'. removeDNAT ipt r st = Some st' \<and>
    rules st' = filter_mset (\<lambda>x. x \<noteq> spec r ''udp'' \<and> x \<noteq> spec r ''tcp'') (rules st)"
proof -
  obtain st1 where 1: "removeLoop ipt (''-D'' # spec r ''udp'') st = Some st1"
    "rules st1 = filter_mset (\<lambda>x. x \<noteq> spec r ''udp'') (rules st)"
    using removeLoop_result [OF assms] by blast
  obtain st2 where "removeLoop ipt (''-D'' # spec r ''tcp'') st1 = Some st2"
    "rules st2 = filter_mset (\<lambda>x. x \<noteq> spec r ''tcp'') (rules st1)"
    using removeLoop_result [OF assms] by blast
  then show ?thesis using 1 by (simp add: removeDNAT_def filter_filter_mset conj_commute)
qed

section \<open>Properties\<close>

text \<open>C33: installing the redirection always returns. On success there is exactly one rule for UDP and
  one for TCP, however many a previous run left; on failure there is none; no other rule
  changes.\<close>

theorem InstallDNAT_exact:
  fixes iface ip :: string and port :: int
  assumes "iptables_ok ipt rules"
  defines "r \<equiv> \<lparr>dn_iface = iface, dn_ip = ip, dn_port = port\<rparr>"
  defines "others \<equiv> (\<lambda>st. filter_mset (\<lambda>x. x \<noteq> spec r ''udp'' \<and> x \<noteq> spec r ''tcp'') (rules st))"
  shows "\<exists>res st'. InstallDNAT ipt iface ip port st = Some (res, st') \<and>
    (case res of
       Some rule \<Rightarrow> rule = r \<and> rules st' = add_mset (spec r ''udp'') (add_mset (spec r ''tcp'') (others st))
     | None \<Rightarrow> rules st' = others st)"
proof -
  obtain st0 where 0: "removeDNAT ipt r st = Some st0" "rules st0 = others st"
    using removeDNAT_result [OF assms(1)] unfolding others_def by blast
  let ?a = "ipt st0 (''-A'' # spec r ''udp'')" and ?b = "ipt (snd (ipt st0 (''-A'' # spec r ''udp''))) (''-A'' # spec r ''tcp'')"
  have A: "rules (snd ?a) = (if fst ?a then add_mset (spec r ''udp'') (rules st0) else rules st0)"
    "rules (snd ?b) = (if fst ?b then add_mset (spec r ''tcp'') (rules (snd ?a)) else rules (snd ?a))"
    using assms(1) by (auto simp: iptables_ok_def)
  have undo: "\<exists>st''. removeDNAT ipt r st' = Some st'' \<and> rules st'' = others st'" for st'
    using removeDNAT_result [OF assms(1)] unfolding others_def by blast
  have o: "others st' = others st" if "rules st' = others st \<or> rules st' = add_mset (spec r ''udp'') (others st)" for st'
    using that spec_inj by (auto simp: others_def filter_filter_mset)
  show ?thesis
  proof (cases "fst ?a \<and> fst ?b")
    case True
    then show ?thesis
      using 0 A by (simp add: InstallDNAT_def Let_def r_def [symmetric] case_prod_beta add_mset_commute)
  next
    case False
    define st' where "st' = (if fst ?a then snd ?b else snd ?a)"
    have "rules st' = others st \<or> rules st' = add_mset (spec r ''udp'') (others st)"
      using False A 0(2) by (auto simp: st'_def split: if_splits)
    then have "others st' = others st" by (rule o)
    moreover obtain st'' where "removeDNAT ipt r st' = Some st''" "rules st'' = others st'" using undo by blast
    moreover have "InstallDNAT ipt iface ip port st = map_option (\<lambda>st. (None, st)) (removeDNAT ipt r st')"
      using 0(1) False by (simp add: InstallDNAT_def Let_def r_def [symmetric] case_prod_beta st'_def)
    ultimately show ?thesis by simp
  qed
qed

text \<open>A rule table that accepts everything.\<close>

definition ipt_example :: "string list list iptables" where
  "ipt_example st args =
     (if take 1 args = [''-A''] then (True, drop 1 args # st)
      else (drop 1 args \<in> set st, remove1 (drop 1 args) st))"

lemma iptables_ok_example: "iptables_ok ipt_example mset"
  by (simp add: iptables_ok_def ipt_example_def)

theorem InstallDNAT_exact_witness:
  "\<exists>res st'. InstallDNAT ipt_example ''br0'' ''10.0.0.1'' 5335 [[''x'']] = Some (res, st') \<and>
     count (mset st') [''x''] = 1"
proof -
  have x: "[''x''] \<noteq> spec r p" for r p by (simp add: spec_def)
  obtain res st' where "InstallDNAT ipt_example ''br0'' ''10.0.0.1'' 5335 [[''x'']] = Some (res, st')"
    "case res of
       Some rule \<Rightarrow> mset st' = add_mset (spec \<lparr>dn_iface = ''br0'', dn_ip = ''10.0.0.1'', dn_port = 5335\<rparr> ''udp'')
         (add_mset (spec \<lparr>dn_iface = ''br0'', dn_ip = ''10.0.0.1'', dn_port = 5335\<rparr> ''tcp'') {#[''x'']#})
     | None \<Rightarrow> mset st' = {#[''x'']#}"
    using InstallDNAT_exact [OF iptables_ok_example, of "''br0''" "''10.0.0.1''" 5335 "[[''x'']]"] x
    by (auto split: option.splits)
  then show ?thesis using x by (cases res) (auto simp: x [symmetric])
qed

end
