(* ===== verification/NetipText.thy ===== *)
theory NetipText
  imports Netip
begin

text \<open>
  The text forms of \<^verbatim>\<open>net/netip\<close>: printing addresses and prefixes, and the parsers the configuration
  and the control API use.
\<close>

section \<open>Printing\<close>

definition String4 :: "32 word \<Rightarrow> string" where
  "String4 w =
     (let b = map unat (be_bytes 4 (unat w))
      in decimal (b ! 0) @ ''.'' @ decimal (b ! 1) @ ''.'' @ decimal (b ! 2) @ ''.'' @ decimal (b ! 3))"

definition lowerHexDigit :: "nat \<Rightarrow> char" where
  "lowerHexDigit n = (if n < 10 then char_of (48 + n) else char_of (87 + n))"

fun lowerHex :: "nat \<Rightarrow> string" where
  "lowerHex n = (if n < 16 then [lowerHexDigit n] else lowerHex (n div 16) @ [lowerHexDigit (n mod 16)])"

declare lowerHex.simps [simp del]

definition groups6 :: "128 word \<Rightarrow> nat list" where
  "groups6 w = map (\<lambda>i. unat w div 2 ^ (112 - 16 * i) mod 2 ^ 16) [0..<8]"

text \<open>The run of zero groups that \<^verbatim>\<open>appendTo6\<close> abbreviates: the first longest one of at least two.\<close>

definition zeroRunAt :: "nat list \<Rightarrow> nat \<Rightarrow> nat" where
  "zeroRunAt gs i = length (takeWhile (\<lambda>g. g = 0) (drop i gs))"

definition zeroRun :: "nat list \<Rightarrow> (nat \<times> nat) option" where
  "zeroRun gs =
     foldl (\<lambda>best i. let l = zeroRunAt gs i
                     in if 2 \<le> l \<and> (case best of None \<Rightarrow> 0 | Some (s, e) \<Rightarrow> e - s) < l then Some (i, i + l) else best)
       None [0..<8]"

definition joinHex :: "nat list \<Rightarrow> string" where
  "joinHex gs = concat (map (\<lambda>i. (if i = 0 then [] else '':'') @ lowerHex (gs ! i)) [0..<length gs])"

definition String6 :: "128 word \<Rightarrow> string" where
  "String6 w =
     (let gs = groups6 w
      in case zeroRun gs of
           None \<Rightarrow> joinHex gs
         | Some (s, e) \<Rightarrow> joinHex (take s gs) @ ''::'' @ joinHex (drop e gs))"

fun addr_String :: "addr \<Rightarrow> string" where
  "addr_String AddrNone = ''invalid IP''"
| "addr_String (Addr4 w) = String4 w"
| "addr_String (Addr6 w z) =
     (if Is4In6 w then ''::ffff:'' @ String4 (of_nat (unat w)) else String6 w) @
     (if z = [] then [] else ''%'' @ z)"

definition prefix_String :: "prefix \<Rightarrow> string" where
  "prefix_String p =
     (if \<not> PfxIsValid p then ''invalid Prefix''
      else addr_String (pfx_addr p) @ ''/'' @ decimal (nat (pfx_bits p)))"

section \<open>Parsing\<close>

definition digit_val :: "char \<Rightarrow> nat option" where
  "digit_val c = (let n = of_char c :: nat in if 48 \<le> n \<and> n \<le> 57 then Some (n - 48) else None)"

definition hex_val :: "char \<Rightarrow> nat option" where
  "hex_val c =
     (let n = of_char c :: nat
      in if 48 \<le> n \<and> n \<le> 57 then Some (n - 48)
         else if 97 \<le> n \<and> n \<le> 102 then Some (n - 87)
         else if 65 \<le> n \<and> n \<le> 70 then Some (n - 55)
         else None)"

text \<open>\<^verbatim>\<open>parseIPv4Fields\<close>: \<open>fresh\<close> holds at the start and after a dot.\<close>

fun parseIPv4Fields :: "string \<Rightarrow> nat \<Rightarrow> nat \<Rightarrow> nat list \<Rightarrow> bool \<Rightarrow> nat list option" where
  "parseIPv4Fields [] val digLen fields fresh =
     (if length fields < 3 then None else Some (fields @ [val]))"
| "parseIPv4Fields (c # r) val digLen fields fresh =
     (case digit_val c of
        Some d \<Rightarrow>
          if digLen = 1 \<and> val = 0 then None
          else if val * 10 + d > 255 then None
          else parseIPv4Fields r (val * 10 + d) (Suc digLen) fields False
      | None \<Rightarrow>
          if c = CHR ''.''
          then (if fresh \<or> r = [] then None
                else if length fields = 3 then None
                else parseIPv4Fields r 0 0 (fields @ [val]) True)
          else None)"

definition parseIPv4text :: "string \<Rightarrow> addr" where
  "parseIPv4text s =
     (case parseIPv4Fields s 0 0 [] True of
        None \<Rightarrow> AddrNone
      | Some fields \<Rightarrow> AddrFromSlice (map of_nat fields))"

definition hexAcc :: "string \<Rightarrow> nat" where
  "hexAcc ds = foldl (\<lambda>acc c. acc * 16 + (case hex_val c of None \<Rightarrow> 0 | Some d \<Rightarrow> d)) 0 ds"

text \<open>The loop of \<^verbatim>\<open>parseIPv6\<close>: the rest of the text, the bytes so far and the position of the ellipsis.\<close>

function parseGroups :: "string \<Rightarrow> bytes \<Rightarrow> nat option \<Rightarrow> (string \<times> bytes \<times> nat option) option" where
  "parseGroups s ip ell =
     (if 16 \<le> length ip then Some (s, ip, ell)
      else
        (let ds = takeWhile (\<lambda>c. hex_val c \<noteq> None) s;
             rest = dropWhile (\<lambda>c. hex_val c \<noteq> None) s;
             ip' = ip @ be_bytes 2 (hexAcc ds)
         in if 4 < length ds \<or> ds = [] then None
            else if take 1 rest = ''.''
            then (if ell = None \<and> length ip \<noteq> 12 then None
                  else if 16 < length ip + 4 then None
                  else (case parseIPv4Fields s 0 0 [] True of
                          None \<Rightarrow> None
                        | Some fields \<Rightarrow> Some ([], ip @ map of_nat fields, ell)))
            else if rest = [] then Some ([], ip', ell)
            else if take 1 rest \<noteq> '':'' \<or> length rest = 1 then None
            else if take 1 (drop 1 rest) = '':''
            then (if ell \<noteq> None then None
                  else if drop 2 rest = [] then Some ([], ip', Some (length ip'))
                  else parseGroups (drop 2 rest) ip' (Some (length ip')))
            else parseGroups (drop 1 rest) ip' ell))"
  by pat_completeness auto
termination
  by (relation "measure (\<lambda>(s, ip, ell). 16 - length ip)") auto

definition expandEllipsis :: "bytes \<Rightarrow> nat option \<Rightarrow> bytes option" where
  "expandEllipsis ip ell =
     (if length ip < 16
      then (case ell of
              None \<Rightarrow> None
            | Some e \<Rightarrow> Some (take e ip @ replicate (16 - length ip) 0 @ drop e ip))
      else if ell \<noteq> None then None else Some ip)"

definition parseIPv6text :: "string \<Rightarrow> addr" where
  "parseIPv6text text =
     (let (s, zone, ok) =
            (case firstIndex CHR ''%'' text of
               None \<Rightarrow> (text, [], True)
             | Some i \<Rightarrow> (take i text, drop (Suc i) text, drop (Suc i) text \<noteq> []))
      in if \<not> ok then AddrNone
         else if take 2 s = ''::'' \<and> drop 2 s = [] then Addr6 0 zone
         else
           (let (s, ell) = (if take 2 s = ''::'' then (drop 2 s, Some 0) else (s, None))
            in case parseGroups s [] ell of
                 None \<Rightarrow> AddrNone
               | Some (rest, ip, ell) \<Rightarrow>
                   if rest \<noteq> [] then AddrNone
                   else (case expandEllipsis ip ell of
                           None \<Rightarrow> AddrNone
                         | Some ip \<Rightarrow> Addr6 (of_nat (be_nat ip)) zone)))"

text \<open>\<^verbatim>\<open>netip.ParseAddr\<close> and \<^verbatim>\<open>netip.ParsePrefix\<close>; the invalid address and \<open>None\<close> are their errors.\<close>

definition ParseAddr :: "string \<Rightarrow> addr" where
  "ParseAddr s =
     (case filter (\<lambda>c. c \<in> set ''.:%'') s of
        [] \<Rightarrow> AddrNone
      | c # _ \<Rightarrow> if c = CHR ''.'' then parseIPv4text s
                else if c = CHR '':'' then parseIPv6text s
                else AddrNone)"

definition parseBits :: "string \<Rightarrow> nat option" where
  "parseBits s =
     (if s = [] \<or> (\<exists>c \<in> set s. digit_val c = None) \<or> 1 < length s \<and> hd s = CHR ''0'' then None
      else Some (foldl (\<lambda>acc c. acc * 10 + (case digit_val c of None \<Rightarrow> 0 | Some d \<Rightarrow> d)) 0 s))"

definition ParsePrefix :: "string \<Rightarrow> prefix option" where
  "ParsePrefix s =
     (case lastIndex CHR ''/'' s of
        None \<Rightarrow> None
      | Some i \<Rightarrow>
          (let ip = ParseAddr (take i s)
           in if \<not> IsValid ip \<or> Is6 ip \<and> Zone ip \<noteq> [] then None
              else (case parseBits (drop (Suc i) s) of
                      None \<Rightarrow> None
                    | Some bits \<Rightarrow>
                        if (if Is6 ip then 128 else 32) < bits then None
                        else Some (PrefixFrom ip (int bits)))))"

lemma IsValid_AddrFromSlice_4: "length fs = 4 \<Longrightarrow> Is4 (AddrFromSlice fs)"
  by (simp add: AddrFromSlice_def)

lemma ParsePrefix_valid:
  assumes "ParsePrefix s = Some p"
  shows "PfxIsValid p" "prefix_ok p"
proof -
  obtain ip bits where p: "p = PrefixFrom ip (int bits)" "IsValid ip" "bits \<le> (if Is6 ip then 128 else 32)"
    using assms by (auto simp: ParsePrefix_def Let_def split: option.splits if_splits)
  have "bits \<le> BitLen ip" using p(2,3) by (cases ip) auto
  then show "PfxIsValid p" using p(1,2) by (simp add: PrefixFrom_def PfxIsValid_def)
  show "prefix_ok p" unfolding p(1) by (rule prefix_ok_PrefixFrom)
qed

end
