(* ===== verification/Iface.thy ===== *)
theory Iface
  imports Dhcp4 Dhcp6 Ra PdClient PdRoute Ifwatch State Transport Dnat NetipText
begin

text \<open>
  \<^verbatim>\<open>internal/server/iface.go\<close>: one served interface, which owns the packet socket, the three protocol
  servers and, as configured, the prefix-delegation client with its routed segment and the DNS
  forwarder. What lies outside an interface (kernel, sysctls, rule table, state store, event
  stream) is its \<open>plant\<close>.
\<close>

section \<open>Configuration\<close>

record PDConfig =
  pc_Uplink :: string
  pc_DUID :: bytes
  pc_IAID :: u32
  pc_Suffix :: addr
  pc_PrefixLen :: int
  pc_RouteTable :: int
  pc_RulePriority :: int
  pc_InitialTimeout :: duration
  pc_MaxTimeout :: duration
  pc_Attempts :: int

record DNSConfig =
  nc_Port :: int
  nc_Redirect53 :: bool
  nc_Upstream :: string
  nc_Upstreams :: "string list"

record IfaceConfig =
  ic_Name :: string
  ic_Tag :: string
  ic_Prefix4 :: prefix
  ic_Prefix6 :: prefix
  ic_DHCP4 :: DHCP4Config
  ic_DHCP6 :: DHCP6Config
  ic_SLAAC :: bool
  ic_RA :: RAConfig
  ic_PD :: "PDConfig option"
  ic_DNS :: "DNSConfig option"

datatype iface_err =
    ErrIfaceName
  | ErrIfaceDHCP string server_err
  | ErrPDUplink string
  | ErrPDDuid string

definition normalizePDConfig :: "string \<Rightarrow> PDConfig \<Rightarrow> iface_err + PDConfig" where
  "normalizePDConfig name pd =
     (if pc_Uplink pd = [] then Inl (ErrPDUplink name)
      else if length (pc_DUID pd) < 2 then Inl (ErrPDDuid name)
      else
        (let pd = (if pc_PrefixLen pd \<le> 0 \<or> 128 < pc_PrefixLen pd then pd\<lparr>pc_PrefixLen := 64\<rparr> else pd);
             pd = (if \<not> IsValid (pc_Suffix pd) then pd\<lparr>pc_Suffix := Addr6 1 []\<rparr> else pd);
             pd = (if pc_RouteTable pd \<noteq> 0 \<and> pc_RulePriority pd = 0 then pd\<lparr>pc_RulePriority := 5000\<rparr> else pd)
         in Inr pd))"

definition normalizeIface :: "IfaceConfig \<Rightarrow> iface_err + IfaceConfig" where
  "normalizeIface c =
     (if ic_Name c = [] then Inl ErrIfaceName
      else
        case normalize4 (ic_DHCP4 c) of
          Inl err \<Rightarrow> Inl (ErrIfaceDHCP (ic_Name c) err)
        | Inr d4 \<Rightarrow>
            (case normalize6 (ic_DHCP6 c) of
               Inl err \<Rightarrow> Inl (ErrIfaceDHCP (ic_Name c) err)
             | Inr d6 \<Rightarrow>
                 (let ra = normalizeRA ((ic_RA c)\<lparr>ra_Enabled := ic_SLAAC c \<or> c6_Enabled d6,
                             ra_Autonomous := ic_SLAAC c, ra_Managed := c6_Enabled d6,
                             ra_Other := c6_Enabled d6 \<or> ic_DNS c \<noteq> None\<rparr>);
                      c = c\<lparr>ic_DHCP4 := d4, ic_DHCP6 := d6, ic_RA := ra\<rparr>;
                      dns = map_option (\<lambda>d. if nc_Port d \<le> 0 then d\<lparr>nc_Port := 53\<rparr> else d) (ic_DNS c)
                  in case ic_PD c of
                       None \<Rightarrow> Inr (c\<lparr>ic_DNS := dns\<rparr>)
                     | Some pd \<Rightarrow>
                         (case normalizePDConfig (ic_Name c) pd of
                            Inl err \<Rightarrow> Inl err
                          | Inr pd \<Rightarrow> Inr (c\<lparr>ic_PD := Some pd, ic_DNS := dns\<rparr>)))))"

section \<open>State\<close>

record 'd Iface =
  if_cfg :: IfaceConfig
  if_state :: ifState
  if_conn :: "Conn option"
  if_pdAddr :: prefix
  if_d4 :: dhcp4Server
  if_d6 :: dhcp6Server
  if_ra :: raServer
  if_pdc :: "'d Client option"
  if_pdr :: "Routes option"
  if_dns :: "int option"
  if_dnat :: "DNATRule option"
  if_dnatCur :: string
  if_done :: bool

datatype event =
    EvAttached string string
  | EvPDPrefix string string prefix prefix "int option"
  | EvPDLost string string prefix
  | EvDNSReady string string int
  | EvReady "string list"
  | EvStateLoadError

record ('k, 'i) plant =
  pl_host :: "'k host"
  pl_nat :: 'i
  pl_store :: stateStore
  pl_events :: "event list"

definition Emit :: "event \<Rightarrow> ('k, 'i) plant \<Rightarrow> ('k, 'i) plant" where
  "Emit ev pl = pl\<lparr>pl_events := pl_events pl @ [ev]\<rparr>"

definition markPlant :: "('k, 'i) plant \<Rightarrow> ('k, 'i) plant" where
  "markPlant pl = pl\<lparr>pl_store := markDirty (pl_store pl)\<rparr>"

definition on_host :: "('k host \<Rightarrow> 'k host) \<Rightarrow> ('k, 'i) plant \<Rightarrow> ('k, 'i) plant" where
  "on_host f pl = pl\<lparr>pl_host := f (pl_host pl)\<rparr>"

definition newIface :: "link_attrs option \<Rightarrow> IfaceConfig \<Rightarrow> 'd Iface" where
  "newIface link cfg =
     \<lparr>if_cfg = cfg, if_state = Snapshot link, if_conn = None, if_pdAddr = ZeroPrefix,
      if_d4 = (newDHCP4Server (ic_DHCP4 cfg))\<lparr>s4_leases := newLeaseTable\<lparr>lt_changed := True\<rparr>\<rparr>,
      if_d6 = (newDHCP6Server (ic_DHCP6 cfg))\<lparr>s6_leases := newLeaseTable\<lparr>lt_changed := True\<rparr>\<rparr>,
      if_ra = newRAServer (ic_RA cfg),
      if_pdc = map_option (\<lambda>pd. New \<lparr>pd_Uplink = pc_Uplink pd, pd_DUID = pc_DUID pd, pd_IAID = pc_IAID pd,
                 pd_InitialTimeout = pc_InitialTimeout pd, pd_MaxTimeout = pc_MaxTimeout pd,
                 pd_Attempts = pc_Attempts pd\<rparr>) (ic_PD cfg),
      if_pdr = (case ic_PD cfg of
                  None \<Rightarrow> None
                | Some pd \<Rightarrow>
                    if pc_RouteTable pd \<noteq> 0
                    then Some (newRoutes \<lparr>pr_Iface = ic_Name cfg, pr_Uplink = pc_Uplink pd,
                           pr_Table = pc_RouteTable pd, pr_RulePriority = pc_RulePriority pd\<rparr>)
                    else None),
      if_dns = None, if_dnat = None, if_dnatCur = [], if_done = False\<rparr>"

section \<open>What the servers see\<close>

definition envMAC :: "'d Iface \<Rightarrow> bytes" where
  "envMAC it = (if length (st_MAC (if_state it)) = 6 then st_MAC (if_state it) else [2, 0, 0, 0, 0, 0])"

definition envV4 :: "'d Iface \<Rightarrow> prefix option" where
  "envV4 it = (if PfxIsValid (ic_Prefix4 (if_cfg it)) then Some (ic_Prefix4 (if_cfg it)) else None)"

definition envV6 :: "'d Iface \<Rightarrow> prefix option" where
  "envV6 it =
     (if ic_PD (if_cfg it) \<noteq> None
      then (if PfxIsValid (if_pdAddr it) then Some (if_pdAddr it) else None)
      else if PfxIsValid (ic_Prefix6 (if_cfg it)) then Some (ic_Prefix6 (if_cfg it)) else None)"

definition envV6All :: "'d Iface \<Rightarrow> prefix list" where
  "envV6All it = (case envV6 it of Some p \<Rightarrow> [p] | None \<Rightarrow> [])"

definition envLinkLocal :: "'d Iface \<Rightarrow> addr" where
  "envLinkLocal it = st_LinkLocal (if_state it)"

definition ifaceEnv :: "'d Iface \<Rightarrow> env" where
  "ifaceEnv it = \<lparr>env_mac = envMAC it, env_v4 = envV4 it, env_v6 = envV6 it, env_v6all = envV6All it,
     env_linkLocal = envLinkLocal it\<rparr>"

text \<open>\<open>None\<close>: not attached. \<open>sent\<close> says whether the kernel accepts the frame.\<close>

definition envWrite :: "bool \<Rightarrow> 'd Iface \<Rightarrow> bytes \<Rightarrow> transport_err option option \<times> syscall list" where
  "envWrite sent it frame =
     (case if_conn it of
        None \<Rightarrow> (None, [])
      | Some conn \<Rightarrow> (let (err, calls) = writeConn sent conn frame in (Some err, calls)))"

section \<open>The loops\<close>

text \<open>The hook of the lease tables marks the store: \<open>relay\<close> delivers the notifications an operation
  made.\<close>

definition relay :: "'d Iface \<Rightarrow> 'd Iface \<Rightarrow> ('k, 'i) plant \<Rightarrow> ('k, 'i) plant" where
  "relay old it pl =
     (if lt_notified (s4_leases (if_d4 it)) \<noteq> lt_notified (s4_leases (if_d4 old)) \<or>
         lt_notified (s6_leases (if_d6 it)) \<noteq> lt_notified (s6_leases (if_d6 old))
      then markPlant pl else pl)"

text \<open>One round of \<^verbatim>\<open>readLoop\<close> on a frame the socket delivered into its 2048-byte buffer. The frames are
  those handed to \<open>envWrite\<close>; \<open>None\<close> would be a panic.\<close>

definition readFrame ::
  "orders \<Rightarrow> ra_orders \<Rightarrow> 'r dhcp4_lib \<Rightarrow> 's dhcp6_lib \<Rightarrow> time \<Rightarrow> bytes \<Rightarrow> 'd Iface \<Rightarrow>
     'd Iface \<times> bytes list option" where
  "readFrame ord rord lib4 lib6 now recv it =
     (case Parse (take 2048 recv) of
        None \<Rightarrow> (it, Some [])
      | Some pkt \<Rightarrow>
          (let (b, d4, out4) = handleFrame4 ord lib4 now (ifaceEnv it) (if_d4 it) pkt;
               it = it\<lparr>if_d4 := d4\<rparr>
           in if b then (it, Some out4)
              else
                (let (b, d6, out6) = handleFrame6 ord lib6 now (ifaceEnv it) (if_d6 it) pkt;
                     it = it\<lparr>if_d6 := d6\<rparr>
                 in if b then (it, Some (out4 @ out6))
                    else
                      (let (b, ra, outRA) = handleFrameRA rord (ifaceEnv it) (if_ra it) pkt
                       in (it\<lparr>if_ra := ra\<rparr>, map_option ((@) (out4 @ out6)) outRA)))))"

text \<open>One round of \<^verbatim>\<open>runLoop\<close> up to \<^verbatim>\<open>readLoop\<close>, and what follows it. The flag says whether the loop goes on
  to read; otherwise it sleeps.\<close>

definition attach ::
  "link_attrs option \<Rightarrow> os_open \<Rightarrow> 'd Iface \<Rightarrow> ('k, 'i) plant \<Rightarrow> bool \<times> 'd Iface \<times> ('k, 'i) plant \<times> syscall list" where
  "attach link os it pl =
     (let st = Snapshot link; it = it\<lparr>if_state := st\<rparr>
      in if \<not> st_Exists st then (False, it, pl, [])
         else
           (let (r, calls) = openConn os
            in case r of
                 Inl err \<Rightarrow> (False, it, pl, calls)
               | Inr conn \<Rightarrow>
                   (True, it\<lparr>if_conn := Some conn\<rparr>,
                    Emit (EvAttached (ic_Name (if_cfg it)) (ic_Tag (if_cfg it))) pl, calls)))"

definition detach :: "Conn \<Rightarrow> 'd Iface \<Rightarrow> 'd Iface \<times> syscall list" where
  "detach conn it =
     (let it = (if if_conn it = Some conn then it\<lparr>if_conn := None\<rparr> else it)
      in (it, snd (closeConn conn)))"

definition equalState :: "ifState \<Rightarrow> ifState \<Rightarrow> bool" where
  "equalState a b \<longleftrightarrow>
     \<not> (st_Exists a \<noteq> st_Exists b \<or> st_Up a \<noteq> st_Up b \<or> st_Index a \<noteq> st_Index b \<or>
        length (st_V4 a) \<noteq> length (st_V4 b) \<or> length (st_V6 a) \<noteq> length (st_V6 b) \<or>
        st_LinkLocal a \<noteq> st_LinkLocal b) \<and>
     (\<forall>i < length (st_V4 a). st_V4 a ! i = st_V4 b ! i) \<and>
     (\<forall>i < length (st_V6 a). st_V6 a ! i = st_V6 b ! i)"

text \<open>One round of \<^verbatim>\<open>watchLoop\<close>; the flag says whether the delegation client is woken.\<close>

definition watchRound :: "link_attrs option \<Rightarrow> 'd Iface \<Rightarrow> 'd Iface \<times> bool" where
  "watchRound link it =
     (let st = Snapshot link; old = if_state it; it = it\<lparr>if_state := st\<rparr>;
          it = (if \<not> equalState old st then it\<lparr>if_ra := Kick (if_ra it)\<rparr> else it)
      in (it, if_pdc it \<noteq> None))"

section \<open>Prefix delegation\<close>

definition composePD :: "PDConfig \<Rightarrow> prefix \<Rightarrow> prefix" where
  "composePD pd delegated =
     (let base = As16 (pfx_addr (Masked delegated)); sfx = As16 (pc_Suffix pd);
          out = map2 (OR) base sfx
      in PrefixFrom (AddrFrom16 out) (pc_PrefixLen pd))"

definition addrNet :: "prefix \<Rightarrow> ipnet" where
  "addrNet p = (AsSlice (pfx_addr p), CIDRMask (pfx_bits p) 128)"

definition addAddr :: "('k, 'o) netlink \<Rightarrow> string \<Rightarrow> prefix \<Rightarrow> 'k \<Rightarrow> 'k" where
  "addAddr nl name p k =
     (case nl_LinkByName nl k name of None \<Rightarrow> k | Some link \<Rightarrow> nl_AddrAdd nl k link (addrNet p))"

definition removeAddr :: "('k, 'o) netlink \<Rightarrow> string \<Rightarrow> prefix \<Rightarrow> 'k \<Rightarrow> 'k" where
  "removeAddr nl name p k =
     (case nl_LinkByName nl k name of None \<Rightarrow> k | Some link \<Rightarrow> nl_AddrDel nl k link (addrNet p))"

text \<open>An operation of the routed segment, where there is one.\<close>

definition on_routes ::
  "(Routes \<times> 'k host \<Rightarrow> Routes \<times> 'k host) \<Rightarrow> 'd Iface \<times> ('k, 'i) plant \<Rightarrow> 'd Iface \<times> ('k, 'i) plant" where
  "on_routes f = (\<lambda>(it, pl).
     case if_pdr it of
       None \<Rightarrow> (it, pl)
     | Some r \<Rightarrow> (let (r, h) = f (r, pl_host pl) in (it\<lparr>if_pdr := Some r\<rparr>, pl\<lparr>pl_host := h\<rparr>)))"

text \<open>The callback of the delegation client, which exists only with a delegation configured.\<close>

definition onPDChange ::
  "('k, 'o) netlink \<Rightarrow> prefix \<Rightarrow> bool \<Rightarrow> 'd Iface \<times> ('k, 'i) plant \<Rightarrow> 'd Iface \<times> ('k, 'i) plant" where
  "onPDChange nl delegated ok = (\<lambda>(it, pl).
     case ic_PD (if_cfg it) of
       None \<Rightarrow> (it, pl)
     | Some pd \<Rightarrow>
         (let name = ic_Name (if_cfg it); tag = ic_Tag (if_cfg it);
              (it, pl) =
                (if ok
                 then
                   (let addr = composePD pd delegated;
                        it = it\<lparr>if_pdAddr := addr\<rparr>;
                        pl = on_host (on_kernel (addAddr nl name addr)) pl;
                        (it, pl) = on_routes (Install nl (Masked addr)) (it, pl)
                    in (it, Emit (EvPDPrefix name tag delegated addr
                              (if if_pdr it = None then None else Some (pc_RouteTable pd))) pl))
                 else
                   (let addr = if_pdAddr it;
                        it = it\<lparr>if_pdAddr := ZeroPrefix\<rparr>;
                        (it, pl) = on_routes (Clear nl) (it, pl);
                        pl = (if PfxIsValid addr then on_host (on_kernel (removeAddr nl name addr)) pl else pl)
                    in (it, Emit (EvPDLost name tag delegated) pl)))
          in (it\<lparr>if_ra := Kick (if_ra it)\<rparr>, markPlant pl)))"

section \<open>DNS\<close>

text \<open>\<open>buildUpstream\<close>: the resolver of Android when its socket exists (\<open>android\<close>), the configured servers,
  the servers of the resolver configuration (\<open>resolv\<close>).\<close>

definition buildUpstream ::
  "proxy_conn option \<Rightarrow> (string \<Rightarrow> dns_conn) \<Rightarrow> string list \<Rightarrow> DNSConfig \<Rightarrow> upstream" where
  "buildUpstream android net resolv cfg =
     (let mode = (if nc_Upstream cfg = [] then ''auto'' else nc_Upstream cfg);
          ups = (if mode = ''auto'' \<or> mode = ''android''
                 then (case android of None \<Rightarrow> [] | Some conn \<Rightarrow> [androidExchange conn]) else []);
          ups = (if nc_Upstreams cfg \<noteq> []
                 then ups @ [serverListExchange net (normalizeServers (nc_Upstreams cfg))] else ups);
          ups = (if mode \<noteq> ''android'' then ups @ [serverListExchange net resolv] else ups)
      in chainExchange ups)"

text \<open>One attempt of \<open>startDNS\<close>; \<open>port\<close> is the port bound, \<open>None\<close> when listening fails. The second flag says
  whether the redirection is to be maintained.\<close>

definition startDNS :: "int option \<Rightarrow> 'd Iface \<times> ('k, 'i) plant \<Rightarrow> bool \<times> bool \<times> 'd Iface \<times> ('k, 'i) plant" where
  "startDNS port = (\<lambda>(it, pl).
     case (ic_DNS (if_cfg it), port) of
       (Some cfg, Some p) \<Rightarrow>
         (True, nc_Redirect53 cfg \<and> nc_Port cfg \<noteq> 53, it\<lparr>if_dns := Some p\<rparr>,
          Emit (EvDNSReady (ic_Name (if_cfg it)) (ic_Tag (if_cfg it)) p) pl)
     | _ \<Rightarrow> (False, False, it, pl))"

text \<open>\<^verbatim>\<open>apply\<close> of \<open>maintainDNAT\<close>.\<close>

definition applyDNAT ::
  "'i iptables \<Rightarrow> 'd Iface \<times> ('k, 'i) plant \<Rightarrow> ('d Iface \<times> ('k, 'i) plant) option" where
  "applyDNAT ipt = (\<lambda>(it, pl).
     let ip = (case envV4 it of None \<Rightarrow> [] | Some v4 \<Rightarrow> addr_String (pfx_addr v4))
     in if ip = if_dnatCur it then Some (it, pl)
        else
          case (case if_dnat it of None \<Rightarrow> Some (pl_nat pl) | Some r \<Rightarrow> removeDNAT ipt r (pl_nat pl)) of
            None \<Rightarrow> None
          | Some nat0 \<Rightarrow>
              (let it = it\<lparr>if_dnat := None, if_dnatCur := ip\<rparr>; pl = pl\<lparr>pl_nat := nat0\<rparr>
               in if ip = [] then Some (it, pl)
                  else
                    case InstallDNAT ipt (ic_Name (if_cfg it)) ip
                           (case ic_DNS (if_cfg it) of None \<Rightarrow> 0 | Some d \<Rightarrow> nc_Port d) (pl_nat pl) of
                      None \<Rightarrow> None
                    | Some (rule, nat1) \<Rightarrow> Some (it\<lparr>if_dnat := rule\<rparr>, pl\<lparr>pl_nat := nat1\<rparr>)))"

section \<open>Starting, stopping, saving and restoring\<close>

definition startIface :: "('k, 'o) netlink \<Rightarrow> 'd Iface \<times> ('k, 'i) plant \<Rightarrow> 'd Iface \<times> ('k, 'i) plant" where
  "startIface nl = on_routes (Start nl)"

definition stopIface ::
  "('k, 'o) netlink \<Rightarrow> 'i iptables \<Rightarrow> 'd Iface \<times> ('k, 'i) plant \<Rightarrow>
     ('d Iface \<times> ('k, 'i) plant \<times> syscall list) option" where
  "stopIface nl ipt = (\<lambda>(it, pl).
     let it = it\<lparr>if_done := True\<rparr>;
         calls = (case if_conn it of None \<Rightarrow> [] | Some conn \<Rightarrow> snd (closeConn conn));
         it = it\<lparr>if_conn := None\<rparr>
     in case (case if_dnat it of None \<Rightarrow> Some (pl_nat pl) | Some r \<Rightarrow> removeDNAT ipt r (pl_nat pl)) of
          None \<Rightarrow> None
        | Some nat0 \<Rightarrow>
            (let pl = pl\<lparr>pl_nat := nat0\<rparr>;
                 pl = (if PfxIsValid (if_pdAddr it)
                       then on_host (on_kernel (removeAddr nl (ic_Name (if_cfg it)) (if_pdAddr it))) pl else pl);
                 (it, pl) = on_routes (Stop nl) (it, pl)
             in Some (it, pl, calls)))"

definition persisted :: "orders \<Rightarrow> time \<Rightarrow> 'd Iface \<Rightarrow> persistedIface" where
  "persisted ord now it =
     \<lparr>pi_Statics4 = ListStatic4 ord (if_d4 it), pi_Statics6 = ListStatic6 ord (if_d6 it),
      pi_Leases4 = Leases4 ord now (if_d4 it), pi_Leases6 = Leases6 ord now (if_d6 it),
      pi_PD = (case if_pdc it of None \<Rightarrow> None | Some c \<Rightarrow> cl_binding c)\<rparr>"

definition restoreServers :: "persistedIface \<Rightarrow> 'd Iface \<Rightarrow> 'd Iface" where
  "restoreServers p it =
     (let d4 = (if pi_Statics4 p \<noteq> []
                then (case ReplaceStatics4 (if_d4 it) (pi_Statics4 p) of Inl _ \<Rightarrow> if_d4 it | Inr d4 \<Rightarrow> d4)
                else if_d4 it);
          d6 = (if pi_Statics6 p \<noteq> []
                then (case ReplaceStatics6 (if_d6 it) (pi_Statics6 p) of Inl _ \<Rightarrow> if_d6 it | Inr d6 \<Rightarrow> d6)
                else if_d6 it)
      in it\<lparr>if_d4 := d4\<lparr>s4_leases := lt_load (s4_leases d4) (pi_Leases4 p)\<rparr>,
            if_d6 := d6\<lparr>s6_leases := lt_load (s6_leases d6) (pi_Leases6 p)\<rparr>\<rparr>)"

definition restore ::
  "('k, 'o) netlink \<Rightarrow> time \<Rightarrow> persistedIface option \<Rightarrow> 'd Iface \<times> ('k, 'i) plant \<Rightarrow> 'd Iface \<times> ('k, 'i) plant" where
  "restore nl now p = (\<lambda>(it, pl).
     case p of
       None \<Rightarrow> (it, pl)
     | Some p \<Rightarrow>
         (let it = restoreServers p it
          in case (if_pdc it, pi_PD p) of
               (Some c, Some b) \<Rightarrow>
                 (let it = it\<lparr>if_pdc := Some (Restore now c b)\<rparr>
                  in if now < bd_ExpiresAt b then onPDChange nl (bd_Prefix b) True (it, pl) else (it, pl))
             | _ \<Rightarrow> (it, pl)))"

section \<open>Composing the served prefix\<close>

lemma be_nat_snoc_or: "be_nat (xs @ [x]) = push_bit 8 (be_nat xs) OR unat x"
proof -
  have "push_bit 8 (be_nat xs) AND unat x = 0"
    by (rule bit_eqI) (auto simp: bit_simps bit_push_bit_iff_nat bit_unsigned_iff dest: bit_imp_le_length)
  from disjunctive_add_eq_or [OF this] show ?thesis
    by (simp add: be_nat_snoc push_bit_eq_mult mult.commute)
qed

lemma be_nat_map2_or: "length a = length b \<Longrightarrow> be_nat (map2 (OR) a b) = be_nat a OR be_nat b"
proof (induction a arbitrary: b rule: rev_induct)
  case (snoc x xs)
  then obtain y ys where b: "b = ys @ [y]" "length ys = length xs"
    by (metis append_butlast_last_id length_append_singleton length_butlast length_greater_0_conv
        diff_Suc_1 zero_less_Suc)
  then show ?case
    using snoc.IH [of ys] by (simp add: be_nat_snoc_or unsigned_or_eq push_bit_or ac_simps del: be_nat_snoc)
qed simp

lemma composePD_word:
  assumes "Is6 (pc_Suffix pd)" "pfx_addr (Masked delegated) = Addr6 m []" "pc_Suffix pd = Addr6 s z"
  shows "composePD pd delegated = PrefixFrom (Addr6 (m OR s) []) (pc_PrefixLen pd)"
proof -
  have "unat (m OR s) = unat m OR unat s" by (simp add: unsigned_or_eq)
  then have "of_nat (unat m OR unat s) = m OR s" by (metis of_nat_unat ucast_id)
  then show ?thesis
    using assms addr_val_less [of "Addr6 m []"] addr_val_less [of "Addr6 s z"]
    by (simp add: composePD_def AddrFrom16_def be_nat_map2_or)
qed

lemma composePD_valid:
  assumes "0 \<le> pc_PrefixLen pd" "pc_PrefixLen pd \<le> 128"
  shows "PfxIsValid (composePD pd p)" "prefix_ok (composePD pd p)" "pfx_bits (composePD pd p) = pc_PrefixLen pd"
  using assms prefix_ok_PrefixFrom by (simp_all add: composePD_def AddrFrom16_def PrefixFrom_def PfxIsValid_def prefix_ok_def)

lemma prefix_ok_composePD: "prefix_ok (composePD pd p)"
  unfolding composePD_def Let_def by (rule prefix_ok_PrefixFrom)

lemma contains_word:
  "Contains (Prefix (Addr6 w z) b) (Addr6 v []) \<longleftrightarrow> 0 \<le> b \<and> drop_bit (128 - nat b) (v XOR w) = 0"
  by (simp add: Contains_def PfxIsValid_def)

lemma drop_push_drop: "drop_bit k (push_bit k (drop_bit k d)) = drop_bit k (d :: 'a::len word)"
  by (rule bit_word_eqI) (auto simp: bit_simps dest: bit_imp_le_length)

lemma drop_bit_weaken: "drop_bit m x = 0 \<Longrightarrow> m \<le> n \<Longrightarrow> drop_bit n (x :: 'a::len word) = 0"
  by (metis drop_bit_drop_bit drop_bit_of_0 le_add_diff_inverse2)

lemma drop_bit_xor_cancel:
  "drop_bit n (a XOR b) = 0 \<Longrightarrow> drop_bit n (b XOR c) = 0 \<Longrightarrow> drop_bit n (a XOR c :: 'a::len word) = 0"
  by (simp add: drop_bit_xor) (metis bit.xor_self xor.assoc xor.right_neutral)

text \<open>The served prefix lies inside the delegation. With a delegation no longer than the configured
  prefix length and a suffix that leaves the delegated bits alone, the composed address is in
  the delegated prefix, and so is every address of the served prefix.\<close>

theorem composePD_within:
  assumes "pfx_addr delegated = Addr6 d []" and "0 \<le> pfx_bits delegated"
    and "pfx_bits delegated \<le> pc_PrefixLen pd" and "pc_PrefixLen pd \<le> 128"
    and "pc_Suffix pd = Addr6 s z" and "drop_bit (128 - nat (pfx_bits delegated)) s = 0"
  shows "Contains delegated (pfx_addr (composePD pd delegated)) \<and>
    (\<forall>a. Contains (composePD pd delegated) a \<longrightarrow> Contains delegated a)"
proof -
  let ?k = "128 - nat (pfx_bits delegated)" and ?L = "pc_PrefixLen pd"
  define m where "m = push_bit ?k (drop_bit ?k d)"
  have "Masked delegated = Prefix (Addr6 m []) (pfx_bits delegated)"
    using assms(1-4) by (cases delegated) (simp add: Masked_def PrefixFrom_def m_def)
  then have c: "composePD pd delegated = Prefix (Addr6 (m OR s) []) ?L"
    using composePD_word [of pd delegated m s z] assms(2-5) by (simp add: PrefixFrom_def)
  have "drop_bit ?k (m OR s) = drop_bit ?k d"
    using assms(6) unfolding m_def by (simp add: drop_bit_or drop_push_drop)
  then have close: "drop_bit ?k ((m OR s) XOR d) = 0" by (simp add: drop_bit_xor)
  have del: "delegated = Prefix (Addr6 d []) (pfx_bits delegated)" using assms(1) by (cases delegated) simp
  have "Contains delegated (Addr6 (m OR s) [])"
    using close assms(2) by (subst del) (simp add: contains_word)
  moreover have "Contains delegated a" if "Contains (composePD pd delegated) a" for a
  proof -
    from that obtain v where a: "a = Addr6 v []" "drop_bit (128 - nat ?L) (v XOR (m OR s)) = 0"
      unfolding c by (cases a) (auto simp: Contains_def)
    have "drop_bit ?k (v XOR (m OR s)) = 0"
      using a(2) by (rule drop_bit_weaken) (use assms(3) in simp)
    then have "drop_bit ?k (v XOR d) = 0" using close by (rule drop_bit_xor_cancel)
    then show ?thesis using assms(2) unfolding a(1) by (subst del) (simp add: contains_word)
  qed
  ultimately show ?thesis by (simp add: c)
qed

definition pdcfg_example :: PDConfig where
  "pdcfg_example = \<lparr>pc_Uplink = ''wlan0'', pc_DUID = [0, 3, 0, 1], pc_IAID = 1, pc_Suffix = Addr6 1 [],
     pc_PrefixLen = 64, pc_RouteTable = 1001, pc_RulePriority = 5000, pc_InitialTimeout = 0,
     pc_MaxTimeout = 0, pc_Attempts = 0\<rparr>"

theorem composePD_within_witness:
  "Contains (bd_Prefix binding_example) (pfx_addr (composePD pdcfg_example (bd_Prefix binding_example)))"
proof -
  have "drop_bit (128 - nat 56) (1 :: 128 word) = 0" by simp
  then show ?thesis
    using composePD_within [of "bd_Prefix binding_example" "0x20010DB8000000000000000000000000" pdcfg_example 1 "[]"]
    by (simp add: binding_example_def pdcfg_example_def)
qed

end
