(* ===== verification/Config.thy ===== *)
theory Config
  imports Iface
begin

text \<open>
  \<^verbatim>\<open>internal/config/config.go\<close>: the configuration document and its translation into the
  configurations of the served interfaces. The JSON decoder is a parameter of \<open>Load\<close>; the texts inside
  the document are parsed here.
\<close>

section \<open>The document\<close>

record config_Pool =
  cp_PoolOffsetStart :: u64
  cp_PoolOffsetEnd :: u64
  cp_LeaseTime :: duration
  cp_DNS :: "string list"

record config_PD =
  cd_Uplink :: string
  cd_DUID :: string
  cd_IAID :: u32
  cd_Suffix :: string
  cd_PrefixLen :: int
  cd_RouteTable :: int
  cd_RulePriority :: int
  cd_InitialTimeout :: duration
  cd_MaxTimeout :: duration
  cd_Attempts :: int

record config_DNS =
  cn_Port :: int
  cn_Redirect53 :: bool
  cn_Upstream :: string
  cn_Upstreams :: "string list"

record config_RAOpts =
  co_Interval :: duration
  co_RouterLifetime :: duration
  co_ValidLifetime :: duration
  co_PreferredLife :: duration
  co_DNS :: "string list"

record config_Iface =
  ci_Name :: string
  ci_Tag :: string
  ci_Prefix4 :: string
  ci_Prefix6 :: string
  ci_DHCP4 :: "config_Pool option"
  ci_DHCP6 :: "config_Pool option"
  ci_SLAAC :: bool
  ci_PD :: "config_PD option"
  ci_DNS :: "config_DNS option"
  ci_RA :: "config_RAOpts option"
  ci_Statics4 :: "static_binding list"
  ci_Statics6 :: "static_binding list"

record config_File =
  cf_APISocket :: string
  cf_APIKey :: string
  cf_APIKeyFile :: string
  cf_StateFile :: string
  cf_Interfaces :: "config_Iface list"

datatype config_err =
    ErrRead string
  | ErrDecode string
  | ErrNoSocket string
  | ErrNoInterfaces string
  | ErrNoKey
  | ErrIn string config_err
  | ErrPrefix string string
  | ErrAddr string string
  | ErrDUID string
  | ErrTableRange string int
  | ErrTableUsed string int string
  | ErrPriorityRange string int
  | ErrPriorityNoTable string
  | ErrSuffix string string

section \<open>Reading the document\<close>

text \<open>\<open>fs\<close>: the readable files; \<open>decode\<close>: the strict JSON decoder.\<close>

definition Load :: "(bytes \<Rightarrow> config_File option) \<Rightarrow> files \<Rightarrow> string \<Rightarrow> config_err + config_File" where
  "Load decode fs path =
     (case fs path of
        None \<Rightarrow> Inl (ErrRead path)
      | Some data \<Rightarrow>
          (case decode data of
             None \<Rightarrow> Inl (ErrDecode path)
           | Some f \<Rightarrow>
               if cf_APISocket f = [] then Inl (ErrNoSocket path)
               else if cf_Interfaces f = [] then Inl (ErrNoInterfaces path)
               else Inr f))"

definition ResolveAPIKey :: "files \<Rightarrow> config_File \<Rightarrow> config_err + string" where
  "ResolveAPIKey fs f =
     (if cf_APIKey f \<noteq> [] then Inr (cf_APIKey f)
      else if cf_APIKeyFile f \<noteq> []
      then (case fs (cf_APIKeyFile f) of
              None \<Rightarrow> Inl (ErrRead (cf_APIKeyFile f))
            | Some data \<Rightarrow> Inr (TrimSpace (map (\<lambda>b. char_of (unat b)) data)))
      else Inl ErrNoKey)"

definition reservedTable :: "int \<Rightarrow> bool" where
  "reservedTable t \<longleftrightarrow> t \<in> {0, 253, 254, 255, 97, 98, 99}"

fun parseAddrs :: "string list \<Rightarrow> string \<Rightarrow> config_err + addr list" where
  "parseAddrs [] what = Inr []"
| "parseAddrs (s # ss) what =
     (let a = ParseAddr (TrimSpace s)
      in if \<not> IsValid a then Inl (ErrAddr what s)
         else (case parseAddrs ss what of Inl err \<Rightarrow> Inl err | Inr addrs \<Rightarrow> Inr (a # addrs)))"

text \<open>\<^verbatim>\<open>fmt.Sscanf\<close> with the format \<^verbatim>\<open>%x\<close> into a byte slice: white space is skipped, except for a newline,
  which is an error; then pairs of digits are read up to the first character that is no digit,
  and what follows is not looked at. A half pair and an empty result are errors.\<close>

fun hexPairs :: "string \<Rightarrow> bytes option" where
  "hexPairs [] = Some []"
| "hexPairs [c] = (if hex_val c = None then Some [] else None)"
| "hexPairs (c # d # s) =
     (case hex_val c of
        None \<Rightarrow> Some []
      | Some h \<Rightarrow>
          (case hex_val d of
             None \<Rightarrow> None
           | Some l \<Rightarrow> map_option (\<lambda>bs. of_nat (16 * h + l) # bs) (hexPairs s)))"

definition Sscanf_x :: "string \<Rightarrow> bytes option" where
  "Sscanf_x s =
     (let s = dropWhile (\<lambda>c. go_space c \<and> c \<noteq> CHR 0x0A) s
      in if take 1 s = [CHR 0x0A] then None
         else (case hexPairs s of None \<Rightarrow> None | Some bs \<Rightarrow> if bs = [] then None else Some bs))"

definition parseDUID :: "string \<Rightarrow> config_err + bytes" where
  "parseDUID s =
     (let s = filter (\<lambda>c. c \<noteq> CHR '':'') (TrimSpace s);
          s = filter (\<lambda>c. c \<noteq> CHR ''-'') s
      in if length s < 4 \<or> length s mod 2 \<noteq> 0 then Inl (ErrDUID s)
         else (case Sscanf_x s of None \<Rightarrow> Inl (ErrDUID s) | Some out \<Rightarrow> Inr out))"

section \<open>Translating an interface\<close>

text \<open>The zero values of the server configurations.\<close>

definition zeroDHCP4 :: DHCP4Config where
  "zeroDHCP4 = \<lparr>c4_Enabled = False, c4_PoolOffsetStart = 0, c4_PoolOffsetEnd = 0, c4_LeaseTime = 0, c4_DNS = []\<rparr>"

definition zeroDHCP6 :: DHCP6Config where
  "zeroDHCP6 = \<lparr>c6_Enabled = False, c6_PoolOffsetStart = 0, c6_PoolOffsetEnd = 0, c6_LeaseTime = 0, c6_DNS = []\<rparr>"

definition zeroRA :: RAConfig where
  "zeroRA = \<lparr>ra_Enabled = False, ra_Autonomous = False, ra_Managed = False, ra_Other = False, ra_Interval = 0,
     ra_RouterLifetime = 0, ra_ValidLifetime = 0, ra_PreferredLife = 0, ra_DNS = []\<rparr>"

definition buildPrefix :: "(addr \<Rightarrow> bool) \<Rightarrow> string \<Rightarrow> string \<Rightarrow> config_err + prefix" where
  "buildPrefix family name s =
     (if s = [] then Inr ZeroPrefix
      else
        case ParsePrefix (TrimSpace s) of
          None \<Rightarrow> Inl (ErrPrefix name s)
        | Some p \<Rightarrow> if \<not> family (pfx_addr p) then Inl (ErrPrefix name s) else Inr p)"

definition buildDHCP4 :: "string \<Rightarrow> config_Pool option \<Rightarrow> config_err + DHCP4Config" where
  "buildDHCP4 name pool =
     (case pool of
        None \<Rightarrow> Inr zeroDHCP4
      | Some p \<Rightarrow>
          (case parseAddrs (cp_DNS p) ''dhcp4 dns'' of
             Inl err \<Rightarrow> Inl (ErrIn name err)
           | Inr dns \<Rightarrow> Inr \<lparr>c4_Enabled = True, c4_PoolOffsetStart = cp_PoolOffsetStart p,
               c4_PoolOffsetEnd = cp_PoolOffsetEnd p, c4_LeaseTime = cp_LeaseTime p, c4_DNS = dns\<rparr>))"

definition buildDHCP6 :: "string \<Rightarrow> config_Pool option \<Rightarrow> config_err + DHCP6Config" where
  "buildDHCP6 name pool =
     (case pool of
        None \<Rightarrow> Inr zeroDHCP6
      | Some p \<Rightarrow>
          (case parseAddrs (cp_DNS p) ''dhcp6 dns'' of
             Inl err \<Rightarrow> Inl (ErrIn name err)
           | Inr dns \<Rightarrow> Inr \<lparr>c6_Enabled = True, c6_PoolOffsetStart = cp_PoolOffsetStart p,
               c6_PoolOffsetEnd = cp_PoolOffsetEnd p, c6_LeaseTime = cp_LeaseTime p, c6_DNS = dns\<rparr>))"

definition buildRA :: "string \<Rightarrow> config_RAOpts option \<Rightarrow> config_err + RAConfig" where
  "buildRA name opts =
     (case opts of
        None \<Rightarrow> Inr zeroRA
      | Some ra \<Rightarrow>
          (case parseAddrs (co_DNS ra) ''ra dns'' of
             Inl err \<Rightarrow> Inl (ErrIn name err)
           | Inr dns \<Rightarrow> Inr (zeroRA\<lparr>ra_Interval := co_Interval ra, ra_RouterLifetime := co_RouterLifetime ra,
               ra_ValidLifetime := co_ValidLifetime ra, ra_PreferredLife := co_PreferredLife ra, ra_DNS := dns\<rparr>)))"

text \<open>The check of the routing table and of the priority: \<open>tables\<close> maps the tables in use to the
  interfaces that use them.\<close>

definition claimTable ::
  "string \<Rightarrow> config_PD \<Rightarrow> (int, string) gomap \<Rightarrow> config_err + (int, string) gomap" where
  "claimTable name pd tables =
     (let rt = cd_RouteTable pd; p = cd_RulePriority pd
      in if rt \<noteq> 0
         then
           (if rt < 0 \<or> 0xfffffffe < rt \<or> reservedTable rt then Inl (ErrTableRange name rt)
            else
              case map_of tables rt of
                Some prev \<Rightarrow> Inl (ErrTableUsed name rt prev)
              | None \<Rightarrow>
                  if p < 0 \<or> 32765 < p then Inl (ErrPriorityRange name p)
                  else Inr (AList.update rt name tables))
         else if p \<noteq> 0 then Inl (ErrPriorityNoTable name)
         else Inr tables)"

definition buildPD ::
  "string \<Rightarrow> config_PD option \<Rightarrow> (int, string) gomap \<Rightarrow> config_err + PDConfig option \<times> (int, string) gomap" where
  "buildPD name opt tables =
     (case opt of
        None \<Rightarrow> Inr (None, tables)
      | Some pd \<Rightarrow>
          (case parseDUID (cd_DUID pd) of
             Inl err \<Rightarrow> Inl (ErrIn name err)
           | Inr duid \<Rightarrow>
               (case claimTable name pd tables of
                  Inl err \<Rightarrow> Inl err
                | Inr tables \<Rightarrow>
                    (let c = \<lparr>pc_Uplink = cd_Uplink pd, pc_DUID = duid,
                           pc_IAID = (if cd_IAID pd = 0 then 1 else cd_IAID pd), pc_Suffix = AddrNone,
                           pc_PrefixLen = cd_PrefixLen pd, pc_RouteTable = cd_RouteTable pd,
                           pc_RulePriority = cd_RulePriority pd, pc_InitialTimeout = cd_InitialTimeout pd,
                           pc_MaxTimeout = cd_MaxTimeout pd, pc_Attempts = cd_Attempts pd\<rparr>
                     in if cd_Suffix pd \<noteq> []
                        then (let sfx = ParseAddr (cd_Suffix pd)
                              in if \<not> IsValid sfx \<or> \<not> Is6 sfx then Inl (ErrSuffix name (cd_Suffix pd))
                                 else Inr (Some (c\<lparr>pc_Suffix := sfx\<rparr>), tables))
                        else Inr (Some c, tables)))))"

definition buildDNS :: "config_DNS \<Rightarrow> DNSConfig" where
  "buildDNS d = \<lparr>nc_Port = cn_Port d, nc_Redirect53 = cn_Redirect53 d, nc_Upstream = cn_Upstream d,
     nc_Upstreams = cn_Upstreams d\<rparr>"

text \<open>One round of the loop of \<open>BuildIfaceConfigs\<close>, its checks in the order of the code.\<close>

definition buildIface ::
  "config_Iface \<Rightarrow> (int, string) gomap \<Rightarrow> config_err + IfaceConfig \<times> (int, string) gomap" where
  "buildIface ic tables =
     (case buildPrefix Is4 (ci_Name ic) (ci_Prefix4 ic) of
        Inl err \<Rightarrow> Inl err
      | Inr prefix4 \<Rightarrow>
     (case buildPrefix Is6 (ci_Name ic) (ci_Prefix6 ic) of
        Inl err \<Rightarrow> Inl err
      | Inr prefix6 \<Rightarrow>
     (case buildDHCP4 (ci_Name ic) (ci_DHCP4 ic) of
        Inl err \<Rightarrow> Inl err
      | Inr dhcp4 \<Rightarrow>
     (case buildDHCP6 (ci_Name ic) (ci_DHCP6 ic) of
        Inl err \<Rightarrow> Inl err
      | Inr dhcp6 \<Rightarrow>
     (case buildRA (ci_Name ic) (ci_RA ic) of
        Inl err \<Rightarrow> Inl err
      | Inr ra \<Rightarrow>
     (case buildPD (ci_Name ic) (ci_PD ic) tables of
        Inl err \<Rightarrow> Inl err
      | Inr (pd, tables) \<Rightarrow>
          Inr (\<lparr>ic_Name = ci_Name ic, ic_Tag = ci_Tag ic, ic_Prefix4 = prefix4, ic_Prefix6 = prefix6,
                ic_DHCP4 = dhcp4, ic_DHCP6 = dhcp6, ic_SLAAC = ci_SLAAC ic, ic_RA = ra, ic_PD = pd,
                ic_DNS = map_option buildDNS (ci_DNS ic)\<rparr>, tables)))))))"

fun buildIfaces ::
  "config_Iface list \<Rightarrow> (int, string) gomap \<Rightarrow> IfaceConfig list \<Rightarrow> config_err + IfaceConfig list" where
  "buildIfaces [] tables out = Inr out"
| "buildIfaces (ic # ics) tables out =
     (case buildIface ic tables of
        Inl err \<Rightarrow> Inl err
      | Inr (cfg, tables) \<Rightarrow> buildIfaces ics tables (out @ [cfg]))"

definition BuildIfaceConfigs :: "config_File \<Rightarrow> config_err + IfaceConfig list" where
  "BuildIfaceConfigs f = buildIfaces (cf_Interfaces f) [] []"

text \<open>A later interface of the same name overwrites an earlier one, as in the Go map.\<close>

definition InitialStatics :: "config_File \<Rightarrow> (string, static_binding list \<times> static_binding list) gomap" where
  "InitialStatics f =
     fold (\<lambda>ic out. if ci_Statics4 ic \<noteq> [] \<or> ci_Statics6 ic \<noteq> []
                    then AList.update (ci_Name ic) (ci_Statics4 ic, ci_Statics6 ic) out else out)
       (cf_Interfaces f) []"

section \<open>What the translation accepts\<close>

definition prefix_given :: "(addr \<Rightarrow> bool) \<Rightarrow> string \<Rightarrow> bool" where
  "prefix_given family s \<longleftrightarrow>
     s = [] \<or> (case ParsePrefix (TrimSpace s) of None \<Rightarrow> False | Some p \<Rightarrow> family (pfx_addr p))"

definition addrs_given :: "string list \<Rightarrow> bool" where
  "addrs_given ss \<longleftrightarrow> (\<forall>s \<in> set ss. IsValid (ParseAddr (TrimSpace s)))"

text \<open>A routing table that a segment may own.\<close>

definition table_usable :: "int \<Rightarrow> bool" where
  "table_usable t \<longleftrightarrow> 0 < t \<and> t \<le> 0xfffffffe \<and> \<not> reservedTable t"

definition pd_given :: "config_PD \<Rightarrow> bool" where
  "pd_given pd \<longleftrightarrow> (\<exists>duid. parseDUID (cd_DUID pd) = Inr duid) \<and>
     (if cd_RouteTable pd = 0 then cd_RulePriority pd = 0
      else table_usable (cd_RouteTable pd) \<and> 0 \<le> cd_RulePriority pd \<and> cd_RulePriority pd \<le> 32765) \<and>
     (cd_Suffix pd = [] \<or> Is6 (ParseAddr (cd_Suffix pd)))"

definition iface_given :: "config_Iface \<Rightarrow> bool" where
  "iface_given ic \<longleftrightarrow> prefix_given Is4 (ci_Prefix4 ic) \<and> prefix_given Is6 (ci_Prefix6 ic) \<and>
     pred_option (\<lambda>p. addrs_given (cp_DNS p)) (ci_DHCP4 ic) \<and>
     pred_option (\<lambda>p. addrs_given (cp_DNS p)) (ci_DHCP6 ic) \<and>
     pred_option (\<lambda>ra. addrs_given (co_DNS ra)) (ci_RA ic) \<and> pred_option pd_given (ci_PD ic)"

definition claimed :: "config_Iface \<Rightarrow> int list" where
  "claimed ic = (case ci_PD ic of None \<Rightarrow> [] | Some pd \<Rightarrow> if cd_RouteTable pd = 0 then [] else [cd_RouteTable pd])"

text \<open>What the servers rely on in a configuration.\<close>

definition tableOf :: "IfaceConfig \<Rightarrow> int list" where
  "tableOf cfg = (case ic_PD cfg of None \<Rightarrow> [] | Some pd \<Rightarrow> if pc_RouteTable pd = 0 then [] else [pc_RouteTable pd])"

definition pdconfig_ok :: "PDConfig \<Rightarrow> bool" where
  "pdconfig_ok pd \<longleftrightarrow> pc_DUID pd \<noteq> [] \<and> pc_IAID pd \<noteq> 0 \<and> (pc_Suffix pd = AddrNone \<or> Is6 (pc_Suffix pd)) \<and>
     (pc_RouteTable pd = 0 \<and> pc_RulePriority pd = 0 \<or>
      table_usable (pc_RouteTable pd) \<and> 0 \<le> pc_RulePriority pd \<and> pc_RulePriority pd \<le> 32765)"

definition config_ok :: "IfaceConfig \<Rightarrow> bool" where
  "config_ok cfg \<longleftrightarrow>
     (ic_Prefix4 cfg = ZeroPrefix \<or> Is4 (pfx_addr (ic_Prefix4 cfg)) \<and> PfxIsValid (ic_Prefix4 cfg)) \<and> prefix_ok (ic_Prefix4 cfg) \<and>
     (ic_Prefix6 cfg = ZeroPrefix \<or> Is6 (pfx_addr (ic_Prefix6 cfg)) \<and> PfxIsValid (ic_Prefix6 cfg)) \<and> prefix_ok (ic_Prefix6 cfg) \<and>
     list_all IsValid (c4_DNS (ic_DHCP4 cfg) @ c6_DNS (ic_DHCP6 cfg) @ ra_DNS (ic_RA cfg)) \<and>
     pred_option pdconfig_ok (ic_PD cfg)"

text \<open>What the translation carries over unchanged.\<close>

definition carries :: "config_Iface \<Rightarrow> IfaceConfig \<Rightarrow> bool" where
  "carries ic cfg \<longleftrightarrow> ic_Name cfg = ci_Name ic \<and> ic_Tag cfg = ci_Tag ic \<and> ic_SLAAC cfg = ci_SLAAC ic \<and>
     (c4_Enabled (ic_DHCP4 cfg) \<longleftrightarrow> ci_DHCP4 ic \<noteq> None) \<and> (c6_Enabled (ic_DHCP6 cfg) \<longleftrightarrow> ci_DHCP6 ic \<noteq> None) \<and>
     (PfxIsValid (ic_Prefix4 cfg) \<longleftrightarrow> ci_Prefix4 ic \<noteq> []) \<and> (PfxIsValid (ic_Prefix6 cfg) \<longleftrightarrow> ci_Prefix6 ic \<noteq> []) \<and>
     map_option pc_Uplink (ic_PD cfg) = map_option cd_Uplink (ci_PD ic) \<and> tableOf cfg = claimed ic \<and>
     map_option nc_Port (ic_DNS cfg) = map_option cn_Port (ci_DNS ic)"

lemma parseAddrs_iff: "(\<exists>addrs. parseAddrs ss what = Inr addrs) \<longleftrightarrow> addrs_given ss"
  by (induction ss) (auto simp: addrs_given_def Let_def split: sum.splits)

lemma parseAddrs_Inr: "parseAddrs ss what = Inr addrs \<Longrightarrow> addrs = map (\<lambda>s. ParseAddr (TrimSpace s)) ss \<and> list_all IsValid addrs"
  by (induction ss arbitrary: addrs) (auto simp: Let_def split: sum.splits if_splits)

lemma ZeroPrefix_invalid [simp]: "\<not> PfxIsValid ZeroPrefix"
  by (simp add: PfxIsValid_def ZeroPrefix_def)

lemma prefix_ok_Zero [simp]: "prefix_ok ZeroPrefix"
  by (simp add: prefix_ok_def ZeroPrefix_def)

lemma buildPrefix_iff: "(\<exists>p. buildPrefix family name s = Inr p) \<longleftrightarrow> prefix_given family s"
  by (auto simp: buildPrefix_def prefix_given_def split: option.splits)

lemma buildPrefix_Inr:
  assumes "buildPrefix family name s = Inr p"
  shows "(p = ZeroPrefix \<or> family (pfx_addr p) \<and> PfxIsValid p) \<and> prefix_ok p \<and> (PfxIsValid p \<longleftrightarrow> s \<noteq> [])"
  using assms ParsePrefix_valid by (auto simp: buildPrefix_def split: option.splits if_splits)


lemma claimTable_Inr:
  "claimTable name pd tables = Inr tables' \<longleftrightarrow>
     (if cd_RouteTable pd = 0 then cd_RulePriority pd = 0 \<and> tables' = tables
      else table_usable (cd_RouteTable pd) \<and> 0 \<le> cd_RulePriority pd \<and> cd_RulePriority pd \<le> 32765 \<and>
        map_of tables (cd_RouteTable pd) = None \<and> tables' = AList.update (cd_RouteTable pd) name tables)"
  by (auto simp: claimTable_def table_usable_def Let_def split: option.splits)

lemma parseDUID_nonempty: "parseDUID s = Inr duid \<Longrightarrow> duid \<noteq> []"
  by (auto simp: parseDUID_def Sscanf_x_def Let_def split: option.splits if_splits)

text \<open>The tables an interface claims must be free.\<close>

definition free_tables :: "(int, string) gomap \<Rightarrow> config_Iface \<Rightarrow> bool" where
  "free_tables tables ic \<longleftrightarrow> (\<forall>t \<in> set (claimed ic). map_of tables t = None)"

lemma buildPD_iff:
  "(\<exists>r. buildPD (ci_Name ic) (ci_PD ic) tables = Inr r) \<longleftrightarrow> pred_option pd_given (ci_PD ic) \<and> free_tables tables ic"
proof (cases "ci_PD ic")
  case (Some pd)
  have c: "(\<exists>t. claimTable (ci_Name ic) pd tables = Inr t) \<longleftrightarrow>
      (if cd_RouteTable pd = 0 then cd_RulePriority pd = 0
       else table_usable (cd_RouteTable pd) \<and> 0 \<le> cd_RulePriority pd \<and> cd_RulePriority pd \<le> 32765) \<and> free_tables tables ic"
    by (auto simp: claimTable_Inr free_tables_def claimed_def Some)
  have s: "Is6 a \<Longrightarrow> IsValid a" for a by (cases a) auto
  show ?thesis
  proof (cases "parseDUID (cd_DUID pd)")
    case (Inr duid)
    then show ?thesis using c
      by (cases "claimTable (ci_Name ic) pd tables") (auto simp: buildPD_def Some pd_given_def Let_def dest: s)
  qed (simp add: buildPD_def Some pd_given_def)
qed (simp add: buildPD_def free_tables_def claimed_def)

lemma buildPD_Inr:
  assumes "buildPD (ci_Name ic) (ci_PD ic) tables = Inr (pd, tables')"
  shows "pred_option pdconfig_ok pd \<and> map_option pc_Uplink pd = map_option cd_Uplink (ci_PD ic) \<and>
    map_option pc_RouteTable pd = map_option cd_RouteTable (ci_PD ic) \<and>
    dom (map_of tables') = dom (map_of tables) \<union> set (claimed ic)"
proof (cases "ci_PD ic")
  case (Some p)
  obtain duid where duid: "parseDUID (cd_DUID p) = Inr duid" and claim: "claimTable (ci_Name ic) p tables = Inr tables'"
    using assms by (auto simp: buildPD_def Some Let_def split: sum.splits if_splits)
  have "pred_option pdconfig_ok pd"
    using assms duid claim parseDUID_nonempty [OF duid]
    by (auto simp: buildPD_def Some pdconfig_ok_def claimTable_Inr Let_def split: if_splits)
  moreover have "dom (map_of tables') = dom (map_of tables) \<union> set (claimed ic)"
    using claim by (auto simp: claimTable_Inr claimed_def Some update_conv' split: if_splits)
  ultimately show ?thesis
    using assms duid claim by (auto simp: buildPD_def Some Let_def split: if_splits)
qed (use assms in \<open>simp add: buildPD_def claimed_def\<close>)

lemma buildIface_iff:
  "(\<exists>r. buildIface ic tables = Inr r) \<longleftrightarrow> iface_given ic \<and> free_tables tables ic"
proof -
  have addrs: "addrs_given ss \<Longrightarrow> \<exists>addrs. parseAddrs ss what = Inr addrs"
    "parseAddrs ss what = Inr addrs \<Longrightarrow> addrs_given ss" for ss what addrs
    using parseAddrs_iff by blast+
  have d4: "(\<exists>c. buildDHCP4 (ci_Name ic) o4 = Inr c) \<longleftrightarrow> pred_option (\<lambda>p. addrs_given (cp_DNS p)) o4" for o4
    by (cases o4) (auto simp: buildDHCP4_def split: sum.splits dest: addrs(1) [of _ "''dhcp4 dns''"] addrs(2))
  have d6: "(\<exists>c. buildDHCP6 (ci_Name ic) o6 = Inr c) \<longleftrightarrow> pred_option (\<lambda>p. addrs_given (cp_DNS p)) o6" for o6
    by (cases o6) (auto simp: buildDHCP6_def split: sum.splits dest: addrs(1) [of _ "''dhcp6 dns''"] addrs(2))
  have ra: "(\<exists>c. buildRA (ci_Name ic) ora = Inr c) \<longleftrightarrow> pred_option (\<lambda>ra. addrs_given (co_DNS ra)) ora" for ora
    by (cases ora) (auto simp: buildRA_def split: sum.splits dest: addrs(1) [of _ "''ra dns''"] addrs(2))
  show ?thesis
    unfolding iface_given_def buildPD_iff [symmetric] conj_assoc d4 [symmetric, of "ci_DHCP4 ic"]
      d6 [symmetric, of "ci_DHCP6 ic"] ra [symmetric]
      buildPrefix_iff [symmetric, of Is4 _ "ci_Name ic"]
      buildPrefix_iff [symmetric, of Is6 _ "ci_Name ic"]
    by (auto simp: buildIface_def split: sum.splits)
qed

lemma buildIface_Inr:
  assumes "buildIface ic tables = Inr (cfg, tables')"
  shows "config_ok cfg \<and> carries ic cfg \<and> dom (map_of tables') = dom (map_of tables) \<union> set (claimed ic)"
proof -
  from assms obtain p4 p6 d4 d6 ra pd where
    b: "buildPrefix Is4 (ci_Name ic) (ci_Prefix4 ic) = Inr p4" "buildPrefix Is6 (ci_Name ic) (ci_Prefix6 ic) = Inr p6"
      "buildDHCP4 (ci_Name ic) (ci_DHCP4 ic) = Inr d4" "buildDHCP6 (ci_Name ic) (ci_DHCP6 ic) = Inr d6"
      "buildRA (ci_Name ic) (ci_RA ic) = Inr ra" "buildPD (ci_Name ic) (ci_PD ic) tables = Inr (pd, tables')"
    and cfg: "cfg = \<lparr>ic_Name = ci_Name ic, ic_Tag = ci_Tag ic, ic_Prefix4 = p4, ic_Prefix6 = p6,
                ic_DHCP4 = d4, ic_DHCP6 = d6, ic_SLAAC = ci_SLAAC ic, ic_RA = ra, ic_PD = pd,
                ic_DNS = map_option buildDNS (ci_DNS ic)\<rparr>"
    by (auto simp: buildIface_def split: sum.splits)
  have "list_all IsValid (c4_DNS d4) \<and> (c4_Enabled d4 \<longleftrightarrow> ci_DHCP4 ic \<noteq> None)"
    using b(3) parseAddrs_Inr by (fastforce simp: buildDHCP4_def zeroDHCP4_def split: option.splits sum.splits)
  moreover have "list_all IsValid (c6_DNS d6) \<and> (c6_Enabled d6 \<longleftrightarrow> ci_DHCP6 ic \<noteq> None)"
    using b(4) parseAddrs_Inr by (fastforce simp: buildDHCP6_def zeroDHCP6_def split: option.splits sum.splits)
  moreover have "list_all IsValid (ra_DNS ra)"
    using b(5) parseAddrs_Inr by (fastforce simp: buildRA_def zeroRA_def split: option.splits sum.splits)
  moreover have "tableOf cfg = claimed ic"
    using buildPD_Inr [OF b(6)] by (cases pd; cases "ci_PD ic") (simp_all add: tableOf_def claimed_def cfg)
  moreover have "map_option nc_Port (ic_DNS cfg) = map_option cn_Port (ci_DNS ic)"
    by (simp add: cfg option.map_comp o_def buildDNS_def)
  ultimately show ?thesis
    using buildPrefix_Inr [OF b(1)] buildPrefix_Inr [OF b(2)] buildPD_Inr [OF b(6)]
    by (auto simp: config_ok_def carries_def cfg)
qed

lemma buildIfaces_iff:
  "(\<exists>cfgs. buildIfaces ics tables out = Inr cfgs) \<longleftrightarrow>
     (\<forall>ic \<in> set ics. iface_given ic \<and> free_tables tables ic) \<and> distinct (concat (map claimed ics))"
proof (induction ics arbitrary: tables out)
  case (Cons ic ics)
  show ?case
  proof (cases "buildIface ic tables")
    case (Inl err)
    then show ?thesis using buildIface_iff [of ic tables] by auto
  next
    case (Inr r)
    obtain cfg tables' where r: "r = (cfg, tables')" by fastforce
    have "free_tables tables' i \<longleftrightarrow> free_tables tables i \<and> set (claimed i) \<inter> set (claimed ic) = {}" for i
      using buildIface_Inr [of ic tables cfg tables'] Inr r by (auto simp: free_tables_def domIff)
    moreover have "iface_given ic \<and> free_tables tables ic" using buildIface_iff [of ic tables] Inr by blast
    moreover have "distinct (claimed ic)" by (auto simp: claimed_def split: option.splits)
    ultimately show ?thesis using Cons.IH [of tables' "out @ [cfg]"] Inr r by auto
  qed
qed simp

lemma buildIfaces_Inr:
  "buildIfaces ics tables out = Inr cfgs \<Longrightarrow> \<exists>new. cfgs = out @ new \<and> list_all2 carries ics new \<and> list_all config_ok new"
proof (induction ics arbitrary: tables out)
  case (Cons ic ics)
  then obtain cfg tables' where b: "buildIface ic tables = Inr (cfg, tables')" "buildIfaces ics tables' (out @ [cfg]) = Inr cfgs"
    by (auto split: sum.splits)
  from Cons.IH [OF b(2)] buildIface_Inr [OF b(1)] show ?case by auto
qed simp

lemma carries_tables: "list_all2 carries ics cfgs \<Longrightarrow> map tableOf cfgs = map claimed ics"
  by (induction rule: list_all2_induct) (auto simp: carries_def)


lemma hex_val_hexDigit: "n < 16 \<Longrightarrow> hex_val (hexDigit n) = Some n"
proof -
  have "list_all (\<lambda>n. hex_val (hexDigit n) = Some n) [0..<16]" by code_simp
  then show "n < 16 \<Longrightarrow> ?thesis" by (simp add: list_all_iff)
qed

lemma hexDigit_plain:
  assumes "n < 16"
  shows "hexDigit n \<noteq> CHR '':''" "hexDigit n \<noteq> CHR ''-''" "\<not> go_space (hexDigit n)"
proof -
  have "list_all (\<lambda>n. hexDigit n \<noteq> CHR '':'' \<and> hexDigit n \<noteq> CHR ''-'' \<and> \<not> go_space (hexDigit n)) [0..<16]" by code_simp
  with assms show "hexDigit n \<noteq> CHR '':''" "hexDigit n \<noteq> CHR ''-''" "\<not> go_space (hexDigit n)"
    by (simp_all add: list_all_iff)
qed

lemma unat_byte_div: "unat (b :: u8) div 16 < 16"
  using unsigned_less [of b, where ?'a = nat] by (simp add: less_mult_imp_div_less)

lemma hexPairs_hexByte: "hexPairs (concat (map hexByte bs)) = Some bs"
proof (induction bs)
  case (Cons b bs)
  have "hex_val (hexDigit (unat b div 16)) = Some (unat b div 16)" "hex_val (hexDigit (unat b mod 16)) = Some (unat b mod 16)"
    using hex_val_hexDigit unat_byte_div by simp_all
  moreover have "of_nat (16 * (unat b div 16) + unat b mod 16) = b" by (simp only: mult_div_mod_eq) simp
  ultimately show ?case using Cons by (simp add: hexByte_def del: of_nat_add of_nat_mult)
qed simp

lemma filter_colon_mac: "filter (\<lambda>c. c \<noteq> CHR '':'') (HardwareAddr_String bs) = concat (map hexByte bs)"
  by (induction bs rule: HardwareAddr_String.induct) (simp_all add: hexByte_def hexDigit_plain unat_byte_div)

lemma hexByte_plain: "c \<in> set (concat (map hexByte bs)) \<Longrightarrow> c \<noteq> CHR ''-'' \<and> \<not> go_space c"
  by (auto simp: hexByte_def hexDigit_plain unat_byte_div)

lemma mac_no_space: "c \<in> set (HardwareAddr_String bs) \<Longrightarrow> \<not> go_space c"
proof -
  assume c: "c \<in> set (HardwareAddr_String bs)"
  show ?thesis
  proof (cases "c = CHR '':''")
    case False
    with c have "c \<in> set (filter (\<lambda>c. c \<noteq> CHR '':'') (HardwareAddr_String bs))" by simp
    then show ?thesis using hexByte_plain unfolding filter_colon_mac by blast
  qed (simp add: go_space_def)
qed

section \<open>Properties\<close>

text \<open>C27: translating the configuration succeeds exactly when every entry is acceptable (prefixes of the
  right family, parsable resolvers and DUID, a priority only with a table, a table that is in
  range and not reserved) and no two interfaces claim the same routing table. The result then
  has one configuration per entry, in order, that carries the entry over, is fit for the servers
  and owns its table alone.\<close>

theorem BuildIfaceConfigs_outcome:
  "((\<exists>cfgs. BuildIfaceConfigs f = Inr cfgs) \<longleftrightarrow>
     list_all iface_given (cf_Interfaces f) \<and> distinct (concat (map claimed (cf_Interfaces f)))) \<and>
   (\<forall>cfgs. BuildIfaceConfigs f = Inr cfgs \<longrightarrow>
     list_all2 carries (cf_Interfaces f) cfgs \<and> list_all config_ok cfgs \<and> distinct (concat (map tableOf cfgs)))"
proof -
  have "(\<exists>cfgs. BuildIfaceConfigs f = Inr cfgs) \<longleftrightarrow>
     list_all iface_given (cf_Interfaces f) \<and> distinct (concat (map claimed (cf_Interfaces f)))"
    using buildIfaces_iff [of "cf_Interfaces f" "[]" "[]"]
    by (auto simp: BuildIfaceConfigs_def free_tables_def list_all_iff)
  moreover from this carries_tables buildIfaces_Inr [of "cf_Interfaces f" "[]" "[]"]
  have "list_all2 carries (cf_Interfaces f) cfgs \<and> list_all config_ok cfgs \<and> distinct (concat (map tableOf cfgs))"
    if "BuildIfaceConfigs f = Inr cfgs" for cfgs
    using that by (fastforce simp: BuildIfaceConfigs_def)
  ultimately show ?thesis by blast
qed

definition file_example :: config_File where
  "file_example =
     (let pd = \<lparr>cd_Uplink = ''wlan0'', cd_DUID = ''00:03:00:01:aa:bb'', cd_IAID = 0, cd_Suffix = [], cd_PrefixLen = 64,
            cd_RouteTable = 100, cd_RulePriority = 5000, cd_InitialTimeout = 0, cd_MaxTimeout = 0, cd_Attempts = 0\<rparr>;
          ic = \<lparr>ci_Name = ''br0'', ci_Tag = [], ci_Prefix4 = ''10.0.0.1/24'', ci_Prefix6 = [],
            ci_DHCP4 = Some \<lparr>cp_PoolOffsetStart = 100, cp_PoolOffsetEnd = 200, cp_LeaseTime = 0, cp_DNS = [''9.9.9.9'']\<rparr>,
            ci_DHCP6 = None, ci_SLAAC = True, ci_PD = Some pd, ci_DNS = None, ci_RA = None, ci_Statics4 = [], ci_Statics6 = []\<rparr>
      in \<lparr>cf_APISocket = ''/run/b.sock'', cf_APIKey = ''k'', cf_APIKeyFile = [], cf_StateFile = ''/state.json'',
          cf_Interfaces = [ic, ic\<lparr>ci_Name := ''br1'', ci_Prefix4 := [], ci_PD := Some (pd\<lparr>cd_RouteTable := 101\<rparr>)\<rparr>]\<rparr>)"

lemma file_example_given:
  "list_all iface_given (cf_Interfaces file_example)" "map claimed (cf_Interfaces file_example) = [[100], [101]]"
proof -
  have trim: "TrimSpace ''10.0.0.1/24'' = ''10.0.0.1/24''" "TrimSpace ''9.9.9.9'' = ''9.9.9.9''"
    by (simp_all add: TrimSpace_def go_space_def)
  have parse: "parseIPv4Fields ''10.0.0.1'' 0 0 [] True = Some [10, 0, 0, 1]"
    "parseIPv4Fields ''9.9.9.9'' 0 0 [] True = Some [9, 9, 9, 9]"
    by (simp_all add: digit_val_def)
  have "ParsePrefix ''10.0.0.1/24'' = Some (Prefix (Addr4 0x0A000001) 24)"
    by (simp add: ParsePrefix_def lastIndex_def ParseAddr_def parseIPv4text_def parse AddrFromSlice_def be_nat_def parseBits_def
        digit_val_def IsValid_def PrefixFrom_def)
  moreover have "IsValid (ParseAddr ''9.9.9.9'')"
    by (simp add: ParseAddr_def parseIPv4text_def parse AddrFromSlice_def IsValid_def del: parseIPv4Fields.simps)
  moreover have "parseDUID ''00:03:00:01:aa:bb'' = Inr [0, 3, 0, 1, 0xaa, 0xbb]" by code_simp
  ultimately show "list_all iface_given (cf_Interfaces file_example)"
    by (simp add: trim file_example_def iface_given_def prefix_given_def addrs_given_def pd_given_def table_usable_def
        reservedTable_def Let_def)
  show "map claimed (cf_Interfaces file_example) = [[100], [101]]" by (simp add: file_example_def claimed_def Let_def)
qed

theorem BuildIfaceConfigs_outcome_witness:
  "\<exists>cfgs. BuildIfaceConfigs file_example = Inr cfgs \<and> list_all config_ok cfgs \<and> map tableOf cfgs = [[100], [101]]"
proof -
  obtain cfgs where b: "BuildIfaceConfigs file_example = Inr cfgs"
    using BuildIfaceConfigs_outcome [of file_example] file_example_given by auto
  with BuildIfaceConfigs_outcome [of file_example]
  have "list_all2 carries (cf_Interfaces file_example) cfgs" "list_all config_ok cfgs" by blast+
  with b carries_tables file_example_given(2) show ?thesis by force
qed

text \<open>A DUID of at least two bytes written as colon-separated hex pairs is read back unchanged.\<close>

theorem parseDUID_roundtrip:
  assumes "2 \<le> length duid"
  shows "parseDUID (HardwareAddr_String duid) = Inr duid"
proof -
  let ?s = "concat (map hexByte duid)"
  have trim: "TrimSpace (HardwareAddr_String duid) = HardwareAddr_String duid"
    using mac_no_space by (intro TrimSpace_id) blast
  have "filter (\<lambda>c. c \<noteq> CHR ''-'') ?s = ?s" using hexByte_plain by (intro filter_True) blast
  moreover have "length ?s = 2 * length duid" by (induction duid) (simp_all add: hexByte_def)
  moreover have "dropWhile (\<lambda>c. go_space c \<and> c \<noteq> CHR 0x0A) ?s = ?s"
    using hexByte_plain [OF hd_in_set] by (auto simp: dropWhile_eq_self_iff)
  moreover have "take 1 ?s \<noteq> [CHR 0x0A]"
  proof
    assume "take 1 ?s = [CHR 0x0A]"
    then have "CHR 0x0A \<in> set ?s" by (metis in_set_takeD list.set_intros(1))
    from hexByte_plain [OF this] show False by (simp add: go_space_def)
  qed
  ultimately show ?thesis
    using assms by (auto simp: parseDUID_def Sscanf_x_def Let_def trim filter_colon_mac hexPairs_hexByte)
qed

theorem parseDUID_roundtrip_witness:
  "parseDUID (HardwareAddr_String [0, 3, 0, 1, 0xaa, 0xbb, 0xcc, 0xdd, 0xee, 0xff]) =
     Inr [0, 3, 0, 1, 0xaa, 0xbb, 0xcc, 0xdd, 0xee, 0xff]"
  using parseDUID_roundtrip [of "[0, 3, 0, 1, 0xaa, 0xbb, 0xcc, 0xdd, 0xee, 0xff]"] by simp

text \<open>Garbage after an even number of digits is ignored rather than refused.\<close>

lemma parseDUID_ignores_garbage: "parseDUID ''0003zz'' = Inr [0, 3]"
  by code_simp

end
