(* ===== verification/Serving.thy ===== *)
theory Serving
  imports Iface
begin

text \<open>
  An interface while it serves: the steps of its goroutines as one relation, and what holds in every
  state they reach together. The delegation client is at the centre: its callbacks drive the
  address the interface carries, the routed segment, and what DHCPv6 and the advertisements offer.
\<close>

section \<open>Steps\<close>

text \<open>One stretch of the delegation client's goroutine, from one place of its loops to the next
  (\<open>pd_loc\<close>): it waits, for as long as it takes, and then changes its state and makes its callbacks with
  no further wait. The step stands for what it does after its last wait; what other goroutines do
  while it waits are steps before it. In particular a client may be waiting for a reply in any
  state, also in the one in which its interface is stopped. The callbacks are delivered in
  order; the log of callbacks holds those of one stretch.\<close>

definition deliver ::
  "('k, 'o) netlink \<Rightarrow> (prefix \<times> bool) list \<Rightarrow> 'd Iface \<times> ('k, 'i) plant \<Rightarrow> 'd Iface \<times> ('k, 'i) plant" where
  "deliver nl calls x = fold (\<lambda>(p, ok). onPDChange nl p ok) calls x"

definition pdIteration ::
  "('k, 'o) netlink \<Rightarrow> 'd pd_lib \<Rightarrow> (nat \<Rightarrow> pd_world) \<Rightarrow> pd_loc \<times> 'd Iface \<times> ('k, 'i) plant \<Rightarrow>
     (pd_loc \<times> 'd Iface \<times> ('k, 'i) plant) option" where
  "pdIteration nl lib w = (\<lambda>(loc, it, pl).
     case if_pdc it of
       None \<Rightarrow> None
     | Some c \<Rightarrow>
         (case pdNext lib w (loc, c\<lparr>cl_calls := []\<rparr>) of
            None \<Rightarrow> None
          | Some (loc, c') \<Rightarrow> Some (loc, deliver nl (cl_calls c') (it\<lparr>if_pdc := Some c'\<rparr>, pl))))"

inductive iface_step ::
  "('k, 'o) netlink \<Rightarrow> 'i iptables \<Rightarrow> 'r dhcp4_lib \<Rightarrow> 's dhcp6_lib \<Rightarrow> 'd pd_lib \<Rightarrow>
     pd_loc \<times> 'd Iface \<times> ('k, 'i) plant \<Rightarrow> pd_loc \<times> 'd Iface \<times> ('k, 'i) plant \<Rightarrow> bool"
  for nl ipt lib4 lib6 libpd where
  frame: "orders_ok ord \<Longrightarrow> ra_orders_ok rord \<Longrightarrow> readFrame ord rord lib4 lib6 now recv it = (it', out) \<Longrightarrow>
    iface_step nl ipt lib4 lib6 libpd (loc, it, pl) (loc, it', relay it it' pl)"
| sweep4: "it' = it\<lparr>if_d4 := sweep4 now (if_d4 it)\<rparr> \<Longrightarrow>
    iface_step nl ipt lib4 lib6 libpd (loc, it, pl) (loc, it', relay it it' pl)"
| sweep6: "it' = it\<lparr>if_d6 := sweep6 now (if_d6 it)\<rparr> \<Longrightarrow>
    iface_step nl ipt lib4 lib6 libpd (loc, it, pl) (loc, it', relay it it' pl)"
| advertise: "raStep (ifaceEnv it) (ph, if_ra it) out (ph', ra) \<Longrightarrow>
    iface_step nl ipt lib4 lib6 libpd (loc, it, pl) (loc, it\<lparr>if_ra := ra\<rparr>, pl)"
| statics4: "PutStatic4 (if_d4 it) b = Inr d4 \<or> ReplaceStatics4 (if_d4 it) bs = Inr d4 \<or>
      DeleteStatic4 (if_d4 it) i = Inr d4 \<Longrightarrow>
    iface_step nl ipt lib4 lib6 libpd (loc, it, pl) (loc, it\<lparr>if_d4 := d4\<rparr>, markPlant pl)"
| statics6: "PutStatic6 (if_d6 it) b = Inr d6 \<or> ReplaceStatics6 (if_d6 it) bs = Inr d6 \<or>
      DeleteStatic6 (if_d6 it) i = Inr d6 \<Longrightarrow>
    iface_step nl ipt lib4 lib6 libpd (loc, it, pl) (loc, it\<lparr>if_d6 := d6\<rparr>, markPlant pl)"
| release4: "ReleaseLease4 (if_d4 it) ip = Inr d4 \<Longrightarrow> it' = it\<lparr>if_d4 := d4\<rparr> \<Longrightarrow>
    iface_step nl ipt lib4 lib6 libpd (loc, it, pl) (loc, it', relay it it' pl)"
| release6: "ReleaseLease6 (if_d6 it) ip = Inr d6 \<Longrightarrow> it' = it\<lparr>if_d6 := d6\<rparr> \<Longrightarrow>
    iface_step nl ipt lib4 lib6 libpd (loc, it, pl) (loc, it', relay it it' pl)"
| attach: "attach link os it pl = (b, it', pl', calls) \<Longrightarrow>
    iface_step nl ipt lib4 lib6 libpd (loc, it, pl) (loc, it', pl')"
| detach: "detach conn it = (it', calls) \<Longrightarrow>
    iface_step nl ipt lib4 lib6 libpd (loc, it, pl) (loc, it', pl)"
| watch: "watchRound link it = (it', woken) \<Longrightarrow>
    iface_step nl ipt lib4 lib6 libpd (loc, it, pl) (loc, it', pl)"
| start: "startIface nl (it, pl) = (it', pl') \<Longrightarrow>
    iface_step nl ipt lib4 lib6 libpd (loc, it, pl) (loc, it', pl')"
| mirror: "if_pdr it = Some r \<Longrightarrow>
    iface_step nl ipt lib4 lib6 libpd (loc, it, pl) (loc, it, on_host (mirrorRound nl r) pl)"
| delegation: "pdIteration nl libpd w (loc, it, pl) = Some (loc', it', pl') \<Longrightarrow>
    iface_step nl ipt lib4 lib6 libpd (loc, it, pl) (loc', it', pl')"
| dns: "startDNS port (it, pl) = (b, redirect, it', pl') \<Longrightarrow>
    iface_step nl ipt lib4 lib6 libpd (loc, it, pl) (loc, it', pl')"
| dnat: "applyDNAT ipt (it, pl) = Some (it', pl') \<Longrightarrow>
    iface_step nl ipt lib4 lib6 libpd (loc, it, pl) (loc, it', pl')"

section \<open>What the netlink package promises about addresses\<close>

text \<open>What no operation on rules and routes changes, no operation of a routed segment changes.\<close>

definition untouched :: "('k, 'o) netlink \<Rightarrow> ('k \<Rightarrow> 'a) \<Rightarrow> bool" where
  "untouched nl Q \<longleftrightarrow>
     (\<forall>k ru. Q (nl_RuleAdd nl k ru) = Q k \<and> Q (nl_RuleDel nl k ru) = Q k) \<and>
     (\<forall>k rt. Q (nl_RouteReplace nl k rt) = Q k \<and> Q (nl_RouteDel nl k rt) = Q k)"

lemma untouched_basic:
  assumes "untouched nl Q"
  shows "Q (nl_RuleAdd nl k ru) = Q k" "Q (nl_RuleDel nl k ru) = Q k"
    "Q (nl_RouteReplace nl k rt) = Q k" "Q (nl_RouteDel nl k rt) = Q k"
  using assms by (simp_all add: untouched_def)

lemma untouched_table:
  assumes "untouched nl Q"
  shows "Q (wipeRulesLocked nl cfg keep k) = Q k" "Q (flushTableExceptLocked nl cfg keep k) = Q k"
    "Q (removeDefaultLocked nl cfg k) = Q k" "Q (addRule nl cfg dir p k) = Q k"
  unfolding wipeRulesLocked_def flushTableExceptLocked_def removeDefaultLocked_def addRule_def Let_def
  by (auto intro!: fold_keeps simp: untouched_basic [OF assms] split: option.split)

lemma untouched_sync: "untouched nl Q \<Longrightarrow> Q (syncDefaultLocked nl r k) = Q k"
  by (simp add: syncDefaultLocked_def Let_def untouched_basic untouched_table split: option.splits)

lemma untouched_ensureStarted:
  "untouched nl Q \<Longrightarrow> ensureStartedLocked nl (r, h) = (r', h') \<Longrightarrow> Q (ho_kernel h') = Q (ho_kernel h)"
  by (auto simp: ensureStartedLocked_def flushTableLocked_def Let_def untouched_table split: if_splits)

lemma untouched_install: "untouched nl Q \<Longrightarrow> Q (installKernel nl r p k) = Q k"
  by (simp add: installKernel_def Let_def untouched_basic untouched_table untouched_sync split: option.splits)

text \<open>\<^verbatim>\<open>AddrAdd\<close> adds the address, \<^verbatim>\<open>AddrDel\<close> removes it. Both change no rule, no link and no address
  of another link, and the routes the kernel derives from an address are in its main and local
  tables. Rules and routes do not change addresses or links. Like \<open>netlink_ok\<close>, this describes a
  kernel that carries out the requests: the errors the program only logs are left out.\<close>

definition netlink_addrs :: "('k, 'o) netlink \<Rightarrow> bool" where
  "netlink_addrs nl \<longleftrightarrow>
     (\<forall>k i n. set (nl_AddrList nl (nl_AddrAdd nl k i n) i) = insert n (set (nl_AddrList nl k i)) \<and>
        set (nl_AddrList nl (nl_AddrDel nl k i n) i) = set (nl_AddrList nl k i) - {n}) \<and>
     (\<forall>k i j n. j \<noteq> i \<longrightarrow> nl_AddrList nl (nl_AddrAdd nl k i n) j = nl_AddrList nl k j \<and>
        nl_AddrList nl (nl_AddrDel nl k i n) j = nl_AddrList nl k j) \<and>
     (\<forall>k i n. rulesOf nl (nl_AddrAdd nl k i n) = rulesOf nl k \<and> rulesOf nl (nl_AddrDel nl k i n) = rulesOf nl k \<and>
        nl_LinkByName nl (nl_AddrAdd nl k i n) = nl_LinkByName nl k \<and>
        nl_LinkByName nl (nl_AddrDel nl k i n) = nl_LinkByName nl k) \<and>
     (\<forall>k i n rt. ro_Table rt \<noteq> 254 \<longrightarrow> ro_Table rt \<noteq> 255 \<longrightarrow>
        (rt \<in> routesOf nl (nl_AddrAdd nl k i n) \<longleftrightarrow> rt \<in> routesOf nl k) \<and>
        (rt \<in> routesOf nl (nl_AddrDel nl k i n) \<longleftrightarrow> rt \<in> routesOf nl k)) \<and>
     untouched nl (nl_AddrList nl) \<and> untouched nl (nl_LinkByName nl)"

lemma netlink_addr:
  assumes "netlink_addrs nl"
  shows "set (nl_AddrList nl (nl_AddrAdd nl k i n) i) = insert n (set (nl_AddrList nl k i))"
    and "set (nl_AddrList nl (nl_AddrDel nl k i n) i) = set (nl_AddrList nl k i) - {n}"
    and "rulesOf nl (nl_AddrAdd nl k i n) = rulesOf nl k" "rulesOf nl (nl_AddrDel nl k i n) = rulesOf nl k"
    and "nl_LinkByName nl (nl_AddrAdd nl k i n) = nl_LinkByName nl k"
    and "nl_LinkByName nl (nl_AddrDel nl k i n) = nl_LinkByName nl k"
    and "ro_Table rt \<notin> {254, 255} \<Longrightarrow> rt \<in> routesOf nl (nl_AddrAdd nl k i n) \<longleftrightarrow> rt \<in> routesOf nl k"
    and "ro_Table rt \<notin> {254, 255} \<Longrightarrow> rt \<in> routesOf nl (nl_AddrDel nl k i n) \<longleftrightarrow> rt \<in> routesOf nl k"
    and "untouched nl (nl_AddrList nl)" "untouched nl (nl_LinkByName nl)"
    and "j \<noteq> i \<Longrightarrow> nl_AddrList nl (nl_AddrAdd nl k i n) j = nl_AddrList nl k j"
    and "j \<noteq> i \<Longrightarrow> nl_AddrList nl (nl_AddrDel nl k i n) j = nl_AddrList nl k j"
  using assms unfolding netlink_addrs_def by blast+

section \<open>The delegated prefix on the interface\<close>

text \<open>The address carried for a delegation, and its traces on the system: \<open>plumbed\<close> says that, but for the
  addresses \<open>A\<close> the interface had before, everything on interface \<open>i\<close> that derives from a delegation derives
  from \<open>v\<close>.\<close>

definition served :: "PDConfig \<Rightarrow> prefix option \<Rightarrow> prefix" where
  "served pd v = (case v of None \<Rightarrow> ZeroPrefix | Some p \<Rightarrow> composePD pd p)"

definition carried :: "PDConfig \<Rightarrow> prefix option \<Rightarrow> ipnet set" where
  "carried pd v = (case v of None \<Rightarrow> {} | Some p \<Rightarrow> {addrNet (composePD pd p)})"

definition routed :: "PDConfig \<Rightarrow> prefix option \<Rightarrow> prefix" where
  "routed pd v = (case v of None \<Rightarrow> ZeroPrefix | Some p \<Rightarrow> Masked (composePD pd p))"

definition steers :: "PDConfig \<Rightarrow> string \<Rightarrow> prefix \<Rightarrow> 'o rule \<Rightarrow> bool" where
  "steers pd dir p ru \<longleftrightarrow> ru_Table ru = pc_RouteTable pd \<and> ru_Priority ru = pc_RulePriority pd \<and>
     (ru_Src ru, ru_Dst ru) =
       (if dir = ''from'' then (Some (prefixToIPNet p), None) else (None, Some (prefixToIPNet p)))"

text \<open>The routes of the table: the one to the served prefix, on the link of the bridge, and copies of default
  routes through a gateway.\<close>

definition subnet_route :: "PDConfig \<Rightarrow> prefix option \<Rightarrow> 'o route \<Rightarrow> bool" where
  "subnet_route pd v rt \<longleftrightarrow> ro_Table rt = pc_RouteTable pd \<and> ro_Gw rt = None \<and>
     ipNetEqual (ro_Dst rt) (Some (prefixToIPNet (routed pd v)))"

definition mirrored_default :: "'o route \<Rightarrow> bool" where
  "mirrored_default rt \<longleftrightarrow> isDefault (ro_Dst rt) \<and> ro_Gw rt \<noteq> None \<and> ro_Protocol rt = routeProto \<and> ro_Priority rt = 1024"

text \<open>While \<open>v\<close> is delegated, the rules that lead into the table are those for its prefix, one for each
  direction among them, and the routes of the table are the one to its prefix, which is there, and
  mirrored default routes; without a delegation there is no rule and no route.\<close>

definition table_follows ::
  "('k, 'o) netlink \<Rightarrow> PDConfig \<Rightarrow> int \<Rightarrow> prefix option \<Rightarrow> 'k \<Rightarrow> bool" where
  "table_follows nl pd i v k \<longleftrightarrow>
     (\<forall>ru \<in> rulesOf nl k. ru_Table ru = pc_RouteTable pd \<longrightarrow>
        v \<noteq> None \<and> (ipNetEqual (ru_Src ru) (Some (prefixToIPNet (routed pd v))) \<or>
                    ipNetEqual (ru_Dst ru) (Some (prefixToIPNet (routed pd v))))) \<and>
     (\<forall>rt \<in> routesOf nl k. ro_Table rt = pc_RouteTable pd \<longrightarrow>
        v \<noteq> None \<and> (subnet_route pd v rt \<or> mirrored_default rt)) \<and>
     (v \<noteq> None \<longrightarrow> (\<exists>ru \<in> rulesOf nl k. steers pd ''from'' (routed pd v) ru) \<and>
        (\<exists>ru \<in> rulesOf nl k. steers pd ''to'' (routed pd v) ru) \<and>
        (\<exists>rt \<in> routesOf nl k. subnet_route pd v rt \<and> ro_LinkIndex rt = i))"

definition segment_follows ::
  "('k, 'o) netlink \<Rightarrow> IfaceConfig \<Rightarrow> PDConfig \<Rightarrow> int \<Rightarrow> prefix option \<Rightarrow> Routes \<Rightarrow> 'k \<Rightarrow> bool" where
  "segment_follows nl cfg pd i v r k \<longleftrightarrow>
     pr_Iface (rr_cfg r) = ic_Name cfg \<and> pr_Table (rr_cfg r) = pc_RouteTable pd \<and> pc_RouteTable pd \<noteq> 0 \<and>
     pr_RulePriority (rr_cfg r) = pc_RulePriority pd \<and>
     \<not> rr_stopped r \<and> rr_prefix r = routed pd v \<and> (v \<noteq> None \<longrightarrow> rr_started r) \<and>
     (rr_started r \<longrightarrow> table_follows nl pd i v k)"

definition plumbed ::
  "('k, 'o) netlink \<Rightarrow> ipnet set \<Rightarrow> int \<Rightarrow> IfaceConfig \<Rightarrow> PDConfig \<Rightarrow> prefix option \<Rightarrow>
     'd Iface \<times> ('k, 'i) plant \<Rightarrow> bool" where
  "plumbed nl A i cfg pd v = (\<lambda>(it, pl).
     let k = ho_kernel (pl_host pl)
     in if_cfg it = cfg \<and> ic_PD cfg = Some pd \<and> if_pdAddr it = served pd v \<and>
        nl_LinkByName nl k (ic_Name cfg) = Some i \<and>
        carried pd v \<subseteq> set (nl_AddrList nl k i) \<and> set (nl_AddrList nl k i) \<subseteq> A \<union> carried pd v \<and>
        (\<forall>r. if_pdr it = Some r \<longrightarrow> segment_follows nl cfg pd i v r k))"

definition pd_ok :: "PDConfig \<Rightarrow> bool" where
  "pd_ok pd \<longleftrightarrow> 0 < pc_PrefixLen pd \<and> pc_PrefixLen pd \<le> 128 \<and> pc_RouteTable pd \<notin> {254, 255}"

lemma Is6_AddrFrom16 [simp]: "Is6 (AddrFrom16 b)"
  by (simp add: AddrFrom16_def)

lemma composePD_shape: "\<exists>w. pfx_addr (composePD pd p) = Addr6 w []"
  by (simp add: composePD_def Let_def PrefixFrom_def AddrFrom16_def)

lemma proper6_routed: "pd_ok pd \<Longrightarrow> proper6 (Masked (composePD pd p))"
  using composePD_shape [of pd p] composePD_valid(3) [of pd p] composePD_valid(1) [of pd p]
  by (cases "composePD pd p") (auto simp: pd_ok_def proper6_def Masked_def PrefixFrom_def)

lemma addr_effect:
  assumes nl: "netlink_addrs nl" and "nl_LinkByName nl k name = Some i"
  shows "set (nl_AddrList nl (addAddr nl name p k) i) = insert (addrNet p) (set (nl_AddrList nl k i))"
    and "set (nl_AddrList nl (removeAddr nl name p k) i) = set (nl_AddrList nl k i) - {addrNet p}"
    and "nl_LinkByName nl (addAddr nl name p k) = nl_LinkByName nl k"
    and "nl_LinkByName nl (removeAddr nl name p k) = nl_LinkByName nl k"
  using assms(2) netlink_addr(1,2,5,6) [OF nl, of k i "addrNet p"] unfolding addAddr_def removeAddr_def by simp_all

lemma table_follows_cong:
  assumes ru: "\<And>ru. ru_Table ru = pc_RouteTable pd \<Longrightarrow> ru \<in> rulesOf nl k' \<longleftrightarrow> ru \<in> rulesOf nl k"
    and rt: "\<And>rt. ro_Table rt = pc_RouteTable pd \<Longrightarrow> rt \<in> routesOf nl k' \<longleftrightarrow> rt \<in> routesOf nl k"
    and t: "table_follows nl pd i v k"
  shows "table_follows nl pd i v k'"
proof -
  have "(\<exists>ru \<in> rulesOf nl k'. steers pd dir p ru) \<longleftrightarrow> (\<exists>ru \<in> rulesOf nl k. steers pd dir p ru)" for dir p
    using ru by (auto simp: steers_def)
  moreover have "(\<exists>rt \<in> routesOf nl k'. subnet_route pd v rt \<and> ro_LinkIndex rt = i) \<longleftrightarrow>
      (\<exists>rt \<in> routesOf nl k. subnet_route pd v rt \<and> ro_LinkIndex rt = i)"
    using rt by (auto simp: subnet_route_def)
  ultimately show ?thesis using t ru rt unfolding table_follows_def by auto
qed

lemma table_follows_addr:
  assumes "netlink_addrs nl" "pc_RouteTable pd \<notin> {254, 255}" "table_follows nl pd i v k"
  shows "table_follows nl pd i v (addAddr nl name p k)" "table_follows nl pd i v (removeAddr nl name p k)"
proof -
  have "table_follows nl pd i v k'"
    if "rulesOf nl k' = rulesOf nl k" "\<And>rt. ro_Table rt \<notin> {254, 255} \<Longrightarrow> rt \<in> routesOf nl k' \<longleftrightarrow> rt \<in> routesOf nl k" for k'
    by (rule table_follows_cong [OF _ _ assms(3)]) (use that assms(2) in auto)
  note this [OF netlink_addr(3,7) [OF assms(1)]] this [OF netlink_addr(4,8) [OF assms(1)]]
  then show "table_follows nl pd i v (addAddr nl name p k)" "table_follows nl pd i v (removeAddr nl name p k)"
    using assms(3) unfolding addAddr_def removeAddr_def by (simp_all split: option.split)
qed

text \<open>The kernel operations an address change or a segment operation leaves alone.\<close>

definition same_links :: "('k, 'o) netlink \<Rightarrow> 'k \<Rightarrow> 'k \<Rightarrow> bool" where
  "same_links nl k k' \<longleftrightarrow> nl_AddrList nl k' = nl_AddrList nl k \<and> nl_LinkByName nl k' = nl_LinkByName nl k"

lemma segment_lost:
  assumes nl: "netlink_ok nl" "netlink_addrs nl"
    and r: "segment_follows nl cfg pd i v r (ho_kernel h)" and c: "Clear nl (r, h) = (r', h')"
  shows "segment_follows nl cfg pd i None r' (ho_kernel h') \<and> same_links nl (ho_kernel h) (ho_kernel h')"
proof (cases "rr_started r")
  case False
  then have "v = None" using r by (simp add: segment_follows_def)
  with False r c show ?thesis
    by (auto simp: Clear_def clearLocked_def segment_follows_def routed_def same_links_def)
next
  case True
  note u = netlink_addr(9,10) [OF nl(2)]
  have "h' = on_kernel (flushTableLocked nl (rr_cfg r)) (on_kernel (wipeRulesLocked nl (rr_cfg r) ZeroPrefix) h)"
    "r' = r\<lparr>rr_prefix := ZeroPrefix\<rparr>"
    using c True by (auto simp: Clear_def clearLocked_def Let_def)
  moreover from this have "table_follows nl pd i None (ho_kernel h')"
    using r wipe_all_effect [OF nl(1), of "rr_cfg r" "ho_kernel h"]
    by (simp add: segment_follows_def table_follows_def)
  ultimately show ?thesis
    using r by (simp add: segment_follows_def routed_def flushTableLocked_def same_links_def
        untouched_table [OF u(1)] untouched_table [OF u(2)])
qed

lemma segment_gained:
  assumes nl: "netlink_ok nl" "netlink_addrs nl" and pd: "pd_ok pd"
    and r: "segment_follows nl cfg pd i v r (ho_kernel h)"
    and link: "nl_LinkByName nl (ho_kernel h) (ic_Name cfg) = Some i"
    and c: "Install nl (Masked (composePD pd p)) (r, h) = (r', h')"
  shows "segment_follows nl cfg pd i (Some p) r' (ho_kernel h') \<and> same_links nl (ho_kernel h) (ho_kernel h')"
proof -
  note u = netlink_addr(9,10) [OF nl(2)]
  obtain r1 h1 where e: "ensureStartedLocked nl (r, h) = (r1, h1)" by fastforce
  define r2 where "r2 = r1\<lparr>rr_prefix := Masked (composePD pd p)\<rparr>"
  have stopped: "\<not> rr_stopped r" using r by (simp add: segment_follows_def)
  then have r': "r' = r2" "h' = on_kernel (installKernel nl r2 (Masked (composePD pd p))) h1"
    using c e by (auto simp: Install_def r2_def Let_def)
  have r1: "rr_cfg r1 = rr_cfg r" "rr_started r1" "\<not> rr_stopped r1"
    using e stopped by (auto simp: ensureStartedLocked_def Let_def split: if_splits)
  have cfg: "pr_Iface (rr_cfg r2) = ic_Name cfg" "pr_Table (rr_cfg r2) = pc_RouteTable pd" "pc_RouteTable pd \<noteq> 0"
    "pr_RulePriority (rr_cfg r2) = pc_RulePriority pd"
    using r by (simp_all add: r2_def r1 segment_follows_def)
  have k1: "nl_LinkByName nl (ho_kernel h1) (pr_Iface (rr_cfg r2)) = Some i"
    using untouched_ensureStarted [OF u(2) e] link cfg(1) by simp
  note inst = installKernel_effect [OF nl(1) _ proper6_routed [OF pd, of p] k1, unfolded cfg(2), OF cfg(3)]
  have "table_follows nl pd i (Some p) (ho_kernel h')"
    unfolding table_follows_def
  proof (intro conjI ballI impI)
    fix rt assume "rt \<in> routesOf nl (ho_kernel h')" and T: "ro_Table rt = pc_RouteTable pd"
    then have "rt \<in> routesOf nl (installKernel nl r2 (Masked (composePD pd p)) (ho_kernel h1))" by (simp add: r')
    from inst(6) [OF this T] T show "subnet_route pd (Some p) rt \<or> mirrored_default rt"
      by (auto simp: subnet_route_def mirrored_default_def mirrors_def routed_def dest: mirrorable_Gw)
  qed (use inst(1-3,5) cfg(2,4) in \<open>simp_all add: routed_def r' selects_def steers_def subnet_route_def\<close>)
  then show ?thesis
    using cfg r1 untouched_ensureStarted [OF u(1) e] untouched_ensureStarted [OF u(2) e]
      untouched_install [OF u(1)] untouched_install [OF u(2)]
    by (simp add: segment_follows_def r' r2_def routed_def same_links_def)
qed

lemma on_routes_follows:
  assumes "on_routes f (it, pl) = (it', pl')"
    and "\<And>r. if_pdr it = Some r \<Longrightarrow> segment_follows nl cfg pd i v r (ho_kernel (pl_host pl))"
    and "\<And>r h r' h'. f (r, h) = (r', h') \<Longrightarrow> ho_kernel h = ho_kernel (pl_host pl) \<Longrightarrow>
           segment_follows nl cfg pd i v r (ho_kernel h) \<Longrightarrow>
           segment_follows nl cfg pd i v' r' (ho_kernel h') \<and> same_links nl (ho_kernel h) (ho_kernel h')"
  shows "(\<forall>r. if_pdr it' = Some r \<longrightarrow> segment_follows nl cfg pd i v' r (ho_kernel (pl_host pl'))) \<and>
    same_links nl (ho_kernel (pl_host pl)) (ho_kernel (pl_host pl')) \<and>
    if_cfg it' = if_cfg it \<and> if_pdAddr it' = if_pdAddr it \<and> if_pdc it' = if_pdc it"
proof (cases "if_pdr it")
  case None
  then show ?thesis using assms(1) by (auto simp: on_routes_def same_links_def)
next
  case (Some r)
  obtain r' h' where f: "f (r, pl_host pl) = (r', h')" by fastforce
  then have "it' = it\<lparr>if_pdr := Some r'\<rparr>" "pl' = pl\<lparr>pl_host := h'\<rparr>"
    using assms(1) Some by (auto simp: on_routes_def)
  then show ?thesis using assms(3) [OF f] assms(2) [OF Some] by simp
qed

lemma plant_simps [simp]:
  "pl_host (Emit ev pl) = pl_host pl" "pl_host (markPlant pl) = pl_host pl"
  "pl_host (on_host f pl) = f (pl_host pl)" "pl_host (relay old it pl) = pl_host pl"
  by (simp_all add: Emit_def markPlant_def on_host_def relay_def)

lemma plumbed_lost:
  assumes nl: "netlink_ok nl" "netlink_addrs nl" and pd: "pd_ok pd"
    and x: "plumbed nl A i cfg pd (Some p) (it, pl)"
    and c: "onPDChange nl q False (it, pl) = (it', pl')"
  shows "plumbed nl A i cfg pd None (it', pl') \<and> if_pdc it' = if_pdc it"
proof -
  let ?k = "\<lambda>pl. ho_kernel (pl_host pl)" and ?addr = "composePD pd p"
  have valid: "PfxIsValid ?addr" using pd composePD_valid(1) [of pd p] by (simp add: pd_ok_def)
  from x have it: "if_cfg it = cfg" "ic_PD cfg = Some pd" "if_pdAddr it = ?addr"
    "nl_LinkByName nl (?k pl) (ic_Name cfg) = Some i"
    "set (nl_AddrList nl (?k pl) i) \<subseteq> A \<union> {addrNet ?addr}"
    "\<And>r. if_pdr it = Some r \<Longrightarrow> segment_follows nl cfg pd i (Some p) r (?k pl)"
    by (simp_all add: plumbed_def served_def carried_def Let_def)
  obtain it1 pl1 where r: "on_routes (Clear nl) (it\<lparr>if_pdAddr := ZeroPrefix\<rparr>, pl) = (it1, pl1)" by fastforce
  have c': "if_cfg it' = if_cfg it1" "if_pdAddr it' = if_pdAddr it1" "if_pdr it' = if_pdr it1" "if_pdc it' = if_pdc it1"
    "?k pl' = removeAddr nl (ic_Name cfg) ?addr (?k pl1)"
    using c it(1-3) r valid by (auto simp: onPDChange_def Let_def)
  have "(\<forall>r. if_pdr it1 = Some r \<longrightarrow> segment_follows nl cfg pd i None r (?k pl1)) \<and>
    same_links nl (?k pl) (?k pl1) \<and> if_cfg it1 = if_cfg (it\<lparr>if_pdAddr := ZeroPrefix\<rparr>) \<and>
    if_pdAddr it1 = if_pdAddr (it\<lparr>if_pdAddr := ZeroPrefix\<rparr>) \<and> if_pdc it1 = if_pdc (it\<lparr>if_pdAddr := ZeroPrefix\<rparr>)"
    by (rule on_routes_follows [OF r _ segment_lost [OF nl], where v = "Some p"]) (simp_all add: it(6))
  then have k1: "\<And>r. if_pdr it1 = Some r \<Longrightarrow> segment_follows nl cfg pd i None r (?k pl1)"
    and s: "same_links nl (?k pl) (?k pl1)" "if_cfg it1 = cfg" "if_pdAddr it1 = ZeroPrefix" "if_pdc it1 = if_pdc it"
    using it(1) by simp_all
  have "segment_follows nl cfg pd i None r (?k pl')" if "if_pdr it' = Some r" for r
    using k1 [of r] that c'(3,5) table_follows_addr(2) [OF nl(2)] pd by (auto simp: segment_follows_def pd_ok_def)
  then show ?thesis
    using s it(2,4,5) c' addr_effect [OF nl(2), of "?k pl1" "ic_Name cfg" i ?addr]
    by (auto simp: plumbed_def served_def carried_def same_links_def)
qed

lemma plumbed_gained:
  assumes nl: "netlink_ok nl" "netlink_addrs nl" and pd: "pd_ok pd"
    and x: "plumbed nl A i cfg pd None (it, pl)"
    and c: "onPDChange nl p True (it, pl) = (it', pl')"
  shows "plumbed nl A i cfg pd (Some p) (it', pl') \<and> if_pdc it' = if_pdc it"
proof -
  let ?k = "\<lambda>pl. ho_kernel (pl_host pl)" and ?addr = "composePD pd p"
  from x have it: "if_cfg it = cfg" "ic_PD cfg = Some pd"
    "nl_LinkByName nl (?k pl) (ic_Name cfg) = Some i" "set (nl_AddrList nl (?k pl) i) \<subseteq> A"
    "\<And>r. if_pdr it = Some r \<Longrightarrow> segment_follows nl cfg pd i None r (?k pl)"
    by (simp_all add: plumbed_def served_def carried_def Let_def)
  define pl0 where "pl0 = on_host (on_kernel (addAddr nl (ic_Name cfg) ?addr)) pl"
  have k0: "?k pl0 = addAddr nl (ic_Name cfg) ?addr (?k pl)" by (simp add: pl0_def)
  have link0: "nl_LinkByName nl (?k pl0) (ic_Name cfg) = Some i"
    using addr_effect(3) [OF nl(2) it(3)] it(3) by (simp add: k0)
  have seg0: "segment_follows nl cfg pd i None r (?k pl0)" if "if_pdr it = Some r" for r
    using it(5) [OF that] table_follows_addr(1) [OF nl(2)] pd by (auto simp: segment_follows_def pd_ok_def k0)
  obtain it1 pl1 where r: "on_routes (Install nl (Masked ?addr)) (it\<lparr>if_pdAddr := ?addr\<rparr>, pl0) = (it1, pl1)" by fastforce
  have c': "if_cfg it' = if_cfg it1" "if_pdAddr it' = if_pdAddr it1" "if_pdr it' = if_pdr it1" "if_pdc it' = if_pdc it1"
    "?k pl' = ?k pl1"
    using c it(1,2) r by (auto simp: onPDChange_def Let_def pl0_def)
  have "(\<forall>r. if_pdr it1 = Some r \<longrightarrow> segment_follows nl cfg pd i (Some p) r (?k pl1)) \<and>
    same_links nl (?k pl0) (?k pl1) \<and> if_cfg it1 = if_cfg (it\<lparr>if_pdAddr := ?addr\<rparr>) \<and>
    if_pdAddr it1 = if_pdAddr (it\<lparr>if_pdAddr := ?addr\<rparr>) \<and> if_pdc it1 = if_pdc (it\<lparr>if_pdAddr := ?addr\<rparr>)"
    by (rule on_routes_follows [OF r _ segment_gained [OF nl pd], where v = None]) (simp_all add: seg0 link0)
  then show ?thesis
    using it(1,2,4) c' link0 addr_effect(1) [OF nl(2) it(3), of ?addr]
    by (auto simp: plumbed_def served_def carried_def same_links_def k0)
qed

lemma plumbed_deliver:
  assumes nl: "netlink_ok nl" "netlink_addrs nl" and pd: "pd_ok pd"
  shows "pdView v calls = Some v' \<Longrightarrow> plumbed nl A i cfg pd v (it, pl) \<Longrightarrow>
    deliver nl calls (it, pl) = (it', pl') \<Longrightarrow>
    plumbed nl A i cfg pd v' (it', pl') \<and> if_pdc it' = if_pdc it"
proof (induction v calls arbitrary: it pl rule: pdView.induct)
  case (1 v)
  then show ?case by (simp add: deliver_def)
next
  case (2 v p h)
  obtain it1 pl1 where c: "onPDChange nl p True (it, pl) = (it1, pl1)" by fastforce
  have "v = None" "pdView (Some p) h = Some v'" using "2.prems"(1) by (simp_all split: if_splits)
  then show ?case
    using "2.IH" [of it1 pl1] plumbed_gained [OF nl pd _ c] "2.prems"(2,3) c by (simp add: deliver_def)
next
  case (3 v p h)
  obtain it1 pl1 where c: "onPDChange nl p False (it, pl) = (it1, pl1)" by fastforce
  have "v = Some p" "pdView None h = Some v'" using "3.prems"(1) by (simp_all split: if_splits)
  then show ?case
    using "3.IH" [of it1 pl1] plumbed_lost [OF nl pd _ c] "3.prems"(2,3) c by (simp add: deliver_def)
qed

lemma segment_started:
  assumes nl: "netlink_ok nl" "netlink_addrs nl"
    and e: "Start nl (r, h) = (r', h')"
    and r: "segment_follows nl cfg pd i v r (ho_kernel h)"
  shows "segment_follows nl cfg pd i v r' (ho_kernel h') \<and> same_links nl (ho_kernel h) (ho_kernel h')"
proof (cases "rr_started r")
  case True
  then show ?thesis using e r by (auto simp: Start_def ensureStartedLocked_def same_links_def)
next
  case False
  note u = netlink_addr(9,10) [OF nl(2)]
  have v: "v = None" using False r by (simp add: segment_follows_def)
  have "ho_kernel h' = flushTableLocked nl (rr_cfg r) (wipeRulesLocked nl (rr_cfg r) ZeroPrefix (ho_kernel h))"
    "r' = r\<lparr>rr_started := True\<rparr>"
    using e False r by (auto simp: Start_def ensureStartedLocked_def segment_follows_def Let_def)
  moreover from this have "table_follows nl pd i None (ho_kernel h')"
    using r wipe_all_effect [OF nl(1), of "rr_cfg r" "ho_kernel h"]
    by (simp add: segment_follows_def table_follows_def)
  ultimately show ?thesis
    using r v by (simp add: segment_follows_def same_links_def flushTableLocked_def
        untouched_table [OF u(1)] untouched_table [OF u(2)])
qed

text \<open>A round of the mirror loop replaces default routes of the table by mirrored ones.\<close>

lemma subnet_route_not_default: "pd_ok pd \<Longrightarrow> subnet_route pd (Some p) rt \<Longrightarrow> \<not> isDefault (ro_Dst rt)"
  using proper6_not_default [OF proper6_routed, of pd p]
  by (auto simp: subnet_route_def routed_def isDefault_def ipNetEqual_def split: option.splits)

lemma table_follows_sync:
  assumes ok: "netlink_ok nl" "pr_Table (rr_cfg r) = pc_RouteTable pd" "pc_RouteTable pd \<noteq> 0" "pd_ok pd"
    and t: "table_follows nl pd i (Some p) k"
  shows "table_follows nl pd i (Some p) (syncDefaultLocked nl r k)"
proof -
  note e = syncDefault_effect [OF ok(1), of r, unfolded ok(2), OF ok(3), where k = k]
  obtain rt where rt: "rt \<in> routesOf nl k" "subnet_route pd (Some p) rt \<and> ro_LinkIndex rt = i"
    using t by (auto simp: table_follows_def)
  then have "rt \<in> routesOf nl (syncDefaultLocked nl r k)" using e(2) subnet_route_not_default [OF ok(4)] by blast
  moreover have "subnet_route pd (Some p) q \<or> mirrored_default q"
    if "q \<in> routesOf nl (syncDefaultLocked nl r k)" "ro_Table q = pc_RouteTable pd" for q
    using e(3) [OF that(1)] that(2) t
    by (auto simp: table_follows_def mirrored_default_def mirrors_def dest: mirrorable_Gw)
  ultimately show ?thesis using t e(1) rt(2) unfolding table_follows_def by auto
qed

lemma segment_mirrored:
  assumes nl: "netlink_ok nl" "netlink_addrs nl" and pd: "pd_ok pd"
    and r: "segment_follows nl cfg pd i v r (ho_kernel h)"
  shows "segment_follows nl cfg pd i v r (ho_kernel (mirrorRound nl r h)) \<and>
    same_links nl (ho_kernel h) (ho_kernel (mirrorRound nl r h))"
proof (cases "PfxIsValid (rr_prefix r)")
  case False
  then show ?thesis using r by (simp add: mirrorRound_def same_links_def)
next
  case True
  note u = netlink_addr(9,10) [OF nl(2)]
  obtain p where p: "v = Some p" using True r by (cases v) (simp_all add: segment_follows_def routed_def)
  then show ?thesis
    using True r table_follows_sync [OF nl(1) _ _ pd, of r i p "ho_kernel h"]
    by (simp add: mirrorRound_def segment_follows_def same_links_def untouched_sync [OF u(1)] untouched_sync [OF u(2)])
qed

section \<open>The invariant of a served interface\<close>

definition delegated :: "'d Iface \<Rightarrow> prefix option" where
  "delegated it = (case if_pdc it of None \<Rightarrow> None | Some c \<Rightarrow> map_option bd_Prefix (cl_binding c))"

definition following ::
  "('k, 'o) netlink \<Rightarrow> ipnet set \<Rightarrow> int \<Rightarrow> IfaceConfig \<Rightarrow> PDConfig \<Rightarrow> 'd Iface \<times> ('k, 'i) plant \<Rightarrow> bool" where
  "following nl A i cfg pd = (\<lambda>(it, pl). if_pdc it \<noteq> None \<and> plumbed nl A i cfg pd (delegated it) (it, pl))"

lemma delegated_cong: "if_pdc it' = if_pdc it \<Longrightarrow> delegated it' = delegated it"
  by (simp add: delegated_def)

text \<open>Steps that have nothing to do with the delegation.\<close>

definition unrelated :: "'d Iface \<times> ('k, 'i) plant \<Rightarrow> 'd Iface \<times> ('k, 'i) plant \<Rightarrow> bool" where
  "unrelated = (\<lambda>(it, pl) (it', pl').
     if_cfg it' = if_cfg it \<and> if_pdAddr it' = if_pdAddr it \<and> if_pdc it' = if_pdc it \<and> if_pdr it' = if_pdr it \<and>
     pl_host pl' = pl_host pl)"

lemma following_unrelated: "unrelated x y \<Longrightarrow> following nl A i cfg pd x \<Longrightarrow> following nl A i cfg pd y"
  using delegated_cong [of "fst y" "fst x"] by (cases x; cases y) (simp add: unrelated_def following_def plumbed_def Let_def)

lemma readFrame_unrelated:
  "readFrame ord rord lib4 lib6 now recv it = (it', out) \<Longrightarrow> unrelated (it, pl) (it', relay it it' pl)"
  by (auto simp: readFrame_def unrelated_def Let_def split: option.splits prod.splits if_splits)

lemma attach_unrelated: "attach link os it pl = (b, it', pl', calls) \<Longrightarrow> unrelated (it, pl) (it', pl')"
  by (auto simp: attach_def unrelated_def Let_def split: sum.splits prod.splits if_splits)

lemma startDNS_unrelated: "startDNS port (it, pl) = (b, c, it', pl') \<Longrightarrow> unrelated (it, pl) (it', pl')"
  by (auto simp: startDNS_def unrelated_def split: option.splits)

lemma applyDNAT_unrelated: "applyDNAT ipt (it, pl) = Some (it', pl') \<Longrightarrow> unrelated (it, pl) (it', pl')"
  by (auto simp: applyDNAT_def unrelated_def Let_def split: option.splits if_splits)

lemma pdIteration_following:
  assumes nl: "netlink_ok nl" "netlink_addrs nl" and pd: "pd_ok pd"
    and x: "following nl A i cfg pd (it, pl)" and p: "pdIteration nl lib w (loc, it, pl) = Some (loc', it', pl')"
  shows "following nl A i cfg pd (it', pl')"
proof -
  obtain c c' where c: "if_pdc it = Some c" "pdNext lib w (loc, c\<lparr>cl_calls := []\<rparr>) = Some (loc', c')"
    "deliver nl (cl_calls c') (it\<lparr>if_pdc := Some c'\<rparr>, pl) = (it', pl')"
    using p by (auto simp: pdIteration_def split: option.splits)
  have "consistent (delegated it) (c\<lparr>cl_calls := []\<rparr>)" by (simp add: consistent_def delegated_def c(1))
  from pdNext_consistent [OF c(2) this]
  have v: "pdView (delegated it) (cl_calls c') = Some (map_option bd_Prefix (cl_binding c'))"
    by (simp add: consistent_def)
  have "plumbed nl A i cfg pd (delegated it) (it\<lparr>if_pdc := Some c'\<rparr>, pl)"
    using x by (simp add: following_def plumbed_def Let_def)
  from plumbed_deliver [OF nl pd v this c(3)] show ?thesis
    by (simp add: following_def delegated_def)
qed

lemma on_segment_following:
  assumes x: "following nl A i cfg pd (it, pl)" and c: "on_routes f (it, pl) = (it', pl')"
    and f: "\<And>r h r' h' v. f (r, h) = (r', h') \<Longrightarrow> segment_follows nl cfg pd i v r (ho_kernel h) \<Longrightarrow>
      segment_follows nl cfg pd i v r' (ho_kernel h') \<and> same_links nl (ho_kernel h) (ho_kernel h')"
  shows "following nl A i cfg pd (it', pl')"
proof -
  have r: "\<And>r. if_pdr it = Some r \<Longrightarrow> segment_follows nl cfg pd i (delegated it) r (ho_kernel (pl_host pl))"
    using x by (simp add: following_def plumbed_def Let_def)
  have "(\<forall>r. if_pdr it' = Some r \<longrightarrow> segment_follows nl cfg pd i (delegated it) r (ho_kernel (pl_host pl'))) \<and>
    same_links nl (ho_kernel (pl_host pl)) (ho_kernel (pl_host pl')) \<and>
    if_cfg it' = if_cfg it \<and> if_pdAddr it' = if_pdAddr it \<and> if_pdc it' = if_pdc it"
    by (rule on_routes_follows [OF c r]) (use f in blast)+
  with x show ?thesis
    using delegated_cong [of it' it] by (simp add: following_def plumbed_def same_links_def Let_def)
qed

lemma iface_step_following:
  assumes nl: "netlink_ok nl" "netlink_addrs nl" and pd: "pd_ok pd"
    and "iface_step nl ipt lib4 lib6 libpd (loc, it, pl) (loc', it', pl')"
    and x: "following nl A i cfg pd (it, pl)"
  shows "following nl A i cfg pd (it', pl')"
  using assms(4)
proof cases
  case start
  then show ?thesis
    using on_segment_following [OF x _ segment_started [OF nl]] by (simp add: startIface_def)
next
  case (mirror r)
  then have "segment_follows nl cfg pd i (delegated it) r (ho_kernel (pl_host pl))"
    using x by (simp add: following_def plumbed_def Let_def)
  from segment_mirrored [OF nl pd this] mirror x show ?thesis
    by (auto simp: following_def plumbed_def same_links_def Let_def)
next
  case (delegation w)
  then show ?thesis using pdIteration_following [OF nl pd x] by simp
next
  case (frame ord rord now recv out)
  then show ?thesis using following_unrelated [OF readFrame_unrelated x] by metis
next
  case attach
  then show ?thesis using following_unrelated [OF attach_unrelated x] by blast
next
  case dns
  then show ?thesis using following_unrelated [OF startDNS_unrelated x] by blast
next
  case dnat
  then show ?thesis using following_unrelated [OF applyDNAT_unrelated x] by blast
next
  case detach
  then show ?thesis by (auto intro!: following_unrelated [OF _ x] simp: unrelated_def detach_def Let_def)
next
  case watch
  then show ?thesis by (auto intro!: following_unrelated [OF _ x] simp: unrelated_def watchRound_def Let_def)
qed (auto intro!: following_unrelated [OF _ x] simp: unrelated_def)

section \<open>The invariant of the servers\<close>

definition servers_ok :: "IfaceConfig \<Rightarrow> 'd Iface \<Rightarrow> bool" where
  "servers_ok cfg it \<longleftrightarrow> if_cfg it = cfg \<and> s4_ok (if_d4 it) \<and> s4_cfg (if_d4 it) = ic_DHCP4 cfg \<and>
     s6_ok (if_d6 it) \<and> s6_cfg (if_d6 it) = ic_DHCP6 cfg \<and>
     rs_ok (if_ra it) \<and> rs_cfg (if_ra it) = normalizeRA (ic_RA cfg)"

lemma servers_ok_pdc [simp]: "servers_ok cfg (it\<lparr>if_pdc := c\<rparr>) = servers_ok cfg it"
  by (simp add: servers_ok_def)

lemma send_cfg: "send ord e s cfg dm di = (s', out) \<Longrightarrow> rs_cfg s' = rs_cfg s"
  by (auto simp: send_def currentPrefixes_def Let_def split: prod.splits)

lemma handleFrameRA_state:
  assumes "handleFrameRA ord e s pkt = (b, s', out)" and "rs_ok s" and "ra_orders_ok ord"
  shows "rs_ok s' \<and> rs_cfg s' = rs_cfg s \<and> out \<noteq> None"
  using handleFrameRA_ok [OF assms] assms(1)
  by (auto simp: handleFrameRA_def Let_def split: if_splits dest: send_cfg)

lemma Kick_ok [simp]: "rs_ok (Kick s) = rs_ok s" "rs_cfg (Kick s) = rs_cfg s"
  by (simp_all add: Kick_def rs_ok_def)

lemma raStep_state:
  assumes "raStep e (ph, s) out (ph', s')" and "rs_ok s"
  shows "rs_ok s' \<and> rs_cfg s' = rs_cfg s"
  using assms(1)
proof cases
  case (top ord)
  then show ?thesis using send_ok [OF _ assms(2)] send_cfg by blast
next
  case (solicit ord pkt b)
  then show ?thesis using handleFrameRA_state assms(2) by blast
qed (use assms(2) in \<open>auto simp: rs_ok_def Kick_def\<close>)

lemma statics4_ok:
  assumes "s4_ok s" and "PutStatic4 s b = Inr s' \<or> ReplaceStatics4 s bs = Inr s' \<or> DeleteStatic4 s key = Inr s'"
  shows "s4_ok s' \<and> s4_cfg s' = s4_cfg s"
  using assms d4.put_ok [of s b s'] d4.replace_ok [of s bs s'] d4.remove_ok [of s key s'] unfolding s4_ok_def
  by (auto simp: PutStatic4_def ReplaceStatics4_def DeleteStatic4_def split: if_splits option.splits sum.splits)

lemma statics6_ok:
  assumes "s6_ok s" and "PutStatic6 s b = Inr s' \<or> ReplaceStatics6 s bs = Inr s' \<or> DeleteStatic6 s key = Inr s'"
  shows "s6_ok s' \<and> s6_cfg s' = s6_cfg s"
  using assms d6.put_ok [of s b s'] d6.replace_ok [of s bs s'] d6.remove_ok [of s key s'] unfolding s6_ok_def
  by (auto simp: PutStatic6_def ReplaceStatics6_def DeleteStatic6_def split: if_splits option.splits sum.splits)

lemma ReleaseLease4_ok: "ReleaseLease4 s ip = Inr s' \<Longrightarrow> s4_ok s \<Longrightarrow> s4_ok s' \<and> s4_cfg s' = s4_cfg s"
  using lt_ok_release [of "s4_leases s" ip] by (auto simp: ReleaseLease4_def s4_ok_def split: prod.splits if_splits)

lemma ReleaseLease6_ok: "ReleaseLease6 s ip = Inr s' \<Longrightarrow> s6_ok s \<Longrightarrow> s6_ok s' \<and> s6_cfg s' = s6_cfg s"
  using lt_ok_release [of "s6_leases s" ip] by (auto simp: ReleaseLease6_def s6_ok_def split: prod.splits if_splits)

lemma readFrame_servers:
  assumes "readFrame ord rord lib4 lib6 now recv it = (it', out)" and "servers_ok cfg it" and "ra_orders_ok rord"
  shows "servers_ok cfg it' \<and> out \<noteq> None"
proof (cases "Parse (take 2048 recv)")
  case None
  then show ?thesis using assms(1,2) by (auto simp: readFrame_def)
next
  case (Some pkt)
  obtain b4 d4 out4 where h4: "handleFrame4 ord lib4 now (ifaceEnv it) (if_d4 it) pkt = (b4, d4, out4)" by (metis prod_cases3)
  let ?it4 = "it\<lparr>if_d4 := d4\<rparr>"
  obtain b6 d6 out6 where h6: "handleFrame6 ord lib6 now (ifaceEnv ?it4) (if_d6 ?it4) pkt = (b6, d6, out6)" by (metis prod_cases3)
  let ?it6 = "?it4\<lparr>if_d6 := d6\<rparr>"
  obtain b ra outRA where hra: "handleFrameRA rord (ifaceEnv ?it6) (if_ra ?it6) pkt = (b, ra, outRA)" by (metis prod_cases3)
  have "it' = (if b4 then ?it4 else if b6 then ?it6 else ?it6\<lparr>if_ra := ra\<rparr>)"
    "out = (if b4 then Some out4 else if b6 then Some (out4 @ out6) else map_option ((@) (out4 @ out6)) outRA)"
    using assms(1) Some h4 h6 hra by (auto simp: readFrame_def Let_def)
  then show ?thesis
    using handleFrame4_state [OF h4] handleFrame6_state [OF h6] handleFrameRA_state [OF hra _ assms(3)] assms(2)
    by (simp add: servers_ok_def)
qed

lemma onPDChange_servers: "servers_ok cfg it \<Longrightarrow> onPDChange nl p ok (it, pl) = (it', pl') \<Longrightarrow> servers_ok cfg it'"
  by (auto simp: onPDChange_def on_routes_def servers_ok_def Let_def split: option.splits prod.splits if_splits)

lemma deliver_servers: "servers_ok cfg it \<Longrightarrow> deliver nl calls (it, pl) = (it', pl') \<Longrightarrow> servers_ok cfg it'"
proof (induction calls arbitrary: it pl)
  case (Cons x calls)
  obtain it1 pl1 where c: "onPDChange nl (fst x) (snd x) (it, pl) = (it1, pl1)" by fastforce
  then show ?case
    using Cons.IH [of it1 pl1] onPDChange_servers [OF Cons.prems(1) c] Cons.prems(2)
    by (simp add: deliver_def case_prod_beta)
qed (simp add: deliver_def)

lemma iface_step_servers:
  assumes "iface_step nl ipt lib4 lib6 libpd (loc, it, pl) (loc', it', pl')" and x: "servers_ok cfg it"
  shows "servers_ok cfg it'"
  using assms(1)
proof cases
  case (frame ord rord now recv out)
  then show ?thesis using readFrame_servers [OF _ x] by blast
next
  case (advertise ph out ph' ra)
  then show ?thesis using raStep_state x by (auto simp: servers_ok_def)
next
  case statics4
  then show ?thesis using statics4_ok [of "if_d4 it"] x by (auto simp: servers_ok_def)
next
  case statics6
  then show ?thesis using statics6_ok [of "if_d6 it"] x by (auto simp: servers_ok_def)
next
  case release4
  then show ?thesis using ReleaseLease4_ok x by (auto simp: servers_ok_def)
next
  case release6
  then show ?thesis using ReleaseLease6_ok x by (auto simp: servers_ok_def)
next
  case attach
  then show ?thesis using x by (auto simp: attach_def servers_ok_def Let_def split: sum.splits prod.splits if_splits)
next
  case start
  then show ?thesis using x by (auto simp: startIface_def on_routes_def servers_ok_def split: option.splits prod.splits)
next
  case (delegation w)
  then show ?thesis
    using x by (auto simp: pdIteration_def split: option.splits intro: deliver_servers [rotated])
next
  case dns
  then show ?thesis using x by (auto simp: startDNS_def servers_ok_def split: option.splits)
next
  case dnat
  then show ?thesis using x by (auto simp: applyDNAT_def servers_ok_def Let_def split: option.splits if_splits)
qed (use x in \<open>auto simp: servers_ok_def sweep4_def sweep6_def s4_ok_def s6_ok_def lt_ok_sweep detach_def watchRound_def Let_def\<close>)

section \<open>Starting up\<close>

lemma lt_ok_changed [simp]: "lt_ok (t\<lparr>lt_changed := b\<rparr>) = lt_ok t"
  by (simp add: lt_ok_def)

lemma newIface_servers: "servers_ok cfg (newIface link cfg)"
  by (simp add: servers_ok_def newIface_def s4_ok_def s6_ok_def newDHCP4Server_def newDHCP6Server_def
      statics_ok_def newRAServer_def rs_ok_def)

lemma newIface_following:
  assumes "ic_PD cfg = Some pd" and "nl_LinkByName nl (ho_kernel (pl_host pl)) (ic_Name cfg) = Some i"
    and "set (nl_AddrList nl (ho_kernel (pl_host pl)) i) \<subseteq> A"
  shows "following nl A i cfg pd (newIface link cfg, pl)"
  using assms by (auto simp: following_def plumbed_def newIface_def delegated_def New_def served_def carried_def
      segment_follows_def newRoutes_def routed_def Let_def)

lemma restoreServers_ok: "servers_ok cfg it \<Longrightarrow> servers_ok cfg (restoreServers p it)"
  using d4.replace_ok [of "if_d4 it" "pi_Statics4 p"] d6.replace_ok [of "if_d6 it" "pi_Statics6 p"]
  by (auto simp: restoreServers_def servers_ok_def s4_ok_def s6_ok_def lt_ok_load Let_def
      ReplaceStatics4_def ReplaceStatics6_def split: sum.splits)

lemma restoreServers_frame:
  "if_cfg (restoreServers p it) = if_cfg it" "if_pdAddr (restoreServers p it) = if_pdAddr it"
  "if_pdc (restoreServers p it) = if_pdc it" "if_pdr (restoreServers p it) = if_pdr it"
  by (simp_all add: restoreServers_def Let_def)

text \<open>The ways a restoration goes: nothing to restore; no delegation to restore; a delegation that is
  over; one that is carried on.\<close>

lemma restore_cases [consumes 1, case_names none servers over live]:
  assumes "restore nl now p (it, pl) = y"
  obtains "p = None" "y = (it, pl)"
  | q where "p = Some q" "if_pdc it = None \<or> pi_PD q = None" "y = (restoreServers q it, pl)"
  | q c b where "p = Some q" "if_pdc it = Some c" "pi_PD q = Some b" "bd_ExpiresAt b \<le> now"
      "y = ((restoreServers q it)\<lparr>if_pdc := Some (Restore now c b)\<rparr>, pl)"
  | q c b where "p = Some q" "if_pdc it = Some c" "pi_PD q = Some b" "now < bd_ExpiresAt b"
      "onPDChange nl (bd_Prefix b) True ((restoreServers q it)\<lparr>if_pdc := Some (Restore now c b)\<rparr>, pl) = y"
  using assms by (auto simp: restore_def Let_def restoreServers_frame split: option.splits if_splits)

lemma restore_servers:
  assumes "servers_ok cfg it" and "restore nl now p (it, pl) = (it', pl')"
  shows "servers_ok cfg it'"
  using assms(2)
proof (cases rule: restore_cases)
  case (live q c b)
  then show ?thesis using onPDChange_servers [OF _ live(5)] restoreServers_ok [OF assms(1)] by simp
qed (use assms(1) restoreServers_ok in auto)

lemma restore_following:
  assumes nl: "netlink_ok nl" "netlink_addrs nl" and pd: "pd_ok pd"
    and x: "following nl A i cfg pd (it, pl)" "delegated it = None"
    and r: "restore nl now p (it, pl) = (it', pl')"
    and ok: "\<And>q b. p = Some q \<Longrightarrow> pi_PD q = Some b \<Longrightarrow> PfxIsValid (bd_Prefix b) \<and> bd_ExpiresAt b \<noteq> now"
  shows "following nl A i cfg pd (it', pl')"
  using r
proof (cases rule: restore_cases)
  case none
  then show ?thesis using x by simp
next
  case (servers q)
  then have "unrelated (it, pl) (it', pl')" by (simp add: unrelated_def restoreServers_frame)
  then show ?thesis using x(1) by (rule following_unrelated)
next
  case (over q c b)
  then have "Restore now c b = c" using ok by (fastforce simp: Restore_def)
  then have "unrelated (it, pl) (it', pl')" using over by (simp add: unrelated_def restoreServers_frame)
  then show ?thesis using x(1) by (rule following_unrelated)
next
  case (live q c b)
  have c: "Restore now c b = c\<lparr>cl_binding := Some b\<rparr>" using ok [OF live(1,3)] live(4) by (simp add: Restore_def)
  let ?it = "(restoreServers q it)\<lparr>if_pdc := Some (Restore now c b)\<rparr>"
  have "plumbed nl A i cfg pd None (?it, pl)"
    using x by (simp add: following_def plumbed_def restoreServers_frame Let_def)
  from plumbed_gained [OF nl pd this live(5)] show ?thesis
    by (simp add: following_def delegated_def c)
qed

lemma segment_stopped:
  assumes nl: "netlink_ok nl" "netlink_addrs nl"
    and r: "segment_follows nl cfg pd i v r (ho_kernel h)" and c: "Stop nl (r, h) = (r', h')"
  shows "(rr_started r \<longrightarrow> table_follows nl pd i None (ho_kernel h')) \<and> same_links nl (ho_kernel h) (ho_kernel h')"
proof -
  obtain r1 h1 where e: "clearLocked nl (r\<lparr>rr_stopped := True\<rparr>, h) = (r1, h1)" by fastforce
  have k: "ho_kernel h' = ho_kernel h1" using c e r by (auto simp: Stop_def segment_follows_def Let_def split: if_splits)
  obtain r2 h2 where c2: "Clear nl (r, h) = (r2, h2)" by fastforce
  then have "ho_kernel h1 = ho_kernel h2" "rr_started r2 = rr_started r"
    using e by (auto simp: Clear_def clearLocked_def Let_def split: if_splits)
  with segment_lost [OF nl r c2] k show ?thesis by (simp add: segment_follows_def)
qed

lemma on_routes_frame:
  "on_routes f (it, pl) = (it', pl') \<Longrightarrow> if_conn it' = if_conn it \<and> pl_nat pl' = pl_nat pl"
  by (auto simp: on_routes_def split: option.splits prod.splits)

lemma stopIface_total:
  assumes "(case if_dnat it of None \<Rightarrow> Some (pl_nat pl) | Some r \<Rightarrow> removeDNAT ipt r (pl_nat pl)) = Some nat0"
  shows "\<exists>it' pl' calls. stopIface nl ipt (it, pl) = Some (it', pl', calls) \<and> if_conn it' = None \<and> pl_nat pl' = nat0"
proof -
  let ?it = "it\<lparr>if_done := True, if_conn := None\<rparr>"
  define pl1 where "pl1 = (let pl = pl\<lparr>pl_nat := nat0\<rparr> in if PfxIsValid (if_pdAddr it)
     then on_host (on_kernel (removeAddr nl (ic_Name (if_cfg it)) (if_pdAddr it))) pl else pl)"
  obtain it' pl' where r: "on_routes (Stop nl) (?it, pl1) = (it', pl')" by fastforce
  have "pl_nat pl1 = nat0" by (simp add: pl1_def on_host_def Let_def)
  then show ?thesis using on_routes_frame [OF r] assms r
    by (cases "PfxIsValid (if_pdAddr it)") (simp_all add: stopIface_def pl1_def Let_def)
qed

lemma stopIface_kernel:
  assumes nl: "netlink_ok nl" "netlink_addrs nl" and pd: "pd_ok pd" and x: "plumbed nl A i cfg pd v (it, pl)"
    and c: "stopIface nl ipt (it, pl) = Some (it', pl', calls)"
  defines "k \<equiv> ho_kernel (pl_host pl')"
  shows "set (nl_AddrList nl k i) \<subseteq> A \<and> (\<forall>r. if_pdr it = Some r \<and> rr_started r \<longrightarrow> table_follows nl pd i None k)"
proof -
  let ?k = "\<lambda>pl. ho_kernel (pl_host pl)"
  from x have it: "if_cfg it = cfg" "if_pdAddr it = served pd v" "nl_LinkByName nl (?k pl) (ic_Name cfg) = Some i"
    "set (nl_AddrList nl (?k pl) i) \<subseteq> A \<union> carried pd v" "\<And>r. if_pdr it = Some r \<Longrightarrow> segment_follows nl cfg pd i v r (?k pl)"
    by (simp_all add: plumbed_def Let_def)
  define k1 where "k1 = (if v = None then ?k pl else removeAddr nl (ic_Name cfg) (served pd v) (?k pl))"
  have valid: "PfxIsValid (served pd v) \<longleftrightarrow> v \<noteq> None"
    using pd composePD_valid(1) [of pd] by (cases v) (simp_all add: served_def pd_ok_def PfxIsValid_def ZeroPrefix_def)
  obtain pl1 where s: "on_routes (Stop nl) (it\<lparr>if_done := True, if_conn := None\<rparr>, pl1) = (it', pl')" "?k pl1 = k1"
    using c it(1,2) valid by (auto simp: stopIface_def k1_def Let_def split: option.splits if_splits prod.splits)
  have a: "set (nl_AddrList nl k1 i) \<subseteq> A"
    using it(4) addr_effect(2) [OF nl(2) it(3), of "served pd v"] by (cases v) (auto simp: k1_def carried_def served_def)
  have seg: "segment_follows nl cfg pd i v r k1" if "if_pdr it = Some r" for r
    using it(5) [OF that] table_follows_addr(2) [OF nl(2)] pd by (auto simp: segment_follows_def pd_ok_def k1_def)
  show ?thesis
  proof (cases "if_pdr it")
    case None
    then show ?thesis using s a by (auto simp: on_routes_def k_def)
  next
    case (Some r)
    obtain r' h' where f: "Stop nl (r, pl_host pl1) = (r', h')" by fastforce
    then have "pl_host pl' = h'" using s(1) Some by (auto simp: on_routes_def)
    then show ?thesis
      using segment_stopped [OF nl _ f, of cfg pd i v] seg [OF Some] s(2) a Some by (auto simp: k_def same_links_def)
  qed
qed

text \<open>What it means for the servers and the kernel that the interface follows its delegation.\<close>

lemma following_offers:
  assumes "following nl A i cfg pd (it, pl)" and "pd_ok pd"
  defines "v \<equiv> delegated it" and "k \<equiv> ho_kernel (pl_host pl)"
  shows "envV6 it = map_option (composePD pd) v \<and>
    envV6All it = (case v of None \<Rightarrow> [] | Some p \<Rightarrow> [composePD pd p]) \<and>
    carried pd v \<subseteq> set (nl_AddrList nl k i) \<and> set (nl_AddrList nl k i) \<subseteq> A \<union> carried pd v \<and>
    (\<forall>r. if_pdr it = Some r \<longrightarrow> (v \<noteq> None \<longrightarrow> rr_started r) \<and> (rr_started r \<longrightarrow> table_follows nl pd i v k))"
proof -
  have f: "plumbed nl A i cfg pd v (it, pl)" using assms(1) by (simp add: following_def v_def)
  have "PfxIsValid (composePD pd p)" for p using assms(2) composePD_valid(1) [of pd p] by (simp add: pd_ok_def)
  then have "envV6 it = map_option (composePD pd) v"
    using f by (cases v) (auto simp: envV6_def plumbed_def served_def Let_def)
  moreover from this have "envV6All it = (case v of None \<Rightarrow> [] | Some p \<Rightarrow> [composePD pd p])"
    by (cases v) (simp_all add: envV6All_def)
  ultimately show ?thesis
    using f by (simp add: plumbed_def segment_follows_def k_def Let_def)
qed

text \<open>Removing the redirection of an interface.\<close>

definition outlives :: "'d Iface \<Rightarrow> string list \<Rightarrow> bool" where
  "outlives it x \<longleftrightarrow> (\<forall>r. if_dnat it = Some r \<longrightarrow> x \<noteq> spec r ''udp'' \<and> x \<noteq> spec r ''tcp'')"

lemma stopIface_completes:
  assumes "iptables_ok ipt rules"
  shows "\<exists>it' pl' calls. stopIface nl ipt (it, pl) = Some (it', pl', calls) \<and> if_conn it' = None \<and>
    rules (pl_nat pl') = filter_mset (outlives it) (rules (pl_nat pl))"
proof -
  have "\<exists>nat0. (case if_dnat it of None \<Rightarrow> Some (pl_nat pl) | Some r \<Rightarrow> removeDNAT ipt r (pl_nat pl)) = Some nat0 \<and>
    rules nat0 = filter_mset (outlives it) (rules (pl_nat pl))"
  proof (cases "if_dnat it")
    case (Some r)
    then show ?thesis using removeDNAT_result [OF assms, of r "pl_nat pl"] by (simp add: outlives_def [abs_def])
  qed (simp add: outlives_def [abs_def])
  then show ?thesis using stopIface_total by metis
qed

section \<open>Examples\<close>

definition ifcfg_example :: IfaceConfig where
  "ifcfg_example = \<lparr>ic_Name = ''br0'', ic_Tag = [], ic_Prefix4 = Prefix (Addr4 0x0A000001) 24, ic_Prefix6 = ZeroPrefix,
     ic_DHCP4 = cfg4_example, ic_DHCP6 = cfg6_example, ic_SLAAC = True, ic_RA = racfg_example,
     ic_PD = Some pdcfg_example, ic_DNS = None\<rparr>"

definition iface_example :: "unit Iface" where
  "iface_example = newIface None ifcfg_example"

definition plant_example :: "(kernel_example, string list list) plant" where
  "plant_example = \<lparr>pl_host = host_example, pl_nat = [], pl_store = newStateStore ''/state.json'', pl_events = []\<rparr>"

definition saved_example :: persistedIface where
  "saved_example = persisted_example\<lparr>pi_PD := Some binding_example\<rparr>"

abbreviation ifstep_example where
  "ifstep_example \<equiv> iface_step nl_example ipt_example lib4_example lib6_example libpd_example"

lemma filter_other_link:
  "j \<noteq> i \<Longrightarrow> filter (\<lambda>x. fst x = j) (List.insert (i, n) xs) = filter (\<lambda>x. fst x = j) xs"
  "j \<noteq> i \<Longrightarrow> filter (\<lambda>x. fst x = j) (removeAll (i, n) xs) = filter (\<lambda>x. fst x = j) xs"
  by (simp add: List.insert_def) (induction xs; auto)

lemma addrs_example:
  "set (nl_AddrList nl_example (nl_AddrAdd nl_example k i n) i) = insert n (set (nl_AddrList nl_example k i))"
  by force

lemma netlink_addrs_example: "netlink_addrs nl_example"
  unfolding netlink_addrs_def addrs_example
  by (auto simp: untouched_def rulesOf_example routesOf_example fun_eq_iff filter_other_link)

lemma onPDChange_pdc: "if_pdc (fst (onPDChange nl p ok x)) = if_pdc (fst x)"
  by (cases x) (auto simp: onPDChange_def on_routes_def Let_def split: option.splits prod.splits if_splits)

lemma onPDChange_addr:
  "if_cfg (fst (onPDChange nl p ok x)) = if_cfg (fst x)"
  "ic_PD (if_cfg (fst x)) = Some pd \<Longrightarrow> if_pdAddr (fst (onPDChange nl p True x)) = composePD pd p"
  by (cases x; auto simp: onPDChange_def on_routes_def Let_def split: option.splits prod.splits if_splits)+

lemma startIface_pdc: "if_pdc (fst (startIface nl x)) = if_pdc (fst x)"
  by (cases x) (auto simp: startIface_def on_routes_def split: option.splits prod.splits)

lemma restored_example:
  "delegated (fst (restore nl 0 (Some saved_example) (iface_example, pl))) =
     Some (bd_Prefix binding_example)"
  by (simp add: restore_def saved_example_def iface_example_def newIface_def ifcfg_example_def restoreServers_frame delegated_def
      onPDChange_pdc Restore_def binding_example_def PfxIsValid_def Let_def)

lemma be_nat_or_zeros: "be_nat (map2 (OR) (replicate (length b) 0) b) = be_nat b"
  using be_nat_replicate_0 [of "length b" "[]"] by (simp add: be_nat_map2_or)

text \<open>A persisted delegation whose prefix is not valid is not restored, but with a lifetime that has not run
  out its address is plumbed all the same: the interface then offers a prefix made of the suffix
  alone, without holding any delegation.\<close>

theorem restore_serves_invalid_prefix:
  "let saved = saved_example\<lparr>pi_PD := Some (binding_example\<lparr>bd_Prefix := ZeroPrefix\<rparr>)\<rparr>;
       it = fst (restore nl_example 0 (Some saved) (iface_example, plant_example))
   in delegated it = None \<and> envV6 it = Some (Prefix (Addr6 1 []) 64)"
proof -
  have c: "composePD pdcfg_example ZeroPrefix = Prefix (Addr6 1 []) 64"
    using be_nat_or_zeros [of "be_bytes 16 1"]
    by (simp add: composePD_def pdcfg_example_def Masked_def ZeroPrefix_def PrefixFrom_def AddrFrom16_def)
  have z: "pfx_bits ZeroPrefix = -1" by (simp add: ZeroPrefix_def)
  show ?thesis
    by (simp add: z restore_def saved_example_def binding_example_def iface_example_def newIface_def restoreServers_frame delegated_def
        onPDChange_pdc onPDChange_addr(1) onPDChange_addr(2) [where pd = pdcfg_example] Restore_def New_def
        ifcfg_example_def envV6_def c PfxIsValid_def Let_def)
qed

end
