(* ===== verification/Manager.thy ===== *)
theory Manager
  imports Serving "HOL-Library.List_Lexorder"
begin

text \<open>
  \<^verbatim>\<open>internal/server/manager.go\<close>: the manager owns every served interface, restores and saves their
  state, and is the backend of the control API. Interfaces are kept in a Go map beside the list
  of their names in configuration order; the plant holds what they share.
\<close>

section \<open>State\<close>

datatype mgr_err =
    ErrNetlink
  | ErrIfaceConfig iface_err
  | ErrDupIface string
  | ErrUnknownIface string
  | ErrFamily
  | ErrServer server_err
  | ErrNoPDClient string

record 'd Manager =
  mg_ifaces :: "(string, 'd Iface) gomap"
  mg_order :: "string list"

type_synonym ('d, 'k, 'i) system = "'d Manager \<times> ('k, 'i) plant"

definition setIface :: "string \<Rightarrow> 'd Iface \<Rightarrow> 'd Manager \<Rightarrow> 'd Manager" where
  "setIface name it m = m\<lparr>mg_ifaces := AList.update name it (mg_ifaces m)\<rparr>"

text \<open>The loop of \<open>NewManager\<close>. \<open>links\<close> is what netlink knows of each link when its interface is created.\<close>

fun addIfaces :: "(string \<Rightarrow> link_attrs option) \<Rightarrow> IfaceConfig list \<Rightarrow> 'd Manager \<Rightarrow> mgr_err + 'd Manager" where
  "addIfaces links [] m = Inr m"
| "addIfaces links (cfg # cfgs) m =
     (case normalizeIface cfg of
        Inl err \<Rightarrow> Inl (ErrIfaceConfig err)
      | Inr cfg \<Rightarrow>
          if map_of (mg_ifaces m) (ic_Name cfg) \<noteq> None then Inl (ErrDupIface (ic_Name cfg))
          else addIfaces links cfgs
                 ((setIface (ic_Name cfg) (newIface (links (ic_Name cfg)) cfg) m)
                    \<lparr>mg_order := mg_order m @ [ic_Name cfg]\<rparr>))"

text \<open>The flag says whether the watcher is open afterwards; \<open>subscribed\<close>: the netlink subscription succeeds.\<close>

definition NewManager ::
  "bool \<Rightarrow> (string \<Rightarrow> link_attrs option) \<Rightarrow> IfaceConfig list \<Rightarrow> string \<Rightarrow> ('k, 'i) plant \<Rightarrow>
     (mgr_err + ('d, 'k, 'i) system) \<times> bool" where
  "NewManager subscribed links cfgs stateFile pl =
     (if \<not> subscribed then (Inl ErrNetlink, False)
      else
        case addIfaces links cfgs \<lparr>mg_ifaces = [], mg_order = []\<rparr> of
          Inl err \<Rightarrow> (Inl err, False)
        | Inr m \<Rightarrow> (Inr (m, pl\<lparr>pl_store := newStateStore stateFile\<rparr>), True))"

section \<open>Starting and stopping\<close>

text \<open>\<open>clock\<close>: the time read for each interface; \<open>mord\<close>: the order a range over the map takes.\<close>

definition restoreOne ::
  "('k, 'o) netlink \<Rightarrow> (string \<Rightarrow> time) \<Rightarrow> persistedState \<Rightarrow> string \<times> 'd Iface \<Rightarrow> ('d, 'k, 'i) system \<Rightarrow> ('d, 'k, 'i) system" where
  "restoreOne nl clock st = (\<lambda>(name, it) (m, pl).
     let (it, pl) = restore nl (clock name) (st name) (it, pl) in (setIface name it m, pl))"

definition startOne :: "('k, 'o) netlink \<Rightarrow> string \<Rightarrow> ('d, 'k, 'i) system \<Rightarrow> ('d, 'k, 'i) system" where
  "startOne nl name = (\<lambda>(m, pl).
     case map_of (mg_ifaces m) name of
       None \<Rightarrow> (m, pl)
     | Some it \<Rightarrow> (let (it, pl) = startIface nl (it, pl) in (setIface name it m, pl)))"

definition StartManager ::
  "state_json \<Rightarrow> bool \<Rightarrow> files \<Rightarrow> ('k, 'o) netlink \<Rightarrow> (string \<Rightarrow> time) \<Rightarrow>
     ((string \<times> 'd Iface) list \<Rightarrow> (string \<times> 'd Iface) list) \<Rightarrow> ('d, 'k, 'i) system \<Rightarrow> ('d, 'k, 'i) system" where
  "StartManager js readable fs nl clock mord = (\<lambda>(m, pl).
     let (st, err) = load js readable (pl_store pl) fs;
         pl = (if err then Emit EvStateLoadError pl else pl);
         (m, pl) = fold (restoreOne nl clock st) (mord (mg_ifaces m)) (m, pl);
         (m, pl) = fold (startOne nl) (mg_order m) (m, pl)
     in (m, Emit (EvReady (mg_order m)) pl))"

definition collectState :: "orders \<Rightarrow> (string \<Rightarrow> time) \<Rightarrow> 'd Manager \<Rightarrow> persistedState" where
  "collectState ord clock m = (\<lambda>name. map_option (persisted ord (clock name)) (map_of (mg_ifaces m) name))"

fun stopAll ::
  "('k, 'o) netlink \<Rightarrow> 'i iptables \<Rightarrow> (string \<times> 'd Iface) list \<Rightarrow> ('d, 'k, 'i) system \<Rightarrow> ('d, 'k, 'i) system option" where
  "stopAll nl ipt [] x = Some x"
| "stopAll nl ipt ((name, it) # its) (m, pl) =
     (case stopIface nl ipt (it, pl) of
        None \<Rightarrow> None
      | Some (it, pl, _) \<Rightarrow> stopAll nl ipt its (setIface name it m, pl))"

text \<open>The files are those the final save goes through.\<close>

definition StopManager ::
  "state_json \<Rightarrow> save_os \<Rightarrow> files \<Rightarrow> ('k, 'o) netlink \<Rightarrow> 'i iptables \<Rightarrow> orders \<Rightarrow> (string \<Rightarrow> time) \<Rightarrow>
     ((string \<times> 'd Iface) list \<Rightarrow> (string \<times> 'd Iface) list) \<Rightarrow> ('d, 'k, 'i) system \<Rightarrow>
     (('d, 'k, 'i) system \<times> files list) option" where
  "StopManager js os fs nl ipt ord clock mord = (\<lambda>(m, pl).
     case stopAll nl ipt (mord (mg_ifaces m)) (m, pl) of
       None \<Rightarrow> None
     | Some (m, pl) \<Rightarrow> Some ((m, pl), saveNow js os (pl_store pl) (collectState ord clock m) fs))"

section \<open>The API surface\<close>

definition iface :: "'d Manager \<Rightarrow> string \<Rightarrow> mgr_err + 'd Iface" where
  "iface m name = (case map_of (mg_ifaces m) name of None \<Rightarrow> Inl (ErrUnknownIface name) | Some it \<Rightarrow> Inr it)"

record IfaceStatus =
  is_Name :: string
  is_Tag :: string
  is_Exists :: bool
  is_Up :: bool
  is_MAC :: string
  is_V4 :: "string list"
  is_V6 :: "string list"
  is_DHCP4 :: bool
  is_DHCP6 :: bool
  is_SLAAC :: bool
  is_PDState :: string
  is_PDPrefix :: string
  is_PDRouteTable :: int
  is_Leases4 :: "lease list"
  is_Leases6 :: "lease list"
  is_Statics4 :: "static_binding list"
  is_Statics6 :: "static_binding list"

text \<open>Go compares strings bytewise.\<close>

definition sortStatics :: "static_binding list \<Rightarrow> static_binding list" where
  "sortStatics bs = sort_key (\<lambda>b. map (of_char :: char \<Rightarrow> nat) (sb_ID b)) bs"

definition statusOf :: "orders \<Rightarrow> (string \<Rightarrow> time) \<Rightarrow> string \<Rightarrow> 'd Iface \<Rightarrow> IfaceStatus" where
  "statusOf ord clock name it =
     (let st = if_state it; cfg = if_cfg it
      in \<lparr>is_Name = name, is_Tag = ic_Tag cfg, is_Exists = st_Exists st, is_Up = st_Up st,
          is_MAC = (if st_MAC st \<noteq> [] then HardwareAddr_String (st_MAC st) else []),
          is_V4 = map prefix_String (st_V4 st), is_V6 = map prefix_String (st_V6 st),
          is_DHCP4 = c4_Enabled (ic_DHCP4 cfg), is_DHCP6 = c6_Enabled (ic_DHCP6 cfg), is_SLAAC = ic_SLAAC cfg,
          is_PDState = (case if_pdc it of None \<Rightarrow> [] | Some c \<Rightarrow> cl_state c),
          is_PDPrefix = (case if_pdc it of
                           None \<Rightarrow> []
                         | Some c \<Rightarrow> (case cl_binding c of None \<Rightarrow> [] | Some b \<Rightarrow> prefix_String (bd_Prefix b))),
          is_PDRouteTable = (case if_pdc it of
                               None \<Rightarrow> 0
                             | Some c \<Rightarrow> (case ic_PD cfg of None \<Rightarrow> 0 | Some pd \<Rightarrow> pc_RouteTable pd)),
          is_Leases4 = Leases4 ord (clock name) (if_d4 it), is_Leases6 = Leases6 ord (clock name) (if_d6 it),
          is_Statics4 = sortStatics (ListStatic4 ord (if_d4 it)),
          is_Statics6 = sortStatics (ListStatic6 ord (if_d6 it))\<rparr>)"

definition Status :: "orders \<Rightarrow> (string \<Rightarrow> time) \<Rightarrow> 'd Manager \<Rightarrow> IfaceStatus list" where
  "Status ord clock m = map (\<lambda>name. statusOf ord clock name (the (map_of (mg_ifaces m) name))) (mg_order m)"

definition Leases :: "orders \<Rightarrow> time \<Rightarrow> 'd Manager \<Rightarrow> string \<Rightarrow> int \<Rightarrow> mgr_err + lease list" where
  "Leases ord now m name family =
     (case iface m name of
        Inl err \<Rightarrow> Inl err
      | Inr it \<Rightarrow>
          if family = 4 then Inr (Leases4 ord now (if_d4 it))
          else if family = 6 then Inr (Leases6 ord now (if_d6 it))
          else Inl ErrFamily)"

text \<open>The common shape of the operations on static bindings: the family's server is changed, and on
  success the store is marked.\<close>

definition editStatics ::
  "(dhcp4Server \<Rightarrow> server_err + dhcp4Server) \<Rightarrow> (dhcp6Server \<Rightarrow> server_err + dhcp6Server) \<Rightarrow>
     int \<Rightarrow> string \<Rightarrow> ('d, 'k, 'i) system \<Rightarrow> mgr_err + ('d, 'k, 'i) system" where
  "editStatics f4 f6 family name = (\<lambda>(m, pl).
     case iface m name of
       Inl err \<Rightarrow> Inl err
     | Inr it \<Rightarrow>
         if family = 4
         then (case f4 (if_d4 it) of
                 Inl err \<Rightarrow> Inl (ErrServer err)
               | Inr d4 \<Rightarrow> Inr (setIface name (it\<lparr>if_d4 := d4\<rparr>) m, markPlant pl))
         else if family = 6
         then (case f6 (if_d6 it) of
                 Inl err \<Rightarrow> Inl (ErrServer err)
               | Inr d6 \<Rightarrow> Inr (setIface name (it\<lparr>if_d6 := d6\<rparr>) m, markPlant pl))
         else Inl ErrFamily)"

definition ReplaceStatics ::
  "int \<times> static_binding list \<Rightarrow> string \<Rightarrow> ('d, 'k, 'i) system \<Rightarrow> mgr_err + ('d, 'k, 'i) system" where
  "ReplaceStatics = (\<lambda>(family, bs). editStatics (\<lambda>s. ReplaceStatics4 s bs) (\<lambda>s. ReplaceStatics6 s bs) family)"

definition PutStatic ::
  "int \<times> static_binding \<Rightarrow> string \<Rightarrow> ('d, 'k, 'i) system \<Rightarrow> mgr_err + ('d, 'k, 'i) system" where
  "PutStatic = (\<lambda>(family, b). editStatics (\<lambda>s. PutStatic4 s b) (\<lambda>s. PutStatic6 s b) family)"

definition DeleteStatic ::
  "int \<times> string \<Rightarrow> string \<Rightarrow> ('d, 'k, 'i) system \<Rightarrow> mgr_err + ('d, 'k, 'i) system" where
  "DeleteStatic = (\<lambda>(family, i). editStatics (\<lambda>s. DeleteStatic4 s i) (\<lambda>s. DeleteStatic6 s i) family)"

text \<open>\<open>RenewPD\<close> only wakes the client, which its script shows; \<open>ReleasePD\<close> also records the request.\<close>

definition RenewPD :: "unit \<Rightarrow> string \<Rightarrow> ('d, 'k, 'i) system \<Rightarrow> mgr_err + ('d, 'k, 'i) system" where
  "RenewPD u name = (\<lambda>(m, pl).
     case iface m name of
       Inl err \<Rightarrow> Inl err
     | Inr it \<Rightarrow> if if_pdc it = None then Inl (ErrNoPDClient name) else Inr (m, pl))"

definition Release :: "'d Client \<Rightarrow> 'd Client" where
  "Release c = c\<lparr>cl_releaseReq := True\<rparr>"

definition ReleasePD :: "unit \<Rightarrow> string \<Rightarrow> ('d, 'k, 'i) system \<Rightarrow> mgr_err + ('d, 'k, 'i) system" where
  "ReleasePD u name = (\<lambda>(m, pl).
     case iface m name of
       Inl err \<Rightarrow> Inl err
     | Inr it \<Rightarrow>
         (case if_pdc it of
            None \<Rightarrow> Inl (ErrNoPDClient name)
          | Some c \<Rightarrow> Inr (setIface name (it\<lparr>if_pdc := Some (Release c)\<rparr>) m, pl)))"

definition DeleteLease :: "addr \<Rightarrow> string \<Rightarrow> ('d, 'k, 'i) system \<Rightarrow> mgr_err + ('d, 'k, 'i) system" where
  "DeleteLease ip name = (\<lambda>(m, pl).
     case iface m name of
       Inl err \<Rightarrow> Inl err
     | Inr it \<Rightarrow>
         if Is4 ip
         then (case ReleaseLease4 (if_d4 it) ip of
                 Inl err \<Rightarrow> Inl (ErrServer err)
               | Inr d4 \<Rightarrow> (let it' = it\<lparr>if_d4 := d4\<rparr> in Inr (setIface name it' m, relay it it' pl)))
         else (case ReleaseLease6 (if_d6 it) ip of
                 Inl err \<Rightarrow> Inl (ErrServer err)
               | Inr d6 \<Rightarrow> (let it' = it\<lparr>if_d6 := d6\<rparr> in Inr (setIface name it' m, relay it it' pl))))"

section \<open>Creation\<close>

lemma normalizeIface_Name: "normalizeIface c = Inr c' \<Longrightarrow> ic_Name c' = ic_Name c"
  by (auto simp: normalizeIface_def Let_def split: if_splits sum.splits option.splits)

lemma setIface_lookup: "map_of (mg_ifaces (setIface name it m)) = (map_of (mg_ifaces m))(name \<mapsto> it)"
  and setIface_order [simp]: "mg_order (setIface name it m) = mg_order m"
  and setIface_gomap [simp]: "gomap_ok (mg_ifaces m) \<Longrightarrow> gomap_ok (mg_ifaces (setIface name it m))"
  by (simp_all add: setIface_def update_conv' distinct_update)

lemma addIfaces_Inr:
  fixes m :: "'d Manager"
  shows "addIfaces links cfgs m = Inr m' \<Longrightarrow>
     (\<exists>cs. list_all2 (\<lambda>c c'. normalizeIface c = Inr c') cfgs cs \<and>
        map_of (mg_ifaces m') = map_of (mg_ifaces m) ++ map_of (map (\<lambda>c. (ic_Name c, newIface (links (ic_Name c)) c)) cs)) \<and>
     mg_order m' = mg_order m @ map ic_Name cfgs \<and> distinct (map ic_Name cfgs) \<and>
     (\<forall>c \<in> set cfgs. map_of (mg_ifaces m) (ic_Name c) = None)"
proof (induction cfgs arbitrary: m)
  case Nil
  then show ?case by simp
next
  case (Cons c cfgs)
  let ?m = "\<lambda>c'. (setIface (ic_Name c) (newIface (links (ic_Name c)) c') m)\<lparr>mg_order := mg_order m @ [ic_Name c]\<rparr>"
  obtain c' where c': "normalizeIface c = Inr c'" "map_of (mg_ifaces m) (ic_Name c) = None"
    "addIfaces links cfgs (?m c') = Inr m'"
    using Cons.prems normalizeIface_Name by (fastforce split: sum.splits if_splits)
  obtain cs where cs: "list_all2 (\<lambda>c c'. normalizeIface c = Inr c') cfgs cs"
    "map_of (mg_ifaces m') = map_of (mg_ifaces (?m c')) ++ map_of (map (\<lambda>c. (ic_Name c, newIface (links (ic_Name c)) c)) cs)"
    "mg_order m' = mg_order m @ map ic_Name (c # cfgs)" "distinct (map ic_Name cfgs)"
    "\<forall>c \<in> set cfgs. map_of (mg_ifaces (?m c')) (ic_Name c) = None"
    using Cons.IH [OF c'(3)] by auto
  have fresh: "ic_Name c \<notin> ic_Name ` set cfgs" "\<forall>c \<in> set cfgs. map_of (mg_ifaces m) (ic_Name c) = None"
    using cs(5) by (auto simp: setIface_lookup split: if_splits)
  have "ic_Name ` set cs = ic_Name ` set cfgs"
    using cs(1) by (induction rule: list_all2_induct) (auto dest: normalizeIface_Name)
  then have "map_of (map (\<lambda>c. (ic_Name c, newIface (links (ic_Name c)) c :: 'd Iface)) cs) (ic_Name c) = None"
    using fresh(1) by (auto simp: map_of_eq_None_iff image_image)
  then have "map_of (mg_ifaces m') =
      map_of (mg_ifaces m) ++ map_of (map (\<lambda>c. (ic_Name c, newIface (links (ic_Name c)) c)) (c' # cs))"
    unfolding cs(2) using normalizeIface_Name [OF c'(1)]
    by (auto simp: setIface_lookup map_add_def fun_eq_iff split: option.splits)
  moreover have "list_all2 (\<lambda>c c'. normalizeIface c = Inr c') (c # cfgs) (c' # cs)" using cs(1) c'(1) by simp
  ultimately have "\<exists>cs. list_all2 (\<lambda>c c'. normalizeIface c = Inr c') (c # cfgs) cs \<and> map_of (mg_ifaces m') =
      map_of (mg_ifaces m) ++ map_of (map (\<lambda>c. (ic_Name c, newIface (links (ic_Name c)) c)) cs)" by blast
  then show ?case using cs(3,4) fresh c'(2) by simp
qed

lemma addIfaces_total:
  "list_all2 (\<lambda>c c'. normalizeIface c = Inr c') cfgs cs \<Longrightarrow> distinct (map ic_Name cfgs) \<Longrightarrow>
    \<forall>c \<in> set cfgs. map_of (mg_ifaces m) (ic_Name c) = None \<Longrightarrow> \<exists>m'. addIfaces links cfgs m = Inr m'"
proof (induction cfgs cs arbitrary: m rule: list_all2_induct)
  case (Cons c cfgs c' cs)
  let ?m = "(setIface (ic_Name c) (newIface (links (ic_Name c)) c') m)\<lparr>mg_order := mg_order m @ [ic_Name c]\<rparr>"
  have "ic_Name d \<noteq> ic_Name c" if "d \<in> set cfgs" for d
    using Cons.prems(1) imageI [OF that, of ic_Name] by auto
  then have "\<forall>d \<in> set cfgs. map_of (mg_ifaces ?m) (ic_Name d) = None"
    using Cons.prems(2) by (simp add: setIface_lookup)
  then show ?case using Cons.IH [of ?m] Cons.hyps(1) Cons.prems normalizeIface_Name [OF Cons.hyps(1)] by simp
qed simp

lemma addIfaces_succeeds:
  assumes "\<forall>c \<in> set cfgs. \<exists>c'. normalizeIface c = Inr c'" and "distinct (map ic_Name cfgs)"
  shows "\<exists>m. addIfaces links cfgs \<lparr>mg_ifaces = [], mg_order = []\<rparr> = Inr m"
proof -
  have "list_all2 (\<lambda>c c'. normalizeIface c = Inr c') cfgs (map (\<lambda>c. SOME c'. normalizeIface c = Inr c') cfgs)"
    using assms(1) by (auto simp: list_all2_conv_all_nth intro: someI_ex)
  then show ?thesis by (rule addIfaces_total [OF _ assms(2)]) simp
qed

lemma list_all2_witness: "list_all2 P xs ys \<Longrightarrow> x \<in> set xs \<Longrightarrow> \<exists>y \<in> set ys. P x y"
  by (induction rule: list_all2_induct) auto

lemma addIfaces_fresh:
  fixes m :: "'d Manager"
  assumes "addIfaces links cfgs \<lparr>mg_ifaces = [], mg_order = []\<rparr> = Inr m"
  shows "distinct (map ic_Name cfgs) \<and> mg_order m = map ic_Name cfgs \<and>
    dom (map_of (mg_ifaces m)) = ic_Name ` set cfgs \<and>
    (\<forall>c \<in> set cfgs. \<exists>c'. normalizeIface c = Inr c' \<and>
       map_of (mg_ifaces m) (ic_Name c) = Some (newIface (links (ic_Name c)) c'))"
proof -
  let ?entry = "\<lambda>c. (ic_Name c, newIface (links (ic_Name c)) c :: 'd Iface)"
  obtain cs where cs: "list_all2 (\<lambda>c c'. normalizeIface c = Inr c') cfgs cs"
    "map_of (mg_ifaces m) = map_of (map ?entry cs)" "mg_order m = map ic_Name cfgs" "distinct (map ic_Name cfgs)"
    using addIfaces_Inr [OF assms] by (simp add: map_add_def) blast
  have names: "map ic_Name cs = map ic_Name cfgs"
    using cs(1) by (induction rule: list_all2_induct) (auto dest: normalizeIface_Name)
  have d: "distinct (map fst (map ?entry cs))" using names cs(4) by (simp add: comp_def)
  have "\<exists>c'. normalizeIface c = Inr c' \<and> map_of (mg_ifaces m) (ic_Name c) = Some (newIface (links (ic_Name c)) c')"
    if mem: "c \<in> set cfgs" for c
  proof -
    obtain c' where c': "c' \<in> set cs" "normalizeIface c = Inr c'"
      using list_all2_witness [OF cs(1) mem] by blast
    have "map_of (mg_ifaces m) (ic_Name c') = Some (newIface (links (ic_Name c')) c')"
      unfolding cs(2) by (rule map_of_is_SomeI [OF d]) (use c'(1) in simp)
    then show ?thesis using normalizeIface_Name [OF c'(2)] c'(2) by simp
  qed
  moreover have "dom (map_of (mg_ifaces m)) = ic_Name ` set cfgs"
    using arg_cong [OF names, of set] unfolding cs(2) by (simp add: dom_map_of_conv_image_fst image_image)
  ultimately show ?thesis using cs(3,4) by simp
qed

section \<open>Operations on one interface\<close>

text \<open>\<open>recorded\<close>: what is persisted of an interface; \<open>hooked\<close>: both lease tables report their changes.\<close>

definition recorded :: "'d Iface \<Rightarrow> (string, static_binding) gomap \<times> (string, static_binding) gomap \<times>
    (addr, lease) gomap \<times> (addr, lease) gomap \<times> Binding option" where
  "recorded it = (s4_statics (if_d4 it), s6_statics (if_d6 it), lt_leases (s4_leases (if_d4 it)),
     lt_leases (s6_leases (if_d6 it)), case if_pdc it of None \<Rightarrow> None | Some c \<Rightarrow> cl_binding c)"

definition hooked :: "'d Iface \<Rightarrow> bool" where
  "hooked it \<longleftrightarrow> lt_changed (s4_leases (if_d4 it)) \<and> lt_changed (s6_leases (if_d6 it))"

text \<open>What every operation of the API surface promises: it fails on an unknown interface, and on
  success it changes nothing but the named interface and the store, keeps that interface's
  invariant, and leaves no change of what is persisted unmarked.\<close>

definition touches :: "string \<Rightarrow> ('d, 'k, 'i) system \<Rightarrow> ('d, 'k, 'i) system \<Rightarrow> bool" where
  "touches name = (\<lambda>(m, pl) (m', pl').
     \<exists>it it'. map_of (mg_ifaces m) name = Some it \<and> map_of (mg_ifaces m') = (map_of (mg_ifaces m))(name \<mapsto> it') \<and>
       (gomap_ok (mg_ifaces m) \<longrightarrow> gomap_ok (mg_ifaces m')) \<and> mg_order m' = mg_order m \<and>
       pl' = pl\<lparr>pl_store := pl_store pl'\<rparr> \<and>
       (\<forall>cfg. servers_ok cfg it \<longrightarrow> servers_ok cfg it') \<and>
       (hooked it \<longrightarrow> hooked it' \<and> (recorded it' = recorded it \<or> pl_store pl' = markDirty (pl_store pl))))"

locale iface_op =
  fixes op :: "'a \<Rightarrow> string \<Rightarrow> ('d, 'k, 'i) system \<Rightarrow> mgr_err + ('d, 'k, 'i) system"
  assumes unknown: "map_of (mg_ifaces m) name = None \<Longrightarrow> op a name (m, pl) = Inl (ErrUnknownIface name)"
    and success: "op a name (m, pl) = Inr (m', pl') \<Longrightarrow>
      touches name (m, pl) (m', pl')"
begin

lemma others: "op a name (m, pl) = Inr (m', pl') \<Longrightarrow> n \<noteq> name \<Longrightarrow> map_of (mg_ifaces m') n = map_of (mg_ifaces m) n"
  using success [of a name m pl m' pl'] by (auto simp: touches_def)

lemma dom_kept: "op a name (m, pl) = Inr (m', pl') \<Longrightarrow> dom (map_of (mg_ifaces m')) = dom (map_of (mg_ifaces m))"
  using success [of a name m pl m' pl'] by (auto simp: touches_def split: if_splits)

lemma invariant_kept:
  assumes "op a name (m, pl) = Inr (m', pl')"
    and "\<And>n it. map_of (mg_ifaces m) n = Some it \<Longrightarrow> \<exists>cfg. servers_ok cfg it"
    and "map_of (mg_ifaces m') n = Some it'"
  shows "\<exists>cfg. servers_ok cfg it'"
proof -
  obtain it it1 where "map_of (mg_ifaces m) name = Some it" "map_of (mg_ifaces m') = (map_of (mg_ifaces m))(name \<mapsto> it1)"
    "\<forall>cfg. servers_ok cfg it \<longrightarrow> servers_ok cfg it1"
    using success [OF assms(1)] by (auto simp: touches_def)
  with assms(2,3) show ?thesis by (cases "n = name") fastforce+
qed

end

lemma editStatics_Inr:
  assumes "editStatics f4 f6 family name (m, pl) = Inr (m', pl')"
  obtains it it' where "map_of (mg_ifaces m) name = Some it" "m' = setIface name it' m" "pl' = markPlant pl"
    "family = 4 \<and> (\<exists>d4. f4 (if_d4 it) = Inr d4 \<and> it' = it\<lparr>if_d4 := d4\<rparr>) \<or>
     family = 6 \<and> (\<exists>d6. f6 (if_d6 it) = Inr d6 \<and> it' = it\<lparr>if_d6 := d6\<rparr>)"
  using assms by (auto simp: editStatics_def iface_def split: option.splits sum.splits if_splits)

lemma editStatics_success:
  assumes "editStatics f4 f6 family name (m, pl) = Inr (m', pl')"
    and "\<And>s s'. f4 s = Inr s' \<Longrightarrow> s4_ok s \<Longrightarrow> s4_ok s' \<and> s4_cfg s' = s4_cfg s"
    and "\<And>s s'. f6 s = Inr s' \<Longrightarrow> s6_ok s \<Longrightarrow> s6_ok s' \<and> s6_cfg s' = s6_cfg s"
    and "\<And>s s'. f4 s = Inr s' \<Longrightarrow> s4_leases s' = s4_leases s" and "\<And>s s'. f6 s = Inr s' \<Longrightarrow> s6_leases s' = s6_leases s"
  shows "touches name (m, pl) (m', pl')"
proof -
  obtain it it' where e: "map_of (mg_ifaces m) name = Some it" "m' = setIface name it' m" "pl' = markPlant pl"
    "family = 4 \<and> (\<exists>d4. f4 (if_d4 it) = Inr d4 \<and> it' = it\<lparr>if_d4 := d4\<rparr>) \<or>
     family = 6 \<and> (\<exists>d6. f6 (if_d6 it) = Inr d6 \<and> it' = it\<lparr>if_d6 := d6\<rparr>)"
    by (rule editStatics_Inr [OF assms(1)])
  then have "servers_ok cfg it \<Longrightarrow> servers_ok cfg it'" for cfg
    using assms(2,3) by (auto simp: servers_ok_def)
  moreover have "hooked it \<Longrightarrow> hooked it'" using e(4) assms(4,5) by (auto simp: hooked_def)
  ultimately show ?thesis using e(1-3) by (auto simp: touches_def setIface_lookup markPlant_def)
qed

lemma statics_leases:
  "ReplaceStatics4 s bs = Inr s' \<Longrightarrow> s4_leases s' = s4_leases s" "PutStatic4 s b = Inr s' \<Longrightarrow> s4_leases s' = s4_leases s"
  "DeleteStatic4 s i = Inr s' \<Longrightarrow> s4_leases s' = s4_leases s" "ReplaceStatics6 t bs = Inr t' \<Longrightarrow> s6_leases t' = s6_leases t"
  "PutStatic6 t b = Inr t' \<Longrightarrow> s6_leases t' = s6_leases t" "DeleteStatic6 t i = Inr t' \<Longrightarrow> s6_leases t' = s6_leases t"
  by (auto simp: ReplaceStatics4_def PutStatic4_def DeleteStatic4_def ReplaceStatics6_def PutStatic6_def DeleteStatic6_def
      split: sum.splits option.splits if_splits)

lemma editStatics_unknown:
  "map_of (mg_ifaces m) name = None \<Longrightarrow> editStatics f4 f6 family name (m, pl) = Inl (ErrUnknownIface name)"
  by (simp add: editStatics_def iface_def)

interpretation replaceStatics: iface_op ReplaceStatics
  unfolding ReplaceStatics_def case_prod_beta
  by unfold_locales (blast intro: editStatics_unknown editStatics_success dest: statics4_ok statics6_ok statics_leases)+

interpretation putStatic: iface_op PutStatic
  unfolding PutStatic_def case_prod_beta
  by unfold_locales (blast intro: editStatics_unknown editStatics_success dest: statics4_ok statics6_ok statics_leases)+

interpretation deleteStatic: iface_op DeleteStatic
  unfolding DeleteStatic_def case_prod_beta
  by unfold_locales (blast intro: editStatics_unknown editStatics_success dest: statics4_ok statics6_ok statics_leases)+

interpretation renewPD: iface_op RenewPD
proof
  fix u name and m m' :: "'d Manager" and pl pl' :: "('k, 'i) plant"
  assume "RenewPD u name (m, pl) = Inr (m', pl')"
  then obtain it where "map_of (mg_ifaces m) name = Some it" "m' = m" "pl' = pl"
    by (auto simp: RenewPD_def iface_def split: option.splits if_splits)
  then show "touches name (m, pl) (m', pl')"
    by (auto simp: touches_def intro!: exI [of _ it])
qed (simp add: RenewPD_def iface_def)

interpretation releasePD: iface_op ReleasePD
proof
  fix u name and m m' :: "'d Manager" and pl pl' :: "('k, 'i) plant"
  assume "ReleasePD u name (m, pl) = Inr (m', pl')"
  then obtain it c where e: "map_of (mg_ifaces m) name = Some it" "if_pdc it = Some c"
    "m' = setIface name (it\<lparr>if_pdc := Some (Release c)\<rparr>) m" "pl' = pl"
    by (auto simp: ReleasePD_def iface_def split: option.splits)
  have "hooked (it\<lparr>if_pdc := d\<rparr>) = hooked it" "recorded (it\<lparr>if_pdc := Some (Release c)\<rparr>) = recorded it" for d
    using e(2) by (simp_all add: hooked_def recorded_def Release_def)
  then show "touches name (m, pl) (m', pl')"
    using e(1,3,4) by (auto simp: touches_def setIface_lookup intro!: exI [of _ "it\<lparr>if_pdc := Some (Release c)\<rparr>"])
qed (simp add: ReleasePD_def iface_def)

lemma ReleaseLease_servers:
  "servers_ok cfg it \<Longrightarrow> ReleaseLease4 (if_d4 it) ip = Inr d4 \<Longrightarrow> servers_ok cfg (it\<lparr>if_d4 := d4\<rparr>)"
  "servers_ok cfg it \<Longrightarrow> ReleaseLease6 (if_d6 it) ip = Inr d6 \<Longrightarrow> servers_ok cfg (it\<lparr>if_d6 := d6\<rparr>)"
  by (auto simp: servers_ok_def dest: ReleaseLease4_ok ReleaseLease6_ok)

lemma DeleteLease_Inr:
  assumes "DeleteLease ip name (m, pl) = Inr (m', pl')"
  obtains it it' where "map_of (mg_ifaces m) name = Some it" "m' = setIface name it' m" "pl' = relay it it' pl"
    "if Is4 ip then \<exists>d4. ReleaseLease4 (if_d4 it) ip = Inr d4 \<and> it' = it\<lparr>if_d4 := d4\<rparr>
     else \<exists>d6. ReleaseLease6 (if_d6 it) ip = Inr d6 \<and> it' = it\<lparr>if_d6 := d6\<rparr>"
  using assms by (auto simp: DeleteLease_def iface_def Let_def split: option.splits sum.splits if_splits)

interpretation deleteLease: iface_op DeleteLease
proof
  fix ip name and m m' :: "'d Manager" and pl pl' :: "('k, 'i) plant"
  assume "DeleteLease ip name (m, pl) = Inr (m', pl')"
  then obtain it it' where e: "map_of (mg_ifaces m) name = Some it" "m' = setIface name it' m" "pl' = relay it it' pl"
    "if Is4 ip then \<exists>d4. ReleaseLease4 (if_d4 it) ip = Inr d4 \<and> it' = it\<lparr>if_d4 := d4\<rparr>
     else \<exists>d6. ReleaseLease6 (if_d6 it) ip = Inr d6 \<and> it' = it\<lparr>if_d6 := d6\<rparr>"
    by (rule DeleteLease_Inr)
  then have "servers_ok cfg it \<Longrightarrow> servers_ok cfg it'" for cfg
    using ReleaseLease_servers by (auto split: if_splits)
  moreover have "hooked it \<Longrightarrow> hooked it' \<and> pl_store (relay it it' pl) = markDirty (pl_store pl)"
    using e(4) by (auto simp: hooked_def relay_def markPlant_def ReleaseLease4_def ReleaseLease6_def lt_release_def notify_def
        split: if_splits)
  moreover have "relay it it' pl = pl\<lparr>pl_store := pl_store (relay it it' pl)\<rparr>" by (simp add: relay_def markPlant_def)
  ultimately show "touches name (m, pl) (m', pl')"
    using e(1-3) by (auto simp: touches_def setIface_lookup)
qed (simp add: DeleteLease_def iface_def)

section \<open>Restarts\<close>

definition binding :: "'d Iface \<Rightarrow> Binding option" where
  "binding it = (case if_pdc it of None \<Rightarrow> None | Some c \<Rightarrow> cl_binding c)"

definition unexpired :: "time \<Rightarrow> lease option \<Rightarrow> lease option" where
  "unexpired now l = (case l of None \<Rightarrow> None | Some l \<Rightarrow> if lease_Expiry l < now then None else Some l)"

text \<open>
  The interface a restarted daemon has before \<^verbatim>\<open>Start\<close>: it is created anew, and the bindings of
  the configuration file, \<open>bs4\<close> and \<open>bs6\<close>, are put into it where there are any
  (\<^verbatim>\<open>main.go\<close>, \<open>applyStatics\<close> in theory \<open>Daemon\<close>).
\<close>

definition configured ::
  "link_attrs option \<Rightarrow> IfaceConfig \<Rightarrow> static_binding list \<Rightarrow> static_binding list \<Rightarrow> 'd Iface \<Rightarrow> bool" where
  "configured link cfg bs4 bs6 it0 \<longleftrightarrow>
     (let it = newIface link cfg
      in \<exists>d4 d6. it0 = it\<lparr>if_d4 := d4, if_d6 := d6\<rparr> \<and>
           (if bs4 = [] then d4 = if_d4 it else ReplaceStatics4 (if_d4 it) bs4 = Inr d4) \<and>
           (if bs6 = [] then d6 = if_d6 it else ReplaceStatics6 (if_d6 it) bs6 = Inr d6))"

text \<open>What an interface \<open>it\<close>, saved at one time and restored at another into \<open>it0\<close>, has of what it had.
  Saved bindings of a family replace those of the configuration file, except where none were saved.\<close>

definition recovered :: "time \<Rightarrow> time \<Rightarrow> 'd Iface \<Rightarrow> 'd Iface \<Rightarrow> 'd Iface \<Rightarrow> bool" where
  "recovered saved restarted it it0 it' \<longleftrightarrow>
     map_of (s4_statics (if_d4 it')) = map_of (s4_statics (if_d4 (if s4_statics (if_d4 it) = [] then it0 else it))) \<and>
     map_of (s6_statics (if_d6 it')) = map_of (s6_statics (if_d6 (if s6_statics (if_d6 it) = [] then it0 else it))) \<and>
     (\<forall>ip. lt_lookup (s4_leases (if_d4 it')) ip = unexpired saved (lt_lookup (s4_leases (if_d4 it)) ip)) \<and>
     (\<forall>ip. lt_lookup (s6_leases (if_d6 it')) ip = unexpired saved (lt_lookup (s6_leases (if_d6 it)) ip)) \<and>
     binding it' = (case binding it of
                      None \<Rightarrow> None
                    | Some b \<Rightarrow> if PfxIsValid (bd_Prefix b) \<and> restarted \<le> bd_ExpiresAt b then Some b else None)"

definition leases_valid :: "leaseTable \<Rightarrow> bool" where
  "leases_valid t \<longleftrightarrow> (\<forall>ip \<in> dom (map_of (lt_leases t)). IsValid ip)"

lemma listing_restored4:
  assumes "s4_ok s" and "orders_ok ord"
  shows "\<exists>s'. ReplaceStatics4 s0 (ListStatic4 ord s) = Inr s' \<and> map_of (s4_statics s') = map_of (s4_statics s)"
  using buildStaticSet_listing [of "s4_statics s" "ListStatic4 ord s"] assms
  by (auto simp: s4_ok_def ListStatic4_def ReplaceStatics4_def orders_ok_def go_order_def)

lemma listing_restored6:
  assumes "s6_ok s" and "orders_ok ord"
  shows "\<exists>s'. ReplaceStatics6 s0 (ListStatic6 ord s) = Inr s' \<and> map_of (s6_statics s') = map_of (s6_statics s)"
  using buildStaticSet_listing [of "s6_statics s" "ListStatic6 ord s"] assms
  by (auto simp: s6_ok_def ListStatic6_def ReplaceStatics6_def orders_ok_def go_order_def)

lemma empty_listing:
  assumes "orders_ok ord"
  shows "ListStatic4 ord s = [] \<longleftrightarrow> s4_statics s = []" "ListStatic6 ord s6 = [] \<longleftrightarrow> s6_statics s6 = []"
  using assms go_order_length [of "ord_statics ord"] unfolding orders_ok_def ListStatic4_def ListStatic6_def
  by (metis length_0_conv map_is_Nil_conv)+

lemma restoreServers_recovers:
  fixes now :: time and it0 :: "'d Iface"
  assumes ord: "orders_ok ord" and it: "servers_ok cfg it" "leases_valid (s4_leases (if_d4 it))" "leases_valid (s6_leases (if_d6 it))"
  defines "it' \<equiv> restoreServers (persisted ord now it) it0"
  shows "map_of (s4_statics (if_d4 it')) = map_of (s4_statics (if_d4 (if s4_statics (if_d4 it) = [] then it0 else it)))"
    and "map_of (s6_statics (if_d6 it')) = map_of (s6_statics (if_d6 (if s6_statics (if_d6 it) = [] then it0 else it)))"
    and "lt_lookup (s4_leases (if_d4 it')) ip = unexpired now (lt_lookup (s4_leases (if_d4 it)) ip)"
    and "lt_lookup (s6_leases (if_d6 it')) ip = unexpired now (lt_lookup (s6_leases (if_d6 it)) ip)"
proof -
  have ok: "s4_ok (if_d4 it)" "s6_ok (if_d6 it)" using it(1) by (simp_all add: servers_ok_def)
  obtain d4 where d4: "ReplaceStatics4 (if_d4 it0) (ListStatic4 ord (if_d4 it)) = Inr d4"
    "map_of (s4_statics d4) = map_of (s4_statics (if_d4 it))"
    using listing_restored4 [OF ok(1) ord] by blast
  obtain d6 where d6: "ReplaceStatics6 (if_d6 it0) (ListStatic6 ord (if_d6 it)) = Inr d6"
    "map_of (s6_statics d6) = map_of (s6_statics (if_d6 it))"
    using listing_restored6 [OF ok(2) ord] by blast
  note e = empty_listing [OF ord]
  show "map_of (s4_statics (if_d4 it')) = map_of (s4_statics (if_d4 (if s4_statics (if_d4 it) = [] then it0 else it)))"
    "map_of (s6_statics (if_d6 it')) = map_of (s6_statics (if_d6 (if s6_statics (if_d6 it) = [] then it0 else it)))"
    using d4 d6 by (simp_all add: it'_def restoreServers_def persisted_def e Let_def)
  have "go_order (ord_leases ord)" using ord by (simp add: orders_ok_def)
  note load = lookup_load_snapshot [OF this]
  show "lt_lookup (s4_leases (if_d4 it')) ip = unexpired now (lt_lookup (s4_leases (if_d4 it)) ip)"
    using load [of "s4_leases (if_d4 it)"] ok(1) it(2)
    by (simp add: it'_def restoreServers_def persisted_def Leases4_def unexpired_def s4_ok_def leases_valid_def Let_def)
  show "lt_lookup (s6_leases (if_d6 it')) ip = unexpired now (lt_lookup (s6_leases (if_d6 it)) ip)"
    using load [of "s6_leases (if_d6 it)"] ok(2) it(3)
    by (simp add: it'_def restoreServers_def persisted_def Leases6_def unexpired_def s6_ok_def leases_valid_def Let_def)
qed

lemma onPDChange_frame:
  "onPDChange nl p ok (it, pl) = (it', pl') \<Longrightarrow> if_d4 it' = if_d4 it \<and> if_d6 it' = if_d6 it \<and> if_pdc it' = if_pdc it"
  by (auto simp: onPDChange_def on_routes_def Let_def split: option.splits prod.splits if_splits)

lemma startIface_frame:
  "startIface nl (it, pl) = (it', pl') \<Longrightarrow> if_d4 it' = if_d4 it \<and> if_d6 it' = if_d6 it \<and> if_pdc it' = if_pdc it"
  by (auto simp: startIface_def on_routes_def split: option.splits prod.splits)

lemma restore_frame:
  assumes "restore nl now (Some q) (it, pl) = (it', pl')"
  shows "if_d4 it' = if_d4 (restoreServers q it) \<and> if_d6 it' = if_d6 (restoreServers q it) \<and>
    if_pdc it' = (case (if_pdc it, pi_PD q) of (Some c, Some b) \<Rightarrow> Some (Restore now c b) | _ \<Rightarrow> if_pdc it)"
  using assms by (cases rule: restore_cases) (auto simp: restoreServers_frame dest: onPDChange_frame split: option.splits)

lemma newIface_pdc: "if_pdc (newIface link cfg) = None \<longleftrightarrow> ic_PD cfg = None"
  "if_pdc (newIface link cfg) = Some c \<Longrightarrow> cl_binding c = None"
  by (auto simp: newIface_def New_def)

lemma restore_recovers:
  fixes it it0 it' :: "'d Iface"
  assumes "orders_ok ord" "servers_ok cfg it" "leases_valid (s4_leases (if_d4 it))" "leases_valid (s6_leases (if_d6 it))"
    and pd: "ic_PD cfg = None \<Longrightarrow> binding it = None" and it0: "configured link cfg bs4 bs6 it0"
    and r: "restore nl restarted (Some (persisted ord saved it)) (it0, pl) = (it', pl')"
  shows "recovered saved restarted it it0 it'"
proof -
  have pdc: "if_pdc it0 = if_pdc (newIface link cfg)" using it0 by (auto simp: configured_def Let_def)
  note s = restoreServers_recovers [OF assms(1-4), where now = saved]
  note f = restore_frame [OF r, unfolded pdc]
  have "pi_PD (persisted ord saved it) = binding it" by (simp add: persisted_def binding_def)
  then have "binding it' = (case binding it of
      None \<Rightarrow> None
    | Some b \<Rightarrow> if PfxIsValid (bd_Prefix b) \<and> restarted \<le> bd_ExpiresAt b then Some b else None)"
    using f pd by (auto simp: binding_def [of it'] Restore_def newIface_pdc(1) dest: newIface_pdc(2) split: option.splits)
  then show ?thesis using s f by (simp add: recovered_def)
qed

text \<open>The exception is felt when the last binding of a family is deleted over the API: an empty set is
  saved, and after a restart the bindings of the configuration file are back.\<close>

lemma deleted_statics_return:
  assumes "orders_ok ord" and "s4_statics (if_d4 it) = []"
  shows "s4_statics (if_d4 (restoreServers (persisted ord now it) it0)) = s4_statics (if_d4 it0)"
  using empty_listing(1) [OF assms(1)] assms(2) by (simp add: restoreServers_def persisted_def Let_def)

text \<open>Starting the manager restores each interface once and then starts it.\<close>

lemma restoreOne_fold:
  fixes pl :: "('k, 'i) plant"
  assumes "distinct (map fst xs)"
  shows "(name \<notin> fst ` set xs \<longrightarrow>
      map_of (mg_ifaces (fst (fold (restoreOne nl clock st) xs (m, pl)))) name = map_of (mg_ifaces m) name) \<and>
    ((name, it) \<in> set xs \<longrightarrow> (\<exists>(pl1 :: ('k, 'i) plant) it' pl2. restore nl (clock name) (st name) (it, pl1) = (it', pl2) \<and>
      map_of (mg_ifaces (fst (fold (restoreOne nl clock st) xs (m, pl)))) name = Some it'))"
  using assms
proof (induction xs arbitrary: m pl)
  case (Cons x xs)
  obtain n it0 where x: "x = (n, it0)" by fastforce
  obtain it1 pl1 where r: "restore nl (clock n) (st n) (it0, pl) = (it1, pl1)" by fastforce
  have step: "restoreOne nl clock st x (m, pl) = (setIface n it1 m, pl1)"
    using r by (simp add: x restoreOne_def)
  have "n \<notin> fst ` set xs" using Cons.prems by (simp add: x)
  then show ?case
    using Cons.IH [of "setIface n it1 m" pl1] Cons.prems r step
    by (cases "name = n") (auto simp: x setIface_lookup rev_image_eqI)
qed simp

lemma startOne_fold:
  assumes "map_of (mg_ifaces m) name = Some it"
  shows "\<exists>it'. map_of (mg_ifaces (fst (fold (startOne nl) ns (m, pl)))) name = Some it' \<and>
    if_d4 it' = if_d4 it \<and> if_d6 it' = if_d6 it \<and> if_pdc it' = if_pdc it"
  using assms
proof (induction ns arbitrary: m pl it)
  case (Cons n ns)
  obtain m1 pl1 where s: "startOne nl n (m, pl) = (m1, pl1)" by fastforce
  have "\<exists>it1. map_of (mg_ifaces m1) name = Some it1 \<and> if_d4 it1 = if_d4 it \<and> if_d6 it1 = if_d6 it \<and> if_pdc it1 = if_pdc it"
    using s Cons.prems startIface_frame [of nl it pl]
    by (auto simp: startOne_def setIface_lookup split: option.splits prod.splits)
  then show ?case using Cons.IH [of m1 _ pl1] s by fastforce
qed simp

lemma StartManager_restores:
  fixes pl :: "('k, 'i) plant"
  assumes "go_order mord" and "gomap_ok (mg_ifaces m)" and "map_of (mg_ifaces m) name = Some it"
    and "load js readable (pl_store pl) fs = (st, err)"
    and "StartManager js readable fs nl clock mord (m, pl) = (m', pl')"
  shows "\<exists>it1 it' (pl1 :: ('k, 'i) plant) pl2. restore nl (clock name) (st name) (it, pl1) = (it1, pl2) \<and>
    map_of (mg_ifaces m') name = Some it' \<and> if_d4 it' = if_d4 it1 \<and> if_d6 it' = if_d6 it1 \<and> if_pdc it' = if_pdc it1"
proof -
  let ?pl = "if err then Emit EvStateLoadError pl else pl"
  obtain m1 pl1 where r: "fold (restoreOne nl clock st) (mord (mg_ifaces m)) (m, ?pl) = (m1, pl1)" by fastforce
  obtain m2 pl2 where s: "fold (startOne nl) (mg_order m1) (m1, pl1) = (m2, pl2)" by fastforce
  have m': "m' = m2" using assms(4,5) r s by (auto simp: StartManager_def Let_def)
  have "distinct (map fst (mord (mg_ifaces m)))"
    using assms(1,2) by (metis go_order_def mset_map mset_eq_imp_distinct_iff)
  moreover have "(name, it) \<in> set (mord (mg_ifaces m))"
    using assms(3) by (simp add: go_order_set [OF assms(1)] map_of_SomeD)
  ultimately obtain pl3 :: "('k, 'i) plant" and it1 pl4 where "restore nl (clock name) (st name) (it, pl3) = (it1, pl4)"
    "map_of (mg_ifaces m1) name = Some it1"
    using restoreOne_fold [of "mord (mg_ifaces m)" name nl clock st m ?pl it] r by auto
  then show ?thesis using startOne_fold [of m1 name it1 nl "mg_order m1" pl1] s m' by fastforce
qed

section \<open>Properties\<close>

text \<open>C5: a restart loses nothing. The state saved by a manager and loaded by one created anew from an
  unchanged configuration, its interfaces holding the bindings of the configuration file, gives
  every interface back its leases that had not expired when they were saved, its delegation if that
  is still valid, and, of each family, the static bindings it had, or, where it had none, those of
  the configuration file; whatever the iteration orders. The encoding must be faithful on this
  state and the save must succeed; the leased addresses must be valid ones.\<close>

theorem restart_recovers_state:
  fixes pl0 :: "('k, 'i) plant"
  assumes "orders_ok ord" and "go_order mord"
    and "map_of (mg_ifaces m) name = Some it" and "servers_ok cfg it"
    and "leases_valid (s4_leases (if_d4 it))" and "leases_valid (s6_leases (if_d6 it))"
    and "ic_PD cfg = None \<Longrightarrow> binding it = None"
    and "sj_Marshal js (collectState ord clock m) = Some content"
    and "sj_Unmarshal js content = Some (collectState ord clock m)"
    and "so_mkdir os \<and> so_write os \<and> so_rename os" and "ss_path (pl_store pl) \<noteq> []"
    and "fs' = last (saveNow js os (pl_store pl) (collectState ord clock m) fs)"
    and "gomap_ok (mg_ifaces m0)" and "map_of (mg_ifaces m0) name = Some it0"
    and "configured link cfg bs4 bs6 it0"
    and "ss_path (pl_store pl0) = ss_path (pl_store pl)"
    and "StartManager js True fs' nl clock' mord (m0, pl0) = (m', pl')"
  shows "\<exists>it'. map_of (mg_ifaces m') name = Some it' \<and> recovered (clock name) (clock' name) it it0 it'"
proof -
  have "fs' (ss_path (pl_store pl0)) = Some content"
    using assms(8,10-12,16) by (simp add: saveNow_def Let_def)
  then have load: "load js True (pl_store pl0) fs' = (collectState ord clock m, False)"
    using assms(9,11,16) by (simp add: load_def)
  have st: "collectState ord clock m name = Some (persisted ord (clock name) it)"
    using assms(3) by (simp add: collectState_def)
  obtain it1 it' pl2 and pl1 :: "('k, 'i) plant" where
    r: "restore nl (clock' name) (Some (persisted ord (clock name) it)) (it0, pl1) = (it1, pl2)" and
    it': "map_of (mg_ifaces m') name = Some it'" "if_d4 it' = if_d4 it1" "if_d6 it' = if_d6 it1" "if_pdc it' = if_pdc it1"
    using StartManager_restores [OF assms(2,13,14) load assms(17)] st by metis
  have "recovered (clock name) (clock' name) it it0 it1"
    by (rule restore_recovers [OF assms(1,4-7,15) r])
  then have "recovered (clock name) (clock' name) it it0 it'"
    using it'(2-4) by (simp add: recovered_def binding_def)
  with it'(1) show ?thesis by blast
qed

text \<open>C29: creating the manager succeeds exactly when the netlink subscription does, every interface
  configuration is acceptable and no two name the same interface. It then has one fresh
  interface per configuration, listed in configuration order; on failure the watcher is closed
  again.\<close>

theorem NewManager_outcome:
  "case (NewManager subscribed links cfgs stateFile pl :: (mgr_err + ('d, 'k, 'i) system) \<times> bool) of
     (Inl err, watching) \<Rightarrow> \<not> watching \<and>
       \<not> (subscribed \<and> (\<forall>c \<in> set cfgs. \<exists>c'. normalizeIface c = Inr c') \<and> distinct (map ic_Name cfgs))
   | (Inr (m, pl'), watching) \<Rightarrow> watching \<and> subscribed \<and> distinct (map ic_Name cfgs) \<and>
       mg_order m = map ic_Name cfgs \<and> dom (map_of (mg_ifaces m)) = ic_Name ` set cfgs \<and>
       (\<forall>c \<in> set cfgs. \<exists>c'. normalizeIface c = Inr c' \<and>
          map_of (mg_ifaces m) (ic_Name c) = Some (newIface (links (ic_Name c)) c'))"
proof (cases "NewManager subscribed links cfgs stateFile pl :: (mgr_err + ('d, 'k, 'i) system) \<times> bool")
  case (Pair r watching)
  show ?thesis
  proof (cases r)
    case (Inl err)
    then have "\<not> subscribed \<or> addIfaces links cfgs \<lparr>mg_ifaces = [], mg_order = []\<rparr> = (Inl err :: mgr_err + 'd Manager)" "\<not> watching"
      using Pair by (auto simp: NewManager_def split: if_splits sum.splits)
    moreover have "\<exists>m. addIfaces links cfgs \<lparr>mg_ifaces = [], mg_order = []\<rparr> = (Inr m :: mgr_err + 'd Manager)"
      if "\<forall>c \<in> set cfgs. \<exists>c'. normalizeIface c = Inr c'" "distinct (map ic_Name cfgs)"
      using addIfaces_succeeds [OF that] .
    ultimately show ?thesis using Pair Inl by auto
  next
    case (Inr x)
    then have "subscribed" "watching" "addIfaces links cfgs \<lparr>mg_ifaces = [], mg_order = []\<rparr> = Inr (fst x)"
      using Pair by (auto simp: NewManager_def split: if_splits sum.splits)
    then show ?thesis using addIfaces_fresh Pair Inr by (simp add: case_prod_beta)
  qed
qed

section \<open>Examples\<close>

definition bound_example :: "unit Iface" where
  "bound_example = iface_example\<lparr>if_pdc := map_option (\<lambda>c. c\<lparr>cl_binding := Some binding_example\<rparr>) (if_pdc iface_example)\<rparr>"

text \<open>The interface with one IPv4 binding of the configuration file, as a restart finds it.\<close>

definition configured_example :: "unit Iface" where
  "configured_example = iface_example\<lparr>if_d4 := (if_d4 iface_example)\<lparr>s4_statics := [(sb_ID sb_mac_example, sb_mac_example)]\<rparr>\<rparr>"

definition mgr_example :: "unit Iface \<Rightarrow> unit Manager" where
  "mgr_example it = \<lparr>mg_ifaces = [(''br0'', it)], mg_order = [''br0'']\<rparr>"

definition json_example :: "persistedState \<Rightarrow> state_json" where
  "json_example st = \<lparr>sj_Marshal = (\<lambda>_. Some []), sj_Unmarshal = (\<lambda>_. Some st)\<rparr>"

lemma bound_example_ok:
  "servers_ok ifcfg_example bound_example" "binding bound_example = Some binding_example"
  "leases_valid (s4_leases (if_d4 bound_example))" "leases_valid (s6_leases (if_d6 bound_example))"
  "s4_statics (if_d4 bound_example) = []"
proof -
  show "servers_ok ifcfg_example bound_example"
    by (simp add: bound_example_def iface_example_def newIface_servers)
qed (simp_all add: bound_example_def iface_example_def binding_def leases_valid_def newIface_def ifcfg_example_def
  newLeaseTable_def newDHCP4Server_def)

lemma configured_example_ok: "configured None ifcfg_example [sb_mac_example] [] configured_example"
  by (auto simp: configured_def configured_example_def iface_example_def Let_def ReplaceStatics4_def
      buildStaticSet_def validate_def sb_mac_example_def newIface_def newDHCP4Server_def intro!: exI)

theorem restart_recovers_state_witness:
  "let st = collectState orders_id (\<lambda>_. 0) (mgr_example bound_example); js = json_example st;
       fs = last (saveNow js \<lparr>so_mkdir = True, so_write = True, so_partial = None, so_rename = True\<rparr>
              (pl_store plant_example) st (\<lambda>_. None));
       m = fst (StartManager js True fs nl_example (\<lambda>_. 5) (\<lambda>xs. xs) (mgr_example configured_example, plant_example))
   in \<exists>it. map_of (mg_ifaces m) ''br0'' = Some it \<and> binding it = Some binding_example \<and>
        map_of (s4_statics (if_d4 it)) = [sb_ID sb_mac_example \<mapsto> sb_mac_example]"
proof -
  define st where "st = collectState orders_id (\<lambda>_. 0) (mgr_example bound_example)"
  define os where "os = \<lparr>so_mkdir = True, so_write = True, so_partial = None, so_rename = True\<rparr>"
  define fs where "fs = last (saveNow (json_example st) os (pl_store plant_example) st (\<lambda>_. None))"
  obtain m pl where s: "StartManager (json_example st) True fs nl_example (\<lambda>_. 5) (\<lambda>xs. xs)
      (mgr_example configured_example, plant_example) = (m, pl)" by fastforce
  have "\<exists>it'. map_of (mg_ifaces m) ''br0'' = Some it' \<and> recovered 0 5 bound_example configured_example it'"
    by (rule restart_recovers_state [OF orders_ok_examples(1) go_order_id _ bound_example_ok(1,3,4), where m = "mgr_example bound_example"
          and clock = "\<lambda>_. 0" and js = "json_example st" and content = "[]" and os = os and fs = "\<lambda>_. None"
          and pl = plant_example and fs' = fs and link = None and ?pl0.0 = plant_example and ?m0.0 = "mgr_example configured_example"
          and nl = nl_example and clock' = "\<lambda>_. 5" and pl' = pl and ?it0.0 = configured_example
          and ?bs4.0 = "[sb_mac_example]" and ?bs6.0 = "[]"])
      (use s configured_example_ok in \<open>simp_all add: mgr_example_def json_example_def os_def fs_def st_def plant_example_def newStateStore_def
         ifcfg_example_def\<close>)
  then show ?thesis
    using s bound_example_ok(2,5)
    by (auto simp: Let_def recovered_def binding_example_def PfxIsValid_def st_def os_def fs_def configured_example_def)
qed

theorem NewManager_outcome_witness:
  "\<exists>err. (NewManager True (\<lambda>_. None) [ifcfg_example, ifcfg_example] [] plant_example
     :: (mgr_err + (unit, kernel_example, string list list) system) \<times> bool) = (Inl err, False)"
proof -
  obtain r w where n: "(NewManager True (\<lambda>_. None) [ifcfg_example, ifcfg_example] [] plant_example
     :: (mgr_err + (unit, kernel_example, string list list) system) \<times> bool) = (r, w)" by fastforce
  have "case (r, w) of (Inl err, watching) \<Rightarrow> \<not> watching | (Inr x, watching) \<Rightarrow> False"
    using NewManager_outcome [where subscribed = True and links = "\<lambda>_. None" and cfgs = "[ifcfg_example, ifcfg_example]"
        and stateFile = "[]" and pl = plant_example and ?'d = unit, unfolded n] by (auto split: sum.splits)
  then show ?thesis unfolding n by (auto split: sum.splits)
qed

end
