(* ===== verification/Api.thy ===== *)
theory Api
  imports Manager
begin

text \<open>
  \<^verbatim>\<open>internal/api/api.go\<close>: the control API, HTTP over a unix socket guarded by a bearer key. A request
  passes the key check, is dispatched by the patterns registered in \<^verbatim>\<open>New\<close> and handled by one
  call of the manager. The JSON decoders are parameters.
\<close>

section \<open>Requests and responses\<close>

record request =
  rq_Method :: string
  rq_Path :: string
  rq_Authorization :: string
  rq_Body :: bytes

datatype api_err = InvalidKey | BadFamily | BadBody | BadIP | Failed mgr_err

datatype reply =
    JSONError api_err
  | JSONOk
  | JSONStatus "IfaceStatus list"
  | JSONLeases "lease list"
  | MuxReply

text \<open>\<^verbatim>\<open>httpError\<close> and \<^verbatim>\<open>writeJSON\<close>; the latter leaves the status at 200.\<close>

definition httpError :: "nat \<Rightarrow> api_err \<Rightarrow> nat \<times> reply" where
  "httpError code err = (code, JSONError err)"

definition writeJSON :: "reply \<Rightarrow> nat \<times> reply" where
  "writeJSON v = (200, v)"

text \<open>The decoders of the two request bodies, and the status with which the mux redirects a path that is
  not in canonical form.\<close>

record api_lib =
  al_Statics :: "bytes \<Rightarrow> static_binding list option"
  al_Binding :: "bytes \<Rightarrow> static_binding option"
  al_Redirect :: nat

definition familyOf :: "string \<Rightarrow> int option" where
  "familyOf family = (if family = ''4'' then Some 4 else if family = ''6'' then Some 6 else None)"

section \<open>Handlers\<close>

type_synonym ('d, 'k, 'i) handled = "(nat \<times> reply) \<times> ('d, 'k, 'i) system"

text \<open>The end of every handler that changes something.\<close>

definition finish :: "nat \<Rightarrow> ('d, 'k, 'i) system \<Rightarrow> mgr_err + ('d, 'k, 'i) system \<Rightarrow> ('d, 'k, 'i) handled" where
  "finish code x r =
     (case r of
        Inl err \<Rightarrow> (httpError code (Failed err), x)
      | Inr x' \<Rightarrow> (writeJSON JSONOk, x'))"

definition handleStatus :: "orders \<Rightarrow> (string \<Rightarrow> time) \<Rightarrow> ('d, 'k, 'i) system \<Rightarrow> ('d, 'k, 'i) handled" where
  "handleStatus ord clock x = (writeJSON (JSONStatus (Status ord clock (fst x))), x)"

definition handleLeases ::
  "orders \<Rightarrow> (string \<Rightarrow> time) \<Rightarrow> string \<Rightarrow> string \<Rightarrow> ('d, 'k, 'i) system \<Rightarrow> ('d, 'k, 'i) handled" where
  "handleLeases ord clock name family x =
     (case familyOf family of
        None \<Rightarrow> (httpError 400 BadFamily, x)
      | Some fam \<Rightarrow>
          (case Leases ord (clock name) (fst x) name fam of
             Inl err \<Rightarrow> (httpError 404 (Failed err), x)
           | Inr leases \<Rightarrow> (writeJSON (JSONLeases leases), x)))"

definition handleReplaceStatics ::
  "api_lib \<Rightarrow> string \<Rightarrow> string \<Rightarrow> bytes \<Rightarrow> ('d, 'k, 'i) system \<Rightarrow> ('d, 'k, 'i) handled" where
  "handleReplaceStatics lib name family body x =
     (case familyOf family of
        None \<Rightarrow> (httpError 400 BadFamily, x)
      | Some fam \<Rightarrow>
          (case al_Statics lib body of
             None \<Rightarrow> (httpError 400 BadBody, x)
           | Some statics \<Rightarrow> finish 400 x (ReplaceStatics (fam, statics) name x)))"

definition handlePutStatic ::
  "api_lib \<Rightarrow> string \<Rightarrow> string \<Rightarrow> bytes \<Rightarrow> ('d, 'k, 'i) system \<Rightarrow> ('d, 'k, 'i) handled" where
  "handlePutStatic lib name family body x =
     (case familyOf family of
        None \<Rightarrow> (httpError 400 BadFamily, x)
      | Some fam \<Rightarrow>
          (case al_Binding lib body of
             None \<Rightarrow> (httpError 400 BadBody, x)
           | Some b \<Rightarrow> finish 400 x (PutStatic (fam, b) name x)))"

definition handleDeleteStatic ::
  "string \<Rightarrow> string \<Rightarrow> string \<Rightarrow> ('d, 'k, 'i) system \<Rightarrow> ('d, 'k, 'i) handled" where
  "handleDeleteStatic name family key x =
     (case familyOf family of
        None \<Rightarrow> (httpError 400 BadFamily, x)
      | Some fam \<Rightarrow> finish 404 x (DeleteStatic (fam, key) name x))"

definition handlePDRenew :: "string \<Rightarrow> ('d, 'k, 'i) system \<Rightarrow> ('d, 'k, 'i) handled" where
  "handlePDRenew name x = finish 404 x (RenewPD () name x)"

definition handlePDRelease :: "string \<Rightarrow> ('d, 'k, 'i) system \<Rightarrow> ('d, 'k, 'i) handled" where
  "handlePDRelease name x = finish 404 x (ReleasePD () name x)"

definition handleDeleteLease :: "string \<Rightarrow> string \<Rightarrow> ('d, 'k, 'i) system \<Rightarrow> ('d, 'k, 'i) handled" where
  "handleDeleteLease name s x =
     (let ip = ParseAddr s
      in if \<not> IsValid ip then (httpError 400 BadIP, x)
         else finish 404 x (DeleteLease ip name x))"

section \<open>Dispatch\<close>

datatype route =
    RouteStatus
  | RouteLeases string string
  | RouteReplaceStatics string string
  | RoutePutStatic string string
  | RouteDeleteStatic string string string
  | RouteDeleteLease string string
  | RoutePDRenew string
  | RoutePDRelease string

text \<open>The patterns of the mux over the segments of a path: a wildcard takes one segment that is not
  empty, and a pattern for GET also takes HEAD.\<close>

definition routeOf :: "string \<Rightarrow> string list \<Rightarrow> route option" where
  "routeOf meth segs =
     (let get = meth \<in> {''GET'', ''HEAD''}
      in case segs of
           [a, b] \<Rightarrow> if get \<and> a = ''v1'' \<and> b = ''status'' then Some RouteStatus else None
         | [a, b, name, kind, w] \<Rightarrow>
             if a \<noteq> ''v1'' \<or> b \<noteq> ''ifaces'' \<or> name = [] \<or> w = [] then None
             else if get \<and> kind = ''leases'' then Some (RouteLeases name w)
             else if meth = ''PUT'' \<and> kind = ''statics'' then Some (RouteReplaceStatics name w)
             else if meth = ''POST'' \<and> kind = ''statics'' then Some (RoutePutStatic name w)
             else if meth = ''DELETE'' \<and> kind = ''leases'' then Some (RouteDeleteLease name w)
             else if meth = ''POST'' \<and> kind = ''pd'' \<and> w = ''renew'' then Some (RoutePDRenew name)
             else if meth = ''POST'' \<and> kind = ''pd'' \<and> w = ''release'' then Some (RoutePDRelease name)
             else None
         | [a, b, name, kind, w, key] \<Rightarrow>
             if meth = ''DELETE'' \<and> a = ''v1'' \<and> b = ''ifaces'' \<and> name \<noteq> [] \<and> kind = ''statics'' \<and> w \<noteq> [] \<and> key \<noteq> []
             then Some (RouteDeleteStatic name w key) else None
         | _ \<Rightarrow> None)"

fun splitSlash :: "string \<Rightarrow> string list" where
  "splitSlash [] = [[]]"
| "splitSlash (c # s) =
     (if c = CHR ''/'' then [] # splitSlash s
      else case splitSlash s of [] \<Rightarrow> [[c]] | seg # segs \<Rightarrow> (c # seg) # segs)"

text \<open>Paths without percent escapes. The mux redirects every path that is not in canonical form;
  only the last segment of a canonical path may be empty.\<close>

definition canonical :: "string list \<Rightarrow> bool" where
  "canonical segs \<longleftrightarrow> [] \<notin> set (butlast segs) \<and> ''.'' \<notin> set segs \<and> ''..'' \<notin> set segs"

definition handleRoute ::
  "api_lib \<Rightarrow> orders \<Rightarrow> (string \<Rightarrow> time) \<Rightarrow> bytes \<Rightarrow> route \<Rightarrow> ('d, 'k, 'i) system \<Rightarrow> ('d, 'k, 'i) handled" where
  "handleRoute lib ord clock body r =
     (case r of
        RouteStatus \<Rightarrow> handleStatus ord clock
      | RouteLeases name family \<Rightarrow> handleLeases ord clock name family
      | RouteReplaceStatics name family \<Rightarrow> handleReplaceStatics lib name family body
      | RoutePutStatic name family \<Rightarrow> handlePutStatic lib name family body
      | RouteDeleteStatic name family key \<Rightarrow> handleDeleteStatic name family key
      | RouteDeleteLease name ip \<Rightarrow> handleDeleteLease name ip
      | RoutePDRenew name \<Rightarrow> handlePDRenew name
      | RoutePDRelease name \<Rightarrow> handlePDRelease name)"

definition mux ::
  "api_lib \<Rightarrow> orders \<Rightarrow> (string \<Rightarrow> time) \<Rightarrow> request \<Rightarrow> ('d, 'k, 'i) system \<Rightarrow> ('d, 'k, 'i) handled" where
  "mux lib ord clock rq x =
     (let segs = splitSlash (drop 1 (rq_Path rq))
      in if take 1 (rq_Path rq) \<noteq> ''/'' \<or> \<not> canonical segs then ((al_Redirect lib, MuxReply), x)
         else
           case routeOf (rq_Method rq) segs of
             Some r \<Rightarrow> handleRoute lib ord clock (rq_Body rq) r x
           | None \<Rightarrow>
               if list_ex (\<lambda>meth. routeOf meth segs \<noteq> None) [''GET'', ''PUT'', ''POST'', ''DELETE'']
               then ((405, MuxReply), x) else ((404, MuxReply), x))"

definition TrimPrefix :: "string \<Rightarrow> string \<Rightarrow> string" where
  "TrimPrefix s pre = (if take (length pre) s = pre then drop (length pre) s else s)"

text \<open>\<^verbatim>\<open>subtle.ConstantTimeCompare\<close> is equality of the contents.\<close>

definition auth ::
  "string \<Rightarrow> (request \<Rightarrow> ('d, 'k, 'i) system \<Rightarrow> ('d, 'k, 'i) handled) \<Rightarrow> request \<Rightarrow> ('d, 'k, 'i) system \<Rightarrow> ('d, 'k, 'i) handled" where
  "auth key serve rq x =
     (if TrimPrefix (rq_Authorization rq) ''Bearer '' \<noteq> key then (httpError 401 InvalidKey, x)
      else serve rq x)"

definition serveHTTP ::
  "api_lib \<Rightarrow> orders \<Rightarrow> (string \<Rightarrow> time) \<Rightarrow> string \<Rightarrow> request \<Rightarrow> ('d, 'k, 'i) system \<Rightarrow> ('d, 'k, 'i) handled" where
  "serveHTTP lib ord clock key = auth key (mux lib ord clock)"

section \<open>The socket\<close>

datatype socket_call = SockRemove string | SockListen string | SockChmod string nat | SockClose

datatype new_err = EmptyKey | ListenFailed | ChmodFailed

text \<open>\<open>listens\<close> and \<open>chmods\<close>: whether the calls succeed.\<close>

definition newServer :: "bool \<Rightarrow> bool \<Rightarrow> string \<Rightarrow> string \<Rightarrow> (new_err + string) \<times> socket_call list" where
  "newServer listens chmods socketPath key =
     (if key = [] then (Inl EmptyKey, [])
      else if \<not> listens then (Inl ListenFailed, [SockRemove socketPath, SockListen socketPath])
      else if \<not> chmods
      then (Inl ChmodFailed, [SockRemove socketPath, SockListen socketPath, SockChmod socketPath 384, SockClose])
      else (Inr key, [SockRemove socketPath, SockListen socketPath, SockChmod socketPath 384]))"


section \<open>What a request may change\<close>

context iface_op
begin

lemma finish_outcome:
  assumes "finish code x (op a name x) = ((status, rp), x')" and "code \<noteq> 200"
  shows "if status = 200 then op a name x = Inr x' \<and> touches name x x' else x' = x"
proof (cases "op a name x")
  case (Inl err)
  then show ?thesis using assms by (simp add: finish_def httpError_def)
next
  case (Inr y)
  then have "touches name x y" using success [of a name "fst x" "snd x" "fst y" "snd y"] by simp
  then show ?thesis using assms Inr by (simp add: finish_def writeJSON_def)
qed

end

lemmas handler_defs = handleStatus_def handleLeases_def handleReplaceStatics_def handlePutStatic_def handleDeleteStatic_def
  handlePDRenew_def handlePDRelease_def handleDeleteLease_def httpError_def writeJSON_def

text \<open>The interface a route names; the two that only read name none.\<close>

fun changes :: "route \<Rightarrow> string option" where
  "changes RouteStatus = None"
| "changes (RouteLeases name family) = None"
| "changes (RouteReplaceStatics name family) = Some name"
| "changes (RoutePutStatic name family) = Some name"
| "changes (RouteDeleteStatic name family key) = Some name"
| "changes (RouteDeleteLease name ip) = Some name"
| "changes (RoutePDRenew name) = Some name"
| "changes (RoutePDRelease name) = Some name"

lemma handleRoute_outcome:
  assumes "handleRoute lib ord clock body r x = ((status, rp), x')"
  shows "x' = x \<or> status = 200 \<and> (\<exists>name. changes r = Some name \<and> touches name x x')"
proof (cases r)
  case RouteStatus
  then show ?thesis using assms by (auto simp: handleRoute_def handler_defs)
next
  case (RouteLeases name family)
  then show ?thesis using assms by (auto simp: handleRoute_def handler_defs split: option.splits sum.splits)
next
  case (RouteReplaceStatics name family)
  then show ?thesis using assms
    by (auto simp: handleRoute_def handler_defs split: option.splits if_splits dest!: replaceStatics.finish_outcome)
next
  case (RoutePutStatic name family)
  then show ?thesis using assms
    by (auto simp: handleRoute_def handler_defs split: option.splits if_splits dest!: putStatic.finish_outcome)
next
  case (RouteDeleteStatic name family key)
  then show ?thesis using assms
    by (auto simp: handleRoute_def handler_defs split: option.splits if_splits dest!: deleteStatic.finish_outcome)
next
  case (RouteDeleteLease name ip)
  then show ?thesis using assms
    by (auto simp: handleRoute_def handler_defs Let_def split: if_splits dest!: deleteLease.finish_outcome)
next
  case (RoutePDRenew name)
  then show ?thesis using assms
    by (auto simp: handleRoute_def handler_defs split: if_splits dest!: renewPD.finish_outcome)
next
  case (RoutePDRelease name)
  then show ?thesis using assms
    by (auto simp: handleRoute_def handler_defs split: if_splits dest!: releasePD.finish_outcome)
qed

lemma routeOf_changes:
  assumes "routeOf meth segs = Some r" and "changes r = Some name"
  shows "segs ! 2 = name \<and> meth \<notin> {''GET'', ''HEAD''}"
  using assms by (auto simp: routeOf_def Let_def split: list.splits if_splits)

section \<open>Reading back\<close>

lemma update_absent: "map_of m k = None \<Longrightarrow> AList.update k v m = m @ [(k, v)]"
  by (induction m) auto

lemma buildLoop_listing: "buildLoop bs m = Inr m' \<Longrightarrow> map snd m' = map snd m @ bs"
  by (induction bs m rule: buildLoop.induct) (auto simp: update_absent split: if_splits option.splits)

lemma sortStatics_listing:
  assumes "buildStaticSet bs = Inr m" and "go_order ord"
  shows "sortStatics (map snd (ord m)) = sortStatics bs"
proof -
  have "map snd m = bs" using buildLoop_listing [of bs "[]" m] assms(1) by (simp add: buildStaticSet_def)
  then have m: "mset (map snd (ord m)) = mset bs" using assms(2) by (auto simp: go_order_def)
  have "\<exists>m. buildLoop bs [] = Inr m" using assms(1) by (simp add: buildStaticSet_def)
  then have "distinct (map sb_ID bs)" by (simp only: buildLoop_Inr_iff)
  then have "inj_on sb_ID (set bs)" by (simp add: distinct_map)
  moreover have "inj (map (of_char :: char \<Rightarrow> nat))" by (intro inj_mapI injI) simp
  ultimately have "inj_on (\<lambda>b. map (of_char :: char \<Rightarrow> nat) (sb_ID b)) (set bs)"
    by (auto simp: inj_on_def dest: injD)
  then show ?thesis
    unfolding sortStatics_def using m by (intro sort_key_inj_key_eq) (simp_all flip: set_mset_mset)
qed

section \<open>Properties\<close>

text \<open>C10: what the control API may do. A request without the key is refused with 401; a request that is
  answered with anything but 200, and every GET or HEAD, changes nothing; any other request changes at
  most the one interface its path names: that interface exists and keeps its invariant, kernel, rule
  table and event stream are left alone, and no change of persistent data goes without marking
  the store.\<close>

theorem api_contract:
  assumes "serveHTTP lib ord clock key rq x = ((status, rp), x')"
  defines "segs \<equiv> splitSlash (drop 1 (rq_Path rq))"
  shows "(TrimPrefix (rq_Authorization rq) ''Bearer '' \<noteq> key \<longrightarrow> status = 401 \<and> x' = x) \<and>
    (status \<noteq> 200 \<or> rq_Method rq \<in> {''GET'', ''HEAD''} \<longrightarrow> x' = x) \<and>
    (x' = x \<or> touches (segs ! 2) x x')"
proof (cases "TrimPrefix (rq_Authorization rq) ''Bearer '' = key")
  case True
  show ?thesis
  proof (cases "x' = x")
    case False
    then obtain r where r: "routeOf (rq_Method rq) segs = Some r" "handleRoute lib ord clock (rq_Body rq) r x = ((status, rp), x')"
      using assms(1) True by (auto simp: serveHTTP_def auth_def mux_def segs_def Let_def split: option.splits if_splits)
    from handleRoute_outcome [OF r(2)] False obtain name where "status = 200" "changes r = Some name" "touches name x x'" by blast
    with routeOf_changes [OF r(1)] True show ?thesis by simp
  qed (use True in simp)
qed (use assms(1) in \<open>simp add: serveHTTP_def auth_def httpError_def\<close>)


text \<open>C28: a replacement of static bindings can be read back. When PUT on the bindings of a family is
  answered with 200, the status of that interface lists exactly the bindings of the request, sorted by
  their ids, and the other family's bindings are as before.\<close>

theorem statics_read_back:
  assumes "serveHTTP lib ord clock key rq (m, pl) = ((200, rp), (m', pl'))"
    and "rq_Method rq = ''PUT''" and "splitSlash (drop 1 (rq_Path rq)) = [''v1'', ''ifaces'', name, ''statics'', family]"
    and "al_Statics lib (rq_Body rq) = Some bs" and "orders_ok ord" and "al_Redirect lib \<noteq> 200"
  shows "\<exists>it it'. map_of (mg_ifaces m) name = Some it \<and> map_of (mg_ifaces m') name = Some it' \<and>
    (let st = statusOf ord clock name it; st' = statusOf ord clock name it'
     in if family = ''4'' then is_Statics4 st' = sortStatics bs \<and> is_Statics6 st' = is_Statics6 st
        else family = ''6'' \<and> is_Statics6 st' = sortStatics bs \<and> is_Statics4 st' = is_Statics4 st)"
proof -
  obtain r where "routeOf ''PUT'' [''v1'', ''ifaces'', name, ''statics'', family] = Some r"
    "handleRoute lib ord clock (rq_Body rq) r (m, pl) = ((200, rp), (m', pl'))"
    using assms(1-3,6)
    by (auto simp: serveHTTP_def auth_def mux_def httpError_def Let_def split: if_splits option.splits)
  then have "handleReplaceStatics lib name family (rq_Body rq) (m, pl) = ((200, rp), (m', pl'))"
    by (auto simp: routeOf_def handleRoute_def split: if_splits)
  then have "familyOf family \<noteq> None" and ok: "finish 400 (m, pl) (ReplaceStatics (the (familyOf family), bs) name (m, pl)) = ((200, rp), (m', pl'))"
    using assms(4) by (auto simp: handler_defs split: option.splits)
  then have "ReplaceStatics (the (familyOf family), bs) name (m, pl) = Inr (m', pl')"
    using replaceStatics.finish_outcome [OF ok] by simp
  then have "editStatics (\<lambda>s. ReplaceStatics4 s bs) (\<lambda>s. ReplaceStatics6 s bs) (the (familyOf family)) name (m, pl) = Inr (m', pl')"
    by (simp add: ReplaceStatics_def)
  then obtain it it' where e: "map_of (mg_ifaces m) name = Some it" "m' = setIface name it' m" "pl' = markPlant pl"
    "the (familyOf family) = 4 \<and> (\<exists>d4. ReplaceStatics4 (if_d4 it) bs = Inr d4 \<and> it' = it\<lparr>if_d4 := d4\<rparr>) \<or>
     the (familyOf family) = 6 \<and> (\<exists>d6. ReplaceStatics6 (if_d6 it) bs = Inr d6 \<and> it' = it\<lparr>if_d6 := d6\<rparr>)"
    by (rule editStatics_Inr)
  then have "family = ''4'' \<and> (\<exists>set4. buildStaticSet bs = Inr set4 \<and> it' = it\<lparr>if_d4 := (if_d4 it)\<lparr>s4_statics := set4\<rparr>\<rparr>) \<or>
     family = ''6'' \<and> (\<exists>set6. buildStaticSet bs = Inr set6 \<and> it' = it\<lparr>if_d6 := (if_d6 it)\<lparr>s6_statics := set6\<rparr>\<rparr>)"
    using \<open>familyOf family \<noteq> None\<close>
    by (auto simp: familyOf_def ReplaceStatics4_def ReplaceStatics6_def split: if_splits sum.splits)
  then have "let st = statusOf ord clock name it; st' = statusOf ord clock name it'
     in if family = ''4'' then is_Statics4 st' = sortStatics bs \<and> is_Statics6 st' = is_Statics6 st
        else family = ''6'' \<and> is_Statics6 st' = sortStatics bs \<and> is_Statics4 st' = is_Statics4 st"
    using assms(5) sortStatics_listing [of bs _ "ord_statics ord"]
    by (auto simp: statusOf_def ListStatic4_def ListStatic6_def orders_ok_def Let_def)
  then show ?thesis using e(1,2) by (auto simp: setIface_lookup)
qed


section \<open>Examples\<close>

definition api_example :: api_lib where
  "api_example = \<lparr>al_Statics = (\<lambda>_. Some [sb_mac_example]), al_Binding = (\<lambda>_. None), al_Redirect = 307\<rparr>"

definition put_example :: "string \<Rightarrow> request" where
  "put_example token = \<lparr>rq_Method = ''PUT'', rq_Path = ''/v1/ifaces/br0/statics/4'', rq_Authorization = ''Bearer '' @ token, rq_Body = []\<rparr>"

abbreviation serve_example where
  "serve_example token \<equiv> serveHTTP api_example orders_id (\<lambda>_. 0) ''secret'' (put_example token) (mgr_example iface_example, plant_example)"

lemma splitSlash_example: "splitSlash (drop 1 (rq_Path (put_example token))) = [''v1'', ''ifaces'', ''br0'', ''statics'', ''4'']"
  by (simp add: put_example_def)

lemma serve_example_ok: "\<exists>x. serve_example ''secret'' = ((200, JSONOk), x)"
  unfolding serveHTTP_def auth_def mux_def splitSlash_example
  by (simp add: put_example_def TrimPrefix_def canonical_def routeOf_def handleRoute_def handler_defs familyOf_def
      api_example_def finish_def ReplaceStatics_def editStatics_def iface_def mgr_example_def ReplaceStatics4_def buildStaticSet_def
      validate_def sb_mac_example_def)

theorem api_contract_witness:
  "serve_example ''guess'' = ((401, JSONError InvalidKey), (mgr_example iface_example, plant_example)) \<and>
   (\<exists>x. serve_example ''secret'' = ((200, JSONOk), x) \<and>
     (x = (mgr_example iface_example, plant_example) \<or> touches ''br0'' (mgr_example iface_example, plant_example) x))"
proof
  obtain status rp x where g: "serve_example ''guess'' = ((status, rp), x)" by (metis prod.collapse)
  have "TrimPrefix (rq_Authorization (put_example ''guess'')) ''Bearer '' \<noteq> ''secret''"
    by (simp add: put_example_def TrimPrefix_def)
  with api_contract [OF g] have "status = 401" "x = (mgr_example iface_example, plant_example)" by blast+
  moreover have "rp = JSONError InvalidKey"
    using g by (simp add: serveHTTP_def auth_def put_example_def TrimPrefix_def httpError_def)
  ultimately show "serve_example ''guess'' = ((401, JSONError InvalidKey), (mgr_example iface_example, plant_example))"
    using g by simp
  obtain y where y: "serve_example ''secret'' = ((200, JSONOk), y)" using serve_example_ok by blast
  from api_contract [OF y] have "y = (mgr_example iface_example, plant_example) \<or>
      touches ''br0'' (mgr_example iface_example, plant_example) y"
    unfolding splitSlash_example by simp
  with y show "\<exists>x. serve_example ''secret'' = ((200, JSONOk), x) \<and>
     (x = (mgr_example iface_example, plant_example) \<or> touches ''br0'' (mgr_example iface_example, plant_example) x)" by blast
qed

theorem statics_read_back_witness:
  "\<exists>m pl it. serve_example ''secret'' = ((200, JSONOk), (m, pl)) \<and> map_of (mg_ifaces m) ''br0'' = Some it \<and>
     is_Statics4 (statusOf orders_id (\<lambda>_. 0) ''br0'' it) = [sb_mac_example]"
proof -
  obtain m pl where y: "serve_example ''secret'' = ((200, JSONOk), (m, pl))" using serve_example_ok by auto
  have "rq_Method (put_example ''secret'') = ''PUT''" by (simp add: put_example_def)
  from statics_read_back [OF y this splitSlash_example, of "[sb_mac_example]"]
  show ?thesis using y by (auto simp: api_example_def sortStatics_def Let_def)
qed

end
