(* ===== verification/Daemon.thy ===== *)
theory Daemon
  imports Config Api
begin

text \<open>
  \<^verbatim>\<open>cmd/bridgedhcp/main.go\<close>: the daemon, which reads its configuration, creates and starts the
  manager and opens the control API, and \<^verbatim>\<open>bridgedhcp ctl\<close>, the client of that API. Command-line
  flags are given as parsed.
\<close>

section \<open>The daemon\<close>

text \<open>What the daemon meets outside: the files, the JSON decoders, the kernel, and the orders of Go's
  maps.\<close>

record ('d, 'k, 'o, 'i) world =
  wo_files :: files
  wo_decode :: "bytes \<Rightarrow> config_File option"
  wo_json :: state_json
  wo_readable :: bool
  wo_subscribed :: bool
  wo_links :: "string \<Rightarrow> link_attrs option"
  wo_netlink :: "('k, 'o) netlink"
  wo_iptables :: "'i iptables"
  wo_clock :: "string \<Rightarrow> time"
  wo_plant :: "('k, 'i) plant"
  wo_order :: "(string \<times> 'd Iface) list \<Rightarrow> (string \<times> 'd Iface) list"
  wo_sorder :: "(string \<times> static_binding list \<times> static_binding list) list \<Rightarrow>
    (string \<times> static_binding list \<times> static_binding list) list"
  wo_listens :: bool
  wo_chmods :: bool

text \<open>The bindings of the configuration are the baseline that \<open>StartManager\<close> overrides with persisted ones.\<close>

definition replaceNonEmpty ::
  "int \<Rightarrow> static_binding list \<Rightarrow> string \<Rightarrow> ('d, 'k, 'i) system \<Rightarrow> mgr_err + ('d, 'k, 'i) system" where
  "replaceNonEmpty family bs name x = (if bs = [] then Inr x else ReplaceStatics (family, bs) name x)"

fun applyStatics ::
  "(string \<times> static_binding list \<times> static_binding list) list \<Rightarrow> ('d, 'k, 'i) system \<Rightarrow> mgr_err + ('d, 'k, 'i) system" where
  "applyStatics [] x = Inr x"
| "applyStatics ((name, st4, st6) # sts) x =
     (case replaceNonEmpty 4 st4 name x of
        Inl err \<Rightarrow> Inl err
      | Inr x \<Rightarrow>
          (case replaceNonEmpty 6 st6 name x of
             Inl err \<Rightarrow> Inl err
           | Inr x \<Rightarrow> applyStatics sts x))"

text \<open>How far \<^verbatim>\<open>runDaemon\<close> gets: it leaves with an exit code before anything runs, it stops the manager again
  because the API cannot be opened, or it serves with a key until a signal arrives.\<close>

datatype ('d, 'k, 'i) daemon =
    Exit nat
  | Abandoned "('d, 'k, 'i) system"
  | Running "('d, 'k, 'i) system" string

definition loadConfig :: "('d, 'k, 'o, 'i) world \<Rightarrow> string \<Rightarrow> config_err + config_File \<times> string \<times> IfaceConfig list" where
  "loadConfig w cfgPath =
     (case Load (wo_decode w) (wo_files w) cfgPath of
        Inl err \<Rightarrow> Inl err
      | Inr cfg \<Rightarrow>
          (case ResolveAPIKey (wo_files w) cfg of
             Inl err \<Rightarrow> Inl err
           | Inr key \<Rightarrow>
               (case BuildIfaceConfigs cfg of
                  Inl err \<Rightarrow> Inl err
                | Inr ifaceCfgs \<Rightarrow> Inr (cfg, key, ifaceCfgs))))"

definition startDaemon ::
  "('d, 'k, 'o, 'i) world \<Rightarrow> config_File \<Rightarrow> string \<Rightarrow> IfaceConfig list \<Rightarrow> ('d, 'k, 'i) daemon" where
  "startDaemon w cfg key ifaceCfgs =
     (case fst (NewManager (wo_subscribed w) (wo_links w) ifaceCfgs (cf_StateFile cfg) (wo_plant w)) of
        Inl err \<Rightarrow> Exit 1
      | Inr x \<Rightarrow>
          (case applyStatics (wo_sorder w (InitialStatics cfg)) x of
             Inl err \<Rightarrow> Exit 1
           | Inr x \<Rightarrow>
               (let x = StartManager (wo_json w) (wo_readable w) (wo_files w) (wo_netlink w) (wo_clock w) (wo_order w) x
                in case fst (newServer (wo_listens w) (wo_chmods w) (cf_APISocket cfg) key) of
                     Inl err \<Rightarrow> Abandoned x
                   | Inr key \<Rightarrow> Running x key)))"

definition runDaemon :: "('d, 'k, 'o, 'i) world \<Rightarrow> string \<Rightarrow> bool \<Rightarrow> ('d, 'k, 'i) daemon" where
  "runDaemon w cfgPath check =
     (if cfgPath = [] then Exit 2
      else
        case loadConfig w cfgPath of
          Inl err \<Rightarrow> Exit 1
        | Inr (cfg, key, ifaceCfgs) \<Rightarrow> if check then Exit 0 else startDaemon w cfg key ifaceCfgs)"

text \<open>Both ends of a running manager stop it; the exit code tells which it was.\<close>

definition stopDaemon ::
  "('d, 'k, 'o, 'i) world \<Rightarrow> save_os \<Rightarrow> orders \<Rightarrow> ('d, 'k, 'i) daemon \<Rightarrow>
     (nat \<times> (('d, 'k, 'i) system \<times> files list) option) option" where
  "stopDaemon w os ord d =
     (let stop = StopManager (wo_json w) os (wo_files w) (wo_netlink w) (wo_iptables w) ord (wo_clock w) (wo_order w)
      in case d of
           Exit code \<Rightarrow> Some (code, None)
         | Abandoned x \<Rightarrow> map_option (\<lambda>r. (1, Some r)) (stop x)
         | Running x key \<Rightarrow> map_option (\<lambda>r. (0, Some r)) (stop x))"

section \<open>The client\<close>

text \<open>The request of a command: method, path, and whether standard input is its body.\<close>

definition ctlRequest :: "string list \<Rightarrow> (string \<times> string \<times> bool) option" where
  "ctlRequest rest =
     (case rest of
        [cmd] \<Rightarrow> if cmd = ''status'' then Some (''GET'', ''/v1/status'', False) else None
      | [cmd, a] \<Rightarrow>
          if cmd = ''pd-renew'' then Some (''POST'', ''/v1/ifaces/'' @ a @ ''/pd/renew'', False)
          else if cmd = ''pd-release'' then Some (''POST'', ''/v1/ifaces/'' @ a @ ''/pd/release'', False)
          else None
      | [cmd, a, b] \<Rightarrow>
          if cmd = ''leases'' then Some (''GET'', ''/v1/ifaces/'' @ a @ ''/leases/'' @ b, False)
          else if cmd = ''statics-replace'' then Some (''PUT'', ''/v1/ifaces/'' @ a @ ''/statics/'' @ b, True)
          else if cmd = ''static-put'' then Some (''POST'', ''/v1/ifaces/'' @ a @ ''/statics/'' @ b, True)
          else if cmd = ''lease-del'' then Some (''DELETE'', ''/v1/ifaces/'' @ a @ ''/leases/'' @ b, False)
          else None
      | [cmd, a, b, c] \<Rightarrow>
          if cmd = ''static-del'' then Some (''DELETE'', ''/v1/ifaces/'' @ a @ ''/statics/'' @ b @ ''/'' @ c, False)
          else None
      | _ \<Rightarrow> None)"

text \<open>\<open>client\<close>: the HTTP exchange over the socket, the status of the response or \<open>None\<close> for an error.\<close>

definition runCtl ::
  "files \<Rightarrow> (request \<Rightarrow> nat option) \<Rightarrow> string \<Rightarrow> string \<Rightarrow> string \<Rightarrow> bytes \<Rightarrow> string list \<Rightarrow> nat" where
  "runCtl fs client socket key keyFile stdin rest =
     (if socket = [] \<or> rest = [] then 2
      else
        (let apiKey =
               (if key = [] \<and> keyFile \<noteq> []
                then map_option (\<lambda>data. TrimSpace (map (\<lambda>b. char_of (unat b)) data)) (fs keyFile)
                else Some key)
         in case apiKey of
              None \<Rightarrow> 1
            | Some apiKey \<Rightarrow>
                (case ctlRequest rest of
                   None \<Rightarrow> 2
                 | Some (meth, path, hasBody) \<Rightarrow>
                     (case client \<lparr>rq_Method = meth, rq_Path = path, rq_Authorization = ''Bearer '' @ apiKey,
                             rq_Body = (if hasBody then stdin else [])\<rparr> of
                        None \<Rightarrow> 1
                      | Some status \<Rightarrow> if 400 \<le> status then 1 else 0))))"


section \<open>What a started daemon serves\<close>

text \<open>The manager holds exactly one interface per configuration, in order, and its servers keep their
  invariants.\<close>

definition serves :: "IfaceConfig list \<Rightarrow> 'd Manager \<Rightarrow> bool" where
  "serves cs m \<longleftrightarrow> gomap_ok (mg_ifaces m) \<and> mg_order m = map ic_Name cs \<and> distinct (map ic_Name cs) \<and>
     dom (map_of (mg_ifaces m)) = ic_Name ` set cs \<and>
     (\<forall>c \<in> set cs. \<forall>it. map_of (mg_ifaces m) (ic_Name c) = Some it \<longrightarrow> servers_ok c it)"

lemma serves_setIface:
  assumes "serves cs m" and "c \<in> set cs" and "servers_ok c it"
  shows "serves cs (setIface (ic_Name c) it m)"
proof -
  have "c' = c" if "c' \<in> set cs" "ic_Name c' = ic_Name c" for c'
    using assms(1,2) that by (auto simp: serves_def distinct_map inj_on_def)
  then show ?thesis using assms by (auto simp: serves_def setIface_lookup split: if_splits)
qed

lemma serves_lookup:
  assumes "serves cs m" and "map_of (mg_ifaces m) name = Some it"
  obtains c where "c \<in> set cs" "ic_Name c = name" "servers_ok c it"
proof -
  have "name \<in> ic_Name ` set cs" using assms by (auto simp: serves_def)
  then obtain c where "c \<in> set cs" "ic_Name c = name" by blast
  then show thesis using assms that by (simp add: serves_def)
qed

lemma touches_serves:
  assumes "touches name (m, pl) (m', pl')" and "serves cs m"
  shows "serves cs m'"
proof -
  obtain it it' where t: "map_of (mg_ifaces m) name = Some it" "map_of (mg_ifaces m') = (map_of (mg_ifaces m))(name \<mapsto> it')"
    "mg_order m' = mg_order m" "gomap_ok (mg_ifaces m) \<longrightarrow> gomap_ok (mg_ifaces m')" "\<forall>cfg. servers_ok cfg it \<longrightarrow> servers_ok cfg it'"
    using assms(1) by (auto simp: touches_def)
  from assms(2) t(1) obtain c where c: "c \<in> set cs" "ic_Name c = name" "servers_ok c it" by (rule serves_lookup)
  have "serves cs (setIface (ic_Name c) it' m)" using serves_setIface [OF assms(2) c(1)] t(5) c(3) by blast
  then show ?thesis using t c assms(2) by (simp add: serves_def setIface_lookup)
qed

lemma replaceNonEmpty_serves:
  "replaceNonEmpty family bs name x = Inr x' \<Longrightarrow> serves cs (fst x) \<Longrightarrow> serves cs (fst x')"
  using touches_serves [OF replaceStatics.success] by (cases x; cases x') (auto simp: replaceNonEmpty_def split: if_splits)

lemma applyStatics_serves: "applyStatics sts x = Inr x' \<Longrightarrow> serves cs (fst x) \<Longrightarrow> serves cs (fst x')"
proof (induction sts arbitrary: x)
  case (Cons st sts)
  then obtain x1 x2 where "replaceNonEmpty 4 (fst (snd st)) (fst st) x = Inr x1" "replaceNonEmpty 6 (snd (snd st)) (fst st) x1 = Inr x2"
    "applyStatics sts x2 = Inr x'"
    by (cases st) (auto split: sum.splits)
  then show ?case using Cons.IH Cons.prems(2) replaceNonEmpty_serves by blast
qed simp

text \<open>Before \<^verbatim>\<open>Start\<close> every interface is a new one with the bindings of the configuration file: what
  \<open>configured\<close> says of a restart.\<close>

lemma replaceNonEmpty_other:
  assumes "replaceNonEmpty family bs name x = Inr x'" and "n \<noteq> name"
  shows "map_of (mg_ifaces (fst x')) n = map_of (mg_ifaces (fst x)) n"
  using assms replaceStatics.others [of "(family, bs)" name "fst x" "snd x" "fst x'" "snd x'" n]
  by (simp add: replaceNonEmpty_def split: if_splits)

lemma replaceNonEmpty_own:
  assumes "map_of (mg_ifaces (fst x)) name = Some it"
  shows "replaceNonEmpty 4 bs name x = Inr x' \<Longrightarrow> \<exists>d4. map_of (mg_ifaces (fst x')) name = Some (it\<lparr>if_d4 := d4\<rparr>) \<and>
      (if bs = [] then d4 = if_d4 it else ReplaceStatics4 (if_d4 it) bs = Inr d4)"
    and "replaceNonEmpty 6 bs name x = Inr x' \<Longrightarrow> \<exists>d6. map_of (mg_ifaces (fst x')) name = Some (it\<lparr>if_d6 := d6\<rparr>) \<and>
      (if bs = [] then d6 = if_d6 it else ReplaceStatics6 (if_d6 it) bs = Inr d6)"
  using assms by (cases x; auto simp: replaceNonEmpty_def ReplaceStatics_def editStatics_def iface_def setIface_lookup
      split: if_splits sum.splits)+

lemma applyStatics_configured:
  assumes "distinct (map fst sts)" and "applyStatics sts x = Inr x'"
    and "map_of (mg_ifaces (fst x)) name = Some it" and "it = newIface link cfg"
  shows "\<exists>it0. map_of (mg_ifaces (fst x')) name = Some it0 \<and>
    (case map_of sts name of None \<Rightarrow> it0 = it | Some (bs4, bs6) \<Rightarrow> configured link cfg bs4 bs6 it0)"
  using assms(1-3)
proof (induction sts arbitrary: x)
  case (Cons st sts)
  obtain n bs4 bs6 where st: "st = (n, bs4, bs6)" by (metis prod_cases3)
  obtain x1 x2 where r: "replaceNonEmpty 4 bs4 n x = Inr x1" "replaceNonEmpty 6 bs6 n x1 = Inr x2" "applyStatics sts x2 = Inr x'"
    using Cons.prems(2) by (auto simp: st split: sum.splits)
  show ?case
  proof (cases "name = n")
    case False
    then show ?thesis
      using Cons.IH [OF _ r(3)] Cons.prems(1,3) replaceNonEmpty_other [OF r(1) False] replaceNonEmpty_other [OF r(2) False]
      by (simp add: st)
  next
    case True
    obtain d4 where d4: "map_of (mg_ifaces (fst x1)) n = Some (it\<lparr>if_d4 := d4\<rparr>)"
      "if bs4 = [] then d4 = if_d4 it else ReplaceStatics4 (if_d4 it) bs4 = Inr d4"
      using replaceNonEmpty_own(1) [OF Cons.prems(3) [unfolded True] r(1)] by blast
    obtain d6 where d6: "map_of (mg_ifaces (fst x2)) n = Some (it\<lparr>if_d4 := d4, if_d6 := d6\<rparr>)"
      "if bs6 = [] then d6 = if_d6 (it\<lparr>if_d4 := d4\<rparr>) else ReplaceStatics6 (if_d6 (it\<lparr>if_d4 := d4\<rparr>)) bs6 = Inr d6"
      using replaceNonEmpty_own(2) [OF d4(1) r(2)] by blast
    have later: "applyStatics ss y = Inr y' \<Longrightarrow> n \<notin> fst ` set ss \<Longrightarrow> map_of (mg_ifaces (fst y')) n = map_of (mg_ifaces (fst y)) n" for ss y y'
      by (induction ss y rule: applyStatics.induct) (auto simp: replaceNonEmpty_other split: sum.splits)
    have "configured link cfg bs4 bs6 (it\<lparr>if_d4 := d4, if_d6 := d6\<rparr>)"
      unfolding configured_def Let_def assms(4) [symmetric] using d4(2) d6(2)
      by (cases "bs6 = []") (auto intro!: exI [of _ d4] exI [of _ d6])
    then show ?thesis using later [OF r(3)] d6(1) Cons.prems(1) by (auto simp: st True)
  qed
qed simp

lemma restoreOne_serves:
  assumes "serves cs (fst x)" and "c \<in> set cs" and "servers_ok c it"
  shows "serves cs (fst (restoreOne nl clock st (ic_Name c, it) x))"
proof -
  obtain it' pl' where r: "restore nl (clock (ic_Name c)) (st (ic_Name c)) (it, snd x) = (it', pl')" by fastforce
  from serves_setIface [OF assms(1,2) restore_servers [OF assms(3) r]] show ?thesis
    using r by (simp add: restoreOne_def case_prod_beta)
qed

lemma startOne_serves:
  assumes "serves cs (fst x)"
  shows "serves cs (fst (startOne nl name x))"
proof (cases "map_of (mg_ifaces (fst x)) name")
  case (Some it)
  obtain it' pl' where s: "startIface nl (it, snd x) = (it', pl')" by fastforce
  from assms Some obtain c where c: "c \<in> set cs" "ic_Name c = name" "servers_ok c it" by (rule serves_lookup)
  have "servers_ok c it'" using iface_step_servers [OF iface_step.start [OF s] c(3)] .
  from serves_setIface [OF assms c(1) this] show ?thesis
    using Some s c(2) by (simp add: startOne_def case_prod_beta)
qed (use assms in \<open>simp add: startOne_def case_prod_beta\<close>)

lemma StartManager_serves:
  fixes x :: "('d, 'k, 'i) system"
  assumes "go_order mord" and "serves cs (fst x)"
  shows "serves cs (fst (StartManager js readable fs nl clock mord x))"
proof -
  have r: "serves cs (fst (fold (restoreOne nl clock st) xs y))"
    if "serves cs (fst y)" "\<forall>(name, it) \<in> set xs. \<exists>c \<in> set cs. ic_Name c = name \<and> servers_ok c it" for st xs and y :: "('d, 'k, 'i) system"
    using that
  proof (induction xs arbitrary: y)
    case (Cons e xs)
    from Cons.prems(2) obtain c where c: "c \<in> set cs" "ic_Name c = fst e" "servers_ok c (snd e)" by auto
    have "serves cs (fst (restoreOne nl clock st e y))"
      using restoreOne_serves [OF Cons.prems(1) c(1,3), of nl clock st] c(2) by simp
    from Cons.IH [OF this] Cons.prems(2) show ?case by simp
  qed simp
  have s: "serves cs (fst y) \<Longrightarrow> serves cs (fst (fold (startOne nl) ns y))" for ns and y :: "('d, 'k, 'i) system"
    by (induction ns arbitrary: y) (simp_all add: startOne_serves)
  have "\<forall>(name, it) \<in> set (mord (mg_ifaces (fst x))). \<exists>c \<in> set cs. ic_Name c = name \<and> servers_ok c it"
  proof (clarify)
    fix name it assume "(name, it) \<in> set (mord (mg_ifaces (fst x)))"
    moreover have "gomap_ok (mg_ifaces (fst x))" using assms(2) by (simp add: serves_def)
    ultimately have "map_of (mg_ifaces (fst x)) name = Some it" by (simp add: go_order_set [OF assms(1)])
    with assms(2) show "\<exists>c \<in> set cs. ic_Name c = name \<and> servers_ok c it" by (meson serves_lookup)
  qed
  then have "serves cs (fst (fold (restoreOne nl clock st) (mord (mg_ifaces (fst x))) (fst x, pl)))" for st and pl :: "('k, 'i) plant"
    using r [of "(fst x, pl)" "mord (mg_ifaces (fst x))" st] assms(2) by simp
  then show ?thesis
    using s by (auto simp: StartManager_def case_prod_beta Let_def)
qed


lemma addIfaces_gomap: "addIfaces links cfgs m = Inr m' \<Longrightarrow> gomap_ok (mg_ifaces m) \<Longrightarrow> gomap_ok (mg_ifaces m')"
proof (induction links cfgs m rule: addIfaces.induct)
  case (2 links cfg cfgs m)
  then show ?case by (auto split: sum.splits if_splits)
qed simp

lemma addIfaces_serves:
  fixes m :: "'d Manager"
  assumes "addIfaces links cfgs \<lparr>mg_ifaces = [], mg_order = []\<rparr> = Inr m"
  shows "\<exists>cs. list_all2 (\<lambda>c c'. normalizeIface c = Inr c') cfgs cs \<and> serves cs m \<and>
    (\<forall>c \<in> set cs. map_of (mg_ifaces m) (ic_Name c) = Some (newIface (links (ic_Name c)) c))"
proof -
  let ?entry = "\<lambda>c. (ic_Name c, newIface (links (ic_Name c)) c :: 'd Iface)"
  obtain cs where cs: "list_all2 (\<lambda>c c'. normalizeIface c = Inr c') cfgs cs"
    "map_of (mg_ifaces m) = map_of (map ?entry cs)" "mg_order m = map ic_Name cfgs" "distinct (map ic_Name cfgs)"
    using addIfaces_Inr [OF assms] by (simp add: map_add_def) blast
  have names: "map ic_Name cs = map ic_Name cfgs"
    using cs(1) by (induction rule: list_all2_induct) (auto dest: normalizeIface_Name)
  have d: "distinct (map fst (map ?entry cs))" using names cs(4) by (simp add: comp_def)
  have new: "map_of (mg_ifaces m) (ic_Name c) = Some (newIface (links (ic_Name c)) c)" if "c \<in> set cs" for c
    unfolding cs(2) by (rule map_of_is_SomeI [OF d]) (use that in simp)
  then have "\<forall>c \<in> set cs. \<forall>it. map_of (mg_ifaces m) (ic_Name c) = Some it \<longrightarrow> servers_ok c it"
    by (simp add: newIface_servers)
  moreover have "dom (map_of (mg_ifaces m)) = ic_Name ` set cs"
    unfolding cs(2) by (simp add: dom_map_of_conv_image_fst image_image)
  ultimately have "serves cs m"
    using cs(3,4) names addIfaces_gomap [OF assms] by (simp add: serves_def)
  with cs(1) new show ?thesis by blast
qed

text \<open>A configuration as the servers of an interface rely on it.\<close>

definition fit :: "IfaceConfig \<Rightarrow> bool" where
  "fit c \<longleftrightarrow> ic_Name c \<noteq> [] \<and> prefix_ok (ic_Prefix4 c) \<and> prefix_ok (ic_Prefix6 c) \<and>
     (PfxIsValid (ic_Prefix4 c) \<longrightarrow> Is4 (pfx_addr (ic_Prefix4 c))) \<and> (PfxIsValid (ic_Prefix6 c) \<longrightarrow> Is6 (pfx_addr (ic_Prefix6 c))) \<and>
     pred_option (\<lambda>pd. pd_ok pd \<and> pc_Uplink pd \<noteq> [] \<and> 2 \<le> length (pc_DUID pd) \<and> pc_IAID pd \<noteq> 0 \<and> Is6 (pc_Suffix pd) \<and>
       (pc_RouteTable pd \<noteq> 0 \<longrightarrow> table_usable (pc_RouteTable pd) \<and> 0 < pc_RulePriority pd \<and> pc_RulePriority pd \<le> 32765)) (ic_PD c)"

lemma normalizePDConfig_fit:
  assumes "normalizePDConfig name pd = Inr pd'" and "pdconfig_ok pd"
  shows "pd_ok pd' \<and> pc_Uplink pd' \<noteq> [] \<and> 2 \<le> length (pc_DUID pd') \<and> pc_IAID pd' \<noteq> 0 \<and> Is6 (pc_Suffix pd') \<and>
    pc_RouteTable pd' = pc_RouteTable pd \<and>
    (pc_RouteTable pd' \<noteq> 0 \<longrightarrow> table_usable (pc_RouteTable pd') \<and> 0 < pc_RulePriority pd' \<and> pc_RulePriority pd' \<le> 32765)"
proof -
  have "pc_RouteTable pd \<notin> {254, 255}" using assms(2) by (auto simp: pdconfig_ok_def table_usable_def reservedTable_def)
  moreover have "Is6 (pc_Suffix pd')"
    using assms by (auto simp: normalizePDConfig_def pdconfig_ok_def IsValid_def Let_def split: if_splits)
  ultimately show ?thesis
    using assms by (auto simp: normalizePDConfig_def pdconfig_ok_def pd_ok_def Let_def split: if_splits)
qed

lemma normalizeIface_fit:
  assumes "normalizeIface c = Inr c'" and "config_ok c"
  shows "fit c' \<and> tableOf c' = tableOf c"
proof -
  have p: "ic_Prefix4 c' = ic_Prefix4 c" "ic_Prefix6 c' = ic_Prefix6 c" "ic_Name c' \<noteq> []"
    using assms(1) by (auto simp: normalizeIface_def Let_def split: if_splits sum.splits option.splits)
  show ?thesis
  proof (cases "ic_PD c")
    case None
    then have "ic_PD c' = None"
      using assms(1) by (auto simp: normalizeIface_def Let_def split: if_splits sum.splits option.splits)
    then show ?thesis using p None assms(2) by (auto simp: fit_def tableOf_def config_ok_def)
  next
    case (Some pd)
    then obtain pd' where pd': "ic_PD c' = Some pd'" "normalizePDConfig (ic_Name c) pd = Inr pd'"
      using assms(1) by (auto simp: normalizeIface_def Let_def split: if_splits sum.splits option.splits)
    then show ?thesis
      using p Some assms(2) normalizePDConfig_fit [OF pd'(2)] by (auto simp: fit_def tableOf_def config_ok_def)
  qed
qed

lemma normalizeIface_list:
  "list_all2 (\<lambda>c c'. normalizeIface c = Inr c') cfgs cs \<Longrightarrow> list_all config_ok cfgs \<Longrightarrow>
     list_all fit cs \<and> map tableOf cs = map tableOf cfgs"
  by (induction rule: list_all2_induct) (auto dest: normalizeIface_fit)

lemma loadConfig_Inr:
  assumes "loadConfig w cfgPath = Inr (cfg, key, cfgs)"
  shows "Load (wo_decode w) (wo_files w) cfgPath = Inr cfg \<and> ResolveAPIKey (wo_files w) cfg = Inr key \<and>
    list_all2 carries (cf_Interfaces cfg) cfgs \<and> list_all config_ok cfgs \<and> distinct (concat (map tableOf cfgs))"
proof -
  have l: "Load (wo_decode w) (wo_files w) cfgPath = Inr cfg" "ResolveAPIKey (wo_files w) cfg = Inr key"
    "buildIfaces (cf_Interfaces cfg) [] [] = Inr cfgs"
    using assms by (auto simp: loadConfig_def BuildIfaceConfigs_def split: sum.splits)
  moreover from l(3) have "distinct (concat (map claimed (cf_Interfaces cfg)))"
    using buildIfaces_iff [of "cf_Interfaces cfg" "[]" "[]"] by blast
  ultimately show ?thesis using buildIfaces_Inr [OF l(3)] carries_tables by fastforce
qed


text \<open>The configuration answers the entry of the file: same name, and a delegation exactly where it asks for one.\<close>

definition answers :: "config_Iface \<Rightarrow> IfaceConfig \<Rightarrow> bool" where
  "answers ic c \<longleftrightarrow> ic_Name c = ci_Name ic \<and> (ic_PD c = None \<longleftrightarrow> ci_PD ic = None)"

lemma normalizeIface_PD: "normalizeIface c = Inr c' \<Longrightarrow> ic_PD c' = None \<longleftrightarrow> ic_PD c = None"
  by (auto simp: normalizeIface_def Let_def split: if_splits sum.splits option.splits)

lemma carries_answers:
  assumes "carries ic c" and "normalizeIface c = Inr c'"
  shows "answers ic c'"
proof -
  have "map_option pc_Uplink (ic_PD c) = map_option cd_Uplink (ci_PD ic)" "ic_Name c = ci_Name ic"
    using assms(1) by (simp_all only: carries_def)
  then show ?thesis
    using normalizeIface_PD [OF assms(2)] normalizeIface_Name [OF assms(2)] by (cases "ic_PD c"; cases "ci_PD ic") (simp_all add: answers_def)
qed

text \<open>The way to a running daemon: the interfaces are created, get the bindings of the configuration and are
  started.\<close>

lemma runDaemon_Running:
  assumes "runDaemon w cfgPath check = Running (m, pl) key"
  obtains cfg cs x y where "\<not> check" "key \<noteq> []" "Load (wo_decode w) (wo_files w) cfgPath = Inr cfg"
    "ResolveAPIKey (wo_files w) cfg = Inr key" "list_all2 answers (cf_Interfaces cfg) cs" "list_all fit cs"
    "distinct (concat (map tableOf cs))" "serves cs (fst x)" "applyStatics (wo_sorder w (InitialStatics cfg)) x = Inr y"
    "(m, pl) = StartManager (wo_json w) (wo_readable w) (wo_files w) (wo_netlink w) (wo_clock w) (wo_order w) y"
    "\<And>c. c \<in> set cs \<Longrightarrow> map_of (mg_ifaces (fst x)) (ic_Name c) = Some (newIface (wo_links w (ic_Name c)) c)"
    "snd x = (wo_plant w)\<lparr>pl_store := newStateStore (cf_StateFile cfg)\<rparr>"
proof -
  obtain cfg k cfgs where l: "\<not> check" "loadConfig w cfgPath = Inr (cfg, k, cfgs)" "startDaemon w cfg k cfgs = Running (m, pl) key"
    using assms by (auto simp: runDaemon_def split: if_splits sum.splits)
  obtain x y where s: "addIfaces (wo_links w) cfgs \<lparr>mg_ifaces = [], mg_order = []\<rparr> = Inr (fst x)"
    "applyStatics (wo_sorder w (InitialStatics cfg)) x = Inr y"
    "(m, pl) = StartManager (wo_json w) (wo_readable w) (wo_files w) (wo_netlink w) (wo_clock w) (wo_order w) y"
    "key = k" "key \<noteq> []" "snd x = (wo_plant w)\<lparr>pl_store := newStateStore (cf_StateFile cfg)\<rparr>"
    using l(3) by (auto simp: startDaemon_def NewManager_def newServer_def Let_def split: if_splits sum.splits)
  obtain cs where cs: "list_all2 (\<lambda>c c'. normalizeIface c = Inr c') cfgs cs" "serves cs (fst x)"
    "\<And>c. c \<in> set cs \<Longrightarrow> map_of (mg_ifaces (fst x)) (ic_Name c) = Some (newIface (wo_links w (ic_Name c)) c)"
    using addIfaces_serves [OF s(1)] by blast
  note c = loadConfig_Inr [OF l(2)]
  have "list_all2 answers (cf_Interfaces cfg) cs"
    using c list_all2_trans [where ?P1.0 = carries, OF carries_answers _ cs(1)] by simp
  moreover have "list_all fit cs" "distinct (concat (map tableOf cs))" using normalizeIface_list [OF cs(1)] c by auto
  ultimately show thesis using that [of cfg cs x y] l(1) s c cs(2,3) by auto
qed

section \<open>The client reaches the handlers\<close>

text \<open>What a command asks for.\<close>

definition intended :: "string list \<Rightarrow> route option" where
  "intended rest =
     (case rest of
        [cmd] \<Rightarrow> if cmd = ''status'' then Some RouteStatus else None
      | [cmd, a] \<Rightarrow> if cmd = ''pd-renew'' then Some (RoutePDRenew a) else if cmd = ''pd-release'' then Some (RoutePDRelease a) else None
      | [cmd, a, b] \<Rightarrow>
          if cmd = ''leases'' then Some (RouteLeases a b) else if cmd = ''statics-replace'' then Some (RouteReplaceStatics a b)
          else if cmd = ''static-put'' then Some (RoutePutStatic a b) else if cmd = ''lease-del'' then Some (RouteDeleteLease a b)
          else None
      | [cmd, a, b, c] \<Rightarrow> if cmd = ''static-del'' then Some (RouteDeleteStatic a b c) else None
      | _ \<Rightarrow> None)"

definition segment :: "string \<Rightarrow> bool" where
  "segment s \<longleftrightarrow> s \<noteq> [] \<and> CHR ''/'' \<notin> set s \<and> s \<noteq> ''.'' \<and> s \<noteq> ''..''"

lemma splitSlash_segment: "CHR ''/'' \<notin> set s \<Longrightarrow> splitSlash s = [s]"
  by (induction s) auto

lemma splitSlash_append: "CHR ''/'' \<notin> set s \<Longrightarrow> splitSlash (s @ CHR ''/'' # t) = s # splitSlash t"
  by (induction s) auto

lemma splitSlash_iface:
  "CHR ''/'' \<notin> set a \<Longrightarrow> splitSlash (drop 1 (''/v1/ifaces/'' @ a @ CHR ''/'' # t)) = ''v1'' # ''ifaces'' # a # splitSlash t"
  using splitSlash_append [of a t] by simp

lemma ctlRequest_cases:
  assumes "ctlRequest rest = Some (meth, path, hasBody)"
  obtains "rest = [''status'']" "meth = ''GET''" "path = ''/v1/status''"
  | a where "rest = [''pd-renew'', a]" "meth = ''POST''" "path = ''/v1/ifaces/'' @ a @ ''/pd/renew''"
  | a where "rest = [''pd-release'', a]" "meth = ''POST''" "path = ''/v1/ifaces/'' @ a @ ''/pd/release''"
  | a b where "rest = [''leases'', a, b]" "meth = ''GET''" "path = ''/v1/ifaces/'' @ a @ ''/leases/'' @ b"
  | a b where "rest = [''statics-replace'', a, b]" "meth = ''PUT''" "path = ''/v1/ifaces/'' @ a @ ''/statics/'' @ b"
  | a b where "rest = [''static-put'', a, b]" "meth = ''POST''" "path = ''/v1/ifaces/'' @ a @ ''/statics/'' @ b"
  | a b where "rest = [''lease-del'', a, b]" "meth = ''DELETE''" "path = ''/v1/ifaces/'' @ a @ ''/leases/'' @ b"
  | a b c where "rest = [''static-del'', a, b, c]" "meth = ''DELETE''" "path = ''/v1/ifaces/'' @ a @ ''/statics/'' @ b @ ''/'' @ c"
  using assms that unfolding ctlRequest_def by (auto split: list.splits if_splits)

lemma ctlRequest_routed:
  assumes "ctlRequest rest = Some (meth, path, hasBody)" and "\<forall>a \<in> set (tl rest). segment a"
  shows "take 1 path = ''/'' \<and> canonical (splitSlash (drop 1 path)) \<and>
    routeOf meth (splitSlash (drop 1 path)) = intended rest \<and> intended rest \<noteq> None"
  using assms(1)
proof (cases rule: ctlRequest_cases)
  case 1
  then show ?thesis by (simp add: canonical_def routeOf_def intended_def)
next
  case (2 a)
  then have "splitSlash (drop 1 path) = [''v1'', ''ifaces'', a, ''pd'', ''renew'']" "segment a"
    using assms(2) splitSlash_iface [of a "''pd/renew''"] by (simp_all add: segment_def)
  then show ?thesis using 2 unfolding segment_def by (auto simp: canonical_def routeOf_def intended_def)
next
  case (3 a)
  then have "splitSlash (drop 1 path) = [''v1'', ''ifaces'', a, ''pd'', ''release'']" "segment a"
    using assms(2) splitSlash_iface [of a "''pd/release''"] by (simp_all add: segment_def)
  then show ?thesis using 3 unfolding segment_def by (auto simp: canonical_def routeOf_def intended_def)
next
  case (4 a b)
  then have "splitSlash (drop 1 path) = [''v1'', ''ifaces'', a, ''leases'', b]" "segment a" "segment b"
    using assms(2) splitSlash_iface [of a "''leases/'' @ b"] by (simp_all add: segment_def splitSlash_segment)
  then show ?thesis using 4 unfolding segment_def by (auto simp: canonical_def routeOf_def intended_def)
next
  case (5 a b)
  then have "splitSlash (drop 1 path) = [''v1'', ''ifaces'', a, ''statics'', b]" "segment a" "segment b"
    using assms(2) splitSlash_iface [of a "''statics/'' @ b"] by (simp_all add: segment_def splitSlash_segment)
  then show ?thesis using 5 unfolding segment_def by (auto simp: canonical_def routeOf_def intended_def)
next
  case (6 a b)
  then have "splitSlash (drop 1 path) = [''v1'', ''ifaces'', a, ''statics'', b]" "segment a" "segment b"
    using assms(2) splitSlash_iface [of a "''statics/'' @ b"] by (simp_all add: segment_def splitSlash_segment)
  then show ?thesis using 6 unfolding segment_def by (auto simp: canonical_def routeOf_def intended_def)
next
  case (7 a b)
  then have "splitSlash (drop 1 path) = [''v1'', ''ifaces'', a, ''leases'', b]" "segment a" "segment b"
    using assms(2) splitSlash_iface [of a "''leases/'' @ b"] by (simp_all add: segment_def splitSlash_segment)
  then show ?thesis using 7 unfolding segment_def by (auto simp: canonical_def routeOf_def intended_def)
next
  case (8 a b c)
  then have "splitSlash (drop 1 path) = [''v1'', ''ifaces'', a, ''statics'', b, c]" "segment a" "segment b" "segment c"
    using assms(2) splitSlash_iface [of a "''statics/'' @ b @ ''/'' @ c"] splitSlash_append [of b c]
    by (simp_all add: segment_def splitSlash_segment)
  then show ?thesis using 8 unfolding segment_def by (auto simp: canonical_def routeOf_def intended_def)
qed

lemma TrimPrefix_append [simp]: "TrimPrefix (pre @ s) pre = s"
  by (simp add: TrimPrefix_def)

text \<open>A command whose arguments can be path segments is handled as what it asks for, with the key the
  client was given.\<close>

theorem ctl_reaches_handler:
  assumes "ctlRequest rest = Some (meth, path, hasBody)" and "\<forall>a \<in> set (tl rest). segment a"
  shows "\<exists>r. intended rest = Some r \<and>
    serveHTTP lib ord clock key
      \<lparr>rq_Method = meth, rq_Path = path, rq_Authorization = ''Bearer '' @ key, rq_Body = body\<rparr> x =
    handleRoute lib ord clock body r x"
  using ctlRequest_routed [OF assms] TrimPrefix_append [of "''Bearer ''" key]
  by (auto simp: serveHTTP_def auth_def mux_def Let_def simp del: append.simps)

section \<open>Properties\<close>

text \<open>C6: a daemon that comes up serves what its configuration says: one interface per entry, in order and
  under its name and with a delegation exactly where the entry asks for one, with servers that keep their invariants and a configuration fit for them (prefixes
  of the right family, a usable delegation setup, no routing table shared by two interfaces or
  reserved by the kernel), guarded by the key of the configuration, which is not empty.\<close>

theorem daemon_serves_configuration:
  assumes "runDaemon w cfgPath check = Running (m, pl) key" and "go_order (wo_order w)"
  shows "\<not> check \<and> key \<noteq> [] \<and> (\<exists>cfg cs. Load (wo_decode w) (wo_files w) cfgPath = Inr cfg \<and>
    ResolveAPIKey (wo_files w) cfg = Inr key \<and> serves cs m \<and> list_all2 answers (cf_Interfaces cfg) cs \<and>
    list_all fit cs \<and> distinct (concat (map tableOf cs)))"
proof -
  obtain cfg cs x y where r: "\<not> check" "key \<noteq> []" "Load (wo_decode w) (wo_files w) cfgPath = Inr cfg"
    "ResolveAPIKey (wo_files w) cfg = Inr key" "list_all2 answers (cf_Interfaces cfg) cs" "list_all fit cs"
    "distinct (concat (map tableOf cs))" "serves cs (fst x)" "applyStatics (wo_sorder w (InitialStatics cfg)) x = Inr y"
    "(m, pl) = StartManager (wo_json w) (wo_readable w) (wo_files w) (wo_netlink w) (wo_clock w) (wo_order w) y"
    using assms(1) by (rule runDaemon_Running)
  have "serves cs m" using StartManager_serves [OF assms(2) applyStatics_serves [OF r(9,8)]] r(10) by (metis fst_conv)
  with r show ?thesis by blast
qed


section \<open>Examples\<close>

definition entry_example :: config_Iface where
  "entry_example = \<lparr>ci_Name = ''br0'', ci_Tag = [], ci_Prefix4 = [], ci_Prefix6 = [], ci_DHCP4 = None, ci_DHCP6 = None, ci_SLAAC = True,
     ci_PD = Some \<lparr>cd_Uplink = ''wlan0'', cd_DUID = ''0003aabb'', cd_IAID = 0, cd_Suffix = [], cd_PrefixLen = 64,
       cd_RouteTable = 100, cd_RulePriority = 0, cd_InitialTimeout = 0, cd_MaxTimeout = 0, cd_Attempts = 0\<rparr>,
     ci_DNS = None, ci_RA = None, ci_Statics4 = [sb_mac_example], ci_Statics6 = []\<rparr>"

definition world_example :: "config_Iface list \<Rightarrow> (unit, kernel_example, unit, string list list) world" where
  "world_example ics = \<lparr>wo_files = (\<lambda>path. if path = ''/c'' then Some [] else None),
     wo_decode = (\<lambda>_. Some \<lparr>cf_APISocket = ''/s'', cf_APIKey = ''k'', cf_APIKeyFile = [], cf_StateFile = ''/state'', cf_Interfaces = ics\<rparr>),
     wo_json = json_example (\<lambda>_. None), wo_readable = True, wo_subscribed = True, wo_links = (\<lambda>_. None), wo_netlink = nl_example,
     wo_iptables = ipt_example, wo_clock = (\<lambda>_. 0), wo_plant = plant_example, wo_order = (\<lambda>xs. xs), wo_sorder = (\<lambda>xs. xs),
     wo_listens = True, wo_chmods = True\<rparr>"

lemma duid_example: "parseDUID ''0003aabb'' = Inr [0, 3, 0xaa, 0xbb]"
  by code_simp

definition entry2_example :: config_Iface where
  "entry2_example = entry_example\<lparr>ci_Name := ''br1'', ci_PD := map_option (\<lambda>pd. pd\<lparr>cd_RouteTable := 101\<rparr>) (ci_PD entry_example),
     ci_Statics4 := []\<rparr>"

lemma loaded_example:
  "\<exists>cfg c. loadConfig (world_example [entry_example]) ''/c'' = Inr (cfg, ''k'', [c]) \<and> cf_APISocket cfg = ''/s'' \<and>
     InitialStatics cfg = [(''br0'', [sb_mac_example], [])] \<and> ic_Name c = ''br0'' \<and> (\<exists>c'. normalizeIface c = Inr c')"
  by (simp add: loadConfig_def world_example_def Load_def ResolveAPIKey_def BuildIfaceConfigs_def entry_example_def buildIface_def
      buildPrefix_def buildDHCP4_def buildDHCP6_def buildRA_def buildPD_def duid_example claimTable_def reservedTable_def
      InitialStatics_def normalizeIface_def normalize4_def normalize6_def zeroDHCP4_def zeroDHCP6_def normalizePDConfig_def Let_def)

lemma runDaemon_example:
  "\<exists>x. runDaemon (world_example [entry_example]) ''/c'' False = Running x ''k''"
proof -
  obtain cfg c where c: "loadConfig (world_example [entry_example]) ''/c'' = Inr (cfg, ''k'', [c])" "cf_APISocket cfg = ''/s''"
    "InitialStatics cfg = [(''br0'', [sb_mac_example], [])]" "ic_Name c = ''br0''" "\<exists>c'. normalizeIface c = Inr c'"
    using loaded_example by blast
  then obtain c' where c': "normalizeIface c = Inr c'" "ic_Name c' = ''br0''" using normalizeIface_Name by metis
  have "runDaemon (world_example [entry_example]) ''/c'' False = startDaemon (world_example [entry_example]) cfg ''k'' [c]"
    by (simp add: runDaemon_def c(1))
  moreover have "\<exists>x. startDaemon (world_example [entry_example]) cfg ''k'' [c] = Running x ''k''"
    using c(2,3) c'
    by (simp add: startDaemon_def NewManager_def setIface_def world_example_def replaceNonEmpty_def
        ReplaceStatics_def editStatics_def iface_def ReplaceStatics4_def buildStaticSet_def validate_def sb_mac_example_def
        newServer_def Let_def)
  ultimately show ?thesis by simp
qed

theorem daemon_serves_configuration_witness:
  "\<exists>m pl cs. runDaemon (world_example [entry_example]) ''/c'' False = Running (m, pl) ''k'' \<and> serves cs m \<and> list_all fit cs \<and>
     mg_order m = [''br0'']"
proof -
  obtain m pl where r: "runDaemon (world_example [entry_example]) ''/c'' False = Running (m, pl) ''k''"
    using runDaemon_example by auto
  have "go_order (wo_order (world_example [entry_example]))" by (simp add: world_example_def)
  from daemon_serves_configuration [OF r this] obtain cfg cs where
    "Load (wo_decode (world_example [entry_example])) (wo_files (world_example [entry_example])) ''/c'' = Inr cfg"
    "serves cs m" "list_all fit cs" "list_all2 answers (cf_Interfaces cfg) cs" by blast
  moreover from this have "mg_order m = [''br0'']"
    by (auto simp: Load_def world_example_def entry_example_def serves_def list_all2_Cons1 answers_def)
  ultimately show ?thesis using r by blast
qed

text \<open>A configuration that passes \<^verbatim>\<open>--check\<close> may still be refused at the start: two entries of the same
  name, like a missing uplink or an empty pool, are only found by the manager.\<close>

lemma check_accepts_unusable:
  "let w = world_example [entry_example, entry_example\<lparr>ci_PD := None\<rparr>]
   in runDaemon w ''/c'' True = Exit 0 \<and> runDaemon w ''/c'' False = Exit 1"
proof -
  have "\<exists>cfg c c2. loadConfig (world_example [entry_example, entry_example\<lparr>ci_PD := None\<rparr>]) ''/c'' = Inr (cfg, ''k'', [c, c2]) \<and>
     ic_Name c = ''br0'' \<and> ic_Name c2 = ''br0''"
    by (simp add: loadConfig_def world_example_def Load_def ResolveAPIKey_def BuildIfaceConfigs_def entry_example_def buildIface_def
        buildPrefix_def buildDHCP4_def buildDHCP6_def buildRA_def buildPD_def duid_example claimTable_def reservedTable_def Let_def)
  then obtain cfg c c2 where c: "loadConfig (world_example [entry_example, entry_example\<lparr>ci_PD := None\<rparr>]) ''/c'' = Inr (cfg, ''k'', [c, c2])"
    "ic_Name c = ''br0''" "ic_Name c2 = ''br0''" by blast
  have "addIfaces links [c, c2] \<lparr>mg_ifaces = [], mg_order = []\<rparr> \<noteq> Inr (m :: unit Manager)" for links m
    using c(2,3) addIfaces_fresh [of links "[c, c2]" m] by (auto simp del: addIfaces.simps)
  then show ?thesis
    using c(1) by (auto simp: runDaemon_def startDaemon_def NewManager_def Let_def simp del: addIfaces.simps split: sum.splits)
qed

end
