(* ===== verification/Durable.thy ===== *)
theory Durable
  imports Manager
begin

text \<open>
  That no change gets lost on its way to the state file: the hooks of the lease tables, the marks of the
  API operations and of the delegation callbacks together cover every step of an interface that
  changes what is persisted.
\<close>

section \<open>Lease tables report their changes\<close>

text \<open>With the hook installed, a table that made no call is unchanged.\<close>

definition noted :: "leaseTable \<Rightarrow> leaseTable \<Rightarrow> bool" where
  "noted t t' \<longleftrightarrow> lt_changed t' = lt_changed t \<and>
     (lt_changed t \<longrightarrow> lt_notified t' = lt_notified t \<longrightarrow> lt_leases t' = lt_leases t)"

lemma noted_refl [simp]: "noted t t"
  by (simp add: noted_def)

lemma noted_notify [simp]: "noted t (notify (t\<lparr>lt_leases := ls\<rparr>))"
  by (simp add: noted_def notify_def)

lemma noted_table:
  "noted t (lt_set t l)" "noted t (snd (lt_release t ip))" "noted t (snd (allocate now t start stop skip l))"
  "noted t (expireSweep now t)"
proof -
  show "noted t (expireSweep now t)"
  proof (cases "length (filter (\<lambda>(_, l). \<not> lease_Expiry l < now) (lt_leases t)) < length (lt_leases t)")
    case False
    then have "filter (\<lambda>(_, l). \<not> lease_Expiry l < now) (lt_leases t) = lt_leases t"
      using length_filter_less [of _ "lt_leases t"] by (metis filter_id_conv)
    then show ?thesis by (simp add: expireSweep_def noted_def)
  qed (simp add: expireSweep_def Let_def)
qed (simp_all add: lt_set_def lt_release_def allocate_def Let_def)

lemma noted_choose: "noted t (snd (chooseAddr ord now t bindings prefix off1 off2 rip lease))"
  by (simp add: chooseAddr_def chooseDynamic_def choosePool_def Let_def noted_table split: option.splits)

lemma noted_frame4:
  assumes "handleFrame4 ord lib now e s pkt = (b, s', out)"
  shows "noted (s4_leases s) (s4_leases s') \<and> s4_statics s' = s4_statics s"
  using assms
proof (cases rule: handleFrame4_cases)
  case (handled prefix req)
  have "noted t t'" if "lease_effect4 ord now prefix req t t'" for t t'
    using that
  proof cases
    case select
    then show ?thesis using noted_choose by (metis snd_conv selectIP_chooseAddr)
  qed (simp_all add: noted_table)
  then show ?thesis using handleMessage4_effect [OF handled(8)] by blast
qed simp

lemma noted_frame6:
  assumes "handleFrame6 ord lib now e s pkt = (b, s', out)"
  shows "noted (s6_leases s) (s6_leases s') \<and> s6_statics s' = s6_statics s"
  using assms
proof (cases rule: handleFrame6_cases)
  case (handled prefix msg clientID)
  have "noted t t'" if "lease_effect6 ord now prefix key t t'" for key t t'
    using that
  proof cases
    case select
    then show ?thesis using noted_choose by (metis snd_conv selectIP6_chooseAddr)
  qed (simp_all add: noted_table)
  then show ?thesis using handleMessage6_effect [OF handled(8)] by blast
qed simp

section \<open>Steps of an interface\<close>

text \<open>What a save writes of an interface, but for the times of the delegation.\<close>

definition kept :: "'d Iface \<Rightarrow> (string, static_binding) gomap \<times> (string, static_binding) gomap \<times>
    (addr, lease) gomap \<times> (addr, lease) gomap \<times> prefix option" where
  "kept it = (s4_statics (if_d4 it), s6_statics (if_d6 it), lt_leases (s4_leases (if_d4 it)),
     lt_leases (s6_leases (if_d6 it)), delegated it)"

definition tracked :: "'d Iface \<Rightarrow> bool" where
  "tracked it \<longleftrightarrow> hooked it \<and> (if_pdc it \<noteq> None \<longrightarrow> ic_PD (if_cfg it) \<noteq> None)"

definition records :: "'d Iface \<times> ('k, 'i) plant \<Rightarrow> 'd Iface \<times> ('k, 'i) plant \<Rightarrow> bool" where
  "records = (\<lambda>(it, pl) (it', pl').
     tracked it' \<and> (kept it' = kept it \<or> pl_store pl' = markDirty (pl_store pl)))"

lemma markDirty_idem [simp]: "markDirty (markDirty s) = markDirty s"
  by (simp add: markDirty_def)

text \<open>Operations on the two servers, reported by \<open>relay\<close>.\<close>

lemma records_relay:
  assumes "tracked it" and "noted (s4_leases (if_d4 it)) (s4_leases d4)" "s4_statics d4 = s4_statics (if_d4 it)"
    and "noted (s6_leases (if_d6 it)) (s6_leases d6)" "s6_statics d6 = s6_statics (if_d6 it)"
    and "it' = it\<lparr>if_d4 := d4, if_d6 := d6, if_ra := ra\<rparr>"
  shows "records (it, pl) (it', relay it it' pl)"
proof -
  have "tracked it'" using assms by (simp add: tracked_def hooked_def noted_def)
  moreover have "kept it' = kept it \<or> pl_store (relay it it' pl) = markDirty (pl_store pl)"
    using assms by (auto simp: tracked_def hooked_def noted_def kept_def delegated_def relay_def markPlant_def)
  ultimately show ?thesis by (simp add: records_def)
qed

text \<open>Operations that touch neither.\<close>

lemma records_frame:
  assumes "tracked it" and "if_d4 it' = if_d4 it" "if_d6 it' = if_d6 it" "if_pdc it' = if_pdc it" "if_cfg it' = if_cfg it"
  shows "records (it, pl) (it', pl')"
  using assms by (simp add: records_def tracked_def hooked_def kept_def delegated_def)

lemma records_statics:
  assumes "tracked it" and "s4_leases d4 = s4_leases (if_d4 it)" and "s6_leases d6 = s6_leases (if_d6 it)"
  shows "records (it, pl) (it\<lparr>if_d4 := d4, if_d6 := d6\<rparr>, markPlant pl)"
  using assms by (simp add: records_def tracked_def hooked_def markPlant_def)

lemma onPDChange_marks:
  assumes "onPDChange nl p ok (it, pl) = (it', pl')" and "tracked it" and "if_pdc it \<noteq> None"
  shows "tracked it' \<and> if_pdc it' = if_pdc it \<and> pl_store pl' = markDirty (pl_store pl)"
  using assms
  by (auto simp: onPDChange_def on_routes_def on_host_def Emit_def markPlant_def tracked_def hooked_def Let_def
      split: option.splits prod.splits if_splits)

lemma deliver_marks:
  "deliver nl calls (it, pl) = (it', pl') \<Longrightarrow> tracked it \<Longrightarrow> if_pdc it \<noteq> None \<Longrightarrow> calls \<noteq> [] \<Longrightarrow>
     tracked it' \<and> pl_store pl' = markDirty (pl_store pl)"
proof (induction calls arbitrary: it pl)
  case (Cons c calls)
  obtain it1 pl1 where c: "onPDChange nl (fst c) (snd c) (it, pl) = (it1, pl1)" by fastforce
  note m = onPDChange_marks [OF c Cons.prems(2,3)]
  have d: "deliver nl calls (it1, pl1) = (it', pl')" using Cons.prems(1) c by (simp add: deliver_def case_prod_beta)
  show ?case
  proof (cases "calls = []")
    case True
    then show ?thesis using m d by (simp add: deliver_def)
  next
    case False
    then show ?thesis using Cons.IH [OF d] m Cons.prems(3) by simp
  qed
qed simp

lemma pdIteration_records:
  assumes p: "pdIteration nl lib w (loc, it, pl) = Some (loc', it', pl')" and "tracked it"
  shows "records (it, pl) (it', pl')"
proof -
  obtain c c' where c: "if_pdc it = Some c" "pdNext lib w (loc, c\<lparr>cl_calls := []\<rparr>) = Some (loc', c')"
    "deliver nl (cl_calls c') (it\<lparr>if_pdc := Some c'\<rparr>, pl) = (it', pl')"
    using p by (auto simp: pdIteration_def split: option.splits)
  have t: "tracked (it\<lparr>if_pdc := Some c'\<rparr>)" using assms(2) c(1) by (simp add: tracked_def hooked_def)
  show ?thesis
  proof (cases "cl_calls c' = []")
    case True
    have "consistent (delegated it) (c\<lparr>cl_calls := []\<rparr>)" by (simp add: consistent_def delegated_def c(1))
    from pdNext_consistent [OF c(2) this] True have "map_option bd_Prefix (cl_binding c') = delegated it"
      by (simp add: consistent_def)
    moreover have "it' = it\<lparr>if_pdc := Some c'\<rparr>" using c(3) True by (simp add: deliver_def)
    ultimately show ?thesis using t by (simp add: records_def kept_def delegated_def)
  next
    case False
    then show ?thesis using deliver_marks [OF c(3) t] by (simp add: records_def)
  qed
qed

lemma readFrame_records:
  assumes "readFrame ord rord lib4 lib6 now recv it = (it', out)" and "tracked it"
  shows "records (it, pl) (it', relay it it' pl)"
proof (cases "Parse (take 2048 recv)")
  case None
  then have "it' = it" using assms(1) by (simp add: readFrame_def)
  then show ?thesis using records_frame [OF assms(2), of it] by blast
next
  case (Some pkt)
  obtain b4 d4 out4 where h4: "handleFrame4 ord lib4 now (ifaceEnv it) (if_d4 it) pkt = (b4, d4, out4)" by (metis prod_cases3)
  let ?it4 = "it\<lparr>if_d4 := d4\<rparr>"
  obtain b6 d6 out6 where h6: "handleFrame6 ord lib6 now (ifaceEnv ?it4) (if_d6 ?it4) pkt = (b6, d6, out6)" by (metis prod_cases3)
  let ?it6 = "?it4\<lparr>if_d6 := d6\<rparr>"
  obtain b ra outRA where hra: "handleFrameRA rord (ifaceEnv ?it6) (if_ra ?it6) pkt = (b, ra, outRA)" by (metis prod_cases3)
  have "it' = it\<lparr>if_d4 := d4, if_d6 := (if b4 then if_d6 it else d6), if_ra := (if b4 \<or> b6 then if_ra it else ra)\<rparr>"
    using assms(1) Some h4 h6 hra by (auto simp: readFrame_def Let_def)
  from records_relay [OF assms(2) _ _ _ _ this] show ?thesis using noted_frame4 [OF h4] noted_frame6 [OF h6] by (cases b4) auto
qed

lemma iface_step_records:
  assumes "iface_step nl ipt lib4 lib6 libpd (loc, it, pl) (loc', it', pl')" and t: "tracked it"
  shows "records (it, pl) (it', pl')"
  using assms(1)
proof cases
  case (frame ord rord now recv out)
  then show ?thesis using readFrame_records [OF _ t] by blast
next
  case (sweep4 now)
  then show ?thesis using records_relay [OF t, of "sweep4 now (if_d4 it)" "if_d6 it" it' "if_ra it"]
    by (simp add: sweep4_def noted_table)
next
  case (sweep6 now)
  then show ?thesis using records_relay [OF t, of "if_d4 it" "sweep6 now (if_d6 it)" it' "if_ra it"]
    by (simp add: sweep6_def noted_table)
next
  case (statics4 b d4 bs i)
  then show ?thesis using records_statics [OF t, of d4 "if_d6 it"] by (auto dest: statics_leases)
next
  case (statics6 b d6 bs i)
  then show ?thesis using records_statics [OF t, of "if_d4 it" d6] by (auto dest: statics_leases)
next
  case (release4 ip d4)
  then show ?thesis using records_relay [OF t, of d4 "if_d6 it" it' "if_ra it"] noted_table(2) [of "s4_leases (if_d4 it)" ip]
    by (auto simp: ReleaseLease4_def split: prod.splits if_splits)
next
  case (release6 ip d6)
  then show ?thesis using records_relay [OF t, of "if_d4 it" d6 it' "if_ra it"] noted_table(2) [of "s6_leases (if_d6 it)" ip]
    by (auto simp: ReleaseLease6_def split: prod.splits if_splits)
next
  case (delegation w)
  then show ?thesis using pdIteration_records [OF _ t] by blast
qed (use t in \<open>auto intro!: records_frame simp: attach_def detach_def watchRound_def startIface_def on_routes_def startDNS_def
  applyDNAT_def Let_def split: prod.splits option.splits if_splits sum.splits\<close>)

lemma restore_tracked:
  assumes "restore nl now p (it, pl) = (it', pl')" and "tracked it"
  shows "tracked it'"
proof -
  have s: "tracked (restoreServers q it)" for q
    using assms(2) by (auto simp: tracked_def hooked_def restoreServers_def lt_load_def Let_def ReplaceStatics4_def ReplaceStatics6_def
        split: sum.splits)
  from assms(1) show ?thesis
  proof (cases rule: restore_cases)
    case (live q c b)
    let ?it = "(restoreServers q it)\<lparr>if_pdc := Some (Restore now c b)\<rparr>"
    have "tracked ?it" using s [of q] assms(2) live(2) by (auto simp: tracked_def hooked_def restoreServers_frame)
    then show ?thesis using onPDChange_marks [OF live(5)] by simp
  next
    case (over q c b)
    then show ?thesis using s [of q] assms(2) by (auto simp: tracked_def hooked_def restoreServers_frame)
  qed (use s assms(2) in auto)
qed

lemma iface_run_tracked:
  "(iface_step nl ipt lib4 lib6 libpd)\<^sup>*\<^sup>* (loc, it, pl) (loc', it', pl') \<Longrightarrow> tracked it \<Longrightarrow> tracked it'"
proof (induction "(loc', it', pl')" arbitrary: loc' it' pl' rule: rtranclp_induct)
  case (step y)
  obtain l i q where y: "y = (l, i, q)" by (metis prod_cases3)
  with step show ?case using iface_step_records [of nl ipt lib4 lib6 libpd l i q] by (auto simp: records_def)
qed simp

lemma newIface_tracked: "tracked (newIface link cfg)"
  by (simp add: tracked_def hooked_def newIface_def)

section \<open>Properties\<close>

text \<open>C9: no change gets lost on its way to the state file. In every state an interface reaches, a step that changes
  a static binding, a lease or the delegated prefix leaves a save scheduled, unless there is no
  state file.\<close>

theorem changes_are_recorded:
  assumes "restore nl now p (newIface link cfg, pl) = (it0, pl0)"
    and "(iface_step nl ipt lib4 lib6 libpd)\<^sup>*\<^sup>* (LRun, it0, pl0) (loc, it, pl1)"
    and "iface_step nl ipt lib4 lib6 libpd (loc, it, pl1) (loc', it', pl2)"
    and "kept it' \<noteq> kept it"
  shows "ss_path (pl_store pl2) = [] \<or> ss_pending (pl_store pl2)"
proof -
  have "tracked it" using iface_run_tracked [OF assms(2)] restore_tracked [OF assms(1) newIface_tracked] by blast
  from iface_step_records [OF assms(3) this] assms(4) have "pl_store pl2 = markDirty (pl_store pl1)"
    by (simp add: records_def)
  then show ?thesis by (simp add: markDirty_def)
qed

theorem changes_are_recorded_witness:
  "\<exists>d4. PutStatic4 (if_d4 iface_example) sb_mac_example = Inr d4 \<and> kept (iface_example\<lparr>if_d4 := d4\<rparr>) \<noteq> kept iface_example \<and>
     (ss_path (pl_store (markPlant plant_example)) = [] \<or> ss_pending (pl_store (markPlant plant_example)))"
proof -
  obtain d4 where d4: "PutStatic4 (if_d4 iface_example) sb_mac_example = Inr d4" "s4_statics d4 = [(''vm1'', sb_mac_example)]"
    by (simp add: PutStatic4_def sb_mac_example_def validate_def iface_example_def newIface_def newDHCP4Server_def)
  then have k: "kept (iface_example\<lparr>if_d4 := d4\<rparr>) \<noteq> kept iface_example"
    by (simp add: kept_def iface_example_def newIface_def newDHCP4Server_def)
  have step: "ifstep_example (LRun, iface_example, plant_example) (LRun, iface_example\<lparr>if_d4 := d4\<rparr>, markPlant plant_example)"
    using iface_step.statics4 d4(1) by blast
  have r: "restore nl_example 0 None (newIface None ifcfg_example, plant_example) = (iface_example, plant_example)"
    by (simp add: restore_def iface_example_def)
  from changes_are_recorded [OF r rtranclp.rtrancl_refl step k] d4(1) k show ?thesis by blast
qed

end
