(* ===== verification/Fleet.thy ===== *)
theory Fleet
  imports Daemon Durable
begin

text \<open>
  All interfaces of a daemon together. They share the kernel, the sysctls, the packet filter and the
  store, and each of them is driven by its own goroutines: a step of the manager is a step of one
  interface, an operation of the control API, a save coming due, or a change of the kernel by somebody
  else. An interface guarantees to alter nothing but its own link and its own routing table, and
  relies on everybody else leaving these alone.
\<close>

section \<open>What an interface may alter\<close>

text \<open>From \<open>k\<close> to \<open>k'\<close> only the addresses of link \<open>i\<close> and the rules and routes of table \<open>T\<close> have changed; the
  kernel may have changed routes of its main and local tables on its own.\<close>

definition alters :: "('k, 'o) netlink \<Rightarrow> int \<Rightarrow> int \<Rightarrow> 'k \<Rightarrow> 'k \<Rightarrow> bool" where
  "alters nl i T k k' \<longleftrightarrow>
     nl_LinkByName nl k' = nl_LinkByName nl k \<and>
     (\<forall>j. j \<noteq> i \<longrightarrow> nl_AddrList nl k' j = nl_AddrList nl k j) \<and>
     (\<forall>ru. ru_Table ru \<noteq> T \<longrightarrow> ru \<in> rulesOf nl k' \<longleftrightarrow> ru \<in> rulesOf nl k) \<and>
     (\<forall>rt. ro_Table rt \<notin> {T, 254, 255} \<longrightarrow> rt \<in> routesOf nl k' \<longleftrightarrow> rt \<in> routesOf nl k)"

lemma alters_refl [simp]: "alters nl i T k k"
  by (simp add: alters_def)

lemma altersD:
  assumes "alters nl i T k k'"
  shows "nl_LinkByName nl k' = nl_LinkByName nl k" "j \<noteq> i \<Longrightarrow> nl_AddrList nl k' j = nl_AddrList nl k j"
    "ru_Table ru \<noteq> T \<Longrightarrow> ru \<in> rulesOf nl k' \<longleftrightarrow> ru \<in> rulesOf nl k"
    "ro_Table rt \<notin> {T, 254, 255} \<Longrightarrow> rt \<in> routesOf nl k' \<longleftrightarrow> rt \<in> routesOf nl k"
  using assms unfolding alters_def by blast+

lemma altersI:
  assumes "nl_LinkByName nl k' = nl_LinkByName nl k" "\<And>j. j \<noteq> i \<Longrightarrow> nl_AddrList nl k' j = nl_AddrList nl k j"
    "\<And>ru. ru_Table ru \<noteq> T \<Longrightarrow> ru \<in> rulesOf nl k' \<longleftrightarrow> ru \<in> rulesOf nl k"
    "\<And>rt. ro_Table rt \<notin> {T, 254, 255} \<Longrightarrow> rt \<in> routesOf nl k' \<longleftrightarrow> rt \<in> routesOf nl k"
  shows "alters nl i T k k'"
  unfolding alters_def by (intro conjI allI impI) (fact assms)+

lemma alters_trans:
  assumes a: "alters nl i T k1 k2" and b: "alters nl i T k2 k3"
  shows "alters nl i T k1 k3"
  by (rule altersI) (simp_all add: altersD [OF a] altersD [OF b])

lemma alters_addr:
  assumes nl: "netlink_addrs nl" and "nl_LinkByName nl k name = Some i"
  shows "alters nl i T k (addAddr nl name p k)" "alters nl i T k (removeAddr nl name p k)"
proof -
  note n = netlink_addr [OF nl]
  show "alters nl i T k (addAddr nl name p k)"
    unfolding addAddr_def assms(2) option.case by (rule altersI) (use n(3,5,7,11) in auto)
  show "alters nl i T k (removeAddr nl name p k)"
    unfolding removeAddr_def assms(2) option.case by (rule altersI) (use n(4,6,8,12) in auto)
qed

text \<open>Operations on the table of a segment.\<close>

lemma alters_table:
  assumes "netlink_addrs nl" "same_links nl k k'"
    and "{ru \<in> rulesOf nl k'. ru_Table ru \<noteq> T} = {ru \<in> rulesOf nl k. ru_Table ru \<noteq> T}"
    and "{rt \<in> routesOf nl k'. ro_Table rt \<noteq> T} = {rt \<in> routesOf nl k. ro_Table rt \<noteq> T}"
  shows "alters nl i T k k'"
  using assms(2-) by (auto simp: alters_def same_links_def)

lemma untouched_links:
  assumes "netlink_addrs nl"
  shows "same_links nl k (flushTableLocked nl cfg (wipeRulesLocked nl cfg keep k))"
    "same_links nl k (syncDefaultLocked nl r k)" "same_links nl k (installKernel nl r p k)"
proof -
  note u = netlink_addr(9,10) [OF assms]
  show "same_links nl k (flushTableLocked nl cfg (wipeRulesLocked nl cfg keep k))"
    by (simp add: same_links_def flushTableLocked_def untouched_table [OF u(1)] untouched_table [OF u(2)])
  show "same_links nl k (syncDefaultLocked nl r k)"
    by (simp add: same_links_def untouched_sync [OF u(1)] untouched_sync [OF u(2)])
  show "same_links nl k (installKernel nl r p k)"
    by (simp add: same_links_def untouched_install [OF u(1)] untouched_install [OF u(2)])
qed

lemma alters_wiped:
  assumes nl: "netlink_ok nl" "netlink_addrs nl" and T: "pr_Table cfg = T" "T \<noteq> 0"
  shows "alters nl i T k (flushTableLocked nl cfg (wipeRulesLocked nl cfg ZeroPrefix k))"
  by (rule alters_table [OF nl(2) untouched_links(1) [OF nl(2)]]) (use wipe_all_effect [OF nl(1)] T in auto)

lemma alters_synced:
  assumes nl: "netlink_ok nl" "netlink_addrs nl" and T: "pr_Table (rr_cfg r) = T" "T \<noteq> 0"
  shows "alters nl i T k (syncDefaultLocked nl r k)"
  by (rule alters_table [OF nl(2) untouched_links(2) [OF nl(2)]]) (use syncDefault_effect(1,2) [OF nl(1), where r = r and k = k] T in auto)

lemma alters_installed:
  assumes nl: "netlink_ok nl" "netlink_addrs nl" and T: "pr_Table (rr_cfg r) = T" "T \<noteq> 0"
    and "proper6 p" and "nl_LinkByName nl k (pr_Iface (rr_cfg r)) = Some i"
  shows "alters nl j T k (installKernel nl r p k)"
  using installKernel_effect(4,7) [OF nl(1) _ assms(5,6)] T
  by (intro alters_table [OF nl(2) untouched_links(3) [OF nl(2)]]) auto

text \<open>What an operation on a segment keeps of its configuration, and what of the kernel.\<close>

definition tame :: "('k, 'o) netlink \<Rightarrow> (Routes \<times> 'k host \<Rightarrow> Routes \<times> 'k host) \<Rightarrow> bool" where
  "tame nl f \<longleftrightarrow> (\<forall>r h r' h' i T. f (r, h) = (r', h') \<longrightarrow> pr_Table (rr_cfg r) = T \<longrightarrow> T \<noteq> 0 \<longrightarrow>
     nl_LinkByName nl (ho_kernel h) (pr_Iface (rr_cfg r)) = Some i \<longrightarrow>
     rr_cfg r' = rr_cfg r \<and> alters nl i T (ho_kernel h) (ho_kernel h'))"

lemma tame_Start: "netlink_ok nl \<Longrightarrow> netlink_addrs nl \<Longrightarrow> tame nl (Start nl)"
  by (auto simp: tame_def Start_def ensureStartedLocked_def Let_def alters_wiped split: if_splits)

lemma clearLocked_tame:
  "netlink_ok nl \<Longrightarrow> netlink_addrs nl \<Longrightarrow> clearLocked nl (r, h) = (r', h') \<Longrightarrow> pr_Table (rr_cfg r) = T \<Longrightarrow> T \<noteq> 0 \<Longrightarrow>
    rr_cfg r' = rr_cfg r \<and> rr_started r' = rr_started r \<and> alters nl i T (ho_kernel h) (ho_kernel h')"
  by (auto simp: clearLocked_def Let_def alters_wiped split: if_splits)

lemma tame_Clear: "netlink_ok nl \<Longrightarrow> netlink_addrs nl \<Longrightarrow> tame nl (Clear nl)"
  unfolding tame_def Clear_def using clearLocked_tame by blast

lemma tame_Stop:
  assumes nl: "netlink_ok nl" "netlink_addrs nl"
  shows "tame nl (Stop nl)"
  unfolding tame_def
proof (intro allI impI)
  fix r h r' h' i T
  assume s: "Stop nl (r, h) = (r', h')" "pr_Table (rr_cfg r) = T" "T \<noteq> 0"
  obtain r1 h1 where c: "clearLocked nl (r\<lparr>rr_stopped := True\<rparr>, h) = (r1, h1)" by fastforce
  show "rr_cfg r' = rr_cfg r \<and> alters nl i T (ho_kernel h) (ho_kernel h')"
    using clearLocked_tame [OF nl c, of T i] s c by (auto simp: Stop_def Let_def split: if_splits)
qed

lemma tame_Install:
  assumes nl: "netlink_ok nl" "netlink_addrs nl" and p: "proper6 p"
  shows "tame nl (Install nl p)"
  unfolding tame_def
proof (intro allI impI)
  fix r h r' h' i T
  assume s: "Install nl p (r, h) = (r', h')" "pr_Table (rr_cfg r) = T" "T \<noteq> 0"
    "nl_LinkByName nl (ho_kernel h) (pr_Iface (rr_cfg r)) = Some i"
  obtain r1 h1 where e: "Start nl (r, h) = (r1, h1)" by fastforce
  have k1: "rr_cfg r1 = rr_cfg r" "alters nl i T (ho_kernel h) (ho_kernel h1)"
    using tame_Start [OF nl] e s(2-4) by (auto simp: tame_def)
  then have "nl_LinkByName nl (ho_kernel h1) (pr_Iface (rr_cfg r)) = Some i" using s(4) by (simp add: alters_def)
  then have "alters nl i T (ho_kernel h1) (installKernel nl (r1\<lparr>rr_prefix := p\<rparr>) p (ho_kernel h1))"
    using alters_installed [OF nl _ s(3) p, of "r1\<lparr>rr_prefix := p\<rparr>"] k1(1) s(2) by simp
  with k1 s(1) e show "rr_cfg r' = rr_cfg r \<and> alters nl i T (ho_kernel h) (ho_kernel h')"
    by (auto simp: Install_def Start_def Let_def intro: alters_trans split: if_splits)
qed

section \<open>The guarantee of one interface\<close>

text \<open>The interface is on link \<open>i\<close>, and its segment, if it has one, owns table \<open>T\<close>.\<close>

definition placed :: "('k, 'o) netlink \<Rightarrow> int \<Rightarrow> int \<Rightarrow> 'd Iface \<times> ('k, 'i) plant \<Rightarrow> bool" where
  "placed nl i T = (\<lambda>(it, pl). nl_LinkByName nl (ho_kernel (pl_host pl)) (ic_Name (if_cfg it)) = Some i \<and>
     (\<forall>r. if_pdr it = Some r \<longrightarrow> pr_Iface (rr_cfg r) = ic_Name (if_cfg it) \<and> pr_Table (rr_cfg r) = T \<and> T \<noteq> 0))"

text \<open>A step that keeps the place and alters nothing beyond it.\<close>

definition confined :: "('k, 'o) netlink \<Rightarrow> int \<Rightarrow> int \<Rightarrow> 'd Iface \<times> ('k, 'i) plant \<Rightarrow> 'd Iface \<times> ('k, 'i) plant \<Rightarrow> bool" where
  "confined nl i T x y \<longleftrightarrow> placed nl i T y \<and> if_cfg (fst y) = if_cfg (fst x) \<and>
     alters nl i T (ho_kernel (pl_host (snd x))) (ho_kernel (pl_host (snd y)))"

lemma confined_trans: "confined nl i T x y \<Longrightarrow> confined nl i T y z \<Longrightarrow> confined nl i T x z"
  by (auto simp: confined_def intro: alters_trans)

lemma confined_on_routes:
  assumes "tame nl f" and "placed nl i T x"
  shows "confined nl i T x (on_routes f x)"
proof -
  obtain it pl where x: "x = (it, pl)" by fastforce
  show ?thesis
  proof (cases "if_pdr it")
    case (Some r)
    obtain r' h' where f: "f (r, pl_host pl) = (r', h')" by fastforce
    have "rr_cfg r' = rr_cfg r \<and> alters nl i T (ho_kernel (pl_host pl)) (ho_kernel h')"
      using assms f Some by (auto simp: tame_def placed_def x)
    then show ?thesis using assms(2) f Some by (auto simp: confined_def placed_def on_routes_def x alters_def)
  qed (use assms(2) in \<open>simp add: confined_def on_routes_def x\<close>)
qed

lemma confined_addr:
  assumes "netlink_addrs nl" and "placed nl i T (it, pl)" and "name = ic_Name (if_cfg it)"
  shows "confined nl i T (it, pl) (it, on_host (on_kernel (addAddr nl name p)) pl)"
    "confined nl i T (it, pl) (it, on_host (on_kernel (removeAddr nl name p)) pl)"
  using alters_addr [OF assms(1), of "ho_kernel (pl_host pl)" name i T p] assms(2,3)
  by (auto simp: confined_def placed_def alters_def)

text \<open>Fields that have nothing to do with the place.\<close>

lemma confined_cong:
  assumes "placed nl i T (it, pl)" and "if_cfg it' = if_cfg it" "if_pdr it' = if_pdr it" "pl_host pl' = pl_host pl"
  shows "confined nl i T (it, pl) (it', pl')"
  using assms by (simp add: confined_def placed_def)

lemma confined_placed: "confined nl i T x y \<Longrightarrow> placed nl i T y"
  by (simp add: confined_def)

lemma onPDChange_confined:
  assumes nl: "netlink_ok nl" "netlink_addrs nl" and pd: "ic_PD (if_cfg it) = Some pd" "pd_ok pd"
    and x: "placed nl i T (it, pl)" and c: "onPDChange nl p ok (it, pl) = (it', pl')"
  shows "confined nl i T (it, pl) (it', pl')"
proof (cases ok)
  case True
  let ?addr = "composePD pd p" and ?name = "ic_Name (if_cfg it)"
  define pl1 where "pl1 = on_host (on_kernel (addAddr nl ?name ?addr)) pl"
  obtain it2 pl2 where r: "on_routes (Install nl (Masked ?addr)) (it\<lparr>if_pdAddr := ?addr\<rparr>, pl1) = (it2, pl2)" by fastforce
  have 0: "confined nl i T (it, pl) (it\<lparr>if_pdAddr := ?addr\<rparr>, pl)" by (rule confined_cong [OF x]) simp_all
  have 1: "confined nl i T (it, pl) (it\<lparr>if_pdAddr := ?addr\<rparr>, pl1)"
    unfolding pl1_def by (rule confined_trans [OF 0 confined_addr(1) [OF nl(2) confined_placed [OF 0]]]) simp
  from confined_trans [OF 1 confined_on_routes [OF tame_Install [OF nl proper6_routed [OF pd(2), of p]] confined_placed [OF 1]]]
  have 2: "confined nl i T (it, pl) (it2, pl2)" unfolding r .
  have "confined nl i T (it2, pl2) (it', pl')"
    by (rule confined_cong [OF confined_placed [OF 2]]) (use c True pd(1) r in \<open>auto simp: onPDChange_def Let_def pl1_def\<close>)
  with 2 show ?thesis by (rule confined_trans)
next
  case False
  let ?addr = "if_pdAddr it" and ?name = "ic_Name (if_cfg it)"
  obtain it1 pl1 where r: "on_routes (Clear nl) (it\<lparr>if_pdAddr := ZeroPrefix\<rparr>, pl) = (it1, pl1)" by fastforce
  have 0: "confined nl i T (it, pl) (it\<lparr>if_pdAddr := ZeroPrefix\<rparr>, pl)" by (rule confined_cong [OF x]) simp_all
  from confined_trans [OF 0 confined_on_routes [OF tame_Clear [OF nl] confined_placed [OF 0]]]
  have 1: "confined nl i T (it, pl) (it1, pl1)" unfolding r .
  then have n: "?name = ic_Name (if_cfg it1)" by (simp add: confined_def)
  define pl2 where "pl2 = (if PfxIsValid ?addr then on_host (on_kernel (removeAddr nl ?name ?addr)) pl1 else pl1)"
  have "confined nl i T (it1, pl1) (it1, pl2)"
    using confined_addr(2) [OF nl(2) confined_placed [OF 1] n] confined_cong [OF confined_placed [OF 1]] by (simp add: pl2_def)
  from confined_trans [OF 1 this] have 2: "confined nl i T (it, pl) (it1, pl2)" .
  have "confined nl i T (it1, pl2) (it', pl')"
    by (rule confined_cong [OF confined_placed [OF 2]]) (use c False pd(1) r in \<open>auto simp: onPDChange_def Let_def pl2_def\<close>)
  with 2 show ?thesis by (rule confined_trans)
qed

lemma deliver_confined:
  assumes nl: "netlink_ok nl" "netlink_addrs nl" and pd: "ic_PD cfg = Some pd" "pd_ok pd"
  shows "if_cfg (fst x) = cfg \<Longrightarrow> placed nl i T x \<Longrightarrow> confined nl i T x (deliver nl calls x)"
proof (induction calls arbitrary: x)
  case Nil
  then show ?case by (simp add: deliver_def confined_def)
next
  case (Cons call calls)
  obtain it' pl' where c: "onPDChange nl (fst call) (snd call) x = (it', pl')" by fastforce
  have 1: "confined nl i T x (it', pl')"
    using onPDChange_confined [OF nl _ pd(2), of "fst x" i T "snd x"] Cons.prems pd(1) c by simp
  have "confined nl i T (it', pl') (deliver nl calls (it', pl'))"
    by (rule Cons.IH) (use 1 Cons.prems(1) in \<open>simp_all add: confined_def\<close>)
  from confined_trans [OF 1 this] c show ?case by (simp add: deliver_def case_prod_beta)
qed

lemma deliver_pdc: "if_pdc (fst (deliver nl calls x)) = if_pdc (fst x)"
proof (induction calls arbitrary: x)
  case (Cons call calls)
  from Cons [of "onPDChange nl (fst call) (snd call) x"] show ?case by (simp add: deliver_def case_prod_beta onPDChange_pdc)
qed (simp add: deliver_def)

lemma pdIteration_confined:
  assumes nl: "netlink_ok nl" "netlink_addrs nl" and pd: "ic_PD (if_cfg it) = Some pd" "pd_ok pd"
    and x: "placed nl i T (it, pl)" and p: "pdIteration nl lib w (loc, it, pl) = Some (loc', it', pl')"
  shows "confined nl i T (it, pl) (it', pl')"
proof -
  obtain c' where c: "deliver nl (cl_calls c') (it\<lparr>if_pdc := Some c'\<rparr>, pl) = (it', pl')"
    using p by (auto simp: pdIteration_def split: option.splits)
  have 1: "confined nl i T (it, pl) (it\<lparr>if_pdc := Some c'\<rparr>, pl)" by (rule confined_cong [OF x]) simp_all
  have "confined nl i T (it\<lparr>if_pdc := Some c'\<rparr>, pl) (it', pl')"
    using deliver_confined [OF nl pd _ confined_placed [OF 1], of "cl_calls c'"] c by simp
  with 1 show ?thesis by (rule confined_trans)
qed

text \<open>A stretch without callbacks leaves everything outside the client as it is.\<close>

lemma pdIteration_silent:
  assumes "pdIteration nl lib w (loc, it, pl) = Some (loc', it', pl')" and "\<forall>c. if_pdc it' = Some c \<longrightarrow> cl_calls c = []"
  shows "pl' = pl"
proof -
  obtain c' where c: "deliver nl (cl_calls c') (it\<lparr>if_pdc := Some c'\<rparr>, pl) = (it', pl')"
    using assms(1) by (auto simp: pdIteration_def split: option.splits)
  have "if_pdc it' = Some c'" using deliver_pdc [of nl "cl_calls c'" "(it\<lparr>if_pdc := Some c'\<rparr>, pl)"] c by simp
  then show ?thesis using assms(2) c by (simp add: deliver_def)
qed

lemma unrelated_confined: "unrelated x y \<Longrightarrow> placed nl i T x \<Longrightarrow> confined nl i T x y"
  by (cases x; cases y) (auto simp: unrelated_def intro: confined_cong)

lemma restore_confined:
  assumes nl: "netlink_ok nl" "netlink_addrs nl" and pd: "ic_PD (if_cfg it) = Some pd" "pd_ok pd"
    and x: "placed nl i T (it, pl)" and r: "restore nl now p (it, pl) = (it', pl')"
  shows "confined nl i T (it, pl) (it', pl')"
  using r
proof (cases rule: restore_cases)
  case (live q c b)
  let ?it = "(restoreServers q it)\<lparr>if_pdc := Some (Restore now c b)\<rparr>"
  have 1: "confined nl i T (it, pl) (?it, pl)" by (rule confined_cong [OF x]) (simp_all add: restoreServers_frame)
  then have "confined nl i T (?it, pl) (it', pl')"
    using onPDChange_confined [OF nl _ pd(2) confined_placed live(5)] pd(1) by (simp add: restoreServers_frame)
  with 1 show ?thesis by (rule confined_trans)
qed (auto intro!: confined_cong [OF x] simp: restoreServers_frame)

lemma mirrorRound_confined:
  assumes nl: "netlink_ok nl" "netlink_addrs nl" and x: "placed nl i T (it, pl)" and r: "if_pdr it = Some r"
  shows "confined nl i T (it, pl) (it, on_host (mirrorRound nl r) pl)"
proof -
  have "alters nl i T (ho_kernel (pl_host pl)) (syncDefaultLocked nl r (ho_kernel (pl_host pl)))"
    using alters_synced [OF nl, of r T] x r by (simp add: placed_def)
  then show ?thesis using x by (auto simp: confined_def placed_def mirrorRound_def dest: altersD(1))
qed

lemma unrelated_steps:
  "detach conn it = (it', calls) \<Longrightarrow> unrelated (it, pl) (it', pl)"
  "watchRound link it = (it', woken) \<Longrightarrow> unrelated (it, pl) (it', pl)"
  by (auto simp: unrelated_def detach_def watchRound_def Let_def split: if_splits)

lemma iface_step_confined:
  assumes nl: "netlink_ok nl" "netlink_addrs nl" and pd: "ic_PD (if_cfg it) = Some pd" "pd_ok pd"
    and "iface_step nl ipt lib4 lib6 libpd (loc, it, pl) (loc', it', pl')" and x: "placed nl i T (it, pl)"
  shows "confined nl i T (it, pl) (it', pl')"
  using assms(5)
proof cases
  case start
  then show ?thesis using confined_on_routes [OF tame_Start [OF nl] x] by (simp add: startIface_def)
next
  case (mirror r)
  then show ?thesis using mirrorRound_confined [OF nl x] by simp
next
  case (delegation w)
  then show ?thesis using pdIteration_confined [OF nl pd x] by simp
next
  case (frame ord rord now recv out)
  then show ?thesis using unrelated_confined [OF readFrame_unrelated x] by metis
qed (use x in \<open>auto intro!: unrelated_confined dest: attach_unrelated startDNS_unrelated applyDNAT_unrelated unrelated_steps simp: unrelated_def\<close>)

section \<open>The reliance on the others\<close>

text \<open>An interface with a delegation follows it; one without has neither client nor segment.\<close>

definition upright :: "('k, 'o) netlink \<Rightarrow> ipnet set \<Rightarrow> int \<Rightarrow> IfaceConfig \<Rightarrow> 'd Iface \<times> ('k, 'i) plant \<Rightarrow> bool" where
  "upright nl A i cfg x \<longleftrightarrow> if_cfg (fst x) = cfg \<and>
     (case ic_PD cfg of
        None \<Rightarrow> if_pdc (fst x) = None \<and> if_pdr (fst x) = None \<and> if_pdAddr (fst x) = ZeroPrefix
      | Some pd \<Rightarrow> pd_ok pd \<and> following nl A i cfg pd x)"

lemma upright_cong:
  "ho_kernel (pl_host pl') = ho_kernel (pl_host pl) \<Longrightarrow> upright nl A i cfg (it, pl') = upright nl A i cfg (it, pl)"
  by (simp add: upright_def following_def plumbed_def split: option.split)

definition ownTable :: "IfaceConfig \<Rightarrow> int" where
  "ownTable cfg = (case ic_PD cfg of None \<Rightarrow> 0 | Some pd \<Rightarrow> pc_RouteTable pd)"

lemma upright_placed:
  assumes "upright nl A i cfg x" and "ic_PD cfg = Some pd"
  shows "placed nl i (ownTable cfg) x"
  using assms by (cases x) (auto simp: upright_def following_def plumbed_def placed_def segment_follows_def ownTable_def Let_def)

lemma table_follows_alters:
  assumes a: "alters nl j T k k'" and t: "table_follows nl pd i v k" "pc_RouteTable pd \<noteq> T" "pc_RouteTable pd \<notin> {254, 255}"
  shows "table_follows nl pd i v k'"
proof (rule table_follows_cong [OF _ _ t(1)])
  show "ru \<in> rulesOf nl k' \<longleftrightarrow> ru \<in> rulesOf nl k" if "ru_Table ru = pc_RouteTable pd" for ru
    using altersD(3) [OF a, of ru] that t(2) by simp
  show "rt \<in> routesOf nl k' \<longleftrightarrow> rt \<in> routesOf nl k" if "ro_Table rt = pc_RouteTable pd" for rt
    using altersD(4) [OF a, of rt] that t(2,3) by simp
qed

lemma upright_alters:
  assumes x: "upright nl A i cfg (it, pl)" and a: "alters nl j T (ho_kernel (pl_host pl)) (ho_kernel (pl_host pl'))"
    and apart: "ic_PD cfg \<noteq> None \<Longrightarrow> j \<noteq> i" "ownTable cfg \<noteq> 0 \<Longrightarrow> T \<noteq> ownTable cfg"
  shows "upright nl A i cfg (it, pl')"
proof (cases "ic_PD cfg")
  case (Some pd)
  with x have f: "pd_ok pd" "following nl A i cfg pd (it, pl)" by (simp_all add: upright_def)
  have j: "j \<noteq> i" using apart(1) Some by simp
  have "segment_follows nl cfg pd i (delegated it) r (ho_kernel (pl_host pl'))" if "if_pdr it = Some r" for r
    using f that apart(2) table_follows_alters [OF a] Some
    by (auto simp: following_def plumbed_def segment_follows_def ownTable_def pd_ok_def Let_def)
  then show ?thesis
    using x f Some altersD(1) [OF a] altersD(2) [OF a j [symmetric]]
    by (simp add: upright_def following_def plumbed_def Let_def)
qed (use x in \<open>simp add: upright_def\<close>)

lemma iface_step_idle:
  assumes "iface_step nl ipt lib4 lib6 libpd (loc, it, pl) (loc', it', pl')" and "if_pdc it = None" "if_pdr it = None"
  shows "unrelated (it, pl) (it', pl')"
  using assms(1)
proof cases
  case (frame ord rord now recv out)
  then show ?thesis using readFrame_unrelated by metis
next
  case start
  then show ?thesis using assms(3) by (simp add: startIface_def on_routes_def unrelated_def)
next
  case (delegation w)
  then show ?thesis using assms(2) by (simp add: pdIteration_def)
qed (use assms(3) in \<open>auto dest: attach_unrelated startDNS_unrelated applyDNAT_unrelated unrelated_steps simp: unrelated_def\<close>)

text \<open>What every change by one interface gives: it stays upright and alters at most its own link and table.\<close>

definition within :: "('k, 'o) netlink \<Rightarrow> int \<Rightarrow> IfaceConfig \<Rightarrow> 'k \<Rightarrow> 'k \<Rightarrow> bool" where
  "within nl i cfg k k' \<longleftrightarrow> (if ic_PD cfg = None then k' = k else alters nl i (ownTable cfg) k k')"

lemma within_refl [simp]: "within nl i cfg k k"
  by (simp add: within_def)

definition proper ::
  "('k, 'o) netlink \<Rightarrow> ipnet set \<Rightarrow> int \<Rightarrow> IfaceConfig \<Rightarrow> 'd Iface \<times> ('k, 'i) plant \<Rightarrow> 'd Iface \<times> ('k, 'i) plant \<Rightarrow> bool" where
  "proper nl A i cfg x y \<longleftrightarrow> upright nl A i cfg y \<and>
     within nl i cfg (ho_kernel (pl_host (snd x))) (ho_kernel (pl_host (snd y)))"

lemma proper_unrelated: "unrelated x y \<Longrightarrow> upright nl A i cfg x \<Longrightarrow> proper nl A i cfg x y"
  using following_unrelated [of x y nl A i cfg]
  by (cases x; cases y) (auto simp: proper_def within_def upright_def unrelated_def split: option.splits)

lemma proper_confined:
  assumes "ic_PD cfg = Some pd" "pd_ok pd" "if_cfg (fst x) = cfg"
    and "confined nl i (ownTable cfg) x y" and "following nl A i cfg pd y"
  shows "proper nl A i cfg x y"
  using assms by (simp add: proper_def within_def upright_def confined_def)

lemma iface_step_proper:
  assumes nl: "netlink_ok nl" "netlink_addrs nl"
    and s: "iface_step nl ipt lib4 lib6 libpd (loc, it, pl) (loc', it', pl')" and x: "upright nl A i cfg (it, pl)"
  shows "proper nl A i cfg (it, pl) (it', pl')"
proof (cases "ic_PD cfg")
  case None
  then have "unrelated (it, pl) (it', pl')" using iface_step_idle [OF s] x by (simp add: upright_def)
  then show ?thesis using x by (rule proper_unrelated)
next
  case (Some pd)
  with x have f: "pd_ok pd" "following nl A i cfg pd (it, pl)" "if_cfg it = cfg" by (simp_all add: upright_def)
  show ?thesis
    using proper_confined [OF Some f(1) _ iface_step_confined [OF nl _ f(1) s upright_placed [OF x Some]]
        iface_step_following [OF nl f(1) s f(2)]] Some f(3) by simp
qed

section \<open>The manager\<close>

text \<open>Every interface of the manager is upright. \<open>ix\<close> is the link of each interface, \<open>A\<close> the addresses it had
  before.\<close>

definition fleet ::
  "('k, 'o) netlink \<Rightarrow> (string \<Rightarrow> ipnet set) \<Rightarrow> (string \<Rightarrow> int) \<Rightarrow> IfaceConfig list \<Rightarrow> ('d, 'k, 'i) system \<Rightarrow> bool" where
  "fleet nl A ix cs = (\<lambda>(m, pl). serves cs m \<and>
     (\<forall>c \<in> set cs. \<forall>it. map_of (mg_ifaces m) (ic_Name c) = Some it \<longrightarrow>
        upright nl (A (ic_Name c)) (ix (ic_Name c)) c (it, pl)))"

text \<open>No two delegations share a link or a table.\<close>

definition apart :: "(string \<Rightarrow> int) \<Rightarrow> IfaceConfig list \<Rightarrow> bool" where
  "apart ix cs \<longleftrightarrow> inj_on ix (ic_Name ` set cs) \<and> distinct (concat (map tableOf cs))"

lemma distinct_concat_map:
  "distinct (concat (map f xs)) \<Longrightarrow> x \<in> set xs \<Longrightarrow> y \<in> set xs \<Longrightarrow> x \<noteq> y \<Longrightarrow> set (f x) \<inter> set (f y) = {}"
  by (induction xs) auto

lemma apart_tables:
  assumes "apart ix cs" "c \<in> set cs" "d \<in> set cs" "d \<noteq> c" "ownTable d \<noteq> 0"
  shows "ownTable c \<noteq> ownTable d"
proof (cases "ownTable c = 0")
  case False
  then have "set (tableOf c) = {ownTable c}" "set (tableOf d) = {ownTable d}"
    using assms(5) by (auto simp: tableOf_def ownTable_def split: option.splits if_splits)
  moreover have "set (tableOf c) \<inter> set (tableOf d) = {}"
    by (rule distinct_concat_map) (use assms in \<open>auto simp: apart_def\<close>)
  ultimately show ?thesis by simp
qed (use assms(5) in simp)

lemma apart_links: "apart ix cs \<Longrightarrow> c \<in> set cs \<Longrightarrow> d \<in> set cs \<Longrightarrow> ic_Name d \<noteq> ic_Name c \<Longrightarrow> ix (ic_Name c) \<noteq> ix (ic_Name d)"
  by (metis apart_def image_eqI inj_onD)

lemma upright_within:
  fixes pl pl' :: "('k, 'i) plant"
  assumes u: "upright nl A (ix (ic_Name d)) d (it, pl)" and ap: "apart ix cs" "c \<in> set cs" "d \<in> set cs" "d \<noteq> c"
    and n: "ic_Name d \<noteq> ic_Name c" and w: "within nl (ix (ic_Name c)) c (ho_kernel (pl_host pl)) (ho_kernel (pl_host pl'))"
  shows "upright nl A (ix (ic_Name d)) d (it, pl')"
proof (cases "ic_PD c = None")
  case True
  then show ?thesis using u w by (simp add: within_def upright_cong [of pl' pl])
next
  case False
  then have "alters nl (ix (ic_Name c)) (ownTable c) (ho_kernel (pl_host pl)) (ho_kernel (pl_host pl'))"
    using w by (simp add: within_def)
  with u show ?thesis by (rule upright_alters) (use apart_links [OF ap(1-3) n] apart_tables [OF ap] in auto)
qed

lemma fleet_lookup:
  assumes "fleet nl A ix cs (m, pl)" and "map_of (mg_ifaces m) name = Some it"
  obtains c where "c \<in> set cs" "name = ic_Name c" "servers_ok c it" "upright nl (A name) (ix name) c (it, pl)"
proof -
  have "serves cs m" using assms(1) by (simp add: fleet_def)
  then obtain c where "c \<in> set cs" "ic_Name c = name" "servers_ok c it" using assms(2) by (rule serves_lookup)
  then show thesis using assms that by (auto simp: fleet_def)
qed

lemma fleet_names: "fleet nl A ix cs (m, pl) \<Longrightarrow> c \<in> set cs \<Longrightarrow> d \<in> set cs \<Longrightarrow> ic_Name d = ic_Name c \<longleftrightarrow> d = c"
  by (auto simp: fleet_def serves_def distinct_map inj_on_def)

lemma fleet_change:
  assumes f: "fleet nl A ix cs (m, pl)" and ap: "apart ix cs" and c: "c \<in> set cs" "name = ic_Name c"
    and p: "proper nl (A name) (ix name) c (it, pl) (it', pl')" and s: "serves cs (setIface name it' m)"
  shows "fleet nl A ix cs (setIface name it' m, pl')"
proof -
  have "upright nl (A (ic_Name d)) (ix (ic_Name d)) d (it1, pl')"
    if d: "d \<in> set cs" "map_of (mg_ifaces (setIface name it' m)) (ic_Name d) = Some it1" for d it1
  proof (cases "d = c")
    case True
    then show ?thesis using d(2) p c(2) by (simp add: setIface_lookup proper_def)
  next
    case False
    then have n: "ic_Name d \<noteq> name" using fleet_names [OF f c(1) d(1)] c(2) by simp
    then have u: "upright nl (A (ic_Name d)) (ix (ic_Name d)) d (it1, pl)"
      using f d by (simp add: fleet_def setIface_lookup)
    show ?thesis using upright_within [OF u ap c(1) d(1) False] n p c(2) by (simp add: proper_def)
  qed
  then show ?thesis using s by (simp add: fleet_def)
qed

text \<open>A change of the kernel by others that leaves alone what the daemon manages: the served links and their
  addresses, and the tables of the segments. Uplinks come and go, addresses of other links and the
  routes of all other tables change. What deleting and re-creating a served bridge does is told by
  \<open>recreated_bridge_stays_bare\<close> below.\<close>

definition outside :: "('k, 'o) netlink \<Rightarrow> 'd Manager \<Rightarrow> 'k \<Rightarrow> 'k \<Rightarrow> bool" where
  "outside nl m k k' \<longleftrightarrow> (\<forall>name it. map_of (mg_ifaces m) name = Some it \<longrightarrow>
     nl_LinkByName nl k' name = nl_LinkByName nl k name \<and>
     (\<forall>i. nl_LinkByName nl k name = Some i \<longrightarrow> nl_AddrList nl k' i = nl_AddrList nl k i) \<and>
     (\<forall>pd. ic_PD (if_cfg it) = Some pd \<longrightarrow>
        (\<forall>ru. ru_Table ru = pc_RouteTable pd \<longrightarrow> ru \<in> rulesOf nl k' \<longleftrightarrow> ru \<in> rulesOf nl k) \<and>
        (\<forall>rt. ro_Table rt = pc_RouteTable pd \<longrightarrow> rt \<in> routesOf nl k' \<longleftrightarrow> rt \<in> routesOf nl k)))"

text \<open>A step of the manager is a step of one of its interfaces, a request to the control API, the store taking
  a due save, or such a change.\<close>

inductive manager_step ::
  "('k, 'o) netlink \<Rightarrow> 'i iptables \<Rightarrow> 'r dhcp4_lib \<Rightarrow> 's dhcp6_lib \<Rightarrow> 'd pd_lib \<Rightarrow>
     (string \<Rightarrow> pd_loc) \<times> ('d, 'k, 'i) system \<Rightarrow> (string \<Rightarrow> pd_loc) \<times> ('d, 'k, 'i) system \<Rightarrow> bool"
  for nl ipt lib4 lib6 libpd where
  interface: "map_of (mg_ifaces m) name = Some it \<Longrightarrow>
    iface_step nl ipt lib4 lib6 libpd (locs name, it, pl) (loc', it', pl') \<Longrightarrow>
    manager_step nl ipt lib4 lib6 libpd (locs, m, pl) (locs(name := loc'), setIface name it' m, pl')"
| request: "serveHTTP lib ord clock key rq (m, pl) = (answer, m', pl') \<Longrightarrow>
    manager_step nl ipt lib4 lib6 libpd (locs, m, pl) (locs, m', pl')"
| store: "manager_step nl ipt lib4 lib6 libpd (locs, m, pl) (locs, m, pl\<lparr>pl_store := saveDue (pl_store pl)\<rparr>)"
| world: "outside nl m (ho_kernel (pl_host pl)) k \<Longrightarrow>
    manager_step nl ipt lib4 lib6 libpd (locs, m, pl) (locs, m, on_host (on_kernel (\<lambda>_. k)) pl)"

text \<open>What a request changes: nothing, something of one interface that has nothing to do with its delegation, or
  its client's note to release.\<close>

definition eased :: "'d Iface \<times> ('k, 'i) plant \<Rightarrow> 'd Iface \<times> ('k, 'i) plant \<Rightarrow> bool" where
  "eased x y \<longleftrightarrow> unrelated x y \<or>
     (\<exists>c. if_pdc (fst x) = Some c \<and> fst y = (fst x)\<lparr>if_pdc := Some (Release c)\<rparr> \<and> snd y = snd x)"

definition requested :: "('d, 'k, 'i) system \<Rightarrow> ('d, 'k, 'i) system \<Rightarrow> bool" where
  "requested = (\<lambda>(m, pl) (m', pl'). (m', pl') = (m, pl) \<or>
     (\<exists>name it it'. map_of (mg_ifaces m) name = Some it \<and> m' = setIface name it' m \<and> eased (it, pl) (it', pl')))"

lemma requested_statics:
  assumes "editStatics f4 f6 family name x = Inr y"
  shows "requested x y"
proof -
  obtain m pl m' pl' where x: "x = (m, pl)" "y = (m', pl')" by fastforce
  obtain it it' where i: "map_of (mg_ifaces m) name = Some it" "m' = setIface name it' m" "pl' = markPlant pl"
    "family = 4 \<and> (\<exists>d4. f4 (if_d4 it) = Inr d4 \<and> it' = it\<lparr>if_d4 := d4\<rparr>) \<or>
     family = 6 \<and> (\<exists>d6. f6 (if_d6 it) = Inr d6 \<and> it' = it\<lparr>if_d6 := d6\<rparr>)"
    using assms unfolding x by (rule editStatics_Inr)
  then have "unrelated (it, pl) (it', pl')" by (auto simp: unrelated_def)
  with i(1,2) show ?thesis by (auto simp: requested_def eased_def x)
qed

lemma requested_ops:
  "ReplaceStatics a name x = Inr y \<Longrightarrow> requested x y" "PutStatic b name x = Inr y \<Longrightarrow> requested x y"
  "DeleteStatic c name x = Inr y \<Longrightarrow> requested x y"
  by (auto simp: ReplaceStatics_def PutStatic_def DeleteStatic_def intro: requested_statics split: prod.splits)

lemma requested_PD: "RenewPD u name x = Inr y \<Longrightarrow> requested x y" "ReleasePD u name x = Inr y \<Longrightarrow> requested x y"
  by (cases x; auto simp: RenewPD_def ReleasePD_def iface_def requested_def eased_def split: option.splits if_splits)+

lemma requested_DeleteLease:
  assumes "DeleteLease ip name x = Inr y"
  shows "requested x y"
proof -
  obtain m pl m' pl' where x: "x = (m, pl)" "y = (m', pl')" by fastforce
  obtain it it' where i: "map_of (mg_ifaces m) name = Some it" "m' = setIface name it' m" "pl' = relay it it' pl"
    "if Is4 ip then \<exists>d4. ReleaseLease4 (if_d4 it) ip = Inr d4 \<and> it' = it\<lparr>if_d4 := d4\<rparr>
     else \<exists>d6. ReleaseLease6 (if_d6 it) ip = Inr d6 \<and> it' = it\<lparr>if_d6 := d6\<rparr>"
    using assms unfolding x by (rule DeleteLease_Inr)
  then have "unrelated (it, pl) (it', pl')" by (auto simp: unrelated_def split: if_splits)
  with i(1,2) show ?thesis by (auto simp: requested_def eased_def x)
qed

lemma requested_refl [simp]: "requested x x"
  by (simp add: requested_def case_prod_beta)

lemma finish_requested: "(\<And>y. r = Inr y \<Longrightarrow> requested x y) \<Longrightarrow> requested x (snd (finish code x r))"
  by (cases r) (simp_all add: finish_def)

lemma handleRoute_requested: "requested x (snd (handleRoute lib ord clock body r x))"
  by (cases r) (auto simp: handleRoute_def handler_defs Let_def intro!: finish_requested
      intro: requested_ops requested_PD requested_DeleteLease split: option.split sum.split)

lemma serveHTTP_requested:
  fixes x :: "('d, 'k, 'i) system"
  shows "requested x (snd (serveHTTP lib ord clock key rq x))" "serves cs (fst x) \<Longrightarrow> serves cs (fst (snd (serveHTTP lib ord clock key rq x)))"
proof -
  obtain r where "snd (serveHTTP lib ord clock key rq x) = x \<or>
      snd (serveHTTP lib ord clock key rq x) = snd (handleRoute lib ord clock (rq_Body rq) r x)"
  proof (cases "routeOf (rq_Method rq) (splitSlash (drop 1 (rq_Path rq)))")
    case None
    then show thesis using that by (simp add: serveHTTP_def auth_def mux_def Let_def split: if_splits)
  next
    case (Some r)
    then show thesis using that [of r] by (simp add: serveHTTP_def auth_def mux_def Let_def split: if_splits)
  qed
  moreover have "serves cs (fst (snd (handleRoute lib ord clock (rq_Body rq) r x)))" if "serves cs (fst x)"
    using handleRoute_outcome [of lib ord clock "rq_Body rq" r x] touches_serves that by (metis prod.collapse)
  ultimately show "requested x (snd (serveHTTP lib ord clock key rq x))"
    "serves cs (fst x) \<Longrightarrow> serves cs (fst (snd (serveHTTP lib ord clock key rq x)))"
    using handleRoute_requested [of x lib ord clock "rq_Body rq" r] by auto
qed

lemma eased_proper:
  assumes "eased x y" and u: "upright nl A i cfg x"
  shows "proper nl A i cfg x y"
proof -
  from assms(1) consider "unrelated x y" | c where "if_pdc (fst x) = Some c" "fst y = (fst x)\<lparr>if_pdc := Some (Release c)\<rparr>" "snd y = snd x"
    by (auto simp: eased_def)
  then show ?thesis
  proof cases
    case 2
    then have "delegated (fst y) = delegated (fst x)" by (simp add: delegated_def Release_def)
    with 2 u show ?thesis
      by (cases x; cases y) (auto simp: proper_def upright_def following_def plumbed_def Let_def split: option.splits)
  qed (use u in \<open>simp add: proper_unrelated\<close>)
qed

lemma requested_fleet:
  assumes f: "fleet nl A ix cs (m, pl)" and ap: "apart ix cs" and r: "requested (m, pl) (m', pl')" and s: "serves cs m'"
  shows "fleet nl A ix cs (m', pl')"
proof (cases "(m', pl') = (m, pl)")
  case False
  then obtain name it it' where i: "map_of (mg_ifaces m) name = Some it" "m' = setIface name it' m" "eased (it, pl) (it', pl')"
    using r by (auto simp: requested_def)
  obtain c where c: "c \<in> set cs" "name = ic_Name c" "upright nl (A name) (ix name) c (it, pl)"
    using f i(1) by (rule fleet_lookup)
  from fleet_change [OF f ap c(1,2) eased_proper [OF i(3) c(3)]] s i(2) show ?thesis by simp
qed (use f in simp)

lemma fleet_store:
  fixes pl pl' :: "('k, 'i) plant"
  shows "fleet nl A ix cs (m, pl) \<Longrightarrow> pl_host pl' = pl_host pl \<Longrightarrow> fleet nl A ix cs (m, pl')"
  by (simp add: fleet_def upright_cong [of pl' pl])

lemma manager_step_serves:
  assumes "manager_step nl ipt lib4 lib6 libpd x y" and "serves cs (fst (snd x))"
  shows "serves cs (fst (snd y))"
  using assms
proof (induction rule: manager_step.induct)
  case (interface m name it locs pl loc' it' pl')
  then obtain c where c: "c \<in> set cs" "ic_Name c = name" "servers_ok c it" by (auto elim: serves_lookup)
  from serves_setIface [OF _ c(1) iface_step_servers [OF interface(2) c(3)], of m] interface(3) c(2) show ?case by simp
next
  case (request lib ord clock key rq m pl answer m' pl' locs)
  then show ?case using serveHTTP_requested(2) [where x = "(m, pl)" and cs = cs and lib = lib and ord = ord and clock = clock and key = key and rq = rq]
    by simp
qed simp_all

lemma manager_run_serves:
  "(manager_step nl ipt lib4 lib6 libpd)\<^sup>*\<^sup>* x y \<Longrightarrow> serves cs (fst (snd x)) \<Longrightarrow> serves cs (fst (snd y))"
  by (induction rule: rtranclp_induct) (auto intro: manager_step_serves)

lemma upright_outside:
  assumes u: "upright nl A i cfg (it, pl)" and o: "outside nl m (ho_kernel (pl_host pl)) (ho_kernel (pl_host pl'))"
    and it: "map_of (mg_ifaces m) (ic_Name cfg) = Some it"
  shows "upright nl A i cfg (it, pl')"
proof (cases "ic_PD cfg")
  case (Some pd)
  let ?k = "ho_kernel (pl_host pl)" and ?k' = "ho_kernel (pl_host pl')"
  have f: "pd_ok pd" "if_pdc it \<noteq> None" "plumbed nl A i cfg pd (delegated it) (it, pl)" "if_cfg it = cfg"
    using u Some by (simp_all add: upright_def following_def)
  then have l: "nl_LinkByName nl ?k (ic_Name cfg) = Some i" by (simp add: plumbed_def Let_def)
  with o it have e: "nl_LinkByName nl ?k' (ic_Name cfg) = Some i" "nl_AddrList nl ?k' i = nl_AddrList nl ?k i"
    unfolding outside_def by simp_all
  have "table_follows nl pd i v ?k'" if "table_follows nl pd i v ?k" for v
    by (rule table_follows_cong [OF _ _ that]) (use o it f(4) Some in \<open>simp_all add: outside_def\<close>)
  then have "plumbed nl A i cfg pd (delegated it) (it, pl')"
    using f(3) e by (auto simp: plumbed_def segment_follows_def Let_def)
  then show ?thesis using f Some by (simp add: upright_def following_def)
qed (use u in \<open>simp add: upright_def\<close>)

lemma manager_step_fleet:
  assumes nl: "netlink_ok nl" "netlink_addrs nl" and ap: "apart ix cs"
    and "manager_step nl ipt lib4 lib6 libpd (locs, m, pl) (locs', m', pl')" and f: "fleet nl A ix cs (m, pl)"
  shows "fleet nl A ix cs (m', pl')"
  using assms(4)
proof cases
  case (interface name it loc' it')
  obtain c where c: "c \<in> set cs" "name = ic_Name c" "servers_ok c it" "upright nl (A name) (ix name) c (it, pl)"
    using f interface(3) by (rule fleet_lookup)
  have "serves cs m" using f by (simp add: fleet_def)
  then have "serves cs (setIface name it' m)"
    using serves_setIface [OF _ c(1) iface_step_servers [OF interface(4) c(3)]] c(2) by simp
  then show ?thesis using fleet_change [OF f ap c(1,2) iface_step_proper [OF nl interface(4) c(4)]] interface(2) by simp
next
  case (request lib ord clock key rq answer)
  have "requested (m, pl) (m', pl')" "serves cs m'"
    using serveHTTP_requested [where x = "(m, pl)" and lib = lib and ord = ord and clock = clock and key = key and rq = rq] request(2) f
    by (auto simp: fleet_def)
  then show ?thesis by (rule requested_fleet [OF f ap])
next
  case store
  then show ?thesis using fleet_store [OF f] by simp
next
  case (world k)
  have "upright nl (A (ic_Name c)) (ix (ic_Name c)) c (it, pl')"
    if "c \<in> set cs" "map_of (mg_ifaces m) (ic_Name c) = Some it" for c it
    by (rule upright_outside [OF _ _ that(2), where pl = pl]) (use f that world in \<open>simp_all add: fleet_def\<close>)
  then show ?thesis using f world by (simp add: fleet_def)
qed

lemma manager_run_fleet:
  assumes nl: "netlink_ok nl" "netlink_addrs nl" and ap: "apart ix cs"
  shows "(manager_step nl ipt lib4 lib6 libpd)\<^sup>*\<^sup>* x y \<Longrightarrow> fleet nl A ix cs (snd x) \<Longrightarrow> fleet nl A ix cs (snd y)"
  by (induction rule: rtranclp_induct) (auto intro: manager_step_fleet [OF nl ap])

section \<open>Starting the daemon\<close>

text \<open>A restored delegation that is usable.\<close>

definition usable_state :: "(string \<Rightarrow> time) \<Rightarrow> persistedState \<Rightarrow> bool" where
  "usable_state clock st \<longleftrightarrow> (\<forall>name q b. st name = Some q \<longrightarrow> pi_PD q = Some b \<longrightarrow>
     PfxIsValid (bd_Prefix b) \<and> bd_ExpiresAt b \<noteq> clock name)"

lemma restore_proper:
  assumes nl: "netlink_ok nl" "netlink_addrs nl" and x: "upright nl A i cfg (it, pl)" "delegated it = None"
    and r: "restore nl (clock name) (st name) (it, pl) = (it', pl')" and st: "usable_state clock st"
  shows "proper nl A i cfg (it, pl) (it', pl')"
proof (cases "ic_PD cfg")
  case None
  from r have "unrelated (it, pl) (it', pl')"
  proof (cases rule: restore_cases)
    case (servers q)
    then show ?thesis by (simp add: unrelated_def restoreServers_frame)
  qed (use x(1) None in \<open>auto simp: unrelated_def upright_def\<close>)
  then show ?thesis using x(1) by (rule proper_unrelated)
next
  case (Some pd)
  with x have f: "pd_ok pd" "following nl A i cfg pd (it, pl)" "if_cfg it = cfg" by (simp_all add: upright_def)
  have "following nl A i cfg pd (it', pl')"
    by (rule restore_following [OF nl f(1,2) x(2) r]) (use st in \<open>auto simp: usable_state_def\<close>)
  then show ?thesis
    using proper_confined [OF Some f(1) _ restore_confined [OF nl _ f(1) upright_placed [OF x(1) Some] r]] Some f(3) by simp
qed

lemma restoreOne_fleet:
  assumes nl: "netlink_ok nl" "netlink_addrs nl" and ap: "apart ix cs" and st: "usable_state clock st"
  shows "distinct (map fst xs) \<Longrightarrow> fleet nl A ix cs x \<Longrightarrow>
    (\<And>name it. (name, it) \<in> set xs \<Longrightarrow> map_of (mg_ifaces (fst x)) name = Some it \<and> delegated it = None) \<Longrightarrow>
    fleet nl A ix cs (fold (restoreOne nl clock st) xs x)"
proof (induction xs arbitrary: x)
  case (Cons e xs)
  obtain name it where e: "e = (name, it)" by fastforce
  obtain m pl where x: "x = (m, pl)" by fastforce
  obtain it' pl' where r: "restore nl (clock name) (st name) (it, pl) = (it', pl')" by fastforce
  have it: "map_of (mg_ifaces m) name = Some it" "delegated it = None" using Cons.prems(3) [of name it] by (simp_all add: e x)
  have f: "fleet nl A ix cs (m, pl)" using Cons.prems(2) by (simp add: x)
  obtain c where c: "c \<in> set cs" "name = ic_Name c" "servers_ok c it" "upright nl (A name) (ix name) c (it, pl)"
    using f it(1) by (rule fleet_lookup)
  have step: "restoreOne nl clock st e x = (setIface name it' m, pl')" by (simp add: restoreOne_def e x r)
  have "serves cs (setIface name it' m)"
    using serves_setIface [OF _ c(1) restore_servers [OF c(3) r], of m] f c(2) by (simp add: fleet_def)
  then have "fleet nl A ix cs (setIface name it' m, pl')"
    by (rule fleet_change [OF f ap c(1,2) restore_proper [OF nl c(4) it(2) r st]])
  moreover have "map_of (mg_ifaces (setIface name it' m)) n = Some j \<and> delegated j = None" if "(n, j) \<in> set xs" for n j
    using Cons.prems(1) Cons.prems(3) [of n j] that by (auto simp: e x setIface_lookup rev_image_eqI)
  ultimately show ?case using Cons.IH [of "(setIface name it' m, pl')"] Cons.prems(1) step by simp
qed simp

lemma startOne_fleet:
  assumes nl: "netlink_ok nl" "netlink_addrs nl" and ap: "apart ix cs" and f: "fleet nl A ix cs x"
  shows "fleet nl A ix cs (startOne nl name x)"
proof -
  obtain m pl where x: "x = (m, pl)" by fastforce
  show ?thesis
  proof (cases "map_of (mg_ifaces m) name")
    case (Some it)
    obtain it' pl' where s: "startIface nl (it, pl) = (it', pl')" by fastforce
    from fleet_lookup [OF f [unfolded x] Some] obtain c where
      c: "c \<in> set cs" "name = ic_Name c" "servers_ok c it" "upright nl (A name) (ix name) c (it, pl)" by blast
    have "serves cs (setIface name it' m)"
      using serves_setIface [OF _ c(1) iface_step_servers [OF iface_step.start [OF s] c(3)], of m] f c(2) by (simp add: fleet_def x)
    then show ?thesis
      using fleet_change [OF f [unfolded x] ap c(1,2) iface_step_proper [OF nl iface_step.start [OF s] c(4)]] Some s
      by (simp add: startOne_def x)
  qed (use f in \<open>simp add: startOne_def x\<close>)
qed

lemma StartManager_fleet:
  fixes x :: "('d, 'k, 'i) system"
  assumes nl: "netlink_ok nl" "netlink_addrs nl" and ap: "apart ix cs" and mord: "go_order mord"
    and st: "usable_state clock (fst (load js readable (pl_store (snd x)) fs))" and f: "fleet nl A ix cs x"
    and new: "\<And>name it. map_of (mg_ifaces (fst x)) name = Some it \<Longrightarrow> delegated it = None"
  shows "fleet nl A ix cs (StartManager js readable fs nl clock mord x)"
proof -
  obtain m pl where x: "x = (m, pl)" by fastforce
  obtain st err where l: "load js readable (pl_store pl) fs = (st, err)" by fastforce
  define pl0 where "pl0 = (if err then Emit EvStateLoadError pl else pl)"
  have f0: "fleet nl A ix cs (m, pl0)" using fleet_store [of nl A ix cs m pl pl0] f by (simp add: x pl0_def)
  have g: "gomap_ok (mg_ifaces m)" using f by (simp add: x fleet_def serves_def)
  have "distinct (map fst (mord (mg_ifaces m)))" using mord g by (metis go_order_def mset_map mset_eq_imp_distinct_iff)
  moreover have "map_of (mg_ifaces m) name = Some it \<and> delegated it = None" if "(name, it) \<in> set (mord (mg_ifaces m))" for name it
  proof -
    have "map_of (mg_ifaces m) name = Some it" using that g by (simp add: go_order_set [OF mord])
    with new show ?thesis by (simp add: x)
  qed
  moreover obtain m1 pl1 where r: "fold (restoreOne nl clock st) (mord (mg_ifaces m)) (m, pl0) = (m1, pl1)" by fastforce
  moreover obtain m2 pl2 where s: "fold (startOne nl) (mg_order m1) (m1, pl1) = (m2, pl2)" by fastforce
  ultimately have "fleet nl A ix cs (m1, pl1)"
    using restoreOne_fleet [OF nl ap _ _ f0, of clock st "mord (mg_ifaces m)"] st by (simp add: x l)
  moreover have "fleet nl A ix cs (fold (startOne nl) ns y)" if "fleet nl A ix cs y" for ns and y :: "('d, 'k, 'i) system"
    using that by (induction ns arbitrary: y) (simp_all add: startOne_fleet [OF nl ap])
  ultimately have "fleet nl A ix cs (m2, pl2)" using s by metis
  then have "fleet nl A ix cs (m2, Emit (EvReady (mg_order m2)) pl2)" by (rule fleet_store) simp
  then show ?thesis using r s by (simp add: StartManager_def x l pl0_def [symmetric])
qed

text \<open>The bindings of the configuration do not concern delegations.\<close>

definition fresh :: "string \<Rightarrow> ('d, 'k, 'i) system \<Rightarrow> bool" where
  "fresh path = (\<lambda>(m, pl). ss_path (pl_store pl) = path \<and>
     (\<forall>name it. map_of (mg_ifaces m) name = Some it \<longrightarrow> delegated it = None))"

lemma load_path: "ss_path s = ss_path s' \<Longrightarrow> load js readable s fs = load js readable s' fs"
  by (simp add: load_def)

lemma ReplaceStatics_fresh: "ReplaceStatics a name (m, pl) = Inr (m', pl') \<Longrightarrow> fresh path (m, pl) \<Longrightarrow> fresh path (m', pl')"
  using delegated_cong by (auto simp: ReplaceStatics_def fresh_def setIface_lookup markPlant_def markDirty_def delegated_def
      split: prod.splits if_splits elim!: editStatics_Inr)

lemma replaceNonEmpty_fleet:
  assumes "replaceNonEmpty family bs name x = Inr x'" and "apart ix cs" and "fleet nl A ix cs x" "fresh path x"
  shows "fleet nl A ix cs x' \<and> fresh path x'"
proof (cases "bs = []")
  case False
  obtain m pl m' pl' where x: "x = (m, pl)" "x' = (m', pl')" by fastforce
  have e: "ReplaceStatics (family, bs) name (m, pl) = Inr (m', pl')" using assms(1) False by (simp add: replaceNonEmpty_def x)
  have "serves cs m'" using touches_serves [OF replaceStatics.success [OF e]] assms(3) by (simp add: fleet_def x)
  from requested_fleet [OF _ assms(2) requested_ops(1) [OF e] this] ReplaceStatics_fresh [OF e] assms(3,4) show ?thesis by (simp add: x)
qed (use assms in \<open>simp add: replaceNonEmpty_def\<close>)

lemma applyStatics_fleet:
  "applyStatics sts x = Inr x' \<Longrightarrow> apart ix cs \<Longrightarrow> fleet nl A ix cs x \<Longrightarrow> fresh path x \<Longrightarrow> fleet nl A ix cs x' \<and> fresh path x'"
proof (induction sts arbitrary: x)
  case (Cons st sts)
  then obtain x1 x2 where "replaceNonEmpty 4 (fst (snd st)) (fst st) x = Inr x1" "replaceNonEmpty 6 (snd (snd st)) (fst st) x1 = Inr x2"
    "applyStatics sts x2 = Inr x'"
    by (cases st) (auto split: sum.splits)
  then show ?case using Cons.IH [of x2] Cons.prems(2-4) replaceNonEmpty_fleet by blast
qed simp

text \<open>The kernel knows the link of every interface, and no link under two names.\<close>

definition linked :: "('k, 'o) netlink \<Rightarrow> 'k \<Rightarrow> string list \<Rightarrow> bool" where
  "linked nl k names \<longleftrightarrow> (\<forall>n \<in> set names. nl_LinkByName nl k n \<noteq> None) \<and> inj_on (nl_LinkByName nl k) (set names)"

definition linkOf :: "('k, 'o) netlink \<Rightarrow> 'k \<Rightarrow> string \<Rightarrow> int" where
  "linkOf nl k name = the (nl_LinkByName nl k name)"

definition addrsOf :: "('k, 'o) netlink \<Rightarrow> 'k \<Rightarrow> string \<Rightarrow> ipnet set" where
  "addrsOf nl k name = set (nl_AddrList nl k (linkOf nl k name))"

text \<open>What the daemon finds in its state file.\<close>

definition usable_start :: "('d, 'k, 'o, 'i) world \<Rightarrow> string \<Rightarrow> bool" where
  "usable_start w cfgPath \<longleftrightarrow> (\<forall>cfg. Load (wo_decode w) (wo_files w) cfgPath = Inr cfg \<longrightarrow>
     usable_state (wo_clock w) (fst (load (wo_json w) (wo_readable w) (newStateStore (cf_StateFile cfg)) (wo_files w))))"

text \<open>Before the manager is started nothing is delegated.\<close>

lemma runDaemon_ready:
  fixes w :: "('d, 'k, 'o, 'i) world"
  defines "nl \<equiv> wo_netlink w" and "k \<equiv> ho_kernel (pl_host (wo_plant w))"
  assumes r: "runDaemon w cfgPath check = Running (m, pl) key"
    and mo: "go_order (wo_order w)" and l: "linked nl k (mg_order m)"
  obtains cfg cs y where "apart (linkOf nl k) cs" "Load (wo_decode w) (wo_files w) cfgPath = Inr cfg"
    "list_all2 answers (cf_Interfaces cfg) cs" "fleet nl (addrsOf nl k) (linkOf nl k) cs y" "fresh (cf_StateFile cfg) y"
    "(m, pl) = StartManager (wo_json w) (wo_readable w) (wo_files w) (wo_netlink w) (wo_clock w) (wo_order w) y"
proof -
  let ?ix = "linkOf nl k" and ?A = "addrsOf nl k"
  obtain cfg cs x y where d: "Load (wo_decode w) (wo_files w) cfgPath = Inr cfg" "list_all fit cs"
    "distinct (concat (map tableOf cs))" "serves cs (fst x)" "applyStatics (wo_sorder w (InitialStatics cfg)) x = Inr y"
    "(m, pl) = StartManager (wo_json w) (wo_readable w) (wo_files w) (wo_netlink w) (wo_clock w) (wo_order w) y"
    "\<And>c. c \<in> set cs \<Longrightarrow> map_of (mg_ifaces (fst x)) (ic_Name c) = Some (newIface (wo_links w (ic_Name c)) c)"
    "snd x = (wo_plant w)\<lparr>pl_store := newStateStore (cf_StateFile cfg)\<rparr>" "list_all2 answers (cf_Interfaces cfg) cs"
    by (rule runDaemon_Running [OF r]) blast
  have "serves cs m" using StartManager_serves [OF mo applyStatics_serves [OF d(5,4)]] d(6) by (metis fst_conv)
  then have names: "set (mg_order m) = ic_Name ` set cs" by (simp add: serves_def)
  have ap: "apart ?ix cs"
    using l d(3) unfolding apart_def linked_def names by (auto simp: inj_on_def linkOf_def) (metis option.sel)
  have "upright nl (?A (ic_Name c)) (?ix (ic_Name c)) c (newIface link c :: 'd Iface, snd x)" if c: "c \<in> set cs" for c link
  proof (cases "ic_PD c")
    case None
    then show ?thesis by (simp add: upright_def newIface_def)
  next
    case (Some pd)
    have "nl_LinkByName nl k (ic_Name c) = Some (?ix (ic_Name c))" using l c names by (auto simp: linked_def linkOf_def)
    moreover have "pd_ok pd" using d(2) c Some by (auto simp: list_all_iff fit_def)
    moreover from calculation(1) have "following nl (?A (ic_Name c)) (?ix (ic_Name c)) c pd (newIface link c :: 'd Iface, snd x)"
      by (intro newIface_following [OF Some]) (simp_all add: d(8) k_def addrsOf_def)
    moreover have "if_cfg (newIface link c :: 'd Iface) = c" by (simp add: newIface_def)
    ultimately show ?thesis using Some by (simp add: upright_def)
  qed
  then have f: "fleet nl ?A ?ix cs x" using d(4,7) by (cases x) (simp add: fleet_def)
  have "delegated it = None" if it: "map_of (mg_ifaces (fst x)) name = Some it" for name it
  proof -
    obtain c where "c \<in> set cs" "ic_Name c = name" using serves_lookup [OF d(4) it] by blast
    with d(7) it show ?thesis by (auto simp: delegated_def newIface_def New_def split: option.split)
  qed
  then have "fresh (cf_StateFile cfg) x" using d(8) by (cases x) (simp add: fresh_def newStateStore_def)
  from applyStatics_fleet [OF d(5) ap f this] have y: "fleet nl ?A ?ix cs y" "fresh (cf_StateFile cfg) y" by simp_all
  then show thesis using that [OF ap d(1,9) _ _ d(6)] by simp
qed

lemma runDaemon_fleet:
  fixes w :: "('d, 'k, 'o, 'i) world"
  defines "nl \<equiv> wo_netlink w" and "k \<equiv> ho_kernel (pl_host (wo_plant w))"
  assumes nl: "netlink_ok nl" "netlink_addrs nl" and r: "runDaemon w cfgPath check = Running (m, pl) key"
    and mo: "go_order (wo_order w)" and st: "usable_start w cfgPath" and l: "linked nl k (mg_order m)"
  obtains cs where "apart (linkOf nl k) cs" "fleet nl (addrsOf nl k) (linkOf nl k) cs (m, pl)"
proof -
  obtain cfg cs y where d: "apart (linkOf nl k) cs" "Load (wo_decode w) (wo_files w) cfgPath = Inr cfg"
    "fleet nl (addrsOf nl k) (linkOf nl k) cs y" "fresh (cf_StateFile cfg) y"
    "(m, pl) = StartManager (wo_json w) (wo_readable w) (wo_files w) nl (wo_clock w) (wo_order w) y"
    using runDaemon_ready [OF r mo l [unfolded nl_def k_def]] unfolding nl_def k_def by blast
  have "load js rd (pl_store (snd y)) fs = load js rd (newStateStore (cf_StateFile cfg)) fs" for js rd fs
    by (rule load_path) (use d(4) in \<open>auto simp: fresh_def newStateStore_def\<close>)
  with st d(2) have "usable_state (wo_clock w) (fst (load (wo_json w) (wo_readable w) (pl_store (snd y)) (wo_files w)))"
    by (simp add: usable_start_def)
  from StartManager_fleet [OF nl d(1) mo this d(3)] d(4,5)
  have "fleet nl (addrsOf nl k) (linkOf nl k) cs (m, pl)" by (auto simp: fresh_def)
  with d(1) show thesis by (rule that)
qed

section \<open>Shutting down\<close>

lemma stopIface_confined:
  assumes nl: "netlink_ok nl" "netlink_addrs nl" and x: "placed nl i T (it, pl)"
    and c: "stopIface nl ipt (it, pl) = Some (it', pl', calls)"
  shows "confined nl i T (it, pl) (it', pl')"
proof -
  let ?it = "it\<lparr>if_done := True, if_conn := None\<rparr>" and ?name = "ic_Name (if_cfg it)"
  obtain nat0 where n: "(case if_dnat it of None \<Rightarrow> Some (pl_nat pl) | Some r \<Rightarrow> removeDNAT ipt r (pl_nat pl)) = Some nat0"
    using c by (cases "case if_dnat it of None \<Rightarrow> Some (pl_nat pl) | Some r \<Rightarrow> removeDNAT ipt r (pl_nat pl)") (auto simp: stopIface_def Let_def)
  define pl0 where "pl0 = pl\<lparr>pl_nat := nat0\<rparr>"
  define pl1 where "pl1 = (if PfxIsValid (if_pdAddr it) then on_host (on_kernel (removeAddr nl ?name (if_pdAddr it))) pl0 else pl0)"
  have s: "on_routes (Stop nl) (?it, pl1) = (it', pl')"
    using c n by (auto simp: stopIface_def pl1_def pl0_def Let_def split: prod.splits if_splits)
  have 0: "confined nl i T (it, pl) (?it, pl0)" by (rule confined_cong [OF x]) (simp_all add: pl0_def)
  have "confined nl i T (?it, pl0) (?it, pl1)"
    using confined_addr(2) [OF nl(2) confined_placed [OF 0], of ?name] confined_cong [OF confined_placed [OF 0]] by (simp add: pl1_def)
  from confined_trans [OF 0 this] have 1: "confined nl i T (it, pl) (?it, pl1)" .
  from confined_trans [OF 1 confined_on_routes [OF tame_Stop [OF nl] confined_placed [OF 1]]] show ?thesis unfolding s .
qed

lemma stopIface_idle:
  assumes "if_pdr it = None" "if_pdAddr it = ZeroPrefix" and "stopIface nl ipt (it, pl) = Some (it', pl', calls)"
  shows "pl_host pl' = pl_host pl"
  using assms by (auto simp: stopIface_def on_routes_def Let_def split: option.splits)

text \<open>Nothing of the interface is left on its link and in its table.\<close>

definition swept :: "('k, 'o) netlink \<Rightarrow> ipnet set \<Rightarrow> int \<Rightarrow> 'd Iface \<Rightarrow> ('k, 'i) plant \<Rightarrow> bool" where
  "swept nl A i it pl \<longleftrightarrow> (\<forall>pd. ic_PD (if_cfg it) = Some pd \<longrightarrow> pd_ok pd \<and>
     set (nl_AddrList nl (ho_kernel (pl_host pl)) i) \<subseteq> A \<and>
     (\<forall>r. if_pdr it = Some r \<and> rr_started r \<longrightarrow> pc_RouteTable pd \<noteq> 0 \<and> table_follows nl pd i None (ho_kernel (pl_host pl))))"

lemma swept_alters:
  assumes s: "swept nl A i it pl" and a: "alters nl j T (ho_kernel (pl_host pl)) (ho_kernel (pl_host pl'))"
    and "j \<noteq> i" "ownTable (if_cfg it) \<noteq> 0 \<Longrightarrow> T \<noteq> ownTable (if_cfg it)"
  shows "swept nl A i it pl'"
  unfolding swept_def
proof (intro allI impI)
  fix pd assume pd: "ic_PD (if_cfg it) = Some pd"
  with s have p: "pd_ok pd" "set (nl_AddrList nl (ho_kernel (pl_host pl)) i) \<subseteq> A"
    "\<forall>r. if_pdr it = Some r \<and> rr_started r \<longrightarrow> pc_RouteTable pd \<noteq> 0 \<and> table_follows nl pd i None (ho_kernel (pl_host pl))"
    by (simp_all add: swept_def)
  have "table_follows nl pd i None (ho_kernel (pl_host pl'))"
    if "pc_RouteTable pd \<noteq> 0" "table_follows nl pd i None (ho_kernel (pl_host pl))"
    using table_follows_alters [OF a that(2)] that(1) assms(4) pd p(1) by (auto simp: ownTable_def pd_ok_def)
  then show "pd_ok pd \<and> set (nl_AddrList nl (ho_kernel (pl_host pl')) i) \<subseteq> A \<and>
     (\<forall>r. if_pdr it = Some r \<and> rr_started r \<longrightarrow> pc_RouteTable pd \<noteq> 0 \<and> table_follows nl pd i None (ho_kernel (pl_host pl')))"
    using p altersD(2) [OF a assms(3) [symmetric]] by simp
qed

lemma stopIface_sweeps:
  assumes nl: "netlink_ok nl" "netlink_addrs nl" and x: "upright nl A i cfg (it, pl)"
    and c: "stopIface nl ipt (it, pl) = Some (it', pl', calls)"
  shows "swept nl A i it pl'" and "within nl i cfg (ho_kernel (pl_host pl)) (ho_kernel (pl_host pl'))"
proof -
  show "swept nl A i it pl'" unfolding swept_def
  proof (intro allI impI)
    fix pd assume "ic_PD (if_cfg it) = Some pd"
    then have pd: "pd_ok pd" "plumbed nl A i cfg pd (delegated it) (it, pl)"
      using x by (auto simp: upright_def following_def)
    with stopIface_kernel [OF nl pd c] show "pd_ok pd \<and> set (nl_AddrList nl (ho_kernel (pl_host pl')) i) \<subseteq> A \<and>
       (\<forall>r. if_pdr it = Some r \<and> rr_started r \<longrightarrow> pc_RouteTable pd \<noteq> 0 \<and> table_follows nl pd i None (ho_kernel (pl_host pl')))"
      by (auto simp: plumbed_def segment_follows_def Let_def)
  qed
  show "within nl i cfg (ho_kernel (pl_host pl)) (ho_kernel (pl_host pl'))"
    using stopIface_idle [OF _ _ c] stopIface_confined [OF nl upright_placed [OF x] c] x
    by (auto simp: within_def upright_def confined_def)
qed

lemma swept_within:
  fixes pl pl' :: "('k, 'i) plant"
  assumes s: "swept nl A (ix (ic_Name d)) it pl" "if_cfg it = d" and ap: "apart ix cs" "c \<in> set cs" "d \<in> set cs" "d \<noteq> c"
    and n: "ic_Name d \<noteq> ic_Name c" and w: "within nl (ix (ic_Name c)) c (ho_kernel (pl_host pl)) (ho_kernel (pl_host pl'))"
  shows "swept nl A (ix (ic_Name d)) it pl'"
proof (cases "ic_PD c = None")
  case True
  then show ?thesis using s w by (simp add: within_def swept_def)
next
  case False
  then have "alters nl (ix (ic_Name c)) (ownTable c) (ho_kernel (pl_host pl)) (ho_kernel (pl_host pl'))"
    using w by (simp add: within_def)
  with s(1) show ?thesis by (rule swept_alters) (use apart_links [OF ap(1-3) n] apart_tables [OF ap] s(2) in auto)
qed

text \<open>Stopping keeps what is persisted.\<close>

lemma stopIface_persisted:
  "stopIface nl ipt (it, pl) = Some (it', pl', calls) \<Longrightarrow> persisted ord now it' = persisted ord now it"
  by (auto simp: stopIface_def on_routes_def persisted_def Let_def split: option.splits prod.splits)

lemma collectState_setIface:
  "map_of (mg_ifaces m) name = Some it \<Longrightarrow> persisted ord (clock name) it' = persisted ord (clock name) it \<Longrightarrow>
    collectState ord clock (setIface name it' m) = collectState ord clock m"
  by (auto simp: collectState_def setIface_lookup)

lemma stopAll_sweeps:
  fixes its :: "(string \<times> 'd Iface) list"
  assumes nl: "netlink_ok nl" "netlink_addrs nl" and ap: "apart ix cs" and cs: "distinct (map ic_Name cs)" and ipt: "iptables_ok ipt rules"
  shows "distinct (map fst its) \<Longrightarrow>
    (\<And>n it. (n, it) \<in> set its \<Longrightarrow> map_of (mg_ifaces m) n = Some it \<and>
      (\<exists>c \<in> set cs. n = ic_Name c \<and> upright nl (A n) (ix n) c (it, pl))) \<Longrightarrow>
    \<exists>m' pl'. stopAll nl ipt its (m, pl) = Some (m', pl') \<and> (\<forall>(n, it) \<in> set its. swept nl (A n) (ix n) it pl') \<and>
      (\<forall>d \<in> set cs. \<forall>jt :: 'd Iface. ic_Name d \<notin> fst ` set its \<and> if_cfg jt = d \<and> swept nl (A (ic_Name d)) (ix (ic_Name d)) jt pl \<longrightarrow>
         swept nl (A (ic_Name d)) (ix (ic_Name d)) jt pl') \<and>
      rules (pl_nat pl') = filter_mset (\<lambda>x. \<forall>it \<in> snd ` set its. outlives it x) (rules (pl_nat pl)) \<and>
      collectState ord clock m' = collectState ord clock m"
proof (induction its arbitrary: m pl)
  case (Cons e its)
  obtain n and it :: "'d Iface" where e: "e = (n, it)" by fastforce
  obtain c where c: "c \<in> set cs" "n = ic_Name c" "upright nl (A n) (ix n) c (it, pl)" and it: "map_of (mg_ifaces m) n = Some it"
    using Cons.prems(2) [of n it] by (auto simp: e)
  obtain it' pl1 calls where s: "stopIface nl ipt (it, pl) = Some (it', pl1, calls)"
    "rules (pl_nat pl1) = filter_mset (outlives it) (rules (pl_nat pl))"
    using stopIface_completes [OF ipt] by metis
  note sw = stopIface_sweeps [OF nl c(3) s(1)]
  have w: "within nl (ix (ic_Name c)) c (ho_kernel (pl_host pl)) (ho_kernel (pl_host pl1))" using sw(2) c(2) by simp
  have n: "n \<notin> fst ` set its" "distinct (map fst its)" using Cons.prems(1) by (simp_all add: e)
  let ?m = "setIface n it' m"
  have "map_of (mg_ifaces ?m) n' = Some j \<and> (\<exists>c \<in> set cs. n' = ic_Name c \<and> upright nl (A n') (ix n') c (j, pl1))"
    if j: "(n', j) \<in> set its" for n' j
  proof -
    have ne: "n' \<noteq> n" using j n(1) by (auto simp: rev_image_eqI)
    obtain d where d: "d \<in> set cs" "n' = ic_Name d" "upright nl (A n') (ix n') d (j, pl)" "map_of (mg_ifaces m) n' = Some j"
      using Cons.prems(2) [of n' j] j by auto
    have "upright nl (A n') (ix n') d (j, pl1)"
      using upright_within [OF _ ap c(1) d(1) _ _ w] d(2,3) ne c(2) by auto
    then show ?thesis using d ne by (auto simp: setIface_lookup)
  qed
  from Cons.IH [OF n(2) this] obtain m' pl' where r: "stopAll nl ipt its (?m, pl1) = Some (m', pl')"
    "\<forall>(n, it) \<in> set its. swept nl (A n) (ix n) it pl'"
    "\<And>d jt :: 'd Iface. d \<in> set cs \<Longrightarrow> ic_Name d \<notin> fst ` set its \<Longrightarrow> if_cfg jt = d \<Longrightarrow> swept nl (A (ic_Name d)) (ix (ic_Name d)) jt pl1 \<Longrightarrow>
       swept nl (A (ic_Name d)) (ix (ic_Name d)) jt pl'"
    "rules (pl_nat pl') = filter_mset (\<lambda>x. \<forall>it \<in> snd ` set its. outlives it x) (rules (pl_nat pl1))"
    "collectState ord clock m' = collectState ord clock ?m" by auto
  have "swept nl (A n) (ix n) it pl'" using r(3) [OF c(1) _ _ , of it] n(1) c(2,3) sw(1) by (simp add: upright_def)
  then have "\<forall>(n, it) \<in> set (e # its). swept nl (A n) (ix n) it pl'" using r(2) by (simp add: e)
  moreover have "swept nl (A (ic_Name d)) (ix (ic_Name d)) jt pl'"
    if d: "d \<in> set cs" "ic_Name d \<notin> fst ` set (e # its)" "if_cfg jt = d" "swept nl (A (ic_Name d)) (ix (ic_Name d)) jt pl" for d and jt :: "'d Iface"
  proof (rule r(3) [OF d(1) _ d(3)])
    have ne: "ic_Name d \<noteq> ic_Name c" using d(2) c(2) by (simp add: e)
    then have "d \<noteq> c" by blast
    from swept_within [OF d(4,3) ap c(1) d(1) this ne w] show "swept nl (A (ic_Name d)) (ix (ic_Name d)) jt pl1" .
  qed (use d(2) in simp)
  moreover have "rules (pl_nat pl') = filter_mset (\<lambda>x. \<forall>it \<in> snd ` set (e # its). outlives it x) (rules (pl_nat pl))"
    unfolding r(4) s(2) by (simp add: e filter_filter_mset conj_commute)
  moreover have "collectState ord clock m' = collectState ord clock m"
    unfolding r(5) by (rule collectState_setIface [OF it stopIface_persisted [OF s(1)]])
  moreover have "stopAll nl ipt (e # its) (m, pl) = Some (m', pl')" using r(1) s(1) by (simp add: e)
  ultimately show ?case by blast
qed (simp add: filter_mset_True)

section \<open>A bridge that is deleted and created again\<close>

text \<open>The loops of an interface notice that its bridge is gone and that it is back, and attach to it again. But
  none of their steps touches the kernel or the delegation: the address and the routes that went with
  the old bridge do not come back, while the prefix is offered all the same, until a callback of the
  client plumbs it anew.\<close>

lemma recreated_bridge_stays_bare:
  assumes "attach link os it pl = (b, it', pl', calls) \<or> detach conn it = (it', calls) \<and> pl' = pl \<or>
      watchRound link it = (it', woken) \<and> pl' = pl"
    and "envV6 it = Some q" and "nl_AddrList nl (ho_kernel (pl_host pl)) j = []"
  shows "envV6 it' = Some q \<and> nl_AddrList nl (ho_kernel (pl_host pl')) j = []"
proof -
  have "unrelated (it, pl) (it', pl')"
    using assms(1) by (auto dest: attach_unrelated unrelated_steps)
  then have "envV6 it' = envV6 it" "pl_host pl' = pl_host pl" by (auto simp: unrelated_def envV6_def)
  then show ?thesis using assms(2,3) by simp
qed

section \<open>Properties\<close>

text \<open>C1: every interface of a running daemon offers and carries what is delegated to it, and nothing else, at every
  moment: the prefix that DHCPv6 leases from and that is advertised is composed from the delegation
  its client holds, and there is none while it holds none; its link has the address of this prefix,
  and no other but those it had before the daemon. While a prefix is delegated, the rules into the
  table of its segment are rules for it, both directions among them, and the routes of the table are
  the one to this prefix over the bridge, which is there, and mirrored default routes; while none is,
  there is no rule and no route. This holds from the start, through any interleaving of the frames,
  sweeps, advertisements, link events, API calls and client steps of all interfaces, which share the
  kernel without disturbing one another, and of changes by others to the rest of the kernel. The
  kernel carries out the requests (\<open>netlink_ok\<close>, \<open>netlink_addrs\<close>), the links exist when the daemon
  starts and nobody else changes them, their addresses or the tables of the segments, and a
  delegation restored from the state file has a valid prefix.\<close>

theorem daemon_follows_delegations:
  fixes w :: "('d, 'k, 'o, 'i) world"
  defines "nl \<equiv> wo_netlink w" and "k0 \<equiv> ho_kernel (pl_host (wo_plant w))"
  assumes "netlink_ok nl" and "netlink_addrs nl" and "go_order (wo_order w)" and "usable_start w cfgPath"
    and "runDaemon w cfgPath check = Running (m0, pl0) key" and "linked nl k0 (mg_order m0)"
    and "(manager_step nl ipt lib4 lib6 libpd)\<^sup>*\<^sup>* (\<lambda>_. LRun, m0, pl0) (locs, m, pl)"
    and "map_of (mg_ifaces m) name = Some it" and "ic_PD (if_cfg it) = Some pd"
  defines "v \<equiv> delegated it" and "k \<equiv> ho_kernel (pl_host pl)"
  shows "envV6 it = map_option (composePD pd) v \<and>
    envV6All it = (case v of None \<Rightarrow> [] | Some p \<Rightarrow> [composePD pd p]) \<and>
    carried pd v \<subseteq> set (nl_AddrList nl k (linkOf nl k0 name)) \<and>
    set (nl_AddrList nl k (linkOf nl k0 name)) \<subseteq> addrsOf nl k0 name \<union> carried pd v \<and>
    (\<forall>r. if_pdr it = Some r \<longrightarrow> (v \<noteq> None \<longrightarrow> rr_started r) \<and>
       (rr_started r \<longrightarrow> table_follows nl pd (linkOf nl k0 name) v k))"
proof -
  obtain cs where cs: "apart (linkOf nl k0) cs" "fleet nl (addrsOf nl k0) (linkOf nl k0) cs (m0, pl0)"
    using runDaemon_fleet [of w cfgPath check m0 pl0 key] assms by (auto simp: nl_def k0_def)
  have "fleet nl (addrsOf nl k0) (linkOf nl k0) cs (m, pl)"
    using manager_run_fleet [OF assms(3,4) cs(1) assms(9)] cs(2) by simp
  then obtain c where "upright nl (addrsOf nl k0 name) (linkOf nl k0 name) c (it, pl)"
    using assms(10) by (rule fleet_lookup)
  then have "pd_ok pd" "following nl (addrsOf nl k0 name) (linkOf nl k0 name) (if_cfg it) pd (it, pl)"
    using assms(11) by (auto simp: upright_def)
  then show ?thesis using following_offers unfolding v_def k_def by blast
qed


text \<open>C8: a request to release a delegation is honoured by the client's session and bound loops: whatever state
  the daemon is in when it succeeds, if the client of that interface holds a delegation and is in its
  session or bound loop, its next stretch ends with the delegation given up. The interface then
  offers no prefix, its link has no address but those from before the daemon, and its table is empty;
  the client goes on to solicit a new one. The client must not be stopped at that moment and its clock
  must advance. While the client is still opening its socket the request waits, as after a start
  with a restored delegation. The conditions on the kernel and on the restored state are the same as for the
  running daemon.\<close>

theorem release_is_honoured:
  fixes w :: "('d, 'k, 'o, 'i) world"
  defines "nl \<equiv> wo_netlink w" and "k0 \<equiv> ho_kernel (pl_host (wo_plant w))"
  assumes "netlink_ok nl" and "netlink_addrs nl" and "go_order (wo_order w)" and "usable_start w cfgPath"
    and "runDaemon w cfgPath check = Running (m0, pl0) key" and "linked nl k0 (mg_order m0)"
    and "(manager_step nl ipt lib4 lib6 libpd)\<^sup>*\<^sup>* (\<lambda>_. LRun, m0, pl0) (locs, m, pl)"
    and "ReleasePD () name (m, pl) = Inr (m1, pl1)" and "map_of (mg_ifaces m1) name = Some it"
    and "ic_PD (if_cfg it) = Some pd" and "if_pdc it = Some c" and "delegated it \<noteq> None"
    and "locs name \<in> {LSession, LBound}" and "clock_advances script" and "\<not> pe_stopped (script (cl_k c))"
  shows "\<exists>it' pl'. pdIteration nl libpd script (locs name, it, pl1) = Some (LSession, it', pl') \<and>
    delegated it' = None \<and> envV6 it' = None \<and> envV6All it' = [] \<and>
    set (nl_AddrList nl (ho_kernel (pl_host pl')) (linkOf nl k0 name)) \<subseteq> addrsOf nl k0 name \<and>
    (\<forall>r. if_pdr it' = Some r \<and> rr_started r \<longrightarrow> table_follows nl pd (linkOf nl k0 name) None (ho_kernel (pl_host pl')))"
proof -
  obtain cs where cs: "apart (linkOf nl k0) cs" "fleet nl (addrsOf nl k0) (linkOf nl k0) cs (m0, pl0)"
    using runDaemon_fleet [of w cfgPath check m0 pl0 key] assms by (auto simp: nl_def k0_def)
  have f: "fleet nl (addrsOf nl k0) (linkOf nl k0) cs (m, pl)"
    using manager_run_fleet [OF assms(3,4) cs(1) assms(9)] cs(2) by simp
  have "serves cs m1" using touches_serves [OF releasePD.success [OF assms(10)]] f by (simp add: fleet_def)
  from requested_fleet [OF f cs(1) requested_PD(2) [OF assms(10)] this]
  obtain cfg where "upright nl (addrsOf nl k0 name) (linkOf nl k0 name) cfg (it, pl1)" using assms(11) by (rule fleet_lookup)
  then have u: "pd_ok pd" "following nl (addrsOf nl k0 name) (linkOf nl k0 name) (if_cfg it) pd (it, pl1)"
    using assms(12) by (auto simp: upright_def)
  have rel: "cl_releaseReq c" using assms(10,11,13) by (auto simp: ReleasePD_def iface_def setIface_lookup Release_def split: option.splits)
  obtain b where b: "cl_binding c = Some b" using assms(13,14) by (auto simp: delegated_def)
  obtain c' where c': "pdNext libpd script (locs name, c\<lparr>cl_calls := []\<rparr>) = Some (LSession, c')" "cl_binding c' = None"
    using pdNext_releases [OF assms(16) _ _ assms(15), of "c\<lparr>cl_calls := []\<rparr>" b libpd] rel b assms(17) by auto
  obtain it' pl' where d: "deliver nl (cl_calls c') (it\<lparr>if_pdc := Some c'\<rparr>, pl1) = (it', pl')" by fastforce
  have p: "pdIteration nl libpd script (locs name, it, pl1) = Some (LSession, it', pl')"
    by (simp add: pdIteration_def assms(13) c'(1) d)
  have "if_pdc it' = Some c'" using deliver_pdc [of nl "cl_calls c'" "(it\<lparr>if_pdc := Some c'\<rparr>, pl1)"] d by simp
  then have v: "delegated it' = None" using c'(2) by (simp add: delegated_def)
  from following_offers [OF pdIteration_following [OF assms(3,4) u p] u(1)] v p show ?thesis by (auto simp: carried_def)
qed

text \<open>C16: the servers of a running daemon keep their invariants and their configurations in every state it reaches,
  it keeps serving the same interfaces, and handling a frame never panics, on whichever interface and
  whatever bytes arrive.\<close>

theorem daemon_servers_invariant:
  assumes "runDaemon w cfgPath check = Running (m0, pl0) key" and "go_order (wo_order w)"
    and "(manager_step nl ipt lib4 lib6 libpd)\<^sup>*\<^sup>* (locs0, m0, pl0) (locs, m, pl)"
    and "map_of (mg_ifaces m) name = Some it"
  shows "mg_order m = mg_order m0 \<and> servers_ok (if_cfg it) it \<and>
    (\<exists>it0. map_of (mg_ifaces m0) name = Some it0 \<and> if_cfg it0 = if_cfg it) \<and>
    (ra_orders_ok rord \<longrightarrow> snd (readFrame ord rord lib4 lib6 t recv it) \<noteq> None)"
proof -
  obtain cfg cs x y where d: "serves cs (fst x)" "applyStatics (wo_sorder w (InitialStatics cfg)) x = Inr y"
    "(m0, pl0) = StartManager (wo_json w) (wo_readable w) (wo_files w) (wo_netlink w) (wo_clock w) (wo_order w) y"
    by (rule runDaemon_Running [OF assms(1)]) blast
  have s0: "serves cs m0" using StartManager_serves [OF assms(2) applyStatics_serves [OF d(2,1)]] d(3) by (metis fst_conv)
  have s: "serves cs m" using manager_run_serves [OF assms(3)] s0 by simp
  then obtain c where c: "c \<in> set cs" "ic_Name c = name" "servers_ok c it" using assms(4) by (rule serves_lookup)
  have "name \<in> dom (map_of (mg_ifaces m0))" using s0 c(1,2) by (auto simp: serves_def)
  then obtain it0 where it0: "map_of (mg_ifaces m0) name = Some it0" by blast
  have "servers_ok c it0" using s0 c(1,2) it0 by (auto simp: serves_def)
  moreover have "mg_order m = mg_order m0" using s s0 by (simp add: serves_def)
  moreover have "snd (readFrame ord rord lib4 lib6 t recv it) \<noteq> None" if "ra_orders_ok rord"
    using readFrame_servers [OF surjective_pairing c(3) that] by blast
  moreover have "if_cfg it = c" "if_cfg it0 = c" using c(3) calculation(1) by (simp_all add: servers_ok_def)
  ultimately show ?thesis using c(3) it0 by blast
qed

section \<open>Examples\<close>

text \<open>A daemon with two bridges, the first of which restores a delegation.\<close>

definition fleet_example :: "(unit, kernel_example, unit, string list list) world" where
  "fleet_example = (world_example [entry_example, entry2_example])
     \<lparr>wo_files := (\<lambda>path. if path = ''/c'' \<or> path = ''/state'' then Some [] else None),
      wo_json := json_example (\<lambda>n. if n = ''br0'' then Some saved_example else None)\<rparr>"

definition os_example :: save_os where
  "os_example = \<lparr>so_mkdir = True, so_write = True, so_partial = None, so_rename = True\<rparr>"

lemma loaded_fleet_example:
  "\<exists>cfg c d. loadConfig fleet_example ''/c'' = Inr (cfg, ''k'', [c, d]) \<and> cf_APISocket cfg = ''/s'' \<and>
     InitialStatics cfg = [(''br0'', [sb_mac_example], [])] \<and> ic_Name c = ''br0'' \<and> ic_Name d = ''br1'' \<and>
     (\<exists>c'. normalizeIface c = Inr c') \<and> (\<exists>d'. normalizeIface d = Inr d')"
  by (simp add: fleet_example_def loadConfig_def world_example_def Load_def ResolveAPIKey_def BuildIfaceConfigs_def entry2_example_def
      entry_example_def buildIface_def buildPrefix_def buildDHCP4_def buildDHCP6_def buildRA_def buildPD_def duid_example
      claimTable_def reservedTable_def InitialStatics_def normalizeIface_def normalize4_def normalize6_def zeroDHCP4_def
      zeroDHCP6_def normalizePDConfig_def Let_def)

lemma running_fleet_example:
  obtains m pl where "runDaemon fleet_example ''/c'' False = Running (m, pl) ''k''" "mg_order m = [''br0'', ''br1'']"
proof -
  obtain cfg c d where c: "loadConfig fleet_example ''/c'' = Inr (cfg, ''k'', [c, d])" "cf_APISocket cfg = ''/s''"
    "InitialStatics cfg = [(''br0'', [sb_mac_example], [])]" "ic_Name c = ''br0''" "ic_Name d = ''br1''"
    "\<exists>c'. normalizeIface c = Inr c'" "\<exists>d'. normalizeIface d = Inr d'"
    using loaded_fleet_example by blast
  then obtain c' d' where n: "normalizeIface c = Inr c'" "ic_Name c' = ''br0''" "normalizeIface d = Inr d'" "ic_Name d' = ''br1''"
    using normalizeIface_Name by metis
  have "\<exists>x. startDaemon fleet_example cfg ''k'' [c, d] = Running x ''k''"
    using c(2,3) n
    by (simp add: startDaemon_def NewManager_def setIface_def fleet_example_def world_example_def replaceNonEmpty_def
        ReplaceStatics_def editStatics_def iface_def ReplaceStatics4_def buildStaticSet_def validate_def sb_mac_example_def
        newServer_def Let_def)
  then obtain m pl where r: "runDaemon fleet_example ''/c'' False = Running (m, pl) ''k''"
    using c(1) by (auto simp: runDaemon_def)
  obtain cfg cs x y where d: "Load (wo_decode fleet_example) (wo_files fleet_example) ''/c'' = Inr cfg"
    "list_all2 answers (cf_Interfaces cfg) cs" "serves cs (fst x)" "applyStatics (wo_sorder fleet_example (InitialStatics cfg)) x = Inr y"
    "(m, pl) = StartManager (wo_json fleet_example) (wo_readable fleet_example) (wo_files fleet_example) (wo_netlink fleet_example)
       (wo_clock fleet_example) (wo_order fleet_example) y"
    by (rule runDaemon_Running [OF r]) blast
  have "go_order (wo_order fleet_example)" by (simp add: fleet_example_def world_example_def)
  from StartManager_serves [OF this applyStatics_serves [OF d(4,3)]] d(5) have "serves cs m" by (metis fst_conv)
  then have "mg_order m = [''br0'', ''br1'']"
    using d(1,2) by (auto simp: serves_def fleet_example_def world_example_def Load_def entry2_example_def entry_example_def
        list_all2_Cons1 answers_def)
  with r show thesis by (rule that)
qed

lemma usable_example: "usable_start fleet_example ''/c''"
  by (auto simp: usable_start_def usable_state_def fleet_example_def world_example_def load_def json_example_def
      newStateStore_def saved_example_def binding_example_def PfxIsValid_def split: if_splits)

lemma linked_example: "linked nl_example k [''br0'', ''br1'']"
  by (simp add: linked_def)

lemma delegated_fleet_example:
  assumes r: "runDaemon fleet_example ''/c'' False = Running (m, pl) ''k''" and o: "mg_order m = [''br0'', ''br1'']"
  obtains it pd where "map_of (mg_ifaces m) ''br0'' = Some it" "ic_PD (if_cfg it) = Some pd"
    "delegated it = Some (bd_Prefix binding_example)"
proof -
  let ?w = fleet_example and ?k = "ho_kernel (pl_host (wo_plant fleet_example))"
  have mo: "go_order (wo_order ?w)" and nl: "wo_netlink ?w = nl_example" by (simp_all add: fleet_example_def world_example_def)
  have l: "linked (wo_netlink ?w) ?k (mg_order m)" using linked_example o nl by simp
  obtain cfg cs y where d: "Load (wo_decode ?w) (wo_files ?w) ''/c'' = Inr cfg" "list_all2 answers (cf_Interfaces cfg) cs"
    "fleet nl_example (addrsOf nl_example ?k) (linkOf nl_example ?k) cs y" "fresh (cf_StateFile cfg) y"
    "(m, pl) = StartManager (wo_json ?w) (wo_readable ?w) (wo_files ?w) nl_example (wo_clock ?w) (wo_order ?w) y"
    by (rule runDaemon_ready [OF r mo l, unfolded nl]) blast
  obtain my ply where y: "y = (my, ply)" by fastforce
  have sv: "serves cs my" using d(3) by (simp add: fleet_def y)
  have names: "cf_StateFile cfg = ''/state''" "\<exists>c \<in> set cs. ic_Name c = ''br0'' \<and> ic_PD c \<noteq> None"
    using d(1,2) by (auto simp: fleet_example_def world_example_def Load_def entry2_example_def entry_example_def
        list_all2_Cons1 answers_def)
  then obtain c where c': "c \<in> set cs" "ic_Name c = ''br0''" "ic_PD c \<noteq> None" by blast
  then have "ic_Name c \<in> dom (map_of (mg_ifaces my))" using sv unfolding serves_def by blast
  then obtain it0 where c: "c \<in> set cs" "ic_Name c = ''br0''" "ic_PD c \<noteq> None" "map_of (mg_ifaces my) ''br0'' = Some it0"
    using c' by auto
  have "upright nl_example (addrsOf nl_example ?k ''br0'') (linkOf nl_example ?k ''br0'') c (it0, ply)"
    using d(3) c(1,2,4) unfolding fleet_def y by auto
  then have pdc: "if_pdc it0 \<noteq> None" using c(3) by (auto simp: upright_def following_def)
  have "load (wo_json ?w) (wo_readable ?w) (pl_store ply) (wo_files ?w) =
      ((\<lambda>n. if n = ''br0'' then Some saved_example else None), False)"
    using d(4) names(1) by (simp add: load_def fleet_example_def world_example_def json_example_def fresh_def y)
  from StartManager_restores [OF mo _ c(4) this, of nl_example "wo_clock ?w" m pl] d(5) sv
  obtain it1 it and pl1 pl2 :: "(kernel_example, string list list) plant" where
    i: "restore nl_example (wo_clock ?w ''br0'') (Some saved_example) (it0, pl1) = (it1, pl2)"
      "map_of (mg_ifaces m) ''br0'' = Some it" "if_pdc it = if_pdc it1"
    by (auto simp: serves_def y)
  have "delegated it = Some (bd_Prefix binding_example)"
    using restore_frame [OF i(1)] i(3) pdc
    by (auto simp: delegated_def saved_example_def Restore_def binding_example_def PfxIsValid_def fleet_example_def world_example_def)
  moreover have "serves cs m" using StartManager_serves [OF mo, of cs y] sv d(5) by (metis fst_conv y)
  then have "servers_ok c it" using c i(2) by (simp add: serves_def)
  then have "ic_PD (if_cfg it) \<noteq> None" using c(3) by (simp add: servers_ok_def)
  ultimately show thesis using that i(2) by blast
qed

theorem daemon_follows_delegations_witness:
  "\<exists>m pl it pd. runDaemon fleet_example ''/c'' False = Running (m, pl) ''k'' \<and> mg_order m = [''br0'', ''br1''] \<and>
     map_of (mg_ifaces m) ''br0'' = Some it \<and> ic_PD (if_cfg it) = Some pd \<and>
     envV6 it = Some (composePD pd (bd_Prefix binding_example))"
proof -
  obtain m pl where r: "runDaemon fleet_example ''/c'' False = Running (m, pl) ''k''" "mg_order m = [''br0'', ''br1'']"
    by (rule running_fleet_example)
  then obtain it pd where i: "map_of (mg_ifaces m) ''br0'' = Some it" "ic_PD (if_cfg it) = Some pd"
    "delegated it = Some (bd_Prefix binding_example)" by (rule delegated_fleet_example)
  have w: "wo_netlink fleet_example = nl_example" "go_order (wo_order fleet_example)"
    by (simp_all add: fleet_example_def world_example_def)
  have "(manager_step (wo_netlink fleet_example) ipt_example lib4_example lib6_example libpd_example)\<^sup>*\<^sup>* (\<lambda>_. LRun, m, pl) (\<lambda>_. LRun, m, pl)"
    by simp
  from daemon_follows_delegations [OF _ _ w(2) usable_example r(1) _ this i(1,2)] i(3)
  have "envV6 it = Some (composePD pd (bd_Prefix binding_example))"
    using netlink_ok_example netlink_addrs_example linked_example r(2) w(1) by simp
  then show ?thesis using r i by blast
qed


theorem daemon_servers_invariant_witness:
  "\<exists>m pl it. runDaemon fleet_example ''/c'' False = Running (m, pl) ''k'' \<and> map_of (mg_ifaces m) ''br0'' = Some it \<and>
     servers_ok (if_cfg it) it"
proof -
  obtain m pl where r: "runDaemon fleet_example ''/c'' False = Running (m, pl) ''k''" "mg_order m = [''br0'', ''br1'']"
    by (rule running_fleet_example)
  then obtain it where i: "map_of (mg_ifaces m) ''br0'' = Some it" by (rule delegated_fleet_example)
  have mo: "go_order (wo_order fleet_example)" by (simp add: fleet_example_def world_example_def)
  have "(manager_step nl_example ipt_example lib4_example lib6_example libpd_example)\<^sup>*\<^sup>* (\<lambda>_. LRun, m, pl) (\<lambda>_. LRun, m, pl)"
    by simp
  from daemon_servers_invariant [OF r(1) mo this i] r i show ?thesis by blast
qed

text \<open>The first bridge's client opens its socket, then a release is requested.\<close>

definition uplink_up_example :: "nat \<Rightarrow> pd_world" where
  "uplink_up_example = (\<lambda>k. (silent 0 k)\<lparr>pe_addrs := Some [Some fe80_example], pe_listen := True\<rparr>)"

lemma runBody_example:
  "\<exists>c'. runBody uplink_up_example c = (LSession, c') \<and> cl_binding c' = cl_binding c \<and> cl_calls c' = cl_calls c"
proof -
  have "To4 fe80_example = []" by (simp add: To4_def fe80_example_def v4InV6_def)
  moreover from this have "IP_IsLinkLocalUnicast fe80_example" by (simp add: IP_IsLinkLocalUnicast_def fe80_example_def)
  ultimately show ?thesis by (simp add: runBody_def openSocket_def uplink_up_example_def ask_def setState_def Let_def)
qed

theorem release_is_honoured_witness:
  "\<exists>m pl it locs m2 m1 it1 it' pl'. runDaemon fleet_example ''/c'' False = Running (m, pl) ''k'' \<and>
     map_of (mg_ifaces m) ''br0'' = Some it \<and> delegated it \<noteq> None \<and>
     ReleasePD () ''br0'' (m2, pl) = Inr (m1, pl) \<and> map_of (mg_ifaces m1) ''br0'' = Some it1 \<and>
     pdIteration nl_example libpd_example (\<lambda>k. (silent 0 k)\<lparr>pe_now := int k\<rparr>) (locs ''br0'', it1, pl) = Some (LSession, it', pl') \<and>
     envV6 it' = None"
proof -
  let ?w = fleet_example
  obtain m pl where r: "runDaemon ?w ''/c'' False = Running (m, pl) ''k''" "mg_order m = [''br0'', ''br1'']"
    by (rule running_fleet_example)
  then obtain it pd where i: "map_of (mg_ifaces m) ''br0'' = Some it" "ic_PD (if_cfg it) = Some pd"
    "delegated it = Some (bd_Prefix binding_example)" by (rule delegated_fleet_example)
  then obtain c b where c: "if_pdc it = Some c" "cl_binding c = Some b" by (auto simp: delegated_def split: option.splits)
  obtain c2 where c2: "runBody uplink_up_example (c\<lparr>cl_calls := []\<rparr>) = (LSession, c2)" "cl_binding c2 = Some b" "cl_calls c2 = []"
    using runBody_example [of "c\<lparr>cl_calls := []\<rparr>"] c(2) by auto
  let ?locs = "(\<lambda>_. LRun)(''br0'' := LSession)" and ?it2 = "it\<lparr>if_pdc := Some c2\<rparr>" and ?it1 = "it\<lparr>if_pdc := Some (Release c2)\<rparr>"
  let ?m2 = "setIface ''br0'' ?it2 m" and ?m1 = "setIface ''br0'' ?it1 (setIface ''br0'' ?it2 m)"
  have w: "wo_netlink ?w = nl_example" "go_order (wo_order ?w)" by (simp_all add: fleet_example_def world_example_def)
  have "pdIteration nl_example libpd_example uplink_up_example (LRun, it, pl) = Some (LSession, ?it2, pl)"
    using c(1) c2 by (simp add: pdIteration_def pdNext_def deliver_def)
  then have run: "(manager_step nl_example ipt_example lib4_example lib6_example libpd_example)\<^sup>*\<^sup>* (\<lambda>_. LRun, m, pl) (?locs, ?m2, pl)"
    by (intro r_into_rtranclp manager_step.interface [OF i(1)] iface_step.delegation)
  have linked: "linked nl_example (ho_kernel (pl_host (wo_plant ?w))) (mg_order m)" using linked_example r(2) by simp
  have rel: "ReleasePD () ''br0'' (?m2, pl) = Inr (?m1, pl)" by (simp add: ReleasePD_def iface_def setIface_lookup)
  have it1: "map_of (mg_ifaces ?m1) ''br0'' = Some ?it1" "if_pdc ?it1 = Some (Release c2)" by (simp_all add: setIface_lookup)
  have "delegated ?it1 \<noteq> None" using c2(2) by (simp add: delegated_def Release_def)
  moreover have "\<not> pe_stopped ((silent 0 (cl_k (Release c2)))\<lparr>pe_now := int (cl_k (Release c2))\<rparr>)" by simp
  ultimately have "\<exists>it' pl'. pdIteration nl_example libpd_example (\<lambda>k. (silent 0 k)\<lparr>pe_now := int k\<rparr>) (?locs ''br0'', ?it1, pl) = Some (LSession, it', pl') \<and>
      delegated it' = None \<and> envV6 it' = None \<and> envV6All it' = [] \<and>
      set (nl_AddrList nl_example (ho_kernel (pl_host pl')) (linkOf nl_example (ho_kernel (pl_host (wo_plant ?w))) ''br0''))
        \<subseteq> addrsOf nl_example (ho_kernel (pl_host (wo_plant ?w))) ''br0'' \<and>
      (\<forall>r. if_pdr it' = Some r \<and> rr_started r \<longrightarrow> table_follows nl_example pd (linkOf nl_example (ho_kernel (pl_host (wo_plant ?w))) ''br0'') None (ho_kernel (pl_host pl')))"
    using i(2) by (intro release_is_honoured [where w = ?w and libpd = libpd_example, unfolded w(1), OF netlink_ok_example
        netlink_addrs_example w(2) usable_example r(1) linked run rel it1(1) _ it1(2) _ _ clock_advances_example]) simp_all
  then show ?thesis using r(1) i rel it1(1) by blast
qed

text \<open>Stopping an interface closes the client's channel but does not wait for its goroutine, nor does the stopped
  interface refuse callbacks: a reply that was under way still binds, and the address is added after
  the clean-up. Only the routed segment refuses it.\<close>

lemma late_callback_leaks:
  "\<exists>it pl calls it' pl'. stopIface nl_example ipt_example (iface_example, plant_example) = Some (it, pl, calls) \<and>
     if_pdc it = if_pdc iface_example \<and> onPDChange nl_example (bd_Prefix binding_example) True (it, pl) = (it', pl') \<and>
     addrNet (composePD pdcfg_example (bd_Prefix binding_example)) \<in> set (nl_AddrList nl_example (ho_kernel (pl_host pl')) 3)"
  by (simp add: iface_example_def newIface_def ifcfg_example_def pdcfg_example_def stopIface_def on_routes_def Stop_def clearLocked_def
      newRoutes_def onPDChange_def Install_def addAddr_def Let_def PfxIsValid_def ZeroPrefix_def) force

end
