(* ===== verification/Settings.thy ===== *)
theory Settings
  imports Fleet
begin

text \<open>
  The sysctls under a running daemon. Seen from the settings its segments share, a daemon is the abstract
  process of segments \<open>segments_step\<close>: every run of the manager, its start and its shutdown included,
  is simulated by a run of that process.
\<close>

section \<open>The segment of one interface\<close>

text \<open>From one state of an interface and the host to another, the segment goes through a run of the process,
  wherever it stands in the list; without a segment at most the kernel has changed.\<close>

definition simulated :: "('k, 'o) netlink \<Rightarrow> 'd Iface \<times> ('k, 'i) plant \<Rightarrow> 'd Iface \<times> ('k, 'i) plant \<Rightarrow> bool" where
  "simulated nl x y \<longleftrightarrow>
     (case if_pdr (fst x) of
        None \<Rightarrow> if_pdr (fst y) = None \<and> (\<exists>k. pl_host (snd y) = (pl_host (snd x))\<lparr>ho_kernel := k\<rparr>)
      | Some r \<Rightarrow> (\<exists>r'. if_pdr (fst y) = Some r' \<and> (\<forall>rs i. i < length rs \<longrightarrow> rs ! i = r \<longrightarrow>
          (segments_step nl)\<^sup>*\<^sup>* (rs, pl_host (snd x)) (rs[i := r'], pl_host (snd y)))))"

lemma simulatedD:
  assumes "simulated nl x y" and "if_pdr (fst x) = Some r"
  obtains r' where "if_pdr (fst y) = Some r'"
    "\<And>rs i. i < length rs \<Longrightarrow> rs ! i = r \<Longrightarrow> (segments_step nl)\<^sup>*\<^sup>* (rs, pl_host (snd x)) (rs[i := r'], pl_host (snd y))"
  using assms by (auto simp: simulated_def)

lemma simulated_trans:
  assumes "simulated nl x y" and "simulated nl y z"
  shows "simulated nl x z"
proof (cases "if_pdr (fst x)")
  case None
  then show ?thesis using assms by (auto simp: simulated_def)
next
  case (Some r)
  obtain r' where r': "if_pdr (fst y) = Some r'"
    "\<And>rs i. i < length rs \<Longrightarrow> rs ! i = r \<Longrightarrow> (segments_step nl)\<^sup>*\<^sup>* (rs, pl_host (snd x)) (rs[i := r'], pl_host (snd y))"
    using assms(1) Some by (rule simulatedD) blast
  obtain r'' where r'': "if_pdr (fst z) = Some r''"
    "\<And>rs i. i < length rs \<Longrightarrow> rs ! i = r' \<Longrightarrow> (segments_step nl)\<^sup>*\<^sup>* (rs, pl_host (snd y)) (rs[i := r''], pl_host (snd z))"
    using assms(2) r'(1) by (rule simulatedD) blast
  have "(segments_step nl)\<^sup>*\<^sup>* (rs, pl_host (snd x)) (rs[i := r''], pl_host (snd z))" if i: "i < length rs" "rs ! i = r" for rs i
    using r'(2) [OF i] r''(2) [of i "rs[i := r']"] i(1) by simp
  then show ?thesis using Some r''(1) by (simp add: simulated_def)
qed

lemma simulated_kernel:
  assumes "if_pdr (fst y) = if_pdr (fst x)" and "pl_host (snd y) = (pl_host (snd x))\<lparr>ho_kernel := k\<rparr>"
  shows "simulated nl x y"
proof (cases "if_pdr (fst x)")
  case (Some r)
  have "(segments_step nl)\<^sup>*\<^sup>* (rs, h) (rs[i := rs ! i], h\<lparr>ho_kernel := k\<rparr>)" for rs i h
    by (simp add: r_into_rtranclp segments_step.World)
  then show ?thesis using assms Some by (auto simp: simulated_def)
qed (use assms in \<open>auto simp: simulated_def\<close>)

lemma simulated_same: "if_pdr (fst y) = if_pdr (fst x) \<Longrightarrow> pl_host (snd y) = pl_host (snd x) \<Longrightarrow> simulated nl x y"
  by (rule simulated_kernel [where k = "ho_kernel (pl_host (snd x))"]) simp_all

lemma simulated_on_kernel:
  "if_pdr it' = if_pdr it \<Longrightarrow> simulated nl (it, pl) (it', on_host (on_kernel g) pl)"
  by (rule simulated_kernel [where k = "g (ho_kernel (pl_host pl))"]) (simp_all add: on_kernel_def)

text \<open>The operations of the process.\<close>

definition segment_op :: "('k, 'o) netlink \<Rightarrow> (Routes \<times> 'k host \<Rightarrow> Routes \<times> 'k host) \<Rightarrow> bool" where
  "segment_op nl f \<longleftrightarrow> (\<forall>rs i h r h'. i < length rs \<longrightarrow> f (rs ! i, h) = (r, h') \<longrightarrow> segments_step nl (rs, h) (rs[i := r], h'))"

lemma segment_ops: "segment_op nl (Start nl)" "segment_op nl (Install nl p)" "segment_op nl (Clear nl)" "segment_op nl (Stop nl)"
  by (auto simp: segment_op_def intro: segments_step.intros)

lemma simulated_on_routes:
  assumes "segment_op nl f"
  shows "simulated nl x (on_routes f x)"
proof -
  obtain it pl where x: "x = (it, pl)" by fastforce
  show ?thesis
  proof (cases "if_pdr it")
    case None
    then show ?thesis unfolding x by (intro simulated_same) (simp_all add: on_routes_def)
  next
    case (Some r)
    obtain r' h' where f: "f (r, pl_host pl) = (r', h')" by fastforce
    then have "segments_step nl (rs, pl_host pl) (rs[i := r'], h')" if "i < length rs" "rs ! i = r" for rs i
      using assms that by (auto simp: segment_op_def)
    then show ?thesis using Some f by (auto simp: simulated_def on_routes_def x)
  qed
qed

section \<open>The operations of an interface\<close>

lemma onPDChange_simulated: "simulated nl (it, pl) (onPDChange nl p ok (it, pl))"
proof (cases "ic_PD (if_cfg it)")
  case None
  then show ?thesis by (intro simulated_same) (simp_all add: onPDChange_def)
next
  case (Some pd)
  show ?thesis
  proof (cases ok)
    case True
    let ?addr = "composePD pd p"
    let ?x = "(it\<lparr>if_pdAddr := ?addr\<rparr>, on_host (on_kernel (addAddr nl (ic_Name (if_cfg it)) ?addr)) pl)"
    let ?y = "on_routes (Install nl (Masked ?addr)) ?x"
    have "simulated nl (it, pl) ?x" by (rule simulated_on_kernel) simp
    moreover have "simulated nl ?x ?y" by (rule simulated_on_routes [OF segment_ops(2)])
    moreover have "simulated nl ?y (onPDChange nl p ok (it, pl))"
      by (rule simulated_same) (simp_all add: onPDChange_def Some True Let_def case_prod_beta)
    ultimately show ?thesis by (blast intro: simulated_trans)
  next
    case False
    let ?x = "(it\<lparr>if_pdAddr := ZeroPrefix\<rparr>, pl)"
    let ?y = "on_routes (Clear nl) ?x"
    let ?z = "(fst ?y, if PfxIsValid (if_pdAddr it) then on_host (on_kernel (removeAddr nl (ic_Name (if_cfg it)) (if_pdAddr it))) (snd ?y) else snd ?y)"
    have "simulated nl (it, pl) ?x" by (rule simulated_same) simp_all
    moreover have "simulated nl ?x ?y" by (rule simulated_on_routes [OF segment_ops(3)])
    moreover have "simulated nl ?y ?z"
      using simulated_on_kernel [of "fst ?y" "fst ?y" nl "snd ?y"] simulated_same [of ?y ?y] by auto
    moreover have "simulated nl ?z (onPDChange nl p ok (it, pl))"
      by (rule simulated_same) (simp_all add: onPDChange_def Some False Let_def case_prod_beta)
    ultimately show ?thesis by (blast intro: simulated_trans)
  qed
qed

lemma deliver_simulated: "simulated nl x (deliver nl calls x)"
proof (induction calls arbitrary: x)
  case Nil
  show ?case by (intro simulated_same) (simp_all add: deliver_def)
next
  case (Cons call calls)
  let ?y = "onPDChange nl (fst call) (snd call) x"
  have "simulated nl x ?y" using onPDChange_simulated [of nl "fst x" "snd x"] by simp
  from simulated_trans [OF this Cons.IH] show ?case by (simp add: deliver_def case_prod_beta)
qed

lemma pdIteration_simulated:
  assumes "pdIteration nl lib w (loc, it, pl) = Some (loc', y)"
  shows "simulated nl (it, pl) y"
proof -
  obtain c where c: "y = deliver nl (cl_calls c) (it\<lparr>if_pdc := Some c\<rparr>, pl)"
    using assms by (auto simp: pdIteration_def split: option.splits)
  have "simulated nl (it, pl) (it\<lparr>if_pdc := Some c\<rparr>, pl)" by (rule simulated_same) simp_all
  from simulated_trans [OF this deliver_simulated] show ?thesis unfolding c .
qed

lemma unrelated_simulated: "unrelated x y \<Longrightarrow> simulated nl x y"
  by (cases x; cases y) (auto simp: unrelated_def intro: simulated_same)

lemma mirror_simulated: "simulated nl (it, pl) (it, on_host (mirrorRound nl r) pl)"
  by (rule simulated_kernel [where k = "ho_kernel (mirrorRound nl r (pl_host pl))"]) (simp_all add: mirrorRound_def on_kernel_def)

lemma iface_step_simulated:
  assumes "iface_step nl ipt lib4 lib6 libpd (loc, it, pl) (loc', it', pl')"
  shows "simulated nl (it, pl) (it', pl')"
  using assms
proof cases
  case start
  then show ?thesis using simulated_on_routes [OF segment_ops(1), of nl "(it, pl)"] by (simp add: startIface_def)
next
  case (mirror r)
  then show ?thesis using mirror_simulated by simp
next
  case (delegation w)
  then show ?thesis by (rule pdIteration_simulated)
next
  case (frame ord rord now recv out)
  then show ?thesis using unrelated_simulated [OF readFrame_unrelated] by metis
qed (auto intro!: unrelated_simulated dest: attach_unrelated startDNS_unrelated applyDNAT_unrelated unrelated_steps simp: unrelated_def)

lemma restore_simulated:
  assumes "restore nl now p (it, pl) = y"
  shows "simulated nl (it, pl) y"
  using assms
proof (cases rule: restore_cases)
  case (live q c b)
  let ?it = "(restoreServers q it)\<lparr>if_pdc := Some (Restore now c b)\<rparr>"
  have "simulated nl (it, pl) (?it, pl)" by (rule simulated_same) (simp_all add: restoreServers_frame)
  from simulated_trans [OF this onPDChange_simulated [of nl ?it pl "bd_Prefix b" True]] show ?thesis unfolding live(5) .
qed (auto intro!: simulated_same simp: restoreServers_frame)

lemma stopIface_simulated:
  assumes "stopIface nl ipt (it, pl) = Some (it', pl', calls)"
  shows "simulated nl (it, pl) (it', pl')" and "if_pdr it' = Some r \<Longrightarrow> rr_stopped r"
proof -
  let ?it = "it\<lparr>if_done := True, if_conn := None\<rparr>"
  obtain pl1 where s: "on_routes (Stop nl) (?it, pl1) = (it', pl')" "\<exists>k. pl_host pl1 = (pl_host pl)\<lparr>ho_kernel := k\<rparr>"
  proof -
    obtain nat0 where "(case if_dnat it of None \<Rightarrow> Some (pl_nat pl) | Some r \<Rightarrow> removeDNAT ipt r (pl_nat pl)) = Some nat0"
      using assms by (cases "case if_dnat it of None \<Rightarrow> Some (pl_nat pl) | Some r \<Rightarrow> removeDNAT ipt r (pl_nat pl)") (auto simp: stopIface_def Let_def)
    then show thesis using assms
      by (intro that [of "let pl = pl\<lparr>pl_nat := nat0\<rparr> in if PfxIsValid (if_pdAddr it)
          then on_host (on_kernel (removeAddr nl (ic_Name (if_cfg it)) (if_pdAddr it))) pl else pl"])
        (auto simp: stopIface_def on_kernel_def Let_def split: prod.splits if_splits intro: exI [of _ "ho_kernel (pl_host pl)"])
  qed
  then obtain k where "simulated nl (it, pl) (?it, pl1)"
    using simulated_kernel [of "(?it, pl1)" "(it, pl)"] by auto
  from simulated_trans [OF this simulated_on_routes [OF segment_ops(4)]] s(1) show "simulated nl (it, pl) (it', pl')" by metis
  show "rr_stopped r" if "if_pdr it' = Some r"
    using s(1) that by (auto simp: on_routes_def Stop_def clearLocked_def Let_def split: option.splits prod.splits if_splits)
qed

section \<open>The segments of the manager\<close>

definition segmentNames :: "'d Manager \<Rightarrow> string list" where
  "segmentNames m = filter (\<lambda>n. \<exists>it. map_of (mg_ifaces m) n = Some it \<and> if_pdr it \<noteq> None) (mg_order m)"

definition segments :: "'d Manager \<Rightarrow> Routes list" where
  "segments m = map (\<lambda>n. the (if_pdr (the (map_of (mg_ifaces m) n)))) (segmentNames m)"

lemma set_segments:
  "set (segments m) = {r. \<exists>name it. name \<in> set (mg_order m) \<and> map_of (mg_ifaces m) name = Some it \<and> if_pdr it = Some r}"
  by (force simp: segments_def segmentNames_def)

lemma segments_run:
  assumes "distinct (mg_order m)" "name \<in> set (mg_order m)" and it: "map_of (mg_ifaces m) name = Some it"
    and s: "simulated nl (it, pl) (it', pl')"
  shows "(segments_step nl)\<^sup>*\<^sup>* (segments m, pl_host pl) (segments (setIface name it' m), pl_host pl')"
proof (cases "if_pdr it")
  case None
  then obtain k where k: "if_pdr it' = None" "pl_host pl' = (pl_host pl)\<lparr>ho_kernel := k\<rparr>" using s by (auto simp: simulated_def)
  have n: "segmentNames (setIface name it' m) = segmentNames m"
    unfolding segmentNames_def setIface_order by (rule filter_cong) (use None k(1) it in \<open>auto simp: setIface_lookup\<close>)
  have "name \<notin> set (segmentNames m)" using None it by (simp add: segmentNames_def)
  then have "segments (setIface name it' m) = segments m"
    unfolding segments_def n by (auto simp: setIface_lookup)
  then show ?thesis using k(2) by (simp add: r_into_rtranclp segments_step.World)
next
  case (Some r)
  obtain r' where r': "if_pdr it' = Some r'"
    "\<And>rs i. i < length rs \<Longrightarrow> rs ! i = r \<Longrightarrow> (segments_step nl)\<^sup>*\<^sup>* (rs, pl_host pl) (rs[i := r'], pl_host pl')"
    using simulatedD [OF s, of r] Some by auto
  have n: "segmentNames (setIface name it' m) = segmentNames m"
    unfolding segmentNames_def setIface_order by (rule filter_cong) (use Some r'(1) it in \<open>auto simp: setIface_lookup\<close>)
  have "name \<in> set (segmentNames m)" using assms(2) it Some by (simp add: segmentNames_def)
  then obtain i where i: "i < length (segmentNames m)" "segmentNames m ! i = name" by (auto simp: in_set_conv_nth)
  have "distinct (segmentNames m)" using assms(1) by (simp add: segmentNames_def)
  then have "segments (setIface name it' m) = (segments m)[i := r']"
    using i r'(1) unfolding segments_def n by (intro nth_equalityI) (auto simp: setIface_lookup nth_list_update nth_eq_iff_index_eq)
  moreover have "segments m ! i = r" "i < length (segments m)" using i it Some by (simp_all add: segments_def)
  ultimately show ?thesis using r'(2) by simp
qed

text \<open>What the simulation needs to know of the manager.\<close>

definition listed :: "'d Manager \<Rightarrow> bool" where
  "listed m \<longleftrightarrow> gomap_ok (mg_ifaces m) \<and> distinct (mg_order m) \<and> dom (map_of (mg_ifaces m)) \<subseteq> set (mg_order m)"

lemma serves_listed: "serves cs m \<Longrightarrow> listed m"
  by (auto simp: serves_def listed_def)

lemma listed_setIface: "listed m \<Longrightarrow> map_of (mg_ifaces m) name = Some it \<Longrightarrow> listed (setIface name it' m)"
  by (auto simp: listed_def setIface_lookup split: if_splits)

lemma listed_run:
  assumes "listed m" and "map_of (mg_ifaces m) name = Some it" and "simulated nl (it, pl) (it', pl')"
  shows "(segments_step nl)\<^sup>*\<^sup>* (segments m, pl_host pl) (segments (setIface name it' m), pl_host pl') \<and> listed (setIface name it' m)"
proof -
  have "name \<in> set (mg_order m)" "distinct (mg_order m)" using assms(1,2) by (auto simp: listed_def)
  then show ?thesis using segments_run [OF _ _ assms(2,3)] listed_setIface [OF assms(1,2)] by blast
qed

text \<open>A change of the whole manager.\<close>

definition process :: "('k, 'o) netlink \<Rightarrow> ('d, 'k, 'i) system \<Rightarrow> ('d, 'k, 'i) system \<Rightarrow> bool" where
  "process nl x y \<longleftrightarrow> (listed (fst x) \<longrightarrow> listed (fst y) \<and>
     (segments_step nl)\<^sup>*\<^sup>* (segments (fst x), pl_host (snd x)) (segments (fst y), pl_host (snd y)))"

lemma process_trans: "process nl x y \<Longrightarrow> process nl y z \<Longrightarrow> process nl x z"
  by (auto simp: process_def)

lemma process_refl [simp]: "process nl x x"
  by (simp add: process_def)

lemma process_same: "pl_host pl' = pl_host pl \<Longrightarrow> process nl (m, pl) (m, pl')"
  by (simp add: process_def)

lemma process_set:
  "map_of (mg_ifaces m) name = Some it \<Longrightarrow> simulated nl (it, pl) (it', pl') \<Longrightarrow> process nl (m, pl) (setIface name it' m, pl')"
  using listed_run by (fastforce simp: process_def)

lemma requested_process:
  assumes "requested x y"
  shows "process nl x y"
proof (cases "y = x")
  case False
  obtain m pl m' pl' where x: "x = (m, pl)" "y = (m', pl')" by fastforce
  obtain name it it' where i: "map_of (mg_ifaces m) name = Some it" "m' = setIface name it' m" "eased (it, pl) (it', pl')"
    using False assms by (auto simp: requested_def x)
  have "simulated nl (it, pl) (it', pl')"
    using i(3) by (auto simp: eased_def intro: unrelated_simulated simulated_same)
  from process_set [OF i(1) this] show ?thesis unfolding x i(2) .
qed simp

lemma manager_step_process:
  assumes "manager_step nl ipt lib4 lib6 libpd (locs, m, pl) (locs', m', pl')"
  shows "process nl (m, pl) (m', pl')"
  using assms
proof cases
  case (interface name it loc' it')
  then show ?thesis using process_set [OF interface(3) iface_step_simulated [OF interface(4)]] by simp
next
  case (request lib ord clock key rq answer)
  then show ?thesis using requested_process [OF serveHTTP_requested(1) [of "(m, pl)" lib ord clock key rq]] by simp
next
  case store
  then show ?thesis by (simp add: process_same)
next
  case (world k)
  then show ?thesis
    by (auto simp: process_def on_host_def on_kernel_def intro: r_into_rtranclp segments_step.World)
qed

lemma manager_run_process: "(manager_step nl ipt lib4 lib6 libpd)\<^sup>*\<^sup>* x y \<Longrightarrow> process nl (snd x) (snd y)"
proof (induction rule: rtranclp_induct)
  case base
  show ?case by simp
next
  case (step y z)
  from manager_step_process [of nl ipt lib4 lib6 libpd "fst y" "fst (snd y)" "snd (snd y)" "fst z" "fst (snd z)" "snd (snd z)"] step(2)
  have "process nl (snd y) (snd z)" by simp
  with step.IH show ?case by (rule process_trans)
qed

lemma restoreOne_process:
  "distinct (map fst xs) \<Longrightarrow> (\<And>name it. (name, it) \<in> set xs \<Longrightarrow> map_of (mg_ifaces (fst x)) name = Some it) \<Longrightarrow>
    process nl x (fold (restoreOne nl clock st) xs x)"
proof (induction xs arbitrary: x)
  case Nil
  show ?case by simp
next
  case (Cons e xs)
  obtain name it where e: "e = (name, it)" by fastforce
  obtain it' pl' where r: "restore nl (clock name) (st name) (it, snd x) = (it', pl')" by fastforce
  have it: "map_of (mg_ifaces (fst x)) name = Some it" using Cons.prems(2) [of name it] by (simp add: e)
  have p: "process nl x (setIface name it' (fst x), pl')"
    using process_set [OF it restore_simulated [OF r]] by simp
  have "map_of (mg_ifaces (setIface name it' (fst x))) n = Some j" if "(n, j) \<in> set xs" for n j
    using Cons.prems(1) Cons.prems(2) [of n j] that by (auto simp: e setIface_lookup rev_image_eqI)
  then have "process nl (setIface name it' (fst x), pl') (fold (restoreOne nl clock st) xs (setIface name it' (fst x), pl'))"
    using Cons.IH [of "(setIface name it' (fst x), pl')"] Cons.prems(1) by simp
  moreover have "restoreOne nl clock st e x = (setIface name it' (fst x), pl')" using r by (cases x) (simp add: restoreOne_def e)
  ultimately show ?case using process_trans [OF p] by simp
qed

lemma startOne_process: "process nl x (startOne nl name x)"
proof (cases "map_of (mg_ifaces (fst x)) name")
  case None
  then show ?thesis by (simp add: startOne_def case_prod_beta)
next
  case (Some it)
  obtain it' pl' where s: "startIface nl (it, snd x) = (it', pl')" by fastforce
  from process_set [OF Some iface_step_simulated [OF iface_step.start [OF s]]] Some s
  show ?thesis by (simp add: startOne_def case_prod_beta)
qed

lemma StartManager_process:
  fixes x :: "('d, 'k, 'i) system"
  assumes mord: "go_order mord" and l: "listed (fst x)"
  shows "process nl x (StartManager js readable fs nl clock mord x)"
proof -
  obtain m pl where x: "x = (m, pl)" by fastforce
  obtain st err where ld: "load js readable (pl_store pl) fs = (st, err)" by fastforce
  define pl0 where "pl0 = (if err then Emit EvStateLoadError pl else pl)"
  obtain m1 pl1 where r: "fold (restoreOne nl clock st) (mord (mg_ifaces m)) (m, pl0) = (m1, pl1)" by fastforce
  obtain m2 pl2 where s: "fold (startOne nl) (mg_order m1) (m1, pl1) = (m2, pl2)" by fastforce
  have g: "gomap_ok (mg_ifaces m)" using l by (simp add: listed_def x)
  have "distinct (map fst (mord (mg_ifaces m)))" using mord g by (metis go_order_def mset_map mset_eq_imp_distinct_iff)
  moreover have "map_of (mg_ifaces m) name = Some it" if "(name, it) \<in> set (mord (mg_ifaces m))" for name it
    using that g by (simp add: go_order_set [OF mord])
  ultimately have p1: "process nl (m, pl0) (m1, pl1)"
    using restoreOne_process [of "mord (mg_ifaces m)" "(m, pl0)" nl clock st] r by simp
  have "process nl y (fold (startOne nl) ns y)" for ns and y :: "('d, 'k, 'i) system"
  proof (induction ns arbitrary: y)
    case Nil
    show ?case by simp
  next
    case (Cons n ns)
    from process_trans [OF startOne_process Cons.IH] show ?case by simp
  qed
  from this [of "(m1, pl1)" "mg_order m1"] have p2: "process nl (m1, pl1) (m2, pl2)" unfolding s .
  have "process nl (m, pl) (m, pl0)" "process nl (m2, pl2) (m2, Emit (EvReady (mg_order m2)) pl2)"
    by (rule process_same; simp add: pl0_def)+
  with p1 p2 have "process nl (m, pl) (m2, Emit (EvReady (mg_order m2)) pl2)" by (blast intro: process_trans)
  then show ?thesis using r s by (simp add: StartManager_def x ld pl0_def [symmetric])
qed

lemma replaceNonEmpty_process: "replaceNonEmpty family bs name x = Inr x' \<Longrightarrow> process nl x x'"
  by (auto simp: replaceNonEmpty_def split: if_splits dest: requested_ops(1) intro: requested_process)

lemma applyStatics_process: "applyStatics sts x = Inr x' \<Longrightarrow> process nl x x'"
proof (induction sts arbitrary: x)
  case (Cons st sts)
  then obtain x1 x2 where r: "replaceNonEmpty 4 (fst (snd st)) (fst st) x = Inr x1" "replaceNonEmpty 6 (snd (snd st)) (fst st) x1 = Inr x2"
    "applyStatics sts x2 = Inr x'"
    by (cases st) (auto split: sum.splits)
  from process_trans [OF replaceNonEmpty_process [OF r(1)] process_trans [OF replaceNonEmpty_process [OF r(2)] Cons.IH [OF r(3)]]]
  show ?case .
qed simp

lemma stopAll_process:
  "distinct (map fst its) \<Longrightarrow> (\<And>n it. (n, it) \<in> set its \<Longrightarrow> map_of (mg_ifaces m) n = Some it) \<Longrightarrow>
    stopAll nl ipt its (m, pl) = Some (m', pl') \<Longrightarrow>
    process nl (m, pl) (m', pl') \<and> (\<forall>n it r. map_of (mg_ifaces m') n = Some it \<and> if_pdr it = Some r \<longrightarrow>
      rr_stopped r \<or> n \<notin> fst ` set its \<and> map_of (mg_ifaces m) n = Some it)"
proof (induction its arbitrary: m pl)
  case (Cons e its)
  obtain n it where e: "e = (n, it)" by fastforce
  obtain it1 pl1 calls where s: "stopIface nl ipt (it, pl) = Some (it1, pl1, calls)"
    "stopAll nl ipt its (setIface n it1 m, pl1) = Some (m', pl')"
    using Cons.prems(3) by (auto simp: e split: option.splits)
  have p: "process nl (m, pl) (setIface n it1 m, pl1)"
    by (rule process_set [OF _ stopIface_simulated(1) [OF s(1)]]) (use Cons.prems(2) e in simp)
  have d: "n \<notin> fst ` set its" "distinct (map fst its)" using Cons.prems(1) by (simp_all add: e)
  have "map_of (mg_ifaces (setIface n it1 m)) n' = Some j" if "(n', j) \<in> set its" for n' j
    using d(1) Cons.prems(2) [of n' j] that by (auto simp: setIface_lookup rev_image_eqI)
  note IH = Cons.IH [OF d(2) this s(2)]
  have "rr_stopped r \<or> n' \<notin> fst ` set (e # its) \<and> map_of (mg_ifaces m) n' = Some j"
    if j: "map_of (mg_ifaces m') n' = Some j" "if_pdr j = Some r" for n' j r
  proof (cases "n' = n")
    case True
    then have "rr_stopped r \<or> map_of (mg_ifaces (setIface n it1 m)) n = Some j" using IH j by blast
    then have "rr_stopped r \<or> j = it1" by (auto simp: setIface_lookup)
    then show ?thesis using stopIface_simulated(2) [OF s(1)] j(2) by blast
  next
    case False
    moreover have "rr_stopped r \<or> n' \<notin> fst ` set its \<and> map_of (mg_ifaces (setIface n it1 m)) n' = Some j" using IH j by blast
    ultimately show ?thesis by (simp add: setIface_lookup e)
  qed
  then show ?case using process_trans [OF p] IH by blast
qed simp

section \<open>Properties\<close>

text \<open>The daemon until the manager is running.\<close>

lemma runDaemon_process:
  assumes r: "runDaemon w cfgPath check = Running (m, pl) key" and mo: "go_order (wo_order w)"
  obtains cfgs where "listed m" "(segments_step (wo_netlink w))\<^sup>*\<^sup>* (map newRoutes cfgs, pl_host (wo_plant w)) (segments m, pl_host pl)"
proof -
  obtain cfg cs x y where d: "serves cs (fst x)" "applyStatics (wo_sorder w (InitialStatics cfg)) x = Inr y"
    "(m, pl) = StartManager (wo_json w) (wo_readable w) (wo_files w) (wo_netlink w) (wo_clock w) (wo_order w) y"
    "\<And>c. c \<in> set cs \<Longrightarrow> map_of (mg_ifaces (fst x)) (ic_Name c) = Some (newIface (wo_links w (ic_Name c)) c)"
    "snd x = (wo_plant w)\<lparr>pl_store := newStateStore (cf_StateFile cfg)\<rparr>"
    by (rule runDaemon_Running [OF r]) blast
  have "r = newRoutes (rr_cfg r)" if r: "r \<in> set (segments (fst x))" for r
  proof -
    obtain n it where i: "map_of (mg_ifaces (fst x)) n = Some it" "if_pdr it = Some r" using r unfolding set_segments by blast
    obtain c where "c \<in> set cs" "ic_Name c = n" using d(1) i(1) by (rule serves_lookup)
    with d(4) i show ?thesis by (auto simp: newIface_def newRoutes_def split: option.splits if_splits)
  qed
  then have s: "segments (fst x) = map newRoutes (map rr_cfg (segments (fst x)))" by (simp add: map_idI)
  have ly: "listed (fst y)" by (rule serves_listed [OF applyStatics_serves [OF d(2,1)]])
  from process_trans [OF applyStatics_process [OF d(2)] StartManager_process [OF mo ly]]
  have "process (wo_netlink w) x (m, pl)" unfolding d(3) .
  then show thesis using that [of "map rr_cfg (segments (fst x))"] serves_listed [OF d(1)] s d(5) by (simp add: process_def)
qed

text \<open>C18: the daemon leaves the sysctls of its host as it found them. While it runs, a setting has the value
  its segments need exactly as long as the segment of some interface is started and needs it, and
  otherwise the value from before the daemon; after a shutdown every setting has that value again.
  The setting's file must be readable and writable, and nobody else may write it.\<close>

theorem daemon_settings:
  assumes "runDaemon w cfgPath check = Running (m0, pl0) key" and "go_order (wo_order w)"
    and "(manager_step (wo_netlink w) ipt lib4 lib6 libpd)\<^sup>*\<^sup>* (locs0, m0, pl0) (locs, m, pl)"
  defines "h0 \<equiv> pl_host (wo_plant w)"
  assumes "\<And>s. sy_entries (ho_sysctls h0) (settingPath s) = None"
    and "readSysctl (settingPath n) (ho_sysctls h0) = Some value"
    and "TrimSpace value = value" and "value \<noteq> []" and "ho_writable h0 (settingPath n)"
  shows "readSysctl (settingPath n) (ho_sysctls (pl_host pl)) =
      Some (if \<exists>name it r. map_of (mg_ifaces m) name = Some it \<and> if_pdr it = Some r \<and> active r \<and> n \<in> set (needs r)
            then settled value (settingWant n) else value) \<and>
    (\<forall>os ord code m' pl' fs. stopDaemon w os ord (Running (m, pl) key) = Some (code, Some ((m', pl'), fs)) \<longrightarrow>
       readSysctl (settingPath n) (ho_sysctls (pl_host pl')) = Some value)"
proof -
  obtain cfgs where r: "listed m0"
    "(segments_step (wo_netlink w))\<^sup>*\<^sup>* (map newRoutes cfgs, h0) (segments m0, pl_host pl0)"
    using runDaemon_process [OF assms(1,2)] unfolding h0_def by blast
  have run: "process (wo_netlink w) (m0, pl0) (m, pl)" using manager_run_process [OF assms(3)] by simp
  have reads: "readSysctl (settingPath n) (ho_sysctls (pl_host pl1)) =
      Some (if \<exists>r \<in> set (segments m1). active r \<and> n \<in> set (needs r) then settled value (settingWant n) else value)"
    if "process (wo_netlink w) (m0, pl0) (m1, pl1)" for m1 pl1
  proof (rule segments_share_settings [OF _ assms(5-9)])
    show "(segments_step (wo_netlink w))\<^sup>*\<^sup>* (map newRoutes cfgs, h0) (segments m1, pl_host pl1)"
      using that r by (auto simp: process_def intro: rtranclp_trans)
  qed
  have lm: "listed m" using run r(1) by (simp add: process_def)
  have now: "(\<exists>r \<in> set (segments m). active r \<and> n \<in> set (needs r)) \<longleftrightarrow>
      (\<exists>name it r. map_of (mg_ifaces m) name = Some it \<and> if_pdr it = Some r \<and> active r \<and> n \<in> set (needs r))"
    using lm unfolding set_segments listed_def by blast
  have "readSysctl (settingPath n) (ho_sysctls (pl_host pl')) = Some value"
    if stop: "stopDaemon w os ord (Running (m, pl) key) = Some (code, Some ((m', pl'), fs))" for os ord code m' pl' fs
  proof -
    let ?its = "wo_order w (mg_ifaces m)"
    have s: "stopAll (wo_netlink w) (wo_iptables w) ?its (m, pl) = Some (m', pl')"
      using stop by (auto simp: stopDaemon_def StopManager_def Let_def split: option.splits)
    have its: "(k, it) \<in> set ?its \<longleftrightarrow> map_of (mg_ifaces m) k = Some it" for k it
      using lm by (simp add: go_order_set [OF assms(2)] listed_def)
    have d: "distinct (map fst ?its)" using assms(2) lm by (metis go_order_def listed_def mset_map mset_eq_imp_distinct_iff)
    note st = stopAll_process [OF d _ s, unfolded its]
    have "\<not> active r" if "r \<in> set (segments m')" for r
      using st that its by (fastforce simp: set_segments active_def image_iff)
    then show ?thesis using reads [OF process_trans [OF run]] st by auto
  qed
  then show ?thesis using reads [OF run] now by simp
qed

section \<open>Examples\<close>

theorem daemon_settings_witness:
  "\<exists>m pl. runDaemon fleet_example ''/c'' False = Running (m, pl) ''k'' \<and>
     readSysctl (settingPath (AcceptRA ''wlan0'')) (ho_sysctls (pl_host pl)) =
       Some (if \<exists>name it r. map_of (mg_ifaces m) name = Some it \<and> if_pdr it = Some r \<and> active r \<and> AcceptRA ''wlan0'' \<in> set (needs r)
             then ''2'' else ''1'')"
proof -
  obtain m pl where r: "runDaemon fleet_example ''/c'' False = Running (m, pl) ''k''" by (rule running_fleet_example)
  have w: "go_order (wo_order fleet_example)" "pl_host (wo_plant fleet_example) = host_example"
    by (simp_all add: fleet_example_def world_example_def plant_example_def)
  have run: "(manager_step (wo_netlink fleet_example) ipt_example lib4_example lib6_example libpd_example)\<^sup>*\<^sup>* (\<lambda>_. LRun, m, pl) (\<lambda>_. LRun, m, pl)"
    by simp
  have "TrimSpace (''1'' @ [char_of (10::nat)]) = ''1''" "TrimSpace ''1'' = ''1''"
    by (simp_all add: TrimSpace_def go_space_def)
  then have "readSysctl (settingPath (AcceptRA ''wlan0'')) (ho_sysctls (pl_host pl)) =
       Some (if \<exists>name it r. map_of (mg_ifaces m) name = Some it \<and> if_pdr it = Some r \<and> active r \<and> AcceptRA ''wlan0'' \<in> set (needs r)
             then settled ''1'' (settingWant (AcceptRA ''wlan0'')) else ''1'')"
    using daemon_settings [OF r w(1) run, of "AcceptRA ''wlan0''" "''1''"] w(2)
    by (simp add: host_example_def readSysctl_def del: char_of_nat)
  moreover have "settled ''1'' (settingWant (AcceptRA ''wlan0'')) = ''2''" by (simp add: settled_def acceptRAWant_def)
  ultimately show ?thesis using r by auto
qed

end
