(* ===== verification/Loops.thy ===== *)
theory Loops
  imports PdRoute PdClient
begin

text \<open>
  The goroutines that wait on channels: the sleeping delegation client of
  \<^verbatim>\<open>internal/pd/client.go\<close> with the signals other goroutines send it (\<open>Stop\<close>, \<open>Wakeup\<close>, \<open>Renew\<close>,
  \<open>Release\<close>), and \<^verbatim>\<open>mirrorLoop\<close> of \<^verbatim>\<open>internal/pdroute/pdroute.go\<close>. A \<^verbatim>\<open>select\<close> takes any case that
  is ready, so the case taken is an argument and its readiness a predicate. The theorems say
  that no signal is lost, that stopping twice does not panic, and that the mirror loop has its
  table in sync or work waiting for it.
\<close>

section \<open>Channels\<close>

text \<open>A buffered channel of the language. A nil channel is \<open>None\<close>.\<close>

record 'a chan =
  ch_cap :: nat
  ch_buf :: "'a list"
  ch_closed :: bool

definition makeChan :: "nat \<Rightarrow> 'a chan" where
  "makeChan n = \<lparr>ch_cap = n, ch_buf = [], ch_closed = False\<rparr>"

text \<open>Closing panics (\<open>None\<close>) on a closed channel. A send with a \<^verbatim>\<open>default\<close> case puts the value in if
  there is room. A receive blocks (\<open>None\<close>) on an empty open channel and reports \<^verbatim>\<open>ok = false\<close> on an
  empty closed one.\<close>

definition closeChan :: "'a chan \<Rightarrow> 'a chan option" where
  "closeChan c = (if ch_closed c then None else Some (c\<lparr>ch_closed := True\<rparr>))"

definition trySend :: "'a \<Rightarrow> 'a chan \<Rightarrow> 'a chan" where
  "trySend x c = (if length (ch_buf c) < ch_cap c then c\<lparr>ch_buf := ch_buf c @ [x]\<rparr> else c)"

definition recv :: "'a chan \<Rightarrow> (bool \<times> 'a chan) option" where
  "recv c =
     (case ch_buf c of
        x # xs \<Rightarrow> Some (True, c\<lparr>ch_buf := xs\<rparr>)
      | [] \<Rightarrow> if ch_closed c then Some (False, c) else None)"

lemma recv_simps [simp]:
  "ch_buf c = x # xs \<Longrightarrow> recv c = Some (True, c\<lparr>ch_buf := xs\<rparr>)"
  "ch_buf c = [] \<Longrightarrow> recv c = (if ch_closed c then Some (False, c) else None)"
  by (simp_all add: recv_def)

lemma recv_ready: "recv c \<noteq> None \<longleftrightarrow> ch_buf c \<noteq> [] \<or> ch_closed c"
  by (auto simp: recv_def split: list.splits)

section \<open>The signals of the delegation client\<close>

text \<open>The fields \<^verbatim>\<open>done\<close>, \<^verbatim>\<open>wake\<close>, \<^verbatim>\<open>once\<close> and \<^verbatim>\<open>releaseReq\<close> of the client.\<close>

record signals =
  sg_done :: "unit chan"
  sg_wake :: "unit chan"
  sg_once :: bool
  sg_releaseReq :: bool

definition newSignals :: signals where
  "newSignals = \<lparr>sg_done = makeChan 0, sg_wake = makeChan 1, sg_once = False, sg_releaseReq = False\<rparr>"

definition ClientStop :: "signals \<Rightarrow> signals option" where
  "ClientStop s =
     (if sg_once s then Some s
      else case closeChan (sg_done s) of
             None \<Rightarrow> None
           | Some d \<Rightarrow> Some (s\<lparr>sg_done := d, sg_once := True\<rparr>))"

definition Wakeup :: "signals \<Rightarrow> signals" where
  "Wakeup s = s\<lparr>sg_wake := trySend () (sg_wake s)\<rparr>"

definition Renew :: "signals \<Rightarrow> signals" where
  "Renew s = Wakeup s"

definition ClientRelease :: "signals \<Rightarrow> signals" where
  "ClientRelease s = Wakeup (s\<lparr>sg_releaseReq := True\<rparr>)"

definition takeRelease :: "signals \<Rightarrow> bool \<times> signals" where
  "takeRelease s = (let r = sg_releaseReq s in (r, s\<lparr>sg_releaseReq := False\<rparr>))"

definition stopped :: "signals \<Rightarrow> bool" where
  "stopped s \<longleftrightarrow> recv (sg_done s) \<noteq> None"

text \<open>\<^verbatim>\<open>sleep\<close>, given whether its timer has fired: the cases that can be taken, and the result of
  taking one.\<close>

datatype sleep_case = OnDone | OnWake | OnTimer

definition sleepReady :: "bool \<Rightarrow> signals \<Rightarrow> sleep_case \<Rightarrow> bool" where
  "sleepReady fired s c =
     (case c of
        OnDone \<Rightarrow> recv (sg_done s) \<noteq> None
      | OnWake \<Rightarrow> recv (sg_wake s) \<noteq> None
      | OnTimer \<Rightarrow> fired)"

definition sleep :: "sleep_case \<Rightarrow> signals \<Rightarrow> bool \<times> signals" where
  "sleep c s =
     (case c of
        OnDone \<Rightarrow> (False, s)
      | OnWake \<Rightarrow> (True, s\<lparr>sg_wake := snd (the (recv (sg_wake s)))\<rparr>)
      | OnTimer \<Rightarrow> (True, s))"

text \<open>What happens to the signals other than a sleep: other goroutines signal at any time, and the
  client takes requests.\<close>

inductive signalled :: "signals \<Rightarrow> signals \<Rightarrow> bool" where
  Stop: "ClientStop s = Some s' \<Longrightarrow> signalled s s'"
| Wakeup: "signalled s (Wakeup s)"
| Renew: "signalled s (Renew s)"
| Release: "signalled s (ClientRelease s)"
| Take: "takeRelease s = (b, s') \<Longrightarrow> signalled s s'"

inductive signal_step :: "signals \<Rightarrow> signals \<Rightarrow> bool" where
  Signal: "signalled s s' \<Longrightarrow> signal_step s s'"
| Sleep: "sleepReady fired s c \<Longrightarrow> sleep c s = (b, s') \<Longrightarrow> signal_step s s'"

definition signals_ok :: "signals \<Rightarrow> bool" where
  "signals_ok s \<longleftrightarrow>
     ch_buf (sg_done s) = [] \<and> (sg_once s = ch_closed (sg_done s)) \<and>
     ch_cap (sg_wake s) = 1 \<and> length (ch_buf (sg_wake s)) \<le> 1 \<and> \<not> ch_closed (sg_wake s)"

lemmas signal_ops = ClientStop_def Wakeup_def Renew_def ClientRelease_def takeRelease_def stopped_def
  sleep_def sleepReady_def closeChan_def trySend_def Let_def

lemma signals_ok_signalled: "signalled s s' \<Longrightarrow> signals_ok s \<Longrightarrow> signals_ok s'"
  by (induction rule: signalled.induct) (auto simp: signals_ok_def signal_ops split: if_splits)

lemma signals_ok_step: "signal_step s s' \<Longrightarrow> signals_ok s \<Longrightarrow> signals_ok s'"
proof (induction rule: signal_step.induct)
  case (Sleep fired s c b s')
  then show ?case
    by (cases c; cases "ch_buf (sg_wake s)") (auto simp: signals_ok_def signal_ops)
qed (rule signals_ok_signalled)

lemma stop_is_final: "signal_step s s' \<Longrightarrow> sg_once s \<Longrightarrow> sg_once s'"
  by (auto elim!: signal_step.cases signalled.cases simp: signal_ops split: sleep_case.splits if_splits)

lemma signals_ok_reach: "signal_step\<^sup>*\<^sup>* newSignals s \<Longrightarrow> signals_ok s"
  by (induction rule: rtranclp_induct)
    (auto simp: signals_ok_step, simp add: signals_ok_def newSignals_def makeChan_def)

text \<open>Stopping never closes the channel twice, a stopped client stays stopped, and then the sleep
  can end at once.\<close>

lemma Stop_never_panics:
  assumes "signal_step\<^sup>*\<^sup>* newSignals s"
  shows "\<exists>s'. ClientStop s = Some s' \<and> stopped s' \<and> sleepReady fired s' OnDone \<and>
    (\<forall>s''. signal_step\<^sup>*\<^sup>* s' s'' \<longrightarrow> stopped s'')"
proof -
  have ok: "signals_ok s" by (rule signals_ok_reach [OF assms])
  then obtain s' where s': "ClientStop s = Some s'" "signals_ok s'" "sg_once s'"
    by (auto simp: signals_ok_def signal_ops split: if_splits)
  have "signals_ok s'' \<and> sg_once s''" if "signal_step\<^sup>*\<^sup>* s' s''" for s''
    using that
  proof (induction rule: rtranclp_induct)
    case (step y z)
    then show ?case using signals_ok_step stop_is_final by blast
  qed (use s' in simp)
  moreover have "stopped t" "sleepReady fired t OnDone" if "signals_ok t \<and> sg_once t" for t
    using that by (auto simp: signals_ok_def signal_ops)
  ultimately show ?thesis using s' by blast
qed

text \<open>A wakeup is remembered: whatever happens before the client sleeps, its next sleep need not
  wait for the timer. Two wakeups before a sleep count as one.\<close>

lemma wakeup_is_remembered:
  assumes ok: "signals_ok s" and run: "signalled\<^sup>*\<^sup>* (Wakeup s) s'"
  shows "sleepReady False s' OnWake"
proof -
  have "signals_ok s' \<and> ch_buf (sg_wake s') \<noteq> []"
    using run
  proof (induction rule: rtranclp_induct)
    case base
    then show ?case
      using signals_ok_signalled [OF signalled.Wakeup ok] ok by (auto simp: signals_ok_def signal_ops)
  next
    case (step y z)
    have "ch_buf (sg_wake z) \<noteq> []"
      using step(2) conjunct2 [OF step.IH]
      by (auto elim!: signalled.cases simp: signal_ops split: if_splits)
    then show ?case using step signals_ok_signalled by blast
  qed
  then show ?thesis using recv_ready [of "sg_wake s'"] by (auto simp: sleepReady_def)
qed

lemma wakeups_coalesce: "signals_ok s \<Longrightarrow> Wakeup (Wakeup s) = Wakeup s"
  by (auto simp: signals_ok_def signal_ops)

text \<open>A release request is pending, and the client's sleep ready to end, until the client looks.\<close>

lemma release_is_pending:
  "signals_ok s \<Longrightarrow> sleepReady False (ClientRelease s) OnWake \<and> fst (takeRelease (ClientRelease s)) \<and>
     \<not> fst (takeRelease (snd (takeRelease (ClientRelease s))))"
  using wakeup_is_remembered [of "s\<lparr>sg_releaseReq := True\<rparr>" "ClientRelease s"]
  by (simp add: signals_ok_def takeRelease_def ClientRelease_def Wakeup_def Let_def)

section \<open>The mirror loop\<close>

text \<open>\<^verbatim>\<open>mirrorLoop\<close>: the channel it starts with, given whether subscribing succeeded; the inner loop
  that empties the channel; one iteration. The loop ends (\<open>None\<close>) on \<^verbatim>\<open>stop\<close>. What an update says is
  not looked at.\<close>

definition subscribeRoutes :: "bool \<Rightarrow> unit chan option" where
  "subscribeRoutes ok = (if ok then Some (makeChan 64) else None)"

function drain :: "'a chan \<Rightarrow> 'a chan option" where
  "drain c =
     (case recv c of
        None \<Rightarrow> Some c
      | Some (ok, c') \<Rightarrow> if ok then drain c' else None)"
  by pat_completeness auto
termination
  by (relation "measure (\<lambda>c. length (ch_buf c))") (auto simp: recv_def split: list.splits if_splits)

declare drain.simps [simp del]

datatype mirror_case = OnStop | OnTick | OnUpdate

definition mirrorReady :: "bool \<Rightarrow> bool \<Rightarrow> unit chan option \<Rightarrow> mirror_case \<Rightarrow> bool" where
  "mirrorReady stop fired ch c =
     (case c of
        OnStop \<Rightarrow> stop
      | OnTick \<Rightarrow> fired
      | OnUpdate \<Rightarrow> (case ch of None \<Rightarrow> False | Some u \<Rightarrow> recv u \<noteq> None))"

definition mirrorIter ::
  "('k, 'o) netlink \<Rightarrow> Routes \<Rightarrow> mirror_case \<Rightarrow> unit chan option \<times> 'k host \<Rightarrow>
     (unit chan option \<times> 'k host) option" where
  "mirrorIter nl r c = (\<lambda>(ch, h).
     case c of
       OnStop \<Rightarrow> None
     | OnTick \<Rightarrow> Some (ch, mirrorRound nl r h)
     | OnUpdate \<Rightarrow>
         (case Option.bind ch recv of
            None \<Rightarrow> Some (ch, h)
          | Some (ok, u) \<Rightarrow> Some (if ok then (drain u, mirrorRound nl r h) else (None, h))))"

lemma drain_eq: "drain c = (if ch_closed c then None else Some (c\<lparr>ch_buf := []\<rparr>))"
proof (induction c rule: drain.induct)
  case (1 c)
  then show ?case
    by (cases "ch_buf c") (simp_all add: drain.simps [of c])
qed

text \<open>The loop beside its segment, whose prefix is installed and cleared by the delegation client.
  \<^verbatim>\<open>Start\<close> only launches the goroutine, which subscribes later (\<open>mi_loop\<close>: it has, or has failed to, and
  is in its loop). The kernel counts the route changes it has announced (\<open>sent\<close>); a subscription
  passes on those made after it, one by one while there is room, and may die of a receive error.
  Anything else may change the kernel, but not silently what the mirror depends on. \<open>mi_missed\<close>
  records a lack of synchronisation nobody will be told of: the kernel changed before the
  subscription, or the prefix was installed while the bridge was missing, and neither a round of
  the loop nor a complete installation has followed.\<close>

record 'k mirror =
  mi_loop :: bool
  mi_ch :: "unit chan option"
  mi_seen :: nat
  mi_routes :: Routes
  mi_host :: "'k host"
  mi_missed :: bool

abbreviation mi_kernel :: "'k mirror \<Rightarrow> 'k" where
  "mi_kernel s \<equiv> ho_kernel (mi_host s)"

definition mirrorStart :: "('k, 'o) netlink \<Rightarrow> ('k \<Rightarrow> nat) \<Rightarrow> pdroute_Config \<Rightarrow> 'k host \<Rightarrow> 'k mirror" where
  "mirrorStart nl sent cfg h =
     (let (r, h) = Start nl (newRoutes cfg, h)
      in \<lparr>mi_loop = False, mi_ch = None, mi_seen = sent (ho_kernel h), mi_routes = r, mi_host = h, mi_missed = False\<rparr>)"

text \<open>The goroutine reaches \<^verbatim>\<open>RouteSubscribe\<close>, which succeeds or not, and enters its loop.\<close>

definition mirrorSubscribe :: "('k \<Rightarrow> nat) \<Rightarrow> bool \<Rightarrow> 'k mirror \<Rightarrow> 'k mirror" where
  "mirrorSubscribe sent ok s = s\<lparr>mi_loop := True, mi_ch := subscribeRoutes ok, mi_seen := sent (mi_kernel s)\<rparr>"

definition alive :: "'k mirror \<Rightarrow> bool" where
  "alive s \<longleftrightarrow> (case mi_ch s of None \<Rightarrow> False | Some u \<Rightarrow> \<not> ch_closed u)"

definition pending :: "('k \<Rightarrow> nat) \<Rightarrow> 'k mirror \<Rightarrow> bool" where
  "pending sent s \<longleftrightarrow>
     mi_seen s < sent (mi_kernel s) \<or> (case mi_ch s of None \<Rightarrow> False | Some u \<Rightarrow> ch_buf u \<noteq> [])"

definition same_view :: "('k, 'o) netlink \<Rightarrow> Routes \<Rightarrow> 'k \<Rightarrow> 'k \<Rightarrow> bool" where
  "same_view nl r k k' \<longleftrightarrow>
     routesOf nl k' = routesOf nl k \<and>
     nl_LinkByName nl k' (pr_Uplink (rr_cfg r)) = nl_LinkByName nl k (pr_Uplink (rr_cfg r))"

inductive mirror_step :: "('k, 'o) netlink \<Rightarrow> ('k \<Rightarrow> nat) \<Rightarrow> 'k mirror \<Rightarrow> 'k mirror \<Rightarrow> bool"
  for nl :: "('k, 'o) netlink" and sent :: "'k \<Rightarrow> nat" where
  Subscribe: "\<not> mi_loop s \<Longrightarrow> mirror_step nl sent s (mirrorSubscribe sent ok s)"
| Iterate: "mi_loop s \<Longrightarrow> mirrorReady (rr_stopped (mi_routes s)) fired (mi_ch s) c \<Longrightarrow>
    mirrorIter nl (mi_routes s) c (mi_ch s, mi_host s) = Some (ch, h) \<Longrightarrow>
    mirror_step nl sent s (s\<lparr>mi_ch := ch, mi_host := h,
      mi_missed := mi_missed s \<and> h \<noteq> mirrorRound nl (mi_routes s) (mi_host s)\<rparr>)"
| Deliver: "mi_ch s = Some u \<Longrightarrow> \<not> ch_closed u \<Longrightarrow> mi_seen s < sent (mi_kernel s) \<Longrightarrow>
    length (ch_buf u) < ch_cap u \<Longrightarrow>
    mirror_step nl sent s (s\<lparr>mi_ch := Some (trySend () u), mi_seen := Suc (mi_seen s)\<rparr>)"
| Dies: "mi_ch s = Some u \<Longrightarrow> closeChan u = Some u' \<Longrightarrow> mirror_step nl sent s (s\<lparr>mi_ch := Some u'\<rparr>)"
| Install: "proper6 p \<Longrightarrow> Install nl p (mi_routes s, mi_host s) = (r, h) \<Longrightarrow>
    mirror_step nl sent s (s\<lparr>mi_routes := r, mi_host := h,
      mi_missed := nl_LinkByName nl (mi_kernel s) (pr_Iface (rr_cfg (mi_routes s))) = None\<rparr>)"
| Clear: "Clear nl (mi_routes s, mi_host s) = (r, h) \<Longrightarrow>
    mirror_step nl sent s (s\<lparr>mi_routes := r, mi_host := h\<rparr>)"
| Stop: "Stop nl (mi_routes s, mi_host s) = (r, h) \<Longrightarrow>
    mirror_step nl sent s (s\<lparr>mi_routes := r, mi_host := h\<rparr>)"
| World: "sent (mi_kernel s) \<le> sent k \<Longrightarrow>
    sent (mi_kernel s) < sent k \<or> same_view nl (mi_routes s) (mi_kernel s) k \<Longrightarrow>
    mirror_step nl sent s (s\<lparr>mi_host := (mi_host s)\<lparr>ho_kernel := k\<rparr>,
      mi_missed := mi_missed s \<or> \<not> mi_loop s \<and> \<not> same_view nl (mi_routes s) (mi_kernel s) k\<rparr>)"

text \<open>The table is in sync: it has a copy of the uplink's best default route, or no default route
  through a gateway when the uplink has none or is gone.\<close>

definition synced :: "('k, 'o) netlink \<Rightarrow> Routes \<Rightarrow> 'k \<Rightarrow> bool" where
  "synced nl r k \<longleftrightarrow>
     (case nl_LinkByName nl k (pr_Uplink (rr_cfg r)) of
        Some i \<Rightarrow>
          (\<exists>best \<in> routesOf nl k. mirrorable (rr_cfg r) i best \<and>
             (\<forall>c \<in> routesOf nl k. mirrorable (rr_cfg r) i c \<longrightarrow> \<not> betterDefault c best) \<and>
             (\<exists>rt \<in> routesOf nl k. mirrors (rr_cfg r) i best rt)) \<or>
          (\<forall>c \<in> routesOf nl k. \<not> mirrorable (rr_cfg r) i c \<and>
             (ro_Table c = pr_Table (rr_cfg r) \<longrightarrow> ro_Gw c = None \<or> \<not> isDefault (ro_Dst c)))
      | None \<Rightarrow>
          (\<forall>c \<in> routesOf nl k. ro_Table c = pr_Table (rr_cfg r) \<longrightarrow> ro_Gw c = None \<or> \<not> isDefault (ro_Dst c)))"

lemma removeDefault_link:
  "netlink_ok nl \<Longrightarrow> nl_LinkByName nl (removeDefaultLocked nl cfg k) = nl_LinkByName nl k"
  unfolding removeDefaultLocked_def by (rule fold_keeps) (simp add: netlink_frames)

lemma syncDefault_link:
  assumes "netlink_ok nl"
  shows "nl_LinkByName nl (syncDefaultLocked nl r k) = nl_LinkByName nl k"
  using assms
  by (auto simp: syncDefaultLocked_def Let_def removeDefault_link netlink_frames split: option.split)

lemma mirrorable_elsewhere: "mirrorable cfg i c \<Longrightarrow> ro_Table c \<noteq> pr_Table cfg"
  by (simp add: mirrorable_def)

text \<open>The routes that can be mirrored are those of other tables, which a round does not touch.\<close>

lemma syncDefault_mirrorable:
  assumes "netlink_ok nl" "pr_Table (rr_cfg r) \<noteq> 0" "mirrorable (rr_cfg r) i c"
  shows "c \<in> routesOf nl (syncDefaultLocked nl r k) \<longleftrightarrow> c \<in> routesOf nl k"
  using syncDefault_effect(2) [OF assms(1,2)] mirrorable_elsewhere [OF assms(3)] by blast

lemma syncDefault_synced:
  assumes ok: "netlink_ok nl" "pr_Table (rr_cfg r) \<noteq> 0" "PfxIsValid (rr_prefix r)"
  shows "synced nl r (syncDefaultLocked nl r k)"
proof (cases "nl_LinkByName nl k (pr_Uplink (rr_cfg r))")
  case None
  then have "syncDefaultLocked nl r k = removeDefaultLocked nl (rr_cfg r) k"
    using ok(3) by (simp add: syncDefaultLocked_def Let_def)
  then show ?thesis
    using None removeDefault_effect(1) [OF ok(1,2), of k] by (simp add: synced_def removeDefault_link [OF ok(1)])
next
  case (Some i)
  note m = syncDefault_mirrorable [OF ok(1,2)] and l = syncDefault_link [OF ok(1)]
  show ?thesis
  proof (cases rule: syncDefault_cases [OF ok Some, case_names mirrored none])
    case (mirrored best rt D)
    have "rt \<in> routesOf nl (syncDefaultLocked nl r k)" using mirrored(6) by simp
    then show ?thesis
      using mirrored(1-4) m by (auto simp: synced_def l Some)
  next
    case none
    then show ?thesis
      using removeDefault_effect(1) [OF ok(1,2), of k] by (auto simp: synced_def removeDefault_link [OF ok(1)] Some)
  qed
qed

lemma installKernel_synced:
  assumes "netlink_ok nl" "pr_Table (rr_cfg r) \<noteq> 0" "PfxIsValid (rr_prefix r)"
    and "nl_LinkByName nl k (pr_Iface (rr_cfg r)) \<noteq> None"
  shows "synced nl r (installKernel nl r p k)"
  using assms(4) syncDefault_synced [OF assms(1-3)] by (auto simp: installKernel_def Let_def)

lemma synced_cong:
  assumes "same_view nl r k k'" "rr_cfg r' = rr_cfg r" "synced nl r k"
  shows "synced nl r' k'"
  using assms by (simp add: synced_def same_view_def split: option.splits)

lemma mirrorRound_synced:
  assumes "netlink_ok nl" "pr_Table (rr_cfg r) \<noteq> 0" "PfxIsValid (rr_prefix r)"
  shows "synced nl r (ho_kernel (mirrorRound nl r h))"
  using syncDefault_synced [OF assms] assms(3) by (simp add: mirrorRound_def)

text \<open>An iteration that does not end the loop and does not merely learn that the subscription is gone
  is a round.\<close>

lemma mirrorIter_round:
  assumes "mirrorReady stop fired ch c" "mirrorIter nl r c (ch, h) = Some (ch', h')"
  shows "h' = mirrorRound nl r h \<or> ch' = None \<and> h' = h \<and> (\<exists>u. ch = Some u \<and> ch_closed u)"
  using assms
  by (cases c; cases ch; cases "ch_buf (the ch)") (auto simp: mirrorReady_def mirrorIter_def split: if_splits)

lemma Install_synced:
  assumes "netlink_ok nl" "pr_Table (rr_cfg r) \<noteq> 0" "proper6 p"
    and link: "nl_LinkByName nl (ho_kernel h) (pr_Iface (rr_cfg r)) \<noteq> None"
    and i: "Install nl p (r, h) = (r', h')"
  shows "rr_cfg r' = rr_cfg r \<and>
    (rr_stopped r \<and> r' = r \<and> h' = h \<or> \<not> rr_stopped r' \<and> synced nl r' (ho_kernel h'))"
proof (cases "rr_stopped r")
  case True
  then show ?thesis using i by (simp add: Install_def)
next
  case False
  obtain r1 h1 where e: "ensureStartedLocked nl (r, h) = (r1, h1)" by fastforce
  have cfg: "rr_cfg r1 = rr_cfg r" "\<not> rr_stopped r1"
    using ensureStarted_settings [OF e] False by simp_all
  have r': "r' = r1\<lparr>rr_prefix := p\<rparr>" "ho_kernel h' = installKernel nl r' p (ho_kernel h1)"
    using i False e by (auto simp: Install_def Let_def)
  have "synced nl r' (ho_kernel h')"
    unfolding r'(2)
    by (rule installKernel_synced)
      (use assms link ensureStarted_kernel(3) [OF assms(1,2) e] in \<open>simp_all add: r'(1) cfg\<close>)
  then show ?thesis by (simp add: r'(1) cfg)
qed

text \<open>Announcements only accumulate: no operation of the netlink package takes one back. What the
  single operations keep, the operations of a segment keep.\<close>

definition accumulates :: "('k, 'o) netlink \<Rightarrow> ('k \<Rightarrow> nat) \<Rightarrow> bool" where
  "accumulates nl sent \<longleftrightarrow>
     (\<forall>k ru. sent k \<le> sent (nl_RuleAdd nl k ru) \<and> sent k \<le> sent (nl_RuleDel nl k ru)) \<and>
     (\<forall>k rt. sent k \<le> sent (nl_RouteReplace nl k rt) \<and> sent k \<le> sent (nl_RouteDel nl k rt))"

lemma fold_grows:
  assumes "\<And>x k. f k \<le> (f (g x k) :: nat)"
  shows "f k \<le> f (fold g xs k)"
proof (induction xs arbitrary: k)
  case (Cons x xs)
  then show ?case using assms [of k x] order_trans by (simp add: order_trans)
qed simp

lemma accumulates_ops:
  assumes "accumulates nl sent"
  shows "sent k \<le> sent (nl_RuleAdd nl k ru)" "sent k \<le> sent (nl_RuleDel nl k ru)"
    "sent k \<le> sent (nl_RouteReplace nl k rt)" "sent k \<le> sent (nl_RouteDel nl k rt)"
  using assms by (simp_all add: accumulates_def)

lemma segment_ops_accumulate:
  assumes a: "accumulates nl sent"
  shows "sent k \<le> sent (wipeRulesLocked nl cfg p k)" "sent k \<le> sent (flushTableExceptLocked nl cfg p k)"
    "sent k \<le> sent (syncDefaultLocked nl r k)" "sent k \<le> sent (addRule nl cfg dir p k)"
proof -
  note ops = accumulates_ops [OF a]
  show "sent k \<le> sent (wipeRulesLocked nl cfg p k)"
    unfolding wipeRulesLocked_def Let_def by (auto intro!: fold_grows ops split: option.split)
  show "sent k \<le> sent (flushTableExceptLocked nl cfg p k)"
    unfolding flushTableExceptLocked_def Let_def by (auto intro!: fold_grows ops)
  have "sent k \<le> sent (removeDefaultLocked nl (rr_cfg r) k)"
    unfolding removeDefaultLocked_def by (auto intro!: fold_grows ops)
  then show "sent k \<le> sent (syncDefaultLocked nl r k)"
    by (auto simp: syncDefaultLocked_def Let_def ops split: option.split)
  show "sent k \<le> sent (addRule nl cfg dir p k)"
    by (auto simp: addRule_def Let_def ops)
qed

lemma installKernel_accumulates:
  assumes "accumulates nl sent"
  shows "sent k \<le> sent (installKernel nl r p k)"
proof (cases "nl_LinkByName nl k (pr_Iface (rr_cfg r))")
  case (Some i)
  note grows = segment_ops_accumulate [OF assms]
  from Some show ?thesis
    by (simp add: installKernel_def Let_def)
      (intro order_trans [OF _ grows(3)] order_trans [OF _ grows(2)] order_trans [OF _ grows(1)]
        order_trans [OF _ grows(4)] accumulates_ops [OF assms])
qed (simp add: installKernel_def)

lemma accumulates_host:
  assumes a: "accumulates nl sent"
  shows "sent (ho_kernel h) \<le> sent (ho_kernel (mirrorRound nl r h))"
    "sent (ho_kernel h) \<le> sent (ho_kernel (snd (ensureStartedLocked nl (r, h))))"
    "sent (ho_kernel h) \<le> sent (ho_kernel (snd (clearLocked nl (r, h))))"
proof -
  note ops = segment_ops_accumulate [OF a]
  have wipe: "sent k \<le> sent (flushTableLocked nl cfg (wipeRulesLocked nl cfg p k))" for k cfg p
    unfolding flushTableLocked_def by (rule order_trans [OF ops(1) ops(2)])
  show "sent (ho_kernel h) \<le> sent (ho_kernel (mirrorRound nl r h))"
    by (simp add: mirrorRound_def ops)
  show "sent (ho_kernel h) \<le> sent (ho_kernel (snd (ensureStartedLocked nl (r, h))))"
    "sent (ho_kernel h) \<le> sent (ho_kernel (snd (clearLocked nl (r, h))))"
    by (auto simp: ensureStartedLocked_def clearLocked_def Let_def wipe)
qed

text \<open>A stopped segment has no prefix; one with a prefix has its table in sync, or a message on the way, or
  has lost its subscription, or has missed something.\<close>

definition keeps_up :: "('k, 'o) netlink \<Rightarrow> ('k \<Rightarrow> nat) \<Rightarrow> 'k mirror \<Rightarrow> bool" where
  "keeps_up nl sent s \<longleftrightarrow>
     mi_seen s \<le> sent (mi_kernel s) \<and>
     (rr_stopped (mi_routes s) \<longrightarrow> \<not> PfxIsValid (rr_prefix (mi_routes s))) \<and>
     (PfxIsValid (rr_prefix (mi_routes s)) \<longrightarrow>
        synced nl (mi_routes s) (mi_kernel s) \<or> mi_missed s \<or> mi_loop s \<and> (pending sent s \<or> \<not> alive s))"

lemma clear_idle:
  "Clear nl (r, h) = (r', h') \<Longrightarrow> rr_cfg r' = rr_cfg r \<and> rr_stopped r' = rr_stopped r \<and> \<not> PfxIsValid (rr_prefix r')"
  "Stop nl (r, h) = (r', h') \<Longrightarrow> (rr_stopped r \<longrightarrow> \<not> PfxIsValid (rr_prefix r)) \<Longrightarrow>
     rr_cfg r' = rr_cfg r \<and> rr_stopped r' \<and> \<not> PfxIsValid (rr_prefix r')"
  by (auto simp: Clear_def Stop_def clearLocked_def Let_def split: if_splits)

lemma mirror_step_cfg: "mirror_step nl sent s s' \<Longrightarrow> rr_cfg (mi_routes s') = rr_cfg (mi_routes s)"
proof (induction rule: mirror_step.induct)
  case (Install p s r h)
  obtain r1 h1 where e: "ensureStartedLocked nl (mi_routes s, mi_host s) = (r1, h1)" by fastforce
  then show ?case
    using Install(2) ensureStarted_settings [OF e] by (auto simp: Install_def Let_def split: if_splits)
qed (auto simp: mirrorSubscribe_def Clear_def Stop_def clearLocked_def Let_def split: if_splits)

lemma mirror_step_seen:
  assumes "mirror_step nl sent s s'" and a: "accumulates nl sent" and "mi_seen s \<le> sent (mi_kernel s)"
  shows "mi_seen s' \<le> sent (mi_kernel s')"
  using assms(1,3)
proof (induction rule: mirror_step.induct)
  case (Iterate s fired c ch h)
  then show ?case
    using mirrorIter_round [OF Iterate(2,3)] accumulates_host(1) [OF a, of "mi_host s" "mi_routes s"] by auto
next
  case (Install p s r h)
  obtain r1 h1 where e: "ensureStartedLocked nl (mi_routes s, mi_host s) = (r1, h1)" by fastforce
  have "sent (mi_kernel s) \<le> sent (ho_kernel h)"
    using Install(2) e accumulates_host(2) [OF a, of "mi_host s" "mi_routes s"]
      installKernel_accumulates [OF a, of "ho_kernel h1" "r1\<lparr>rr_prefix := p\<rparr>" p]
    by (auto simp: Install_def Let_def split: if_splits)
  then show ?case using Install by simp
next
  case (Clear s r h)
  then show ?case using accumulates_host(3) [OF a, of "mi_host s" "mi_routes s"] by (simp add: Clear_def)
next
  case (Stop s r h)
  obtain r1 h1 where e: "clearLocked nl (mi_routes s\<lparr>rr_stopped := True\<rparr>, mi_host s) = (r1, h1)" by fastforce
  have "sent (mi_kernel s) \<le> sent (ho_kernel h)"
    using Stop(1) e accumulates_host(3) [OF a, of "mi_host s" "mi_routes s\<lparr>rr_stopped := True\<rparr>"]
    by (auto simp: Stop_def Let_def split: if_splits)
  then show ?case using Stop by simp
qed (simp_all add: mirrorSubscribe_def)

lemma Install_stopped:
  assumes "Install nl p (r, h) = (r', h')"
  shows "if rr_stopped r then r' = r \<and> h' = h else \<not> rr_stopped r'"
proof -
  obtain r1 h1 where e: "ensureStartedLocked nl (r, h) = (r1, h1)" by fastforce
  then show ?thesis using assms ensureStarted_settings [OF e] by (auto simp: Install_def Let_def split: if_splits)
qed

lemma keeps_up_step:
  assumes s: "mirror_step nl sent s s'" and ok: "netlink_ok nl" "pr_Table (rr_cfg (mi_routes s)) \<noteq> 0"
    and "accumulates nl sent" and "keeps_up nl sent s"
  shows "keeps_up nl sent s'"
proof -
  have "mi_seen s' \<le> sent (mi_kernel s')"
    using mirror_step_seen [OF s assms(4)] assms(5) by (simp add: keeps_up_def)
  with s ok assms(5) show ?thesis
  proof (induction rule: mirror_step.induct)
    case (Subscribe s ok)
    then show ?case by (auto simp: keeps_up_def mirrorSubscribe_def)
  next
    case (Iterate s fired c ch h)
    show ?case
      using mirrorIter_round [OF Iterate(2,3)] mirrorRound_synced [OF Iterate(4,5), of "mi_host s"] Iterate(1,6,7)
      by (auto simp: keeps_up_def alive_def)
  next
    case (Deliver s u)
    then show ?case by (simp add: keeps_up_def pending_def trySend_def)
  next
    case (Dies s u u')
    then show ?case by (auto simp: keeps_up_def alive_def closeChan_def split: if_splits)
  next
    case (Install p s r h)
    show ?case
    proof (cases "nl_LinkByName nl (mi_kernel s) (pr_Iface (rr_cfg (mi_routes s))) = None")
      case True
      then show ?thesis using Install Install_stopped [OF Install(2)] by (auto simp: keeps_up_def split: if_splits)
    next
      case False
      then show ?thesis
        using Install Install_synced [OF Install(3,4,1) False Install(2)] by (auto simp: keeps_up_def)
    qed
  next
    case (Clear s r h)
    then show ?case using clear_idle(1) [OF Clear(1)] by (simp add: keeps_up_def)
  next
    case (Stop s r h)
    then show ?case using clear_idle(2) [OF Stop(1)] by (simp add: keeps_up_def)
  next
    case (World s k)
    then show ?case
      using synced_cong [of nl "mi_routes s" "mi_kernel s" k "mi_routes s"]
      by (auto simp: keeps_up_def pending_def alive_def)
  qed
qed

lemma keeps_up_reach:
  assumes "(mirror_step nl sent)\<^sup>*\<^sup>* (mirrorStart nl sent cfg h) s"
    and "netlink_ok nl" "accumulates nl sent" "pr_Table cfg \<noteq> 0"
  shows "keeps_up nl sent s \<and> rr_cfg (mi_routes s) = cfg"
  using assms(1)
proof (induction rule: rtranclp_induct)
  case base
  obtain r h' where e: "ensureStartedLocked nl (newRoutes cfg, h) = (r, h')" by fastforce
  then have "rr_cfg r = cfg" "rr_prefix r = ZeroPrefix" "\<not> PfxIsValid ZeroPrefix"
    using ensureStarted_settings [OF e] by (auto simp: ensureStartedLocked_def newRoutes_def Let_def)
  then show ?case by (simp add: mirrorStart_def Start_def e keeps_up_def)
next
  case (step y z)
  then show ?case using keeps_up_step [OF step(2) assms(2)] mirror_step_cfg [OF step(2)] assms(3,4) by simp
qed

section \<open>The mirror loop never comes to rest\<close>

text \<open>The kernel announces every replaced route, the program's own and unchanged ones included.\<close>

definition announces :: "('k, 'o) netlink \<Rightarrow> ('k \<Rightarrow> nat) \<Rightarrow> bool" where
  "announces nl sent \<longleftrightarrow> (\<forall>k rt. sent k < sent (nl_RouteReplace nl k rt))"

text \<open>A wakeup of the loop that nobody else caused: an iteration on an update, then the delivery of an
  announcement.\<close>

definition self_wake :: "('k, 'o) netlink \<Rightarrow> ('k \<Rightarrow> nat) \<Rightarrow> 'k mirror \<Rightarrow> 'k mirror \<Rightarrow> bool" where
  "self_wake nl sent s s' \<longleftrightarrow>
     mi_loop s \<and> (\<exists>ch h u. mirrorReady (rr_stopped (mi_routes s)) False (mi_ch s) OnUpdate \<and>
        mirrorIter nl (mi_routes s) OnUpdate (mi_ch s, mi_host s) = Some (ch, h) \<and>
        h = mirrorRound nl (mi_routes s) (mi_host s) \<and> ch = Some u \<and> mi_seen s < sent (ho_kernel h) \<and>
        length (ch_buf u) < ch_cap u \<and> \<not> ch_closed u \<and>
        s' = s\<lparr>mi_ch := Some (trySend () u), mi_seen := Suc (mi_seen s), mi_host := h, mi_missed := False\<rparr>)"

lemma self_wake_steps: "self_wake nl sent s s' \<Longrightarrow> (mirror_step nl sent)\<^sup>*\<^sup>* s s'"
proof -
  assume "self_wake nl sent s s'"
  then obtain ch h u where w: "mirrorReady (rr_stopped (mi_routes s)) False (mi_ch s) OnUpdate"
    "mirrorIter nl (mi_routes s) OnUpdate (mi_ch s, mi_host s) = Some (ch, h)"
    "ch = Some u" "mi_seen s < sent (ho_kernel h)" "length (ch_buf u) < ch_cap u" "\<not> ch_closed u"
    "s' = s\<lparr>mi_ch := Some (trySend () u), mi_seen := Suc (mi_seen s), mi_host := h, mi_missed := False\<rparr>"
    "mi_loop s" "h = mirrorRound nl (mi_routes s) (mi_host s)"
    by (auto simp: self_wake_def)
  let ?s = "s\<lparr>mi_ch := ch, mi_host := h, mi_missed := mi_missed s \<and> h \<noteq> mirrorRound nl (mi_routes s) (mi_host s)\<rparr>"
  have "mirror_step nl sent ?s s'"
    using mirror_step.Deliver [of ?s u sent nl] w by (cases s) simp
  then show ?thesis using mirror_step.Iterate [OF w(8,1,2)] by (meson converse_rtranclp_into_rtranclp r_into_rtranclp)
qed

definition roused :: "('k, 'o) netlink \<Rightarrow> ('k \<Rightarrow> nat) \<Rightarrow> 'k mirror \<Rightarrow> bool" where
  "roused nl sent s \<longleftrightarrow> mi_loop s \<and>
     (\<exists>u. mi_ch s = Some u \<and> ch_buf u \<noteq> [] \<and> \<not> ch_closed u \<and> 0 < ch_cap u) \<and>
     mi_seen s \<le> sent (mi_kernel s) \<and> PfxIsValid (rr_prefix (mi_routes s)) \<and>
     pr_Table (rr_cfg (mi_routes s)) \<noteq> 0 \<and>
     (\<exists>i c. nl_LinkByName nl (mi_kernel s) (pr_Uplink (rr_cfg (mi_routes s))) = Some i \<and>
        c \<in> routesOf nl (mi_kernel s) \<and> mirrorable (rr_cfg (mi_routes s)) i c)"

lemma syncDefault_announced:
  assumes ok: "netlink_ok nl" and a: "announces nl sent" and v: "PfxIsValid (rr_prefix r)"
    and l: "nl_LinkByName nl k (pr_Uplink (rr_cfg r)) = Some i"
    and c: "c \<in> routesOf nl k" "mirrorable (rr_cfg r) i c"
  shows "sent k < sent (syncDefaultLocked nl r k)"
proof -
  obtain routes where rts: "nl_RouteList nl k RT_TABLE_UNSPEC = Some routes"
    using netlink_list(2) [OF ok] by blast
  then have "c \<in> set routes" using c(1) by (simp add: routesOf_def)
  then have "bestDefault (rr_cfg r) i routes None \<noteq> None"
    using bestDefault_spec [where cfg = "rr_cfg r" and i = i and rts = routes and best = None] c(2)
    by (cases "bestDefault (rr_cfg r) i routes None") simp_all
  then obtain best where b: "bestDefault (rr_cfg r) i routes None = Some best" by blast
  show ?thesis
    using a unfolding announces_def by (simp add: syncDefaultLocked_def Let_def rts l v b)
qed

lemma roused_again:
  assumes ok: "netlink_ok nl" "announces nl sent" and r: "roused nl sent s"
  obtains s' where "self_wake nl sent s s'" "roused nl sent s'"
proof -
  let ?r = "mi_routes s" and ?h = "mirrorRound nl (mi_routes s) (mi_host s)"
  from r obtain u i c where loop: "mi_loop s" and u: "mi_ch s = Some u" "ch_buf u \<noteq> []" "\<not> ch_closed u" "0 < ch_cap u"
    and s: "mi_seen s \<le> sent (mi_kernel s)" "PfxIsValid (rr_prefix ?r)" "pr_Table (rr_cfg ?r) \<noteq> 0"
    and c: "nl_LinkByName nl (mi_kernel s) (pr_Uplink (rr_cfg ?r)) = Some i" "c \<in> routesOf nl (mi_kernel s)"
      "mirrorable (rr_cfg ?r) i c"
    by (auto simp: roused_def)
  have k: "ho_kernel ?h = syncDefaultLocked nl ?r (mi_kernel s)" using s(2) by (simp add: mirrorRound_def)
  have seen: "mi_seen s < sent (ho_kernel ?h)"
    using syncDefault_announced [OF ok s(2) c] s(1) by (simp add: k)
  obtain x xs where b: "ch_buf u = x # xs" using u(2) by (cases "ch_buf u") auto
  let ?u = "u\<lparr>ch_buf := []\<rparr>"
  let ?s = "s\<lparr>mi_ch := Some (trySend () ?u), mi_seen := Suc (mi_seen s), mi_host := ?h, mi_missed := False\<rparr>"
  have "self_wake nl sent s ?s"
    unfolding self_wake_def
    by (rule conjI [OF loop], rule exI [of _ "Some ?u"], rule exI [of _ ?h], rule exI [of _ ?u])
      (use u b seen in \<open>simp add: mirrorReady_def mirrorIter_def drain_eq\<close>)
  moreover have "roused nl sent ?s"
    using loop u s(2,3) seen c syncDefault_mirrorable [OF ok(1) s(3) c(3)]
    by (auto simp: roused_def trySend_def k syncDefault_link [OF ok(1)])
  ultimately show thesis by (rule that)
qed

text \<open>While a prefix is installed and the uplink has a default route, the loop once woken wakes itself
  for ever, by its own unconditional replacement of the default route: from a roused state any
  number of rounds follow one another, with no tick and no change by anybody else.\<close>

lemma mirror_wakes_itself:
  assumes "netlink_ok nl" "announces nl sent" "roused nl sent s"
  shows "\<exists>s'. (self_wake nl sent ^^ n) s s' \<and> roused nl sent s'"
proof (induction n)
  case 0
  then show ?case using assms(3) by auto
next
  case (Suc n)
  then obtain s' where s': "(self_wake nl sent ^^ n) s s'" "roused nl sent s'" by blast
  obtain s'' where "self_wake nl sent s' s''" "roused nl sent s''" by (rule roused_again [OF assms(1,2) s'(2)])
  then show ?case using s'(1) by (auto intro!: relcomppI)
qed

section \<open>Properties\<close>

text \<open>What \<open>mi_missed\<close> stands for does happen: the kernel may change in any way after \<^verbatim>\<open>Start\<close> and before
  the goroutine subscribes, and then the subscription is alive and nothing is on its way.\<close>

lemma change_before_subscription_unnoticed:
  assumes "\<not> mi_loop s" and "sent (mi_kernel s) < sent k"
  shows "\<exists>s'. (mirror_step nl sent)\<^sup>*\<^sup>* s s' \<and> mi_kernel s' = k \<and> mi_routes s' = mi_routes s \<and>
    mi_loop s' \<and> alive s' \<and> \<not> pending sent s'"
proof -
  let ?w = "s\<lparr>mi_host := (mi_host s)\<lparr>ho_kernel := k\<rparr>,
      mi_missed := mi_missed s \<or> \<not> mi_loop s \<and> \<not> same_view nl (mi_routes s) (mi_kernel s) k\<rparr>"
  have "mirror_step nl sent s ?w" by (rule mirror_step.World) (use assms(2) in simp_all)
  moreover have "mirror_step nl sent ?w (mirrorSubscribe sent True ?w)"
    by (rule mirror_step.Subscribe) (use assms(1) in simp)
  ultimately have "(mirror_step nl sent)\<^sup>*\<^sup>* s (mirrorSubscribe sent True ?w)" by auto
  then show ?thesis
    by (intro exI [of _ "mirrorSubscribe sent True ?w"])
      (simp add: mirrorSubscribe_def subscribeRoutes_def alive_def pending_def makeChan_def)
qed


section \<open>Examples\<close>

text \<open>A netlink package whose kernel counts the route changes, replacements included.\<close>

definition counting :: "('k, 'o) netlink \<Rightarrow> ('k \<times> nat, 'o) netlink" where
  "counting nl = \<lparr>
     nl_LinkByName = (\<lambda>k. nl_LinkByName nl (fst k)),
     nl_AddrList = (\<lambda>k. nl_AddrList nl (fst k)),
     nl_AddrAdd = (\<lambda>k i a. (nl_AddrAdd nl (fst k) i a, snd k)),
     nl_AddrDel = (\<lambda>k i a. (nl_AddrDel nl (fst k) i a, snd k)),
     nl_NewRule = nl_NewRule nl,
     nl_RuleList = (\<lambda>k. nl_RuleList nl (fst k)),
     nl_RuleAdd = (\<lambda>k ru. (nl_RuleAdd nl (fst k) ru, snd k)),
     nl_RuleDel = (\<lambda>k ru. (nl_RuleDel nl (fst k) ru, snd k)),
     nl_zeroOther = nl_zeroOther nl,
     nl_RouteList = (\<lambda>k. nl_RouteList nl (fst k)),
     nl_RouteReplace = (\<lambda>k rt. (nl_RouteReplace nl (fst k) rt, Suc (snd k))),
     nl_RouteDel = (\<lambda>k rt. (nl_RouteDel nl (fst k) rt, Suc (snd k)))\<rparr>"

lemma counting_simps [simp]:
  "nl_LinkByName (counting nl) k = nl_LinkByName nl (fst k)"
  "nl_NewRule (counting nl) = nl_NewRule nl"
  "nl_RuleList (counting nl) k = nl_RuleList nl (fst k)"
  "nl_RuleAdd (counting nl) k ru = (nl_RuleAdd nl (fst k) ru, snd k)"
  "nl_RuleDel (counting nl) k ru = (nl_RuleDel nl (fst k) ru, snd k)"
  "nl_RouteList (counting nl) k t = nl_RouteList nl (fst k) t"
  "nl_RouteReplace (counting nl) k rt = (nl_RouteReplace nl (fst k) rt, Suc (snd k))"
  "nl_RouteDel (counting nl) k rt = (nl_RouteDel nl (fst k) rt, Suc (snd k))"
  "rulesOf (counting nl) k = rulesOf nl (fst k)"
  "routesOf (counting nl) k = routesOf nl (fst k)"
  by (simp_all add: counting_def rulesOf_def routesOf_def)

lemma counting_ok: "netlink_ok nl \<Longrightarrow> netlink_ok (counting nl)"
  unfolding netlink_ok_def netlink_lists_def netlink_rules_def netlink_routes_def netlink_frame_def by simp

lemma counting_counts: "accumulates (counting nl) snd" "announces (counting nl) snd"
  by (simp_all add: accumulates_def announces_def)

definition mirror_host_example :: "(kernel_example \<times> nat) host" where
  "mirror_host_example = \<lparr>ho_kernel = (([], [uplink_default_example], []), 0),
     ho_sysctls = ho_sysctls host_example, ho_writable = ho_writable host_example\<rparr>"

definition mirror_started_example :: "(kernel_example \<times> nat) mirror" where
  "mirror_started_example = mirrorStart (counting nl_example) snd (prcfg_example ''br0'' 1001) mirror_host_example"

definition mirror_example :: "(kernel_example \<times> nat) mirror" where
  "mirror_example = mirrorSubscribe snd True mirror_started_example"

definition mirror_installed_example :: "(kernel_example \<times> nat) mirror" where
  "mirror_installed_example =
     (let (r, h) = Install (counting nl_example) pd64_example (mi_routes mirror_example, mi_host mirror_example)
      in mirror_example\<lparr>mi_routes := r, mi_host := h, mi_missed := False\<rparr>)"

lemma mirror_example_routes [simp]:
  "mi_routes mirror_example = (newRoutes (prcfg_example ''br0'' 1001))\<lparr>rr_started := True\<rparr>"
  by (simp add: mirror_example_def mirror_started_example_def mirrorSubscribe_def mirrorStart_def Start_def
      ensureStartedLocked_def Let_def newRoutes_def)

lemma mirror_example_installs:
  "(mirror_step (counting nl_example) snd)\<^sup>*\<^sup>* mirror_started_example mirror_installed_example"
  "rr_prefix (mi_routes mirror_installed_example) = pd64_example"
  "rr_cfg (mi_routes mirror_installed_example) = prcfg_example ''br0'' 1001"
proof -
  obtain r h where i: "Install (counting nl_example) pd64_example (mi_routes mirror_example, mi_host mirror_example) = (r, h)"
    by fastforce
  have "proper6 pd64_example" by (simp add: proper6_def pd64_example_def)
  then have "mirror_step (counting nl_example) snd mirror_example mirror_installed_example"
    using mirror_step.Install [where s = mirror_example and nl = "counting nl_example" and sent = snd, OF _ i]
    unfolding mirror_installed_example_def i Let_def prod.case by simp
  moreover have "mirror_step (counting nl_example) snd mirror_started_example mirror_example"
    unfolding mirror_example_def
    by (rule mirror_step.Subscribe) (simp add: mirror_started_example_def mirrorStart_def split: prod.split)
  ultimately show "(mirror_step (counting nl_example) snd)\<^sup>*\<^sup>* mirror_started_example mirror_installed_example" by auto
  show "rr_prefix (mi_routes mirror_installed_example) = pd64_example"
    "rr_cfg (mi_routes mirror_installed_example) = prcfg_example ''br0'' 1001"
    by (simp_all add: mirror_installed_example_def Install_def ensureStartedLocked_def Let_def)
qed

lemma mirror_example_facts:
  "mi_ch mirror_installed_example = Some (makeChan 64)"
  "mi_seen mirror_installed_example \<le> snd (mi_kernel mirror_installed_example)"
  "uplink_default_example \<in> routesOf nl_example (fst (mi_kernel mirror_installed_example))"
  "\<not> mi_missed mirror_installed_example" "alive mirror_installed_example" "mi_loop mirror_installed_example"
proof -
  note ok = counting_ok [OF netlink_ok_example] counting_counts(1)
  let ?r = "mi_routes mirror_example" and ?h = "mi_host mirror_example"
  obtain r h where i: "Install (counting nl_example) pd64_example (?r, ?h) = (r, h)" by fastforce
  have inst: "mirror_installed_example = mirror_example\<lparr>mi_routes := r, mi_host := h, mi_missed := False\<rparr>"
    unfolding mirror_installed_example_def i Let_def prod.case ..
  show ch: "mi_ch mirror_installed_example = Some (makeChan 64)" and "\<not> mi_missed mirror_installed_example"
    and "mi_loop mirror_installed_example"
    by (simp_all add: inst mirror_example_def mirrorSubscribe_def subscribeRoutes_def)
  show "alive mirror_installed_example" by (simp add: alive_def ch makeChan_def)
  show "mi_seen mirror_installed_example \<le> snd (mi_kernel mirror_installed_example)"
    using keeps_up_reach [OF mirror_example_installs(1) [unfolded mirror_started_example_def] ok]
    by (simp add: keeps_up_def)
  obtain r1 h1 where e: "ensureStartedLocked (counting nl_example) (newRoutes (prcfg_example ''br0'' 1001), mirror_host_example) = (r1, h1)"
    by fastforce
  have h1: "mi_host mirror_example = h1" by (simp add: mirror_example_def mirror_started_example_def mirrorSubscribe_def mirrorStart_def Start_def e)
  have u: "ro_Table uplink_default_example = 254" by (simp add: uplink_default_example_def)
  let ?other = "\<lambda>k. {rt \<in> routesOf (counting nl_example) k. ro_Table rt \<noteq> 1001}"
  have "uplink_default_example \<in> ?other (ho_kernel mirror_host_example)"
    using u by (simp add: mirror_host_example_def routesOf_example)
  moreover have "?other (mi_kernel mirror_example) = ?other (ho_kernel mirror_host_example)"
    using ensureStarted_kernel(2) [OF ok(1) _ e] by (simp only: h1 newRoutes_simps prcfg_example_simps)
  moreover have "?other (mi_kernel mirror_installed_example) = ?other (mi_kernel mirror_example)"
    using Install_routes_prefix [OF ok(1) _ _ _ _ i, of 3]
    by (simp add: inst proper6_def pd64_example_def)
  ultimately have "uplink_default_example \<in> ?other (mi_kernel mirror_installed_example)" by (simp only:)
  then show "uplink_default_example \<in> routesOf nl_example (fst (mi_kernel mirror_installed_example))" by simp
qed


text \<open>One announcement by anybody else, and the loop of the example runs a thousand rounds on its own.\<close>

lemma mirror_wakes_itself_witness:
  "\<exists>s s'. (mirror_step (counting nl_example) snd)\<^sup>*\<^sup>* mirror_started_example s \<and>
     (self_wake (counting nl_example) snd ^^ 1000) s s'"
proof -
  let ?nl = "counting nl_example" and ?s = mirror_installed_example
  let ?k = "(fst (mi_kernel ?s), Suc (snd (mi_kernel ?s)))"
  let ?w = "?s\<lparr>mi_host := (mi_host ?s)\<lparr>ho_kernel := ?k\<rparr>, mi_missed := mi_missed ?s \<or> \<not> mi_loop ?s \<and>
    \<not> same_view ?nl (mi_routes ?s) (mi_kernel ?s) ?k\<rparr>"
  let ?d = "?w\<lparr>mi_ch := Some (trySend () (makeChan 64)), mi_seen := Suc (mi_seen ?w)\<rparr>"
  note facts = mirror_example_facts
  have "mirror_step ?nl snd ?s ?w" by (rule mirror_step.World) simp_all
  moreover have "mirror_step ?nl snd ?w ?d"
    by (rule mirror_step.Deliver) (use facts in \<open>simp_all add: makeChan_def\<close>)
  ultimately have run: "(mirror_step ?nl snd)\<^sup>*\<^sup>* mirror_started_example ?d"
    using mirror_example_installs(1) by (meson rtranclp.rtrancl_into_rtrancl)
  have "mirrorable (prcfg_example ''br0'' 1001) 7 uplink_default_example"
    by (simp add: mirrorable_def uplink_default_example_def isDefault_def)
  then have "roused ?nl snd ?d"
    using facts mirror_example_installs(2,3)
    by (auto simp: roused_def trySend_def makeChan_def pd64_example_def PfxIsValid_def)
  then show ?thesis
    using run mirror_wakes_itself [OF counting_ok [OF netlink_ok_example] counting_counts(2)] by blast
qed

end
