(* ===== verification/Attach.thy ===== *)
theory Attach
  imports Serving Loops
begin

text \<open>
  The loops of a served interface in \<^verbatim>\<open>internal/server/iface.go\<close>, around the rounds of theory
  \<open>Iface\<close>: \<^verbatim>\<open>runLoop\<close>, which attaches the packet socket, reads from it and attaches again after an
  error, with \<^verbatim>\<open>Conn.Read\<close> of \<^verbatim>\<open>internal/transport/afpacket.go\<close>, and \<^verbatim>\<open>watchLoop\<close>, which wakes the
  delegation client. The lemmas say that the loop attaches whenever it can and ends when the
  interface is stopped, that its steps are steps of the interface, and when it spins.
\<close>

section \<open>Reading\<close>

text \<open>The results of successive calls of \<^verbatim>\<open>Recvfrom\<close>. A read that runs out of them is blocked (\<open>None\<close>);
  otherwise it returns a frame or an error, and the results that are left.\<close>

datatype recv_result = RecvEINTR | RecvError | RecvFrame bytes

fun readConn :: "recv_result list \<Rightarrow> (bytes option \<times> recv_result list) option" where
  "readConn [] = None"
| "readConn (RecvEINTR # rs) = readConn rs"
| "readConn (RecvError # rs) = Some (None, rs)"
| "readConn (RecvFrame b # rs) = Some (Some b, rs)"

lemma readConn_first:
  "readConn rs = (case dropWhile (\<lambda>r. r = RecvEINTR) rs of
     [] \<Rightarrow> None
   | r # rs' \<Rightarrow> Some (case r of RecvFrame b \<Rightarrow> Some b | _ \<Rightarrow> None, rs'))"
  by (induction rs rule: readConn.induct) simp_all

section \<open>The attachment loop\<close>

text \<open>Where \<^verbatim>\<open>runLoop\<close> is, and what it meets in a step: whether the select finds \<^verbatim>\<open>done\<close> closed, the link,
  the results of opening the socket, and of reading from it.\<close>

datatype run_loc = RTop | RSleep | RRead Conn | RDone

record run_input =
  ri_done :: bool
  ri_link :: "link_attrs option"
  ri_open :: os_open
  ri_now :: time
  ri_recv :: "recv_result list"

definition sleepIface :: "run_input \<Rightarrow> bool" where
  "sleepIface i = (\<not> ri_done i)"

definition runStep ::
  "orders \<Rightarrow> ra_orders \<Rightarrow> 'r dhcp4_lib \<Rightarrow> 's dhcp6_lib \<Rightarrow> run_input \<Rightarrow>
     run_loc \<times> 'd Iface \<times> ('k, 'i) plant \<Rightarrow> run_loc \<times> 'd Iface \<times> ('k, 'i) plant" where
  "runStep ord rord lib4 lib6 i = (\<lambda>(loc, it, pl).
     case loc of
       RTop \<Rightarrow>
         if ri_done i then (RDone, it, pl)
         else
           (let (attached, it, pl, _) = attach (ri_link i) (ri_open i) it pl
            in (if attached then RRead (the (if_conn it)) else RSleep, it, pl))
     | RSleep \<Rightarrow> (if sleepIface i then RTop else RDone, it, pl)
     | RRead conn \<Rightarrow>
         (case readConn (ri_recv i) of
            None \<Rightarrow> (RRead conn, it, pl)
          | Some (None, _) \<Rightarrow> (RTop, fst (detach conn it), pl)
          | Some (Some frame, _) \<Rightarrow>
              (let (it', out) = readFrame ord rord lib4 lib6 (ri_now i) frame it
               in (RRead conn, it', relay it it' pl)))
     | RDone \<Rightarrow> (RDone, it, pl))"

text \<open>What can be attached.\<close>

definition attachable :: "run_input \<Rightarrow> bool" where
  "attachable i \<longleftrightarrow> ri_link i \<noteq> None \<and>
     os_ifindex (ri_open i) \<noteq> None \<and> os_socket (ri_open i) \<noteq> None \<and> os_attach (ri_open i) \<and> os_bind (ri_open i)"

lemma openConn_attachable:
  "attachable i \<Longrightarrow> \<exists>conn calls. openConn (ri_open i) = (Inr conn, calls) \<and> \<not> cn_closed conn"
  "\<not> attachable i \<Longrightarrow> ri_link i = None \<or> (\<exists>err calls. openConn (ri_open i) = (Inl err, calls))"
  by (auto simp: attachable_def openConn_def split: option.split)

lemma snapshotAddrs_Exists [simp]: "st_Exists (snapshotAddrs as st) = st_Exists st"
  by (induction as st rule: snapshotAddrs.induct) (auto simp: Let_def)

lemma Snapshot_Exists: "st_Exists (Snapshot link) \<longleftrightarrow> link \<noteq> None"
  by (auto simp: Snapshot_def Let_def zeroState_def split: option.split)

text \<open>The loop attaches in one step whenever the interface exists and the socket can be opened, and
  says so; it sleeps otherwise.\<close>

lemma runStep_attaches:
  assumes "\<not> ri_done i"
  shows "if attachable i
    then \<exists>conn. \<not> cn_closed conn \<and>
      runStep ord rord lib4 lib6 i (RTop, it, pl) =
        (RRead conn, it\<lparr>if_state := Snapshot (ri_link i), if_conn := Some conn\<rparr>,
         Emit (EvAttached (ic_Name (if_cfg it)) (ic_Tag (if_cfg it))) pl)
    else runStep ord rord lib4 lib6 i (RTop, it, pl) = (RSleep, it\<lparr>if_state := Snapshot (ri_link i)\<rparr>, pl)"
proof (cases "attachable i")
  case True
  then obtain conn calls where o: "openConn (ri_open i) = (Inr conn, calls)" "\<not> cn_closed conn"
    using openConn_attachable(1) by blast
  moreover have "st_Exists (Snapshot (ri_link i))" using True by (simp add: attachable_def Snapshot_Exists)
  ultimately show ?thesis using True assms by (auto simp: runStep_def attach_def Let_def)
next
  case False
  then show ?thesis
    using assms openConn_attachable(2) [OF False] by (auto simp: runStep_def attach_def Let_def Snapshot_Exists)
qed

text \<open>Every step of the loop is a step of the interface, or changes nothing but the place in the loop.\<close>

lemma runStep_refines:
  assumes "orders_ok ord" "ra_orders_ok rord"
    and "runStep ord rord lib4 lib6 i (rl, it, pl) = (rl', it', pl')"
  shows "(it', pl') = (it, pl) \<or> iface_step nl ipt lib4 lib6 libpd (loc, it, pl) (loc, it', pl')"
proof (cases rl)
  case RTop
  obtain b it1 pl1 calls where a: "attach (ri_link i) (ri_open i) it pl = (b, it1, pl1, calls)"
    by (metis prod_cases4)
  then show ?thesis
    using RTop assms(3) iface_step.attach [OF a, of nl ipt lib4 lib6 libpd loc] by (auto simp: runStep_def split: if_splits)
next
  case (RRead conn)
  show ?thesis
  proof (cases "readConn (ri_recv i)")
    case None
    then show ?thesis using RRead assms(3) by (simp add: runStep_def)
  next
    case (Some r)
    obtain f rest where r: "r = (f, rest)" by fastforce
    show ?thesis
    proof (cases f)
      case None
      obtain it1 calls where d: "detach conn it = (it1, calls)" by fastforce
      show ?thesis
        using None RRead Some r assms(3) iface_step.detach [OF d, of nl ipt lib4 lib6 libpd loc pl]
        by (simp add: runStep_def d)
    next
      case (Some frame)
      obtain it1 out where f: "readFrame ord rord lib4 lib6 (ri_now i) frame it = (it1, out)" by fastforce
      show ?thesis
        using RRead Some r \<open>readConn (ri_recv i) = Some r\<close> assms(3) f iface_step.frame [OF assms(1,2) f, of nl ipt libpd loc pl]
        by (auto simp: runStep_def Let_def)
    qed
  qed
qed (use assms(3) in \<open>auto simp: runStep_def split: if_splits\<close>)

text \<open>Once the interface is stopped, the loop ends: at once, or after the error with which the read
  ends when \<^verbatim>\<open>stop\<close> closes the socket.\<close>

lemma runStep_ends:
  assumes "ri_done i" and "rl = RTop \<or> rl = RSleep"
  shows "fst (runStep ord rord lib4 lib6 i (rl, it, pl)) = RDone"
  using assms by (auto simp: runStep_def sleepIface_def)

lemma runStep_ends_reading:
  assumes "ri_done i" and "readConn (ri_recv i) = Some (None, rs)"
  shows "fst ((runStep ord rord lib4 lib6 i ^^ 2) (RRead conn, it, pl)) = RDone"
  using assms by (simp add: runStep_def numeral_2_eq_2)

section \<open>The attachment loop spins on a link that is down\<close>

text \<open>After an error of the read the loop does not sleep. A packet socket bound to a link that is down
  opens, and its read fails at once; so while the link stays down the loop attaches and detaches
  without a pause, and writes an event each time.\<close>

definition link_down :: "run_input \<Rightarrow> bool" where
  "link_down i \<longleftrightarrow> \<not> ri_done i \<and> attachable i \<and> \<not> st_Up (Snapshot (ri_link i)) \<and>
     (\<exists>rs. readConn (ri_recv i) = Some (None, rs))"

lemma runStep_round:
  assumes "link_down i"
  obtains it' where "(runStep ord rord lib4 lib6 i ^^ 2) (RTop, it, pl) =
      (RTop, it', Emit (EvAttached (ic_Name (if_cfg it)) (ic_Tag (if_cfg it))) pl)"
    and "fst (runStep ord rord lib4 lib6 i (RTop, it, pl)) \<noteq> RSleep" and "if_cfg it' = if_cfg it"
proof -
  obtain conn where c: "runStep ord rord lib4 lib6 i (RTop, it, pl) =
      (RRead conn, it\<lparr>if_state := Snapshot (ri_link i), if_conn := Some conn\<rparr>,
       Emit (EvAttached (ic_Name (if_cfg it)) (ic_Tag (if_cfg it))) pl)"
    using runStep_attaches [of i ord rord lib4 lib6 it pl] assms by (auto simp: link_down_def)
  let ?it = "it\<lparr>if_state := Snapshot (ri_link i), if_conn := Some conn\<rparr>"
  obtain rs where "readConn (ri_recv i) = Some (None, rs)" using assms by (auto simp: link_down_def)
  then have "(runStep ord rord lib4 lib6 i ^^ 2) (RTop, it, pl) =
      (RTop, fst (detach conn ?it), Emit (EvAttached (ic_Name (if_cfg it)) (ic_Tag (if_cfg it))) pl)"
    by (simp add: numeral_2_eq_2 c) (simp add: runStep_def)
  moreover have "if_cfg (fst (detach conn ?it)) = if_cfg it" by (simp add: detach_def Let_def)
  ultimately show thesis using that c by simp
qed

lemma runLoop_spins:
  assumes "link_down i"
  shows "\<exists>it'. (runStep ord rord lib4 lib6 i ^^ (2 * n)) (RTop, it, pl) =
    (RTop, it', (Emit (EvAttached (ic_Name (if_cfg it)) (ic_Tag (if_cfg it))) ^^ n) pl) \<and> if_cfg it' = if_cfg it"
proof (induction n arbitrary: it pl)
  case 0
  then show ?case by auto
next
  case (Suc n)
  let ?step = "runStep ord rord lib4 lib6 i" and ?ev = "Emit (EvAttached (ic_Name (if_cfg it)) (ic_Tag (if_cfg it)))"
  obtain it1 where one: "(?step ^^ 2) (RTop, it, pl) = (RTop, it1, ?ev pl)" "if_cfg it1 = if_cfg it"
    by (rule runStep_round [OF assms, of ord rord lib4 lib6 it pl])
  obtain it2 where rest: "(?step ^^ (2 * n)) (RTop, it1, ?ev pl) = (RTop, it2, (?ev ^^ n) (?ev pl))"
    "if_cfg it2 = if_cfg it"
    using Suc.IH [of it1 "?ev pl"] one(2) by auto
  have "(?step ^^ (2 * Suc n)) (RTop, it, pl) = (?step ^^ (2 * n)) ((?step ^^ 2) (RTop, it, pl))"
    by (simp only: mult_Suc_right add.commute [of 2] funpow_add comp_apply)
  then show ?case using one rest by (auto simp: funpow_swap1)
qed

definition down_example :: run_input where
  "down_example = \<lparr>ri_done = False,
     ri_link = Some \<lparr>la_Up = False, la_Index = 3, la_HardwareAddr = [2, 0, 0, 0, 0, 1], la_Addrs = Some []\<rparr>,
     ri_open = \<lparr>os_ifindex = Some 3, os_socket = Some 9, os_attach = True, os_bind = True\<rparr>,
     ri_now = 0, ri_recv = [RecvEINTR, RecvError]\<rparr>"

lemma link_down_example: "link_down down_example"
  by (simp add: link_down_def attachable_def down_example_def Snapshot_def zeroState_def Let_def)

section \<open>The watching loop\<close>

text \<open>One iteration of \<^verbatim>\<open>watchLoop\<close> beside the signals of the delegation client; \<open>None\<close>: it ends.\<close>

definition watchIter :: "bool \<Rightarrow> link_attrs option \<Rightarrow> 'd Iface \<times> signals \<Rightarrow> ('d Iface \<times> signals) option" where
  "watchIter stop link = (\<lambda>(it, sg).
     if stop then None
     else (let (it, woken) = watchRound link it in Some (it, if woken then Wakeup sg else sg)))"

text \<open>A change of the host's links wakes the delegation client: its next sleep need not wait.\<close>

lemma watchIter_wakes:
  assumes "signals_ok sg" "if_pdc it \<noteq> None" "watchIter False link (it, sg) = Some (it', sg')"
    and "signalled\<^sup>*\<^sup>* sg' sg''"
  shows "sleepReady False sg'' OnWake"
proof -
  have "sg' = Wakeup sg" using assms(2,3) by (auto simp: watchIter_def watchRound_def Let_def)
  then show ?thesis using wakeup_is_remembered assms(1,4) by blast
qed

section \<open>Creating the watcher\<close>

text \<open>\<^verbatim>\<open>NewWatcher\<close>, given whether the two subscriptions succeed: the watcher, and the subscriptions made
  and ended (by closing \<^verbatim>\<open>done\<close>), oldest first.\<close>

datatype netlink_sub = SubAddr | SubLink | SubEnd

definition NewWatcher :: "bool \<Rightarrow> bool \<Rightarrow> Watcher option \<times> netlink_sub list" where
  "NewWatcher addrOk linkOk =
     (if \<not> addrOk then (None, [])
      else if \<not> linkOk then (None, [SubAddr, SubEnd])
      else (Some newWatcher, [SubAddr, SubLink]))"

definition live_subs :: "netlink_sub list \<Rightarrow> netlink_sub list" where
  "live_subs = foldl (\<lambda>subs s. if s = SubEnd then [] else subs @ [s]) []"

lemma NewWatcher_outcome:
  "case NewWatcher addrOk linkOk of
     (None, subs) \<Rightarrow> \<not> (addrOk \<and> linkOk) \<and> live_subs subs = []
   | (Some w, subs) \<Rightarrow> addrOk \<and> linkOk \<and> w = newWatcher \<and> live_subs subs = [SubAddr, SubLink]"
  by (simp add: NewWatcher_def live_subs_def)

end
