(* ===== verification/Spec2Isabelle.thy ===== *)
theory Spec2Isabelle
  imports Settings Attach
begin

text \<open>
  Verification of \<^verbatim>\<open>bridgedhcp\<close>, a daemon that serves DHCPv4, DHCPv6 and router advertisements on Linux
  bridges, obtains prefixes by DHCPv6 prefix delegation, routes them, and forwards DNS.

  \<^bold>\<open>The program.\<close> \<^verbatim>\<open>cmd/bridgedhcp\<close> reads a configuration (\<^verbatim>\<open>internal/config\<close>), creates a manager and opens the
  control API (\<^verbatim>\<open>internal/api\<close>). The manager (\<^verbatim>\<open>internal/server/manager.go\<close>) owns the served interfaces and the
  state store (\<^verbatim>\<open>state.go\<close>). An interface (\<^verbatim>\<open>iface.go\<close>) owns a packet socket (\<^verbatim>\<open>internal/transport\<close>), the three
  protocol servers (\<^verbatim>\<open>dhcp4.go\<close>, \<^verbatim>\<open>dhcp6.go\<close>, \<^verbatim>\<open>ra.go\<close>) over the bindings and leases of \<^verbatim>\<open>binding.go\<close> and the frames of
  \<^verbatim>\<open>internal/packet\<close>, and, as configured, a delegation client (\<^verbatim>\<open>internal/pd\<close>), a routed segment
  (\<^verbatim>\<open>internal/pdroute\<close>) and a DNS forwarder with its redirection (\<^verbatim>\<open>internal/dnsfwd\<close>). Link changes come from
  \<^verbatim>\<open>internal/ifwatch\<close>. The client's callback drives everything that depends on a delegated prefix.

  \<^bold>\<open>The theories\<close>, in the order they build on each other:
  \<^item> \<open>Prelude\<close>, \<open>Netip\<close>, \<open>NetipText\<close>: words and big-endian bytes, Go maps as association lists with an iteration
    order given as an argument, ASCII text; \<^verbatim>\<open>net/netip\<close> and \<^verbatim>\<open>net\<close>: addresses at 32 and 128 bits, prefixes, masks,
    printing and parsing.
  \<^item> \<open>Binding\<close>, \<open>Select\<close>, \<open>Env\<close>: \<^verbatim>\<open>binding.go\<close>: static bindings and the lease table; one reference form of
    the address selection that both servers are shown to follow; the locales \<open>lease_store\<close>, \<open>static_store\<close>,
    \<open>lease_server\<close> and \<open>sole_server\<close> with what holds of any server that keeps their laws.
  \<^item> \<open>Packet\<close>, \<open>Transport\<close>: \<^verbatim>\<open>packet.go\<close>: checksums, crafting, parsing; \<^verbatim>\<open>afpacket.go\<close>: the BPF program with an
    interpreter, opening, writing, closing.
  \<^item> \<open>Dhcp4\<close>, \<open>Dhcp6\<close>, \<open>Ra\<close>: the protocol servers, each a record of its state and one definition per handler, up to
    the frames they send.
  \<^item> \<open>PdClient\<close>: \<^verbatim>\<open>pd/client.go\<close>: the loops of the client, from one place (\<open>pd_loc\<close>) to the next.
  \<^item> \<open>Sysctl\<close>, \<open>PdRoute\<close>: \<^verbatim>\<open>pdroute\<close>: shared sysctls counted by users; rules and routes of a delegated prefix.
  \<^item> \<open>Ifwatch\<close>, \<open>State\<close>, \<open>Dns\<close>, \<open>Dnat\<close>: snapshots and the debounced watcher with the exits of its loop
    (\<open>watcher_step\<close>); the state file, with saves that may fail and overlap (\<open>custody_step\<close>); the forwarder; the
    REDIRECT rules.
  \<^item> \<open>Loops\<close>: channels, the signals of the delegation client, and the mirror loop of a segment beside the kernel's
    announcements, to which it subscribes some time after the start, as the step relation \<open>mirror_step\<close>.
  \<^item> \<open>Iface\<close>, \<open>Serving\<close>: \<^verbatim>\<open>iface.go\<close>: the interface, and its goroutines as the step relation \<open>iface_step\<close>.
  \<^item> \<open>Attach\<close>: the loops of an interface around its rounds: attaching and reading, watching; each step is one of
    \<open>iface_step\<close>.
  \<^item> \<open>Manager\<close>, \<open>Config\<close>, \<open>Api\<close>, \<open>Daemon\<close>: \<^verbatim>\<open>manager.go\<close>, \<^verbatim>\<open>config.go\<close>, \<^verbatim>\<open>api.go\<close>, \<^verbatim>\<open>main.go\<close>; \<open>Durable\<close>: that
    every change of what is persisted schedules a save.
  \<^item> \<open>Fleet\<close>, \<open>Settings\<close>: all interfaces of a daemon on one host, as the step relation \<open>manager_step\<close>, by rely and
    guarantee: each alters nothing but its own link and table (\<open>within\<close>), and keeps its invariant (\<open>upright\<close>)
    whatever the others do within theirs; the simulation of the daemon by the process of segments.

  \<^bold>\<open>Correspondence.\<close> A Go struct is a record whose fields keep their names behind a short prefix; a method is a
  definition that takes the receiver and returns it updated; errors are \<open>Inl\<close> or \<open>None\<close>; a panic is \<open>None\<close> where one is
  possible. The clock is an argument. Ranging over a map takes an order, any permutation of its entries, as an
  argument, so the theorems hold for every order. Machine integers are words where they can wrap; times and
  durations are integers in nanoseconds, wrapped where the code multiplies them. An interface works on a
  \<open>plant\<close>: kernel, sysctls, rule table, state store and event stream.

  \<^bold>\<open>Steps.\<close> The handling of a frame, a sweep, a round of a loop or an API request is one step; \<open>iface_step\<close>
  interleaves those of one interface freely, and \<open>manager_step\<close> those of all interfaces with API requests, due saves
  and changes by others to the parts of the kernel the daemon does not manage. The delegation client waits in
  the middle of its work. Its step is a stretch from one place of its loops to the next: any number of
  waits, and then, with no wait any more, the change of its state and its callbacks. The step stands for this
  end of the stretch; what happens while the client waits are steps before it, so the client may be
  in the middle of an exchange in every state, and \<^verbatim>\<open>Stop\<close>, which does not wait for it, can be followed by the end of
  one (\<open>late_callback_leaks\<close>). Stopping the manager is one operation, like its start.

  \<^bold>\<open>Loops.\<close> Loops over data are structural or have a measure (the pool scan of \<open>scanFree\<close>, the address parser).
  The exchanges of the delegation client read a script of clock values and packets and are partial functions
  into \<open>option\<close>; with an advancing clock every iteration is shown to return. Removing the REDIRECT rules repeats
  until the program reports no rule left, again a partial function, which is shown to return for an \<^verbatim>\<open>iptables\<close> with
  finitely many rules. No fuel is used.

  \<^bold>\<open>Parameters\<close> stand for code outside the repository: the DHCPv4 and DHCPv6 codecs
  (\<^verbatim>\<open>insomniacslk/dhcp\<close>), netlink (record \<open>netlink\<close>, with the laws \<open>netlink_ok\<close> and \<open>netlink_addrs\<close>), the \<^verbatim>\<open>iptables\<close>
  program, the JSON encoders and decoders, the answers of the operating system, and upstream resolvers. Every
  property that assumes laws of a parameter has a witness with a concrete instance. The laws of netlink say that
  the kernel carries out the requests and answers the listings: the program logs the errors of these calls and goes
  on, and what it then leaves in the kernel is not described.

  \<^bold>\<open>What is shown.\<close>
  \<^item> Leases: an address goes to one client at a time, only inside the prefix, pinned ones only to their owner;
    an offer is honoured; declined addresses rest; other clients' leases survive any frame; both servers
    follow the same selection.
  \<^item> Advertisements: their bytes decode to the configuration; a vanished prefix is deprecated three times.
  \<^item> Delegation: the callbacks tell exactly the prefix held; exchanges end, in bounded steps; address, rules,
    routes and offers of every interface follow its delegation in every state the daemon reaches, no interface
    disturbs another, and nothing is left behind without a delegation, or by a shutdown. This rests on the kernel
    carrying out the requests, on nobody else touching the served links and the tables of the segments, and on
    restored delegations with valid prefixes; \<open>restore_serves_invalid_prefix\<close>, \<open>late_callback_leaks\<close> and
    \<open>recreated_bridge_stays_bare\<close> show what happens otherwise.
  \<^item> Segments: a shared sysctl is a counted setting, in the abstract process of segments and so under the daemon,
    which is simulated by it; one table holds one prefix; the mirrored default route is the best of the uplink, or an
    announcement is on its way, unless a change was missed before the loop subscribed
    (\<open>change_before_subscription_unnoticed\<close>). While the uplink has one, the mirror loop keeps waking itself
    (\<open>mirror_wakes_itself\<close>).
  \<^item> Signals: stopping the client twice does not panic and is final, no wakeup and no release request is lost
    (\<open>Stop_never_panics\<close>, \<open>wakeup_is_remembered\<close>, \<open>release_is_pending\<close>).
  \<^item> Durability: saving is atomic under crashes, every change schedules a save, and none is lost while saves
    succeed and do not overlap (\<open>failed_save_forgets\<close>, \<open>overlapping_saves_lose_update\<close>); a restart recovers leases,
    delegation and bindings, those of the configuration file coming back where none were left.
  \<^item> Links: a snapshot lists exactly the kernel's addresses; a change reaches every subscriber while the
    watcher's loop runs.
  \<^item> DNS: queries are answered by the first upstream that answers, in order over TCP; the redirection is exact.
  \<^item> Control: the translation of the configuration accepts exactly the sound ones, a started daemon serves
    what it says, and an API request changes at most the interface it names, with the key only.

  \<^bold>\<open>Not modelled\<close>: JSON text (with the duration syntax inside it) and log messages; the starting of goroutines
  beyond their steps; closing of the HTTP server; flag parsing and signals; percent escapes in request paths; text
  outside ASCII where Go's Unicode functions would differ.
\<close>

end
